(* ===== verification/Prelude.thy ===== *)
theory Prelude
  imports Main "HOL-Library.Word" "HOL-Library.Monad_Syntax"
begin

text \<open>
  Shared vocabulary of the development: the machine integers of the i386 target, the
  \<open>option\<close> monad in which every C function is written, the I/O-port machine, singly
  linked lists in a typed heap, and the generic interface of an encoder with its decoder.

  A C function that returns is \<open>Some\<close>. \<open>None\<close> stands for every way in which it
  does not come back to its caller with a defined result: a NULL dereference (page 0 is
  unmapped, so the CPU faults and \<^verbatim>\<open>kpanic\<close> halts), an access outside
  an object, a kernel panic, or a loop that never ends. Error codes the source returns are
  ordinary results.
\<close>

unbundle bit_operations_syntax

section \<open>Machine integers\<close>

type_synonym u8 = "8 word"
type_synonym u16 = "16 word"
type_synonym u32 = "32 word"
type_synonym addr = "32 word"

abbreviation (input) NULL :: addr where "NULL \<equiv> 0"

named_theorems unat_simps \<open>reading word expressions as natural numbers\<close>
named_theorems frame_simps \<open>what an operation leaves unchanged\<close>

lemma unat_add_noflow [unat_simps]:
  "unat a + unat b < 2 ^ LENGTH('a) \<Longrightarrow> unat (a + b :: 'a::len word) = unat a + unat b"
  by (simp add: unat_word_ariths)

lemma unat_sub_noflow [unat_simps]:
  "unat b \<le> unat a \<Longrightarrow> unat (a - b :: 'a::len word) = unat a - unat b"
  by (simp add: unat_sub word_le_nat_alt)

lemma u32_lt_4G: "unat (x :: u32) < 4294967296"
  using unsigned_less [of x, where ?'a = nat] by simp

lemma u8_lt_256: "unat (x :: u8) < 256"
  using unsigned_less [of x, where ?'a = nat] by simp

lemma one_bit: "(x :: 1 word) \<noteq> 0 \<longleftrightarrow> x = 1"
proof -
  have "unat x < 2" using unsigned_less [of x, where ?'a = nat] by simp
  then have "unat x = 0 \<or> unat x = 1" by linarith
  then show ?thesis by (auto simp: word_unat_eq_iff)
qed

lemma two_bits: "(x :: 2 word) = 0 \<or> x = 1 \<or> x = 2 \<or> x = 3"
proof -
  have "unat x < 4" using unsigned_less [of x, where ?'a = nat] by simp
  then have "unat x = 0 \<or> unat x = 1 \<or> unat x = 2 \<or> unat x = 3" by linarith
  then show ?thesis by (auto simp: word_unat_eq_iff)
qed

section \<open>The option monad\<close>

text \<open>A precondition of the C abstract machine: when it fails, nothing is returned.\<close>

definition ensure :: "bool \<Rightarrow> unit option" where
  "ensure b = (if b then Some () else None)"

lemma ensure_simps [simp]:
  "ensure True = Some ()" "ensure False = None"
  by (simp_all add: ensure_def)

lemma ensure_Some_iff [simp]: "ensure b = Some u \<longleftrightarrow> b"
  by (simp add: ensure_def)

lemma ensure_None_iff [simp]: "ensure b = None \<longleftrightarrow> \<not> b"
  by (simp add: ensure_def)

lemma ensure_bind_Some_iff [simp]:
  "Option.bind (ensure b) f = Some y \<longleftrightarrow> b \<and> f () = Some y"
  by (simp add: ensure_def)

lemma ensure_bind [simp]: "b \<Longrightarrow> Option.bind (ensure b) f = f ()"
  by (simp add: ensure_def)

section \<open>Bytes and strings\<close>

text \<open>
  A \<^verbatim>\<open>char *\<close> is modelled by the bytes from the pointer to the end of the
  object it points into, so that moving the pointer is \<open>tl\<close> and reading behind the
  end of the object is \<open>[]\<close>. A string literal is its characters and the terminating NUL.
\<close>

definition bytes :: "string \<Rightarrow> u8 list" where
  "bytes s = map of_char s"

definition cstr :: "string \<Rightarrow> u8 list" where
  "cstr s = bytes s @ [0]"

lemma length_bytes [simp]: "length (bytes s) = length s"
  by (simp add: bytes_def)

text \<open>Array accesses; an index outside the object is undefined behaviour.\<close>

definition rd :: "'a list \<Rightarrow> nat \<Rightarrow> 'a option" where
  "rd xs i = (if i < length xs then Some (xs ! i) else None)"

definition wr :: "'a list \<Rightarrow> nat \<Rightarrow> 'a \<Rightarrow> 'a list option" where
  "wr xs i v = (if i < length xs then Some (xs[i := v]) else None)"

lemma rd_Some_iff: "rd xs i = Some v \<longleftrightarrow> i < length xs \<and> v = xs ! i"
  by (auto simp: rd_def)

lemma wr_Some_iff: "wr xs i v = Some ys \<longleftrightarrow> i < length xs \<and> ys = xs[i := v]"
  by (auto simp: wr_def)

lemma rd_in [simp]: "i < length xs \<Longrightarrow> rd xs i = Some (xs ! i)"
  by (simp add: rd_def)

lemma wr_in [simp]: "i < length xs \<Longrightarrow> wr xs i v = Some (xs[i := v])"
  by (simp add: wr_def)

lemma rd_out [simp]: "length xs \<le> i \<Longrightarrow> rd xs i = None"
  by (simp add: rd_def)

lemma wr_out [simp]: "length xs \<le> i \<Longrightarrow> wr xs i v = None"
  by (simp add: wr_def)

lemma find_append: "find P (xs @ ys) = (case find P xs of None \<Rightarrow> find P ys | Some x \<Rightarrow> Some x)"
  by (induction xs) auto

section \<open>I/O ports and the interrupt flag\<close>

text \<open>
  The hardware behind \<^verbatim>\<open>inb\<close> is an environment function: the \<open>n\<close>-th input
  instruction, from port \<open>p\<close> after the I/O events \<open>h\<close>, yields \<open>m_env n h p\<close>: what a
  device answers may depend on the time and on everything the kernel has sent to it. Every statement is
  about all environments. The trace records what the kernel does to the machine, in order.
\<close>

datatype io_event = Outb u16 u8 | Inb u16 u8 | Cli | Sti | Hlt

record machine =
  m_env :: "nat \<Rightarrow> io_event list \<Rightarrow> u16 \<Rightarrow> u8"
  m_count :: nat
  m_trace :: "io_event list"

definition outb :: "u16 \<Rightarrow> u8 \<Rightarrow> 'a machine_scheme \<Rightarrow> 'a machine_scheme" where
  "outb port data s = s\<lparr>m_trace := m_trace s @ [Outb port data]\<rparr>"

definition inb :: "u16 \<Rightarrow> 'a machine_scheme \<Rightarrow> u8 \<times> 'a machine_scheme" where
  "inb port s =
     (let r = m_env s (m_count s) (m_trace s) port
      in (r, s\<lparr>m_count := Suc (m_count s), m_trace := m_trace s @ [Inb port r]\<rparr>))"

definition cli :: "'a machine_scheme \<Rightarrow> 'a machine_scheme" where
  "cli s = s\<lparr>m_trace := m_trace s @ [Cli]\<rparr>"

definition sti :: "'a machine_scheme \<Rightarrow> 'a machine_scheme" where
  "sti s = s\<lparr>m_trace := m_trace s @ [Sti]\<rparr>"

definition hlt :: "'a machine_scheme \<Rightarrow> 'a machine_scheme" where
  "hlt s = s\<lparr>m_trace := m_trace s @ [Hlt]\<rparr>"

text \<open>The bytes written to one port, in order.\<close>

fun outs_of :: "u16 \<Rightarrow> io_event list \<Rightarrow> u8 list" where
  "outs_of p [] = []"
| "outs_of p (Outb q b # es) = (if q = p then b # outs_of p es else outs_of p es)"
| "outs_of p (Inb q b # es) = outs_of p es"
| "outs_of p (Cli # es) = outs_of p es"
| "outs_of p (Sti # es) = outs_of p es"
| "outs_of p (Hlt # es) = outs_of p es"

lemma outs_of_append [simp]: "outs_of p (es @ fs) = outs_of p es @ outs_of p fs"
  by (induction p es rule: outs_of.induct) auto

lemma trace_simps [simp]:
  "m_trace (outb p b s) = m_trace s @ [Outb p b]"
  "m_trace (cli s) = m_trace s @ [Cli]"
  "m_trace (sti s) = m_trace s @ [Sti]"
  "m_trace (hlt s) = m_trace s @ [Hlt]"
  "m_env (outb p b s) = m_env s" "m_count (outb p b s) = m_count s"
  by (simp_all add: outb_def cli_def sti_def hlt_def)

section \<open>Singly linked lists in a typed heap\<close>

text \<open>
  \<open>path nx p xs q\<close>: following the next-pointers \<open>nx\<close> from \<open>p\<close> visits the nodes
  \<open>xs\<close>, none of them NULL, and arrives at \<open>q\<close>.
\<close>

fun path :: "(addr \<Rightarrow> addr) \<Rightarrow> addr \<Rightarrow> addr list \<Rightarrow> addr \<Rightarrow> bool" where
  "path nx p [] q \<longleftrightarrow> p = q"
| "path nx p (x # xs) q \<longleftrightarrow> p = x \<and> x \<noteq> NULL \<and> path nx (nx x) xs q"

lemma path_append [simp]:
  "path nx p (xs @ ys) q \<longleftrightarrow> (\<exists>r. path nx p xs r \<and> path nx r ys q)"
  by (induction xs arbitrary: p) auto

lemma path_cong:
  "(\<And>x. x \<in> set xs \<Longrightarrow> nx x = nx' x) \<Longrightarrow> path nx p xs q \<longleftrightarrow> path nx' p xs q"
  by (induction xs arbitrary: p) auto

lemma path_upd [simp]: "a \<notin> set xs \<Longrightarrow> path (nx(a := b)) p xs q \<longleftrightarrow> path nx p xs q"
  by (rule path_cong) auto

lemma path_NULL_start [simp]: "path nx NULL xs q \<longleftrightarrow> xs = [] \<and> q = NULL"
  by (cases xs) auto

lemma path_nonNULL: "path nx p xs q \<Longrightarrow> NULL \<notin> set xs"
  by (induction xs arbitrary: p) auto

lemma path_unique:
  "path nx p xs NULL \<Longrightarrow> path nx p ys NULL \<Longrightarrow> xs = ys"
proof (induction xs arbitrary: p ys)
  case Nil
  then show ?case by (cases ys) auto
next
  case (Cons x xs)
  then show ?case by (cases ys) auto
qed

lemma path_distinct: "path nx p xs NULL \<Longrightarrow> distinct xs"
proof (induction xs arbitrary: p)
  case (Cons x xs)
  have "x \<notin> set xs"
  proof
    assume "x \<in> set xs"
    then obtain us vs where xs: "xs = us @ x # vs" by (auto simp: in_set_conv_decomp)
    with Cons.prems have "path nx x (x # vs) NULL" "path nx x (x # us @ x # vs) NULL"
      by auto
    then have "x # vs = x # us @ x # vs" by (rule path_unique)
    then have "length vs = length (us @ x # vs)" by (metis list.inject)
    then show False by simp
  qed
  with Cons show ?case by auto
qed simp

lemma path_start: "path nx p xs NULL \<Longrightarrow> p = (case xs of [] \<Rightarrow> NULL | x # _ \<Rightarrow> x)"
  by (cases xs) auto

lemma path_end_next: "path nx p (xs @ [x]) q \<Longrightarrow> nx x = q"
  by simp

section \<open>Encoders and decoders\<close>

text \<open>
  The interface of a representation: \<open>enc\<close> writes a value of the domain, \<open>dec\<close>
  reads it back.
\<close>

locale codec =
  fixes enc :: "'a \<Rightarrow> 'b" and dec :: "'b \<Rightarrow> 'a" and domain :: "'a \<Rightarrow> bool"
  assumes dec_enc: "domain x \<Longrightarrow> dec (enc x) = x"
begin

lemma enc_inj: "domain x \<Longrightarrow> domain y \<Longrightarrow> enc x = enc y \<Longrightarrow> x = y"
  by (metis dec_enc)

lemma enc_dec_image: "domain x \<Longrightarrow> y = enc x \<Longrightarrow> enc (dec y) = y"
  by (simp add: dec_enc)

end

end
