(* ===== verification/Libc.thy ===== *)
theory Libc
  imports Prelude "HOL-Library.Signed_Division"
begin

text \<open>
  The freestanding C library of the kernel: \<^verbatim>\<open>lib/ctype.c\<close>,
  \<^verbatim>\<open>lib/stdlib.c\<close> and \<^verbatim>\<open>lib/string.c\<close>. Buffers are byte
  lists; every access is checked against the end of the object. A C \<^verbatim>\<open>int\<close> that
  the code computes with is a 32-bit word read by \<open>sint\<close>; the kernel is built without
  optimisation for i386, where signed additions and multiplications wrap.
\<close>

section \<open>ctype.c, stdlib.c\<close>

definition isspace :: "u8 \<Rightarrow> bool" where
  "isspace c = (c = 0x20 \<or> c = 0x0A \<or> c = 0x0D \<or> c = 0x0C \<or> c = 0x09 \<or> c = 0x0B)"

fun atoi_skip :: "u8 list \<Rightarrow> u8 list option" where
  "atoi_skip [] = None"
| "atoi_skip (c # s) = (if isspace c then atoi_skip s else Some (c # s))"

fun atoi_digits :: "u32 \<Rightarrow> u8 list \<Rightarrow> u32 option" where
  "atoi_digits res [] = None"
| "atoi_digits res (c # s) =
     (if 0x30 \<le> c \<and> c \<le> 0x39 then atoi_digits (res * 10 + (ucast c - 0x30)) s else Some res)"

definition atoi_sign :: "u8 list \<Rightarrow> (u8 \<times> u8 list) option" where
  "atoi_sign s =
     (case s of
        [] \<Rightarrow> None
      | c # s' \<Rightarrow> if c = 0x2D \<or> c = 0x2B then Some (c, s') else Some (0x20, s))"

definition atoi :: "u8 list \<Rightarrow> u32 option" where
  "atoi s = do {
     s \<leftarrow> atoi_skip s;
     (sign, s) \<leftarrow> atoi_sign s;
     res \<leftarrow> atoi_digits 0 s;
     Some (if sign = 0x2D then res * (- 1) else res)
   }"

section \<open>string.c: blocks of memory\<close>

fun memcpy_loop :: "nat \<Rightarrow> nat \<Rightarrow> u8 list \<Rightarrow> u8 list \<Rightarrow> u8 list option" where
  "memcpy_loop 0 i dst src = Some dst"
| "memcpy_loop (Suc k) i dst src = do {
     b \<leftarrow> rd src i;
     dst \<leftarrow> wr dst i b;
     memcpy_loop k (Suc i) dst src
   }"

definition memcpy :: "u8 list \<Rightarrow> u8 list \<Rightarrow> nat \<Rightarrow> u8 list option" where
  "memcpy s1 s2 n = memcpy_loop n 0 s1 s2"

fun memset_loop :: "nat \<Rightarrow> nat \<Rightarrow> u8 list \<Rightarrow> u8 \<Rightarrow> u8 list option" where
  "memset_loop 0 i p c = Some p"
| "memset_loop (Suc k) i p c = do { p \<leftarrow> wr p i c; memset_loop k (Suc i) p c }"

definition memset :: "u8 list \<Rightarrow> u32 \<Rightarrow> nat \<Rightarrow> u8 list option" where
  "memset s c n = memset_loop n 0 s (ucast c)"

section \<open>string.c: strings\<close>

fun strcmp :: "u8 list \<Rightarrow> u8 list \<Rightarrow> int option" where
  "strcmp [] t = None"
| "strcmp s [] = None"
| "strcmp (a # s) (b # t) =
     (if a \<noteq> 0 \<and> a = b then strcmp s t else Some (uint a - uint b))"

fun strlen_loop :: "nat \<Rightarrow> u8 list \<Rightarrow> nat option" where
  "strlen_loop len [] = None"
| "strlen_loop len (c # s) = (if c \<noteq> 0 then strlen_loop (Suc len) s else Some len)"

definition strlen :: "u8 list \<Rightarrow> nat option" where
  "strlen s = strlen_loop 0 s"

text \<open>
  \<^verbatim>\<open>strtok\<close> keeps a static pointer into the string it is splitting. Pointers into
  that one buffer are offsets, NULL is \<open>None\<close>.
\<close>

function strtok_skip :: "u8 list \<Rightarrow> u8 list \<Rightarrow> nat \<Rightarrow> u8 list \<Rightarrow> nat option" where
  "strtok_skip buf s2 s1 [] = None"
| "strtok_skip buf s2 s1 (p # ps) =
     (if p = 0 then Some s1
      else if s1 < length buf then
        (if buf ! s1 = 0 then Some s1
         else if buf ! s1 = p then strtok_skip buf s2 (Suc s1) s2
         else strtok_skip buf s2 s1 ps)
      else None)"
  by pat_completeness auto
termination
  by (relation "measures [\<lambda>(buf, s2, s1, p). length buf - s1, \<lambda>(buf, s2, s1, p). length p]") auto

fun strtok_isdelim :: "u8 \<Rightarrow> u8 list \<Rightarrow> bool option" where
  "strtok_isdelim c [] = None"
| "strtok_isdelim c (p # ps) =
     (if p = 0 then Some False else if c = p then Some True else strtok_isdelim c ps)"

function strtok_scan :: "u8 list \<Rightarrow> u8 list \<Rightarrow> nat \<Rightarrow> (u8 list \<times> nat option) option" where
  "strtok_scan buf s2 tok =
     (if tok < length buf then
        (if buf ! tok = 0 then Some (buf, None)
         else case strtok_isdelim (buf ! tok) s2 of
                None \<Rightarrow> None
              | Some True \<Rightarrow> Some (buf[tok := 0], Some (Suc tok))
              | Some False \<Rightarrow> strtok_scan buf s2 (Suc tok))
      else None)"
  by pat_completeness auto
termination
  by (relation "measure (\<lambda>(buf, s2, tok). length buf - tok)") auto

declare strtok_scan.simps [simp del]

definition strtok ::
  "u8 list \<Rightarrow> nat option \<Rightarrow> nat option \<Rightarrow> u8 list \<Rightarrow> (nat option \<times> u8 list \<times> nat option) option" where
  "strtok buf tok_tmp s1 s2 =
     (case (case s1 of Some p \<Rightarrow> Some p | None \<Rightarrow> tok_tmp) of
        None \<Rightarrow> Some (None, buf, None)
      | Some start \<Rightarrow> do {
          p \<leftarrow> strtok_skip buf s2 start s2;
          c \<leftarrow> rd buf p;
          if c = 0 then Some (None, buf, None)
          else do {
            (buf, tok_tmp) \<leftarrow> strtok_scan buf s2 p;
            Some (Some p, buf, tok_tmp)
          }
        })"

section \<open>string.c: itoa\<close>

text \<open>
  The division of C truncates towards zero (\<open>sdiv\<close>, \<open>smod\<close>). The argument is an
  \<^verbatim>\<open>int\<close> read as an integer; its quotients never overflow.
\<close>

function itoa_size :: "int \<Rightarrow> nat \<Rightarrow> nat" where
  "itoa_size temp sz = (if temp \<noteq> 0 then itoa_size (temp sdiv 10) (Suc sz) else sz)"
  by pat_completeness auto
termination
proof (relation "measure (\<lambda>(temp, sz). nat \<bar>temp\<bar>)")
  show "((temp sdiv 10, Suc sz), temp, sz) \<in> measure (\<lambda>(temp, sz). nat \<bar>temp\<bar>)"
    if "temp \<noteq> 0" for temp :: int and sz :: nat
  proof -
    have "\<bar>temp sdiv 10\<bar> = \<bar>temp\<bar> div 10"
      by (simp add: signed_divide_int_def abs_mult sgn_if)
    also have "\<dots> < \<bar>temp\<bar>" using that by simp
    finally show ?thesis by simp
  qed
qed simp

declare itoa_size.simps [simp del]

fun itoa_fill :: "nat \<Rightarrow> int \<Rightarrow> u8 list \<Rightarrow> u8 list option" where
  "itoa_fill 0 integer string = Some string"
| "itoa_fill (Suc temp) integer string = do {
     string \<leftarrow> wr string temp (word_of_int (integer smod 10) + 0x30);
     itoa_fill temp (integer sdiv 10) string
   }"

definition itoa :: "u8 list \<Rightarrow> int \<Rightarrow> u8 list option" where
  "itoa string integer = do {
     (sz, string) \<leftarrow>
       (if integer = 0 then do { string \<leftarrow> wr string 0 0x30; Some (1, string) }
        else do {
          string \<leftarrow> itoa_fill (itoa_size integer 0) integer string;
          Some (itoa_size integer 0, string)
        });
     wr string sz 0
   }"

section \<open>Facts about blocks and strings\<close>

text \<open>The characters of a C string: everything before the first NUL.\<close>

definition cchars :: "u8 list \<Rightarrow> u8 list" where
  "cchars s = takeWhile (\<lambda>c. c \<noteq> 0) s"

lemma memcpy_loop_eq:
  "i + k \<le> length src \<Longrightarrow> i + k \<le> length dst \<Longrightarrow>
   memcpy_loop k i dst src = Some (take i dst @ take k (drop i src) @ drop (i + k) dst)"
proof (induction k arbitrary: i dst)
  case (Suc k)
  have "take (Suc i) (dst[i := src ! i]) = take i dst @ [src ! i]"
    using Suc.prems by (simp add: take_Suc_conv_app_nth)
  moreover have "take (Suc k) (drop i src) = src ! i # take k (drop (Suc i) src)"
    using Suc.prems by (simp add: take_Suc_conv_app_nth  Cons_nth_drop_Suc [symmetric])
  ultimately show ?case using Suc by simp
qed simp

lemma memcpy_eq:
  "n \<le> length src \<Longrightarrow> n \<le> length dst \<Longrightarrow> memcpy dst src n = Some (take n src @ drop n dst)"
  by (simp add: memcpy_def memcpy_loop_eq)

lemma memcpy_loop_None:
  "k > 0 \<Longrightarrow> min (length src) (length dst) < i + k \<Longrightarrow> memcpy_loop k i dst src = None"
proof (induction k arbitrary: i dst)
  case (Suc k)
  show ?case
  proof (cases "i < length src \<and> i < length dst")
    case True
    show ?thesis
    proof (cases k)
      case 0
      with True Suc.prems show ?thesis by (auto simp: min_def split: if_splits)
    next
      case (Suc k')
      with True Suc.prems Suc.IH [where i = "Suc i" and dst = "dst[i := src ! i]"] show ?thesis
        by simp
    qed
  qed (auto simp: bind_eq_None_conv rd_def wr_def)
qed simp

lemma memcpy_None:
  "length src < n \<or> length dst < n \<Longrightarrow> memcpy dst src n = None"
  unfolding memcpy_def by (rule memcpy_loop_None) auto

lemma memset_loop_eq:
  "i + k \<le> length p \<Longrightarrow> memset_loop k i p c = Some (take i p @ replicate k c @ drop (i + k) p)"
proof (induction k arbitrary: i p)
  case (Suc k)
  have "take (Suc i) (p[i := c]) = take i p @ [c]"
    using Suc.prems by (simp add: take_Suc_conv_app_nth)
  then show ?case using Suc by (simp add: replicate_app_Cons_same)
qed simp

lemma memset_eq: "n \<le> length p \<Longrightarrow> memset p c n = Some (replicate n (ucast c) @ drop n p)"
  by (simp add: memset_def memset_loop_eq)

lemma strlen_loop_eq: "0 \<in> set s \<Longrightarrow> strlen_loop len s = Some (len + length (cchars s))"
  by (induction len s rule: strlen_loop.induct) (auto simp: cchars_def)

lemma strlen_eq: "0 \<in> set s \<Longrightarrow> strlen s = Some (length (cchars s))"
  by (simp add: strlen_def strlen_loop_eq)

lemma strlen_None: "0 \<notin> set s \<Longrightarrow> strlen s = None"
proof -
  have "0 \<notin> set s \<Longrightarrow> strlen_loop len s = None" for len
    by (induction len s rule: strlen_loop.induct) auto
  then show "0 \<notin> set s \<Longrightarrow> strlen s = None" by (simp add: strlen_def)
qed

abbreviation byte_less :: "(u8 \<times> u8) set" where
  "byte_less \<equiv> {(a, b). a < b}"

lemma strcmp_spec:
  "0 \<in> set s \<Longrightarrow> 0 \<in> set t \<Longrightarrow>
   \<exists>d. strcmp s t = Some d \<and> (d = 0 \<longleftrightarrow> cchars s = cchars t) \<and>
       (d < 0 \<longleftrightarrow> (cchars s, cchars t) \<in> lexord byte_less)"
proof (induction s t rule: strcmp.induct)
  case (3 a s b t)
  show ?case
  proof (cases "a \<noteq> 0 \<and> a = b")
    case True
    with 3 show ?thesis by (auto simp: cchars_def)
  next
    case False
    have "uint a - uint b < 0 \<longleftrightarrow> a < b" "uint a - uint b = 0 \<longleftrightarrow> a = b"
      by (auto simp: word_less_def word_uint_eq_iff)
    with False show ?thesis
      by (auto simp: cchars_def word_gt_0 intro!: exI [of _ "uint a - uint b"])
  qed
qed auto

lemma strcmp_eq_0: "0 \<in> set s \<Longrightarrow> 0 \<in> set t \<Longrightarrow> strcmp s t = Some 0 \<longleftrightarrow> cchars s = cchars t"
  using strcmp_spec [of s t] by auto

fun decimal :: "nat \<Rightarrow> u8 list" where
  "decimal n = (if n < 10 then [of_nat n + 0x30] else decimal (n div 10) @ [of_nat (n mod 10) + 0x30])"

declare decimal.simps [simp del]

lemma sdiv_nat: "int n sdiv 10 = int (n div 10)"
  by (cases "n = 0") (simp_all add: signed_divide_int_def zdiv_int)

lemma smod_nat: "int n smod 10 = int (n mod 10)"
  by (cases "n = 0") (simp_all add: signed_modulo_int_def sdiv_nat zmod_int zdiv_int minus_div_mult_eq_mod)

lemma itoa_size_nat: "n > 0 \<Longrightarrow> itoa_size (int n) k = k + length (decimal n)"
proof (induction n arbitrary: k rule: less_induct)
  case (less n)
  show ?case
  proof (cases "n < 10")
    case True
    then have "n div 10 = 0" by simp
    with less.prems True show ?thesis
      by (simp add: itoa_size.simps [of "int n"] sdiv_nat itoa_size.simps [of 0] decimal.simps [of n])
  next
    case False
    then have "n div 10 > 0" "n div 10 < n" by auto
    with False show ?thesis
      by (simp add: itoa_size.simps [of "int n"] sdiv_nat less.IH decimal.simps [of n])
  qed
qed

lemma decimal_pos: "0 < length (decimal n)"
  by (subst decimal.simps) simp

lemma itoa_fill_nat:
  "length (decimal n) \<le> length buf \<Longrightarrow>
   itoa_fill (length (decimal n)) (int n) buf = Some (decimal n @ drop (length (decimal n)) buf)"
proof (induction n arbitrary: buf rule: less_induct)
  case (less n)
  show ?case
  proof (cases "n < 10")
    case True
    with less.prems show ?thesis
      by (cases buf) (simp_all add: decimal.simps [of n] smod_nat)
  next
    case False
    let ?m = "n div 10" and ?d = "of_nat (n mod 10) + 0x30 :: u8"
    have dec: "decimal n = decimal ?m @ [?d]" using False by (simp add: decimal.simps [of n])
    have len: "length (decimal ?m) < length buf" using less.prems by (simp add: dec)
    have "itoa_fill (length (decimal ?m)) (int ?m) (buf[length (decimal ?m) := ?d])
        = Some (decimal ?m @ drop (length (decimal ?m)) (buf[length (decimal ?m) := ?d]))"
      using False len by (intro less.IH) auto
    also have "drop (length (decimal ?m)) (buf[length (decimal ?m) := ?d])
        = ?d # drop (Suc (length (decimal ?m))) buf"
      using len by (simp add: drop_update_swap Cons_nth_drop_Suc [symmetric])
    finally show ?thesis using len by (simp add: dec smod_nat sdiv_nat)
  qed
qed

lemma itoa_nat:
  assumes "length (decimal n) < length buf"
  shows "itoa buf (int n) = Some (decimal n @ 0 # drop (Suc (length (decimal n))) buf)"
proof (cases "n = 0")
  case True
  with assms show ?thesis
    by (cases buf; cases "tl buf") (auto simp: itoa_def decimal.simps [of 0])
next
  case False
  have "drop (length (decimal n)) buf = buf ! length (decimal n) # drop (Suc (length (decimal n))) buf"
    using assms by (simp add: Cons_nth_drop_Suc)
  with False assms show ?thesis
    by (simp add: itoa_def itoa_size_nat itoa_fill_nat list_update_append)
qed

lemma decimal_digit: "c \<in> set (decimal n) \<Longrightarrow> 0x30 \<le> c \<and> c \<le> (0x39 :: u8)"
proof (induction n rule: less_induct)
  case (less n)
  have dig: "(0x30::u8) \<le> of_nat d + 0x30 \<and> of_nat d + 0x30 \<le> (0x39::u8)" if "d < 10" for d
  proof -
    from that have "d \<in> {0,1,2,3,4,5,6,7,8,9}" by auto
    then show ?thesis by (elim insertE) simp_all
  qed
  show ?case
  proof (cases "n < 10")
    case True
    with less.prems dig [of n] show ?thesis by (simp add: decimal.simps [of n])
  next
    case False
    with less.prems dig [of "n mod 10"] less.IH [of "n div 10"] show ?thesis
      by (auto simp: decimal.simps [of n])
  qed
qed

lemma digit_value: "d < 10 \<Longrightarrow> ucast (of_nat d + 0x30 :: u8) - 0x30 = (of_nat d :: u32)"
proof -
  assume "d < 10"
  then have "d \<in> {0,1,2,3,4,5,6,7,8,9}" by auto
  then show ?thesis by (elim insertE) simp_all
qed

lemma decimal_bounded: "n < 10 ^ k \<Longrightarrow> 0 < k \<Longrightarrow> length (decimal n) \<le> k"
proof (induction k arbitrary: n)
  case (Suc k)
  show ?case
  proof (cases "n < 10")
    case False
    with Suc.prems have "n div 10 < 10 ^ k" "0 < k"
      by (auto intro: gr0I)
    with Suc.IH False show ?thesis by (simp add: decimal.simps [of n])
  qed (simp add: decimal.simps [of n])
qed simp

lemma atoi_digits_decimal:
  "atoi_digits r (decimal n @ xs) = atoi_digits (r * 10 ^ length (decimal n) + of_nat n) xs"
proof (induction n arbitrary: r xs rule: less_induct)
  case (less n)
  have last: "0x30 \<le> of_nat d + (0x30::u8) \<and> of_nat d + 0x30 \<le> (0x39::u8)" if "d < 10" for d
    using decimal_digit [of "of_nat d + 0x30" d] that by (simp add: decimal.simps [of d])
  show ?case
  proof (cases "n < 10")
    case True
    with last [of n] show ?thesis by (simp add: decimal.simps [of n] digit_value)
  next
    case False
    let ?m = "n div 10"
    have "of_nat n = (of_nat ?m * 10 + of_nat (n mod 10) :: u32)"
      by (metis div_mult_mod_eq of_nat_add of_nat_mult of_nat_numeral)
    moreover have "atoi_digits r (decimal n @ xs)
        = atoi_digits ((r * 10 ^ length (decimal ?m) + of_nat ?m) * 10 + of_nat (n mod 10)) xs"
      using False last [of "n mod 10"] less.IH [of ?m] by (simp add: decimal.simps [of n] digit_value)
    moreover have "length (decimal n) = Suc (length (decimal ?m))"
      using False by (simp add: decimal.simps [of n])
    ultimately show ?thesis by (simp add: algebra_simps)
  qed
qed

lemma atoi_decimal:
  assumes "\<not> (0x30 \<le> c \<and> c \<le> 0x39)"
  shows "atoi (decimal n @ c # rest) = Some (of_nat n)"
proof -
  obtain d ds where dec: "decimal n = d # ds" using decimal_pos [of n] by (cases "decimal n") auto
  then have "0x30 \<le> d \<and> d \<le> 0x39" using decimal_digit [of d n] by simp
  then have d: "\<not> isspace d" "d \<noteq> 0x2D" "d \<noteq> 0x2B"
    by (auto simp: isspace_def)
  have "atoi_digits 0 (decimal n @ c # rest) = Some (of_nat n)"
    using assms by (simp only: atoi_digits_decimal) auto
  with d show ?thesis by (simp add: atoi_def atoi_sign_def dec)
qed

lemma atoi_itoa_buf:
  assumes "0 \<le> n" and "n < 2 ^ 31" and "11 \<le> length buf"
  shows "map_option sint (Option.bind (itoa buf n) atoi) = Some n"
proof -
  obtain k where k: "n = int k" using assms(1) nonneg_int_cases by blast
  have "k < 10 ^ 10" using assms(2) k by simp
  then have "length (decimal k) \<le> 10" by (rule decimal_bounded) simp
  then have "length (decimal k) < length buf" using assms(3) by simp
  then have "Option.bind (itoa buf n) atoi = Some (of_nat k)"
    by (simp add: k itoa_nat atoi_decimal)
  moreover have "sint (of_nat k :: u32) = int k"
    using assms(2) k by (simp add: signed_of_nat signed_take_bit_int_eq_self)
  ultimately show ?thesis using k by simp
qed

lemma cchars_prefix: "0 \<notin> set pre \<Longrightarrow> cchars (pre @ 0 # ps) = pre"
  by (induction pre) (auto simp: cchars_def)

lemma cchars_mid: "0 \<notin> set pre \<Longrightarrow> q \<noteq> 0 \<Longrightarrow> cchars (pre @ q # ps) = pre @ q # cchars ps"
  by (induction pre) (auto simp: cchars_def)

lemma takeWhile_shorter: "x \<in> set xs \<Longrightarrow> \<not> P x \<Longrightarrow> length (takeWhile P xs) < length xs"
  by (induction xs) auto

lemma strtok_isdelim_eq: "0 \<in> set s2 \<Longrightarrow> strtok_isdelim c s2 = Some (c \<in> set (cchars s2))"
  by (induction c s2 rule: strtok_isdelim.induct) (auto simp: cchars_def)

lemma nul_in_drop_bound: "0 \<in> set (drop i buf) \<Longrightarrow> i < length buf"
  by (cases "i < length buf") auto

lemma nul_in_drop_Suc: "0 \<in> set (drop i buf) \<Longrightarrow> buf ! i \<noteq> 0 \<Longrightarrow> 0 \<in> set (drop (Suc i) buf)"
  using nul_in_drop_bound [of i buf] by (simp add: Cons_nth_drop_Suc [symmetric])

lemma strtok_skip_eq:
  "0 \<in> set s2 \<Longrightarrow> 0 \<in> set (drop s1 buf) \<Longrightarrow> s2 = pre @ p \<Longrightarrow> 0 \<notin> set pre \<Longrightarrow> buf ! s1 \<notin> set pre \<Longrightarrow>
    strtok_skip buf s2 s1 p
      = Some (s1 + length (takeWhile (\<lambda>c. c \<in> set (cchars s2)) (drop s1 buf)))"
proof (induction buf s2 s1 p arbitrary: pre rule: strtok_skip.induct)
  case (1 buf s2 s1)
  then show ?case by auto
next
  case (2 buf s2 s1 q ps)
  have b: "s1 < length buf" using "2.prems"(2) by (rule nul_in_drop_bound)
  have d: "drop s1 buf = buf ! s1 # drop (Suc s1) buf" using b by (simp add: Cons_nth_drop_Suc)
  have nul: "0 \<notin> set (cchars s2)" by (auto simp: cchars_def dest: set_takeWhileD)
  consider (endp) "q = 0" | (ends) "q \<noteq> 0" "buf ! s1 = 0"
    | (hit) "q \<noteq> 0" "buf ! s1 \<noteq> 0" "buf ! s1 = q" | (miss) "q \<noteq> 0" "buf ! s1 \<noteq> 0" "buf ! s1 \<noteq> q"
    by blast
  then show ?case
  proof cases
    case endp
    with "2.prems" have "cchars s2 = pre"
      by (simp add: cchars_prefix)
    with endp "2.prems"(5) show ?thesis by (simp add: d)
  next
    case ends
    with nul b show ?thesis by (simp add: d)
  next
    case hit
    have q: "q \<in> set (cchars s2)"
      using "2.prems"(3,4) hit(1) by (simp add: cchars_mid)
    have "0 \<in> set (drop (Suc s1) buf)" using "2.prems"(2) hit(2) by (rule nul_in_drop_Suc)
    then have "strtok_skip buf s2 (Suc s1) s2
      = Some (Suc s1 + length (takeWhile (\<lambda>c. c \<in> set (cchars s2)) (drop (Suc s1) buf)))"
      using hit b "2.prems"(1) by (intro "2.IH"(1) [where pre = "[]"]) auto
    with hit b q show ?thesis by (simp add: d)
  next
    case miss
    have "strtok_skip buf s2 s1 ps
      = Some (s1 + length (takeWhile (\<lambda>c. c \<in> set (cchars s2)) (drop s1 buf)))"
      using miss b "2.prems" by (intro "2.IH"(2) [where pre = "pre @ [q]"]) auto
    with miss b show ?thesis by simp
  qed
qed

lemma strtok_scan_eq:
  "0 \<in> set s2 \<Longrightarrow> 0 \<in> set (drop tok buf) \<Longrightarrow>
    strtok_scan buf s2 tok =
      (let e = tok + length (takeWhile (\<lambda>c. c \<noteq> 0 \<and> c \<notin> set (cchars s2)) (drop tok buf))
       in if buf ! e = 0 then Some (buf, None) else Some (buf[e := 0], Some (Suc e)))"
proof (induction buf s2 tok rule: strtok_scan.induct)
  case (1 buf s2 tok)
  have b: "tok < length buf" using "1.prems"(2) by (rule nul_in_drop_bound)
  have d: "drop tok buf = buf ! tok # drop (Suc tok) buf" using b by (simp add: Cons_nth_drop_Suc)
  show ?case
  proof (cases "buf ! tok \<noteq> 0 \<and> buf ! tok \<notin> set (cchars s2)")
    case True
    have isd: "strtok_isdelim (buf ! tok) s2 = Some False"
      using True "1.prems"(1) by (simp add: strtok_isdelim_eq)
    have "0 \<in> set (drop (Suc tok) buf)" using "1.prems"(2) True by (simp add: nul_in_drop_Suc)
    from "1.IH" [OF b _ isd _ "1.prems"(1) this] True b isd show ?thesis
      by (simp add: strtok_scan.simps [of buf s2 tok] d)
  next
    case False
    then show ?thesis using b d "1.prems"(1)
      by (auto simp: strtok_scan.simps [of buf s2 tok] strtok_isdelim_eq)
  qed
qed

lemma takeWhile_stops_at_nul:
  "\<forall>c. P c \<longrightarrow> c \<noteq> (0::u8) \<Longrightarrow> length (takeWhile P xs) < length xs \<Longrightarrow> xs ! length (takeWhile P xs) = 0 \<Longrightarrow>
   takeWhile (\<lambda>c. c \<noteq> 0) xs = takeWhile P xs"
  by (induction xs) (auto split: if_splits)

lemma takeWhile_cut_by_nul:
  "\<forall>c. P c \<longrightarrow> c \<noteq> (0::u8) \<Longrightarrow> length (takeWhile P xs) < length xs \<Longrightarrow>
   takeWhile (\<lambda>c. c \<noteq> 0) (xs[length (takeWhile P xs) := 0]) = takeWhile P xs"
  by (induction xs) auto

text \<open>
  The token of \<^verbatim>\<open>strtok\<close>: delimiters at the front are skipped, the longest run of
  other characters is the token, and it is cut off the rest of the string by a NUL.
\<close>

lemma strtok_first_token:
  assumes "0 \<in> set s2" and "0 \<in> set (drop start buf)"
    and "rest = dropWhile (\<lambda>c. c \<in> set (cchars s2)) (cchars (drop start buf))"
  shows "\<exists>ret buf' tok'. strtok buf tok (Some start) s2 = Some (ret, buf', tok') \<and>
    length buf' = length buf \<and>
    (if rest = [] then ret = None \<and> buf' = buf \<and> tok' = None
     else \<exists>p. ret = Some p \<and> cchars (drop p buf') = takeWhile (\<lambda>c. c \<notin> set (cchars s2)) rest)"
proof -
  let ?D = "\<lambda>c. c \<in> set (cchars s2)"
  let ?p = "start + length (takeWhile ?D (drop start buf))"
  have nD: "\<not> ?D 0" by (auto simp: cchars_def dest: set_takeWhileD)
  have skip: "strtok_skip buf s2 start s2 = Some ?p"
    by (rule strtok_skip_eq [OF assms(1,2), of "[]"]) auto
  have dp: "drop ?p buf = dropWhile ?D (drop start buf)"
    by (simp add: dropWhile_eq_drop drop_drop add.commute)
  have nul: "0 \<in> set (drop ?p buf)"
    unfolding dp using assms(2) nD
    by (metis UnE set_append set_takeWhileD takeWhile_dropWhile_id)
  have pb: "?p < length buf" using nul by (rule nul_in_drop_bound)
  have dpc: "drop ?p buf = buf ! ?p # drop (Suc ?p) buf" using pb by (simp add: Cons_nth_drop_Suc)
  have tw: "takeWhile (\<lambda>c. c \<noteq> 0) (dropWhile ?D xs) = dropWhile ?D (takeWhile (\<lambda>c. c \<noteq> 0) xs)"
    if "0 \<in> set xs" for xs using that nD by (induction xs) auto
  have rest: "rest = cchars (drop ?p buf)"
    unfolding dp assms(3) cchars_def [of "drop start buf"] cchars_def [of "dropWhile _ _"]
    by (rule tw [symmetric]) (rule assms(2))
  show ?thesis
  proof (cases "buf ! ?p = 0")
    case True
    then have "rest = []" unfolding rest dpc by (simp add: cchars_def)
    with True pb show ?thesis by (simp add: strtok_def skip)
  next
    case False
    then have ne: "rest \<noteq> []" unfolding rest dpc by (simp add: cchars_def)
    let ?w = "takeWhile (\<lambda>c. c \<noteq> 0 \<and> \<not> ?D c) (drop ?p buf)"
    let ?e = "?p + length ?w"
    have tok: "takeWhile (\<lambda>c. \<not> ?D c) rest = ?w"
      unfolding rest cchars_def by (simp add: takeWhile_takeWhile conj_commute)
    obtain buf' tok' where scan: "strtok_scan buf s2 ?p = Some (buf', tok')"
      and b': "buf' = buf \<and> buf ! ?e = 0 \<or> buf' = buf[?e := 0]"
      using strtok_scan_eq [OF assms(1) nul] by (auto simp: Let_def split: if_splits)
    have wP: "\<forall>c. c \<noteq> 0 \<and> \<not> ?D c \<longrightarrow> c \<noteq> (0::u8)" by simp
    have wl: "length ?w < length (drop ?p buf)"
      using nul by (rule takeWhile_shorter) simp
    have "cchars (drop ?p buf') = ?w"
      using b' takeWhile_stops_at_nul [OF wP wl] takeWhile_cut_by_nul [OF wP wl] pb
      by (auto simp: cchars_def drop_update_swap)
    with ne tok False pb scan b' show ?thesis
      by (auto simp: strtok_def skip)
  qed
qed

end
