(* ===== verification/Libc_Claims.thy ===== *)
theory Libc_Claims
  imports Libc
begin

text \<open>
  The statements about \<^verbatim>\<open>lib/\<close>: the decimal conversions as a codec, the copying
  loops, comparison and tokenisation.
\<close>

section \<open>Numbers\<close>

definition print_int :: "int \<Rightarrow> u8 list" where
  "print_int n = the (itoa (replicate 11 0) n)"

definition parse_int :: "u8 list \<Rightarrow> int" where
  "parse_int s = sint (the (atoi s))"

interpretation decimals: codec print_int parse_int "\<lambda>n. 0 \<le> n \<and> n < 2 ^ 31"
proof
  fix n :: int
  assume n: "0 \<le> n \<and> n < 2 ^ 31"
  have "map_option sint (Option.bind (itoa (replicate 11 0) n) atoi) = Some n"
    using n by (intro atoi_itoa_buf) auto
  then obtain s w where "itoa (replicate 11 0) n = Some s" "atoi s = Some w" "sint w = n"
    by (auto simp: bind_eq_Some_conv)
  then show "parse_int (print_int n) = n" by (simp add: parse_int_def print_int_def)
qed

text \<open>
  C34: \<^verbatim>\<open>atoi\<close> reads back what \<^verbatim>\<open>itoa\<close> writes, for every non-negative
  \<^verbatim>\<open>int\<close> and every buffer of at least 11 bytes.
\<close>

theorem atoi_itoa:
  assumes "0 \<le> n" and "n < 2 ^ 31" and "11 \<le> length buf"
  shows "map_option sint (Option.bind (itoa buf n) atoi) = Some n"
  by (rule atoi_itoa_buf [OF assms])

theorem atoi_itoa_witness:
  "map_option sint (Option.bind (itoa (replicate 11 0) 9042) atoi) = Some 9042"
  by (rule atoi_itoa) simp_all

text \<open>
  \<^verbatim>\<open>itoa\<close> writes different numbers differently.
\<close>

theorem itoa_injective:
  assumes "0 \<le> n \<and> n < 2 ^ 31" and "0 \<le> k \<and> k < 2 ^ 31"
    and "the (itoa (replicate 11 0) n) = the (itoa (replicate 11 0) k)"
  shows "n = k"
  using decimals.enc_inj [of n k] assms by (simp add: print_int_def)

theorem itoa_injective_witness: "the (itoa (replicate 11 0) 10) \<noteq> the (itoa (replicate 11 0) 100)"
  using itoa_injective [of 10 100] by auto

section \<open>Memory and strings\<close>

text \<open>
  \<^verbatim>\<open>memcpy\<close> copies exactly \<open>n\<close> bytes and keeps the rest of the destination
  when both objects have \<open>n\<close> bytes, and otherwise leaves an object; \<^verbatim>\<open>memset\<close>
  likewise.
\<close>

theorem memcpy_memset_exact:
  "memcpy dst src n =
     (if n \<le> length src \<and> n \<le> length dst then Some (take n src @ drop n dst) else None) \<and>
   (n \<le> length dst \<longrightarrow> memset dst c n = Some (replicate n (ucast c) @ drop n dst))"
  using memcpy_eq [of n src dst] memcpy_None [of src n dst] memset_eq [of n dst c] by auto

theorem memcpy_memset_exact_witness:
  "memcpy [1, 2, 3] [7, 8] 2 = Some [7, 8, 3] \<and> memset [1, 2, 3] 0 2 = Some [0, 0, 3]"
  using memcpy_memset_exact [of "[1, 2, 3]" "[7, 8]" 2 0] by (simp add: numeral_2_eq_2)

text \<open>
  \<^verbatim>\<open>strcmp\<close> on terminated strings returns 0 exactly for equal strings and a
  negative number exactly when the first is smaller in the lexicographic order of its bytes.
\<close>

theorem strcmp_order:
  assumes "0 \<in> set s" and "0 \<in> set t"
  shows "\<exists>d. strcmp s t = Some d \<and> (d = 0 \<longleftrightarrow> cchars s = cchars t) \<and>
    (d < 0 \<longleftrightarrow> (cchars s, cchars t) \<in> lexord byte_less)"
  by (rule strcmp_spec [OF assms])

theorem strcmp_order_witness:
  "\<exists>d. strcmp (cstr ''idle'') (cstr ''init'') = Some d \<and> d < 0"
  using strcmp_order [of "cstr ''idle''" "cstr ''init''"]
  by (auto simp: cstr_def bytes_def cchars_def)

text \<open>
  \<^verbatim>\<open>strtok\<close> on a new string skips the delimiters in front and returns the first
  token, terminated in place, or NULL when there is none.
\<close>

theorem strtok_token:
  assumes "0 \<in> set s2" and "0 \<in> set (drop start buf)"
    and "rest = dropWhile (\<lambda>c. c \<in> set (cchars s2)) (cchars (drop start buf))"
  shows "\<exists>ret buf' tok'. strtok buf tok (Some start) s2 = Some (ret, buf', tok') \<and>
    length buf' = length buf \<and>
    (if rest = [] then ret = None \<and> buf' = buf \<and> tok' = None
     else \<exists>p. ret = Some p \<and> cchars (drop p buf') = takeWhile (\<lambda>c. c \<notin> set (cchars s2)) rest)"
  by (rule strtok_first_token [OF assms])

theorem strtok_token_witness:
  "\<exists>p buf' tok'. strtok (cstr '' setTime 10'') None (Some 0) (cstr '' '') = Some (Some p, buf', tok') \<and>
     cchars (drop p buf') = bytes ''setTime''"
  using strtok_token [of "cstr '' ''" 0 "cstr '' setTime 10''" "bytes ''setTime 10''" None]
  by (auto simp: cstr_def bytes_def cchars_def)

end
