(* ===== verification/Vm.thy ===== *)
theory Vm
  imports Prelude
begin

text \<open>
  The virtual memory part of \<^verbatim>\<open>kernel/core.c\<close>: the frame bitmap, page
  tables, the primitive kernel heap \<^verbatim>\<open>kmalloc\<close> and \<^verbatim>\<open>vm_init\<close>.
  A page table is an object of the typed heap \<open>ptabs\<close>, found by its address; a
  \<^verbatim>\<open>page_entry *\<close> is the table's address with the entry's index.
\<close>

section \<open>State\<close>

definition KHEAP_BASE :: u32 where "KHEAP_BASE = 0xD000000"
definition KHEAP_SIZE :: u32 where "KHEAP_SIZE = 0x10000"
definition PAGE_SIZE :: u32 where "PAGE_SIZE = 0x1000"
definition MEM_SIZE :: u32 where "MEM_SIZE = 0x4000000"
definition NFRAMES :: u32 where "NFRAMES = MEM_SIZE div PAGE_SIZE"
definition FRAME_BIT :: nat where "FRAME_BIT = 32"

lemmas vm_consts = KHEAP_BASE_def KHEAP_SIZE_def PAGE_SIZE_def MEM_SIZE_def NFRAMES_def FRAME_BIT_def

record page_entry =
  present :: "1 word"
  writeable :: "1 word"
  usermode :: "1 word"
  accessed :: "1 word"
  dirty :: "1 word"
  reserved :: "7 word"
  frameaddr :: "20 word"

definition zero_page :: page_entry where
  "zero_page = \<lparr>present = 0, writeable = 0, usermode = 0, accessed = 0, dirty = 0,
                reserved = 0, frameaddr = 0\<rparr>"

record vm = machine +
  frames :: "u32 list"
  kdir :: addr
  tables :: "nat \<Rightarrow> addr"
  tables_phys :: "nat \<Rightarrow> u32"
  ptabs :: "addr \<Rightarrow> nat \<Rightarrow> page_entry"
  phys_alloc_addr :: u32
  heap_addr :: u32
  heap_is_initialized :: bool
  cr0 :: u32
  cr3 :: u32

section \<open>The primitive kernel heap\<close>

definition alloc :: "u32 \<Rightarrow> 'a vm_scheme \<Rightarrow> (u32 \<times> 'a vm_scheme) option" where
  "alloc sz s =
     (let base = heap_addr s;
          s = s\<lparr>heap_addr := heap_addr s + sz\<rparr>
      in if heap_addr s > KHEAP_BASE + KHEAP_SIZE then None
         else Some (base, s))"

definition page_index :: "u32 \<Rightarrow> nat" where
  "page_index a = unat (a div PAGE_SIZE div 1024)"

definition page_offset :: "u32 \<Rightarrow> nat" where
  "page_offset a = unat (a div PAGE_SIZE mod 1024)"

text \<open>
  \<^verbatim>\<open>get_page\<close> without \<^verbatim>\<open>make_table\<close>: the entry of an existing
  table; NULL is \<open>None\<close>.
\<close>

definition get_page_existing :: "u32 \<Rightarrow> 'a vm_scheme \<Rightarrow> (addr \<times> nat) option" where
  "get_page_existing a s =
     (if tables s (page_index a) \<noteq> NULL then Some (tables s (page_index a), page_offset a)
      else None)"

text \<open>
  The third argument says whether the caller passed a place for the physical address; the
  middle component of the result is what is stored there.
\<close>

definition kmalloc ::
  "u32 \<Rightarrow> bool \<Rightarrow> bool \<Rightarrow> 'a vm_scheme \<Rightarrow> (addr \<times> addr \<times> 'a vm_scheme) option" where
  "kmalloc sz page_align want_phys s =
     (if heap_is_initialized s then do {
        (a, s) \<leftarrow> alloc sz s;
        if want_phys then do {
          (t, i) \<leftarrow> get_page_existing a s;
          Some (a, ucast (frameaddr (ptabs s t i)) * 0x1000 + (a AND 0xFFF), s)
        } else Some (a, NULL, s)
      }
      else
        let s = (if page_align \<and> phys_alloc_addr s AND 0xFFFFF000 \<noteq> 0
                 then s\<lparr>phys_alloc_addr := (phys_alloc_addr s AND 0xFFFFF000) + 0x1000\<rparr> else s);
            a = phys_alloc_addr s
        in Some (a, a, s\<lparr>phys_alloc_addr := phys_alloc_addr s + sz\<rparr>))"

section \<open>Page tables and frames\<close>

definition SZ_PAGE_TABLE :: u32 where "SZ_PAGE_TABLE = 4096"
definition SZ_PAGE_DIR :: u32 where "SZ_PAGE_DIR = 8192"

definition get_page ::
  "u32 \<Rightarrow> bool \<Rightarrow> 'a vm_scheme \<Rightarrow> ((addr \<times> nat) option \<times> 'a vm_scheme) option" where
  "get_page a make_table s =
     (let index = page_index a; offset = page_offset a
      in if tables s index \<noteq> NULL then Some (Some (tables s index, offset), s)
         else if make_table then do {
           (t, phys_addr, s) \<leftarrow> kmalloc SZ_PAGE_TABLE True True s;
           let s = s\<lparr>tables := (tables s)(index := t),
                     tables_phys := (tables_phys s)(index := phys_addr OR 0x7)\<rparr>;
           Some (Some (tables s index, offset), s)
         }
         else Some (None, s))"

fun find_free_bit :: "u32 \<Rightarrow> nat list \<Rightarrow> nat option" where
  "find_free_bit w [] = None"
| "find_free_bit w (j # js) = (if w AND push_bit j 1 = 0 then Some j else find_free_bit w js)"

fun find_free_word :: "u32 list \<Rightarrow> nat list \<Rightarrow> u32" where
  "find_free_word fs [] = - 1"
| "find_free_word fs (i # js) =
     (if fs ! i \<noteq> 0xFFFFFFFF then
        (case find_free_bit (fs ! i) [0..<FRAME_BIT] of
           Some j \<Rightarrow> of_nat (i * FRAME_BIT + j)
         | None \<Rightarrow> find_free_word fs js)
      else find_free_word fs js)"

definition find_free :: "'a vm_scheme \<Rightarrow> u32" where
  "find_free s = find_free_word (frames s) [0..<unat NFRAMES div FRAME_BIT]"

definition set_frame_bit :: "u32 \<Rightarrow> 'a vm_scheme \<Rightarrow> 'a vm_scheme option" where
  "set_frame_bit a s =
     (let frame = a div PAGE_SIZE;
          index = unat frame div FRAME_BIT;
          offset = unat frame mod FRAME_BIT
      in do {
        w \<leftarrow> rd (frames s) index;
        fs \<leftarrow> wr (frames s) index (w OR push_bit offset 1);
        Some (s\<lparr>frames := fs\<rparr>)
      })"

definition upd_page ::
  "addr \<times> nat \<Rightarrow> (page_entry \<Rightarrow> page_entry) \<Rightarrow> 'a vm_scheme \<Rightarrow> 'a vm_scheme" where
  "upd_page p f s =
     s\<lparr>ptabs := (ptabs s)(fst p := (ptabs s (fst p))(snd p := f (ptabs s (fst p) (snd p))))\<rparr>"

definition new_frame :: "(addr \<times> nat) option \<Rightarrow> 'a vm_scheme \<Rightarrow> 'a vm_scheme option" where
  "new_frame page s = do {
     p \<leftarrow> page;
     if frameaddr (ptabs s (fst p) (snd p)) \<noteq> 0 then Some s
     else
       let index = find_free s
       in if index = - 1 then None
          else do {
            s \<leftarrow> set_frame_bit (index * PAGE_SIZE) s;
            Some (upd_page p (\<lambda>e. e\<lparr>present := 1, frameaddr := ucast index,
                                     writeable := 1, usermode := 0\<rparr>) s)
          }
   }"

section \<open>Start-up\<close>

text \<open>
  The loops of \<^verbatim>\<open>vm_init\<close>. The first counts single bytes, the others pages;
  the bound of the identity mapping moves while the loop runs, because page tables are
  taken from the memory that is being mapped.
\<close>

partial_function (option) make_tables_loop ::
  "u32 \<Rightarrow> u32 \<Rightarrow> u32 \<Rightarrow> 'a vm_scheme \<Rightarrow> 'a vm_scheme option" where
  "make_tables_loop i hi inc s =
     (if i < hi then Option.bind (get_page i True s) (\<lambda>(p, s). make_tables_loop (i + inc) hi inc s)
      else Some s)"

partial_function (option) identity_map_loop :: "u32 \<Rightarrow> 'a vm_scheme \<Rightarrow> 'a vm_scheme option" where
  "identity_map_loop i s =
     (if i < phys_alloc_addr s + 0x10000 then
        Option.bind (get_page i True s) (\<lambda>(p, s).
        Option.bind (new_frame p s) (\<lambda>s. identity_map_loop (i + PAGE_SIZE) s))
      else Some s)"

partial_function (option) heap_frames_loop :: "u32 \<Rightarrow> u32 \<Rightarrow> 'a vm_scheme \<Rightarrow> 'a vm_scheme option" where
  "heap_frames_loop i hi s =
     (if i < hi then
        Option.bind (get_page i True s) (\<lambda>(p, s).
        Option.bind (new_frame p s) (\<lambda>s. heap_frames_loop (i + PAGE_SIZE) hi s))
      else Some s)"

definition vm_init :: "'a vm_scheme \<Rightarrow> 'a vm_scheme option" where
  "vm_init s = do {
     (d, _, s) \<leftarrow> kmalloc SZ_PAGE_DIR True False s;
     let s = s\<lparr>kdir := d, tables := (\<lambda>_. NULL), tables_phys := (\<lambda>_. 0)\<rparr>;
     s \<leftarrow> make_tables_loop KHEAP_BASE (KHEAP_BASE + KHEAP_SIZE) 1 s;
     s \<leftarrow> identity_map_loop 0 s;
     s \<leftarrow> heap_frames_loop KHEAP_BASE (KHEAP_BASE + KHEAP_SIZE) s;
     ensure (tables s 0 \<noteq> NULL);
     let s = upd_page (tables s 0, 0) (\<lambda>_. zero_page) s;
     let s = s\<lparr>cr3 := kdir s + 4096\<rparr>;
     let s = s\<lparr>cr0 := cr0 s OR 0x80000000\<rparr>;
     Some (s\<lparr>heap_is_initialized := True\<rparr>)
   }"

end
