(* ===== verification/Heap.thy ===== *)
theory Heap
  imports Vm
begin

text \<open>
  The heap manager of \<^verbatim>\<open>kernel/memory.c\<close>. Memory control blocks are
  objects of the typed heap \<open>mcbs\<close> at their addresses; the pointers between them are
  the ones the code writes. A block occupies the 12 bytes of its control block and the
  \<open>blk_size\<close> bytes behind it, and the address the caller sees is the one behind the
  control block.
\<close>

section \<open>State\<close>

record mcb =
  m_prev :: addr
  m_next :: addr
  blk_size :: u32

definition SZ_MCB :: u32 where "SZ_MCB = 12"

record heap = vm +
  heap_isinit :: bool
  free_head :: addr
  alloc_head :: addr
  global_heap :: addr
  mcbs :: "addr \<Rightarrow> mcb"

text \<open>Writing one field of the control block at an address; a write through NULL faults.\<close>

definition set_prev :: "addr \<Rightarrow> addr \<Rightarrow> 'a heap_scheme \<Rightarrow> 'a heap_scheme" where
  "set_prev p v s = s\<lparr>mcbs := (mcbs s)(p := (mcbs s p)\<lparr>m_prev := v\<rparr>)\<rparr>"

definition set_next :: "addr \<Rightarrow> addr \<Rightarrow> 'a heap_scheme \<Rightarrow> 'a heap_scheme" where
  "set_next p v s = s\<lparr>mcbs := (mcbs s)(p := (mcbs s p)\<lparr>m_next := v\<rparr>)\<rparr>"

definition set_size :: "addr \<Rightarrow> u32 \<Rightarrow> 'a heap_scheme \<Rightarrow> 'a heap_scheme" where
  "set_size p v s = s\<lparr>mcbs := (mcbs s)(p := (mcbs s p)\<lparr>blk_size := v\<rparr>)\<rparr>"

section \<open>Initialisation\<close>

definition initialize_heap :: "u32 \<Rightarrow> 'a heap_scheme \<Rightarrow> 'a heap_scheme option" where
  "initialize_heap sz s =
     (if \<not> heap_isinit s then do {
        (g, _, s) \<leftarrow> kmalloc sz False False s;
        let s = s\<lparr>global_heap := g\<rparr>;
        let s = s\<lparr>free_head := global_heap s\<rparr>;
        ensure (free_head s \<noteq> NULL);
        let s = set_prev (free_head s) NULL s;
        let s = set_next (free_head s) NULL s;
        let s = set_size (free_head s) (sz - SZ_MCB) s;
        Some (s\<lparr>heap_isinit := True\<rparr>)
      } else Some s)"

section \<open>Allocation\<close>

definition replaces_free :: "u32 \<Rightarrow> u32 \<Rightarrow> bool" where
  "replaces_free blk sz = (blk \<le> sz + SZ_MCB \<and> blk \<ge> sz)"

text \<open>
  First fit. The result is the selected free block (NULL when none fits) and whether it
  is taken whole.
\<close>

partial_function (option) first_fit ::
  "(addr \<Rightarrow> mcb) \<Rightarrow> u32 \<Rightarrow> addr \<Rightarrow> (addr \<times> bool) option" where
  "first_fit h sz it =
     (if it = NULL then Some (NULL, False)
      else if blk_size (h it) \<ge> sz + SZ_MCB \<or> replaces_free (blk_size (h it)) sz
      then Some (it, replaces_free (blk_size (h it)) sz)
      else first_fit h sz (m_next (h it)))"

text \<open>
  The search for the neighbours of an address in an address-ordered list: the last
  node that is not above it and the first node above it. The loop is a
  \<^verbatim>\<open>do ... while\<close>; it is entered with a list that is not empty. The
  allocator and \<^verbatim>\<open>free_memory\<close> contain the same loop.
\<close>

partial_function (option) seek_pos ::
  "(addr \<Rightarrow> mcb) \<Rightarrow> addr \<Rightarrow> addr \<Rightarrow> addr \<Rightarrow> (addr \<times> addr) option" where
  "seek_pos h a before ahead =
     (if ahead > a then Some (before, ahead)
      else if m_next (h ahead) \<noteq> NULL then seek_pos h a ahead (m_next (h ahead))
      else Some (ahead, NULL))"

definition neighbours :: "(addr \<Rightarrow> mcb) \<Rightarrow> addr \<Rightarrow> addr \<Rightarrow> (addr \<times> addr) option" where
  "neighbours h a head = (if head = NULL then Some (NULL, head) else seek_pos h a NULL head)"

text \<open>The rest of the free block moves up behind the allocation.\<close>

definition split_free :: "addr \<Rightarrow> u32 \<Rightarrow> 'a heap_scheme \<Rightarrow> 'a heap_scheme" where
  "split_free sel sz s =
     (let new = sel + (sz + SZ_MCB);
          s = s\<lparr>mcbs := (mcbs s)(new := mcbs s sel)\<rparr>;
          s = (if m_prev (mcbs s new) \<noteq> NULL then set_next (m_prev (mcbs s new)) new s else s);
          s = (if m_next (mcbs s new) \<noteq> NULL then set_prev (m_next (mcbs s new)) new s else s);
          s = set_size new (blk_size (mcbs s new) - (sz + SZ_MCB)) s
      in if sel = free_head s then s\<lparr>free_head := new\<rparr> else s)"

definition take_free :: "addr \<Rightarrow> 'a heap_scheme \<Rightarrow> 'a heap_scheme" where
  "take_free sel s =
     (if sel = free_head s then s\<lparr>free_head := m_next (mcbs s (free_head s))\<rparr> else s)"

definition insert_alloc :: "addr \<Rightarrow> addr \<Rightarrow> addr \<Rightarrow> u32 \<Rightarrow> 'a heap_scheme \<Rightarrow> 'a heap_scheme" where
  "insert_alloc new before ahead sz s =
     (let s = set_size new sz s
      in if alloc_head s \<noteq> NULL then
           let s = set_next new ahead s;
               s = set_prev new before s;
               s = (if before \<noteq> NULL then set_next before new s else s)
           in if ahead \<noteq> NULL then set_prev ahead new s else s
         else
           let s = s\<lparr>alloc_head := new\<rparr>;
               s = set_next new NULL s
           in set_prev new NULL s)"

definition allocate_memory :: "u32 \<Rightarrow> 'a heap_scheme \<Rightarrow> (addr \<times> 'a heap_scheme) option" where
  "allocate_memory sz s =
     (if \<not> heap_isinit s then Some (NULL, s)
      else do {
        (sel, whole) \<leftarrow> first_fit (mcbs s) sz (free_head s);
        if sel = NULL then Some (NULL, s)
        else do {
          (before, ahead) \<leftarrow> neighbours (mcbs s) sel (alloc_head s);
          let (newsz, s) = (if \<not> whole then (sz, split_free sel sz s)
                            else (blk_size (mcbs s sel), take_free sel s));
          Some (sel + SZ_MCB, insert_alloc sel before ahead newsz s)
        }
      })"

section \<open>Release\<close>

partial_function (option) find_block :: "(addr \<Rightarrow> mcb) \<Rightarrow> addr \<Rightarrow> addr \<Rightarrow> addr option" where
  "find_block h a it =
     (if it = NULL then Some NULL else if it = a then Some it else find_block h a (m_next (h it)))"

definition unlink_alloc :: "addr \<Rightarrow> 'a heap_scheme \<Rightarrow> 'a heap_scheme option" where
  "unlink_alloc b s = do {
     s \<leftarrow> (if b = alloc_head s then Some (s\<lparr>alloc_head := m_next (mcbs s b)\<rparr>)
           else do {
             ensure (m_prev (mcbs s b) \<noteq> NULL);
             Some (set_next (m_prev (mcbs s b)) (m_next (mcbs s b)) s)
           });
     Some (if m_next (mcbs s b) \<noteq> NULL then set_prev (m_next (mcbs s b)) (m_prev (mcbs s b)) s else s)
   }"

definition block_end :: "addr \<Rightarrow> 'a heap_scheme \<Rightarrow> addr" where
  "block_end b s = b + SZ_MCB + blk_size (mcbs s b)"

text \<open>Absorbing the free block \<open>nxt\<close> into the block in front of it.\<close>

definition absorb :: "addr \<Rightarrow> addr \<Rightarrow> 'a heap_scheme \<Rightarrow> 'a heap_scheme" where
  "absorb b nxt s =
     (let s = set_size b (blk_size (mcbs s b) + (blk_size (mcbs s nxt) + SZ_MCB)) s;
          s = set_next b (m_next (mcbs s nxt)) s
      in if m_next (mcbs s nxt) \<noteq> NULL then set_prev (m_next (mcbs s nxt)) b s else s)"

definition merge_back :: "addr \<Rightarrow> addr \<Rightarrow> addr \<Rightarrow> 'a heap_scheme \<Rightarrow> 'a heap_scheme" where
  "merge_back b sel nxt s =
     (let s = set_size sel (blk_size (mcbs s sel) + (blk_size (mcbs s b) + SZ_MCB)) s
      in if nxt \<noteq> NULL then (if block_end b s = nxt then absorb sel nxt s else s)
         else set_next sel NULL s)"

definition join_forward :: "addr \<Rightarrow> addr \<Rightarrow> 'a heap_scheme \<Rightarrow> 'a heap_scheme" where
  "join_forward b nxt s =
     (if block_end b s = nxt then absorb b nxt s else set_prev nxt b (set_next b nxt s))"

definition insert_free :: "addr \<Rightarrow> addr \<Rightarrow> addr \<Rightarrow> 'a heap_scheme \<Rightarrow> 'a heap_scheme option" where
  "insert_free b sel nxt s =
     (if free_head s = NULL then
        Some (set_prev b NULL (set_next b NULL (s\<lparr>free_head := b\<rparr>)))
      else if sel \<noteq> NULL then
        (if block_end sel s = b then Some (merge_back b sel nxt s)
         else
           let s = set_prev b sel s
           in if nxt \<noteq> NULL then
                let s = join_forward b nxt s
                in Some (if nxt = free_head s then s\<lparr>free_head := b\<rparr> else s)
              else Some s)
      else do {
        ensure (nxt \<noteq> NULL);
        let s = set_prev b NULL s;
        let s = join_forward b nxt s;
        Some (s\<lparr>free_head := b\<rparr>)
      })"

definition free_memory :: "addr \<Rightarrow> 'a heap_scheme \<Rightarrow> (int \<times> 'a heap_scheme) option" where
  "free_memory ptr s =
     (if \<not> heap_isinit s then Some (1, s)
      else do {
        let b = ptr - SZ_MCB;
        it \<leftarrow> find_block (mcbs s) b (alloc_head s);
        if it = NULL then Some (1, s)
        else do {
          s \<leftarrow> unlink_alloc b s;
          (sel, nxt) \<leftarrow> neighbours (mcbs s) b (free_head s);
          s \<leftarrow> insert_free b sel nxt s;
          Some (0, s)
        }
      })"

section \<open>What the operations leave alone\<close>

text \<open>
  Allocation and release write the list heads and control blocks only. The statement holds
  for every extension of the state, so it gives the frame of all later components.
\<close>

definition heap_touch :: "'a heap_scheme \<Rightarrow> 'a heap_scheme \<Rightarrow> bool" where
  "heap_touch s t \<longleftrightarrow>
     t = s\<lparr>free_head := free_head t, alloc_head := alloc_head t, mcbs := mcbs t\<rparr>"

lemma heap_touch_refl: "heap_touch s s"
  by (simp add: heap_touch_def)

lemma heap_touch_trans: "heap_touch s t \<Longrightarrow> heap_touch t u \<Longrightarrow> heap_touch s u"
  by (cases s; cases t; cases u) (simp add: heap_touch_def)

lemma heap_touch_upd:
  "heap_touch s t \<Longrightarrow> heap_touch s (t\<lparr>mcbs := m\<rparr>)"
  "heap_touch s t \<Longrightarrow> heap_touch s (t\<lparr>free_head := a\<rparr>)"
  "heap_touch s t \<Longrightarrow> heap_touch s (t\<lparr>alloc_head := a\<rparr>)"
  by (cases s; cases t; simp add: heap_touch_def)+

lemma heap_touch_set:
  "heap_touch s t \<Longrightarrow> heap_touch s (set_prev p v t)"
  "heap_touch s t \<Longrightarrow> heap_touch s (set_next p v t)"
  "heap_touch s t \<Longrightarrow> heap_touch s (set_size p n t)"
  unfolding set_prev_def set_next_def set_size_def by (rule heap_touch_upd; assumption)+

lemmas heap_touch_intros = heap_touch_refl heap_touch_upd heap_touch_set

lemma heap_touch_steps:
  "heap_touch s (split_free sel sz s)" "heap_touch s (take_free sel s)"
  "heap_touch s (insert_alloc new before ahead n s)"
  unfolding split_free_def take_free_def insert_alloc_def Let_def
  by (auto intro!: heap_touch_intros split: if_split)

lemma heap_touch_absorb: "heap_touch s t \<Longrightarrow> heap_touch s (absorb b nxt t)"
  unfolding absorb_def Let_def by (auto intro!: heap_touch_intros split: if_split)

lemma heap_touch_merge:
  "heap_touch s t \<Longrightarrow> heap_touch s (merge_back b sel nxt t)"
  "heap_touch s t \<Longrightarrow> heap_touch s (join_forward b nxt t)"
  unfolding merge_back_def join_forward_def Let_def
  by (auto intro!: heap_touch_intros heap_touch_absorb split: if_split)

lemma allocate_frame: "allocate_memory n s = Some (p, t) \<Longrightarrow> heap_touch s t"
  by (auto simp: allocate_memory_def bind_eq_Some_conv Let_def split: if_splits prod.splits
      intro: heap_touch_refl heap_touch_trans [OF heap_touch_steps(1) heap_touch_steps(3)]
        heap_touch_trans [OF heap_touch_steps(2) heap_touch_steps(3)])

lemma insert_free_frame: "insert_free b sel nxt s = Some t \<Longrightarrow> heap_touch s t"
  by (auto simp: insert_free_def Let_def split: if_splits
      intro!: heap_touch_intros heap_touch_merge)

lemma unlink_alloc_frame: "unlink_alloc b s = Some t \<Longrightarrow> heap_touch s t"
  by (auto simp: unlink_alloc_def bind_eq_Some_conv split: if_splits intro!: heap_touch_intros)

lemma free_frame: "free_memory p s = Some (r, t) \<Longrightarrow> heap_touch s t"
  by (auto simp: free_memory_def bind_eq_Some_conv Let_def split: if_splits
      dest!: unlink_alloc_frame insert_free_frame intro: heap_touch_refl heap_touch_trans)

end
