(* ===== verification/Heap_Lists.thy ===== *)
theory Heap_Lists
  imports Heap
begin

text \<open>
  The two doubly linked lists of the heap manager: what the traversals of
  \<^verbatim>\<open>kernel/memory.c\<close> return on a well-formed list and what each group of
  pointer writes does to it.
\<close>

lemma set_simps [simp]:
  "mcbs (set_next p v s) = (mcbs s)(p := (mcbs s p)\<lparr>m_next := v\<rparr>)"
  "mcbs (set_prev p v s) = (mcbs s)(p := (mcbs s p)\<lparr>m_prev := v\<rparr>)"
  "mcbs (set_size p n s) = (mcbs s)(p := (mcbs s p)\<lparr>blk_size := n\<rparr>)"
  "free_head (set_next p v s) = free_head s" "free_head (set_prev p v s) = free_head s"
  "free_head (set_size p n s) = free_head s"
  "alloc_head (set_next p v s) = alloc_head s" "alloc_head (set_prev p v s) = alloc_head s"
  "alloc_head (set_size p n s) = alloc_head s"
  "heap_isinit (set_next p v s) = heap_isinit s" "heap_isinit (set_prev p v s) = heap_isinit s"
  "heap_isinit (set_size p n s) = heap_isinit s"
  by (simp_all add: set_next_def set_prev_def set_size_def)

section \<open>Doubly linked lists\<close>

fun seg :: "(addr \<Rightarrow> mcb) \<Rightarrow> addr \<Rightarrow> addr \<Rightarrow> addr list \<Rightarrow> addr \<Rightarrow> addr \<Rightarrow> bool" where
  "seg h pr p [] l q \<longleftrightarrow> p = q \<and> l = pr"
| "seg h pr p (x # xs) l q \<longleftrightarrow>
     p = x \<and> x \<noteq> NULL \<and> m_prev (h x) = pr \<and> seg h x (m_next (h x)) xs l q"

abbreviation dll :: "(addr \<Rightarrow> mcb) \<Rightarrow> addr \<Rightarrow> addr list \<Rightarrow> bool" where
  "dll h p xs \<equiv> \<exists>l. seg h NULL p xs l NULL"

lemma seg_append [simp]:
  "seg h pr p (xs @ ys) l q \<longleftrightarrow> (\<exists>m r. seg h pr p xs m r \<and> seg h m r ys l q)"
  by (induction xs arbitrary: pr p) auto

lemma seg_cong:
  "(\<And>x. x \<in> set xs \<Longrightarrow> m_prev (h x) = m_prev (h' x) \<and> m_next (h x) = m_next (h' x)) \<Longrightarrow>
   seg h pr p xs l q \<longleftrightarrow> seg h' pr p xs l q"
  by (induction xs arbitrary: pr p) auto

lemma seg_upd [simp]: "a \<notin> set xs \<Longrightarrow> seg (h(a := b)) pr p xs l q \<longleftrightarrow> seg h pr p xs l q"
  by (rule seg_cong) auto

lemma seg_size_upd [simp]:
  "seg (h(a := (h a)\<lparr>blk_size := n\<rparr>)) pr p xs l q \<longleftrightarrow> seg h pr p xs l q"
  by (rule seg_cong) auto

lemma seg_last: "seg h pr p xs l q \<Longrightarrow> l = (if xs = [] then pr else last xs)"
  by (induction xs arbitrary: pr p) (auto split: if_splits)

lemma seg_first: "seg h pr p xs l q \<Longrightarrow> p = (if xs = [] then q else hd xs)"
  by (cases xs) auto

lemma seg_nonNULL: "seg h pr p xs l q \<Longrightarrow> NULL \<notin> set xs"
  by (induction xs arbitrary: pr p) auto

lemma seg_retarget_next:
  assumes "seg h NULL p A l q" "distinct A"
  shows "seg (if l \<noteq> NULL then h(l := (h l)\<lparr>m_next := r\<rparr>) else h) NULL (if A = [] then r else p) A l r"
proof (cases A rule: rev_cases)
  case Nil
  with assms show ?thesis by auto
next
  case (snoc B x)
  with assms have "l = x" "x \<noteq> NULL" "x \<notin> set B" by auto
  with assms snoc show ?thesis by auto
qed

lemma seg_retarget_prev:
  assumes "seg h x q B l NULL" "distinct B"
  shows "\<exists>l'. seg (if q \<noteq> NULL then h(q := (h q)\<lparr>m_prev := y\<rparr>) else h) y q B l' NULL"
  using assms by (cases B) auto

lemma seg_start_NULL: "seg h pr NULL xs l NULL \<longleftrightarrow> xs = [] \<and> l = pr"
  by (cases xs) auto

section \<open>The traversals\<close>

lemma first_fit_seg:
  "seg h pr p fs l NULL \<Longrightarrow>
   first_fit h sz p =
     Some (case find (\<lambda>a. blk_size (h a) \<ge> sz + SZ_MCB \<or> replaces_free (blk_size (h a)) sz) fs of
             None \<Rightarrow> (NULL, False)
           | Some a \<Rightarrow> (a, replaces_free (blk_size (h a)) sz))"
proof (induction fs arbitrary: pr p)
  case Nil
  then show ?case by (simp add: first_fit.simps)
next
  case (Cons x xs)
  then show ?case by (auto simp: first_fit.simps [of h sz x])
qed

lemma seek_pos_seg:
  "seg h pr p A l q \<Longrightarrow> seg h l q B l' NULL \<Longrightarrow> A @ B \<noteq> [] \<Longrightarrow>
   \<forall>x \<in> set A. x \<le> a \<Longrightarrow> \<forall>x \<in> set B. a < x \<Longrightarrow> seek_pos h a pr p = Some (l, q)"
proof (induction A arbitrary: pr p)
  case Nil
  then show ?case by (cases B) (auto simp: seek_pos.simps)
next
  case (Cons x A)
  show ?case
  proof (cases "m_next (h x) = NULL")
    case True
    with Cons.prems have "A = []" "q = NULL" by (cases A; auto)+
    with Cons.prems True show ?thesis by (auto simp: seek_pos.simps [of h a pr x])
  next
    case False
    with Cons.prems have "A @ B \<noteq> []" by auto
    with Cons False show ?thesis by (auto simp: seek_pos.simps [of h a pr x])
  qed
qed

lemma neighbours_seg:
  assumes "seg h NULL p A l q" "seg h l q B l' NULL"
    "\<forall>x \<in> set A. x \<le> a" "\<forall>x \<in> set B. a < x"
  shows "neighbours h a p = Some (l, q)"
proof (cases "A @ B = []")
  case True
  with assms show ?thesis by (auto simp: neighbours_def)
next
  case False
  with assms have "p \<noteq> NULL" by (cases A; cases B) auto
  with assms False show ?thesis by (simp add: neighbours_def seek_pos_seg)
qed

lemma find_block_seg:
  "seg h pr p xs l NULL \<Longrightarrow> find_block h b p = Some (if b \<in> set xs then b else NULL)"
proof (induction xs arbitrary: pr p)
  case Nil
  then show ?case by (simp add: find_block.simps)
next
  case (Cons x xs)
  then show ?case by (auto simp: find_block.simps [of h b x])
qed

section \<open>The pointer writes\<close>

lemma split_free_lists:
  assumes seg: "seg (mcbs s) NULL (free_head s) (A @ sel # B) l NULL"
    and dist: "distinct (A @ sel # B)"
    and new: "new = sel + (sz + SZ_MCB)" "new \<notin> set (A @ sel # B)" "new \<noteq> NULL"
  defines "t \<equiv> split_free sel sz s"
  shows "dll (mcbs t) (free_head t) (A @ new # B)"
    and "blk_size (mcbs t new) = blk_size (mcbs s sel) - (sz + SZ_MCB)"
    and "x \<noteq> new \<Longrightarrow> blk_size (mcbs t x) = blk_size (mcbs s x)"
    and "x \<notin> set (A @ new # B) \<Longrightarrow> mcbs t x = mcbs s x"
    and "alloc_head t = alloc_head s" "heap_isinit t = heap_isinit s"
proof -
  let ?h = "mcbs s"
  define q where "q = m_next (?h sel)"
  obtain l1 where A: "seg ?h NULL (free_head s) A l1 sel" and l1: "m_prev (?h sel) = l1"
    and B: "seg ?h sel q B l NULL" and nn: "sel \<noteq> NULL"
    using seg by (auto simp: q_def)
  have l1A: "l1 = (if A = [] then NULL else last A)" using seg_last [OF A] .
  have qB: "q = (if B = [] then NULL else hd B)" using seg_first [OF B] .
  define h1 where "h1 = ?h(new := ?h sel)"
  define h2 where "h2 = (if l1 \<noteq> NULL then h1(l1 := (h1 l1)\<lparr>m_next := new\<rparr>) else h1)"
  define h3 where "h3 = (if q \<noteq> NULL then h2(q := (h2 q)\<lparr>m_prev := new\<rparr>) else h2)"
  define h4 where "h4 = h3(new := (h3 new)\<lparr>blk_size := blk_size (h3 new) - (sz + SZ_MCB)\<rparr>)"
  have l1ne: "l1 \<noteq> new" "l1 \<notin> set B" "l1 \<noteq> NULL \<longrightarrow> l1 \<in> set A" "l1 = NULL \<longleftrightarrow> A = []"
    using l1A new(2,3) dist seg_nonNULL [OF A] seg_nonNULL [OF B]
    by (cases A rule: rev_cases; auto)+
  have qne: "q \<noteq> new" "q \<notin> set A" "q \<noteq> NULL \<longrightarrow> q \<in> set B"
    using qB new(2,3) dist seg_nonNULL [OF A] hd_in_set [of B] by (auto split: if_splits)
  have t: "mcbs t = h4" "free_head t = (if A = [] then new else free_head s)"
  proof -
    define s1 where "s1 = s\<lparr>mcbs := ?h(new := ?h sel)\<rparr>"
    define s2 where "s2 = (if l1 \<noteq> NULL then set_next l1 new s1 else s1)"
    define s3 where "s3 = (if q \<noteq> NULL then set_prev q new s2 else s2)"
    define s4 where "s4 = set_size new (blk_size (mcbs s3 new) - (sz + SZ_MCB)) s3"
    have m1: "mcbs s1 = h1" by (simp add: s1_def h1_def)
    have m2: "mcbs s2 = h2" by (simp add: s2_def h2_def m1)
    have m3: "mcbs s3 = h3" by (simp add: s3_def h3_def m2)
    have m4: "mcbs s4 = h4" by (simp add: s4_def h4_def m3)
    have e1: "m_prev (mcbs s1 new) = l1" by (simp add: m1 h1_def l1)
    have e2: "m_next (mcbs s2 new) = q" using l1ne by (simp add: m2 h2_def h1_def q_def)
    have t: "t = (if sel = free_head s4 then s4\<lparr>free_head := new\<rparr> else s4)"
      by (simp only: t_def split_free_def Let_def new(1) [symmetric] s1_def [symmetric] e1
          s2_def [symmetric] e2 s3_def [symmetric] s4_def [symmetric])
    have fh: "free_head s4 = free_head s" by (simp add: s4_def s3_def s2_def s1_def)
    have "sel = free_head s \<longleftrightarrow> A = []"
      using A dist by (cases A) auto
    with t m4 fh show "mcbs t = h4" "free_head t = (if A = [] then new else free_head s)"
      by simp_all
  qed
  show "alloc_head t = alloc_head s" "heap_isinit t = heap_isinit s"
    by (simp_all add: t_def split_free_def Let_def)
  have "seg h1 NULL (free_head s) A l1 sel" "seg h1 sel q B l NULL"
    using A B new by (simp_all add: h1_def)
  then have "seg h2 NULL (if A = [] then new else free_head s) A l1 new" "seg h2 sel q B l NULL"
    using seg_retarget_next [of h1 "free_head s" A l1 sel new] dist l1ne
    by (auto simp: h2_def)
  then have "seg h3 NULL (if A = [] then new else free_head s) A l1 new" "\<exists>l'. seg h3 new q B l' NULL"
    using seg_retarget_prev [of h2 sel q B l new] dist qne
    by (auto simp: h3_def)
  moreover have "m_prev (h3 new) = l1" "m_next (h3 new) = q"
    using l1ne qne by (auto simp: h3_def h2_def h1_def l1 q_def)
  ultimately show "dll (mcbs t) (free_head t) (A @ new # B)"
    using new(3) by (auto simp: t h4_def)
  show "blk_size (mcbs t new) = blk_size (mcbs s sel) - (sz + SZ_MCB)"
    using l1ne qne by (simp add: t h4_def h3_def h2_def h1_def)
  show "x \<noteq> new \<Longrightarrow> blk_size (mcbs t x) = blk_size (mcbs s x)"
    by (simp add: t h4_def h3_def h2_def h1_def)
  show "x \<notin> set (A @ new # B) \<Longrightarrow> mcbs t x = mcbs s x"
    using l1ne qne by (auto simp: t h4_def h3_def h2_def h1_def)
qed

lemma insert_alloc_lists:
  assumes A: "seg (mcbs s) NULL (alloc_head s) A before ahead"
    and B: "seg (mcbs s) before ahead B l NULL"
    and dist: "distinct (A @ B)" and new: "new \<notin> set (A @ B)" "new \<noteq> NULL"
    and low: "A = [] \<longrightarrow> B = []" and t_eq: "t = insert_alloc new before ahead n s"
  shows "dll (mcbs t) (alloc_head t) (A @ new # B)"
    and "blk_size (mcbs t new) = n"
    and "x \<noteq> new \<Longrightarrow> blk_size (mcbs t x) = blk_size (mcbs s x)"
    and "x \<notin> set (A @ new # B) \<Longrightarrow> mcbs t x = mcbs s x"
    and "free_head t = free_head s" "heap_isinit t = heap_isinit s"
proof -
  let ?h = "mcbs s"
  have bA: "before = (if A = [] then NULL else last A)" using seg_last [OF A] .
  have aB: "ahead = (if B = [] then NULL else hd B)" using seg_first [OF B] .
  have bne: "before \<noteq> new" "before \<notin> set B" "before \<noteq> NULL \<longrightarrow> before \<in> set A" "before = NULL \<longleftrightarrow> A = []"
    using bA new dist seg_nonNULL [OF A] seg_nonNULL [OF B]
    by (cases A rule: rev_cases; auto)+
  have ane: "ahead \<noteq> new" "ahead \<notin> set A" "ahead \<noteq> NULL \<longrightarrow> ahead \<in> set B"
    using aB new dist seg_nonNULL [OF A] hd_in_set [of B] by (auto split: if_splits)
  have head: "alloc_head s = NULL \<longleftrightarrow> A = [] \<and> B = []"
    using A B by (cases A; cases B) auto
  define h1 where "h1 = ?h(new := \<lparr>m_prev = before, m_next = ahead, blk_size = n\<rparr>)"
  define h2 where "h2 = (if before \<noteq> NULL then h1(before := (h1 before)\<lparr>m_next := new\<rparr>) else h1)"
  define h3 where "h3 = (if ahead \<noteq> NULL then h2(ahead := (h2 ahead)\<lparr>m_prev := new\<rparr>) else h2)"
  have t: "mcbs t = h3"
    using head bA aB by (auto simp: t_eq insert_alloc_def Let_def h3_def h2_def h1_def fun_upd_def)
  have th: "alloc_head t = (if A = [] then new else alloc_head s)"
    using head low by (auto simp: t_eq insert_alloc_def Let_def)
  show "free_head t = free_head s" "heap_isinit t = heap_isinit s"
    by (simp_all add: t_eq insert_alloc_def Let_def)
  have "seg h1 NULL (alloc_head s) A before ahead" "seg h1 before ahead B l NULL"
    using A B new by (simp_all add: h1_def)
  then have "seg h2 NULL (if A = [] then new else alloc_head s) A before new" "seg h2 before ahead B l NULL"
    using seg_retarget_next [of h1 "alloc_head s" A before ahead new] dist bne
    by (auto simp: h2_def)
  then have "seg h3 NULL (if A = [] then new else alloc_head s) A before new" "\<exists>l'. seg h3 new ahead B l' NULL"
    using seg_retarget_prev [of h2 before ahead B l new] dist ane
    by (auto simp: h3_def)
  moreover have "m_prev (h3 new) = before" "m_next (h3 new) = ahead"
    using bne ane by (auto simp: h3_def h2_def h1_def)
  ultimately show "dll (mcbs t) (alloc_head t) (A @ new # B)"
    using new(2) by (auto simp: t th)
  show "blk_size (mcbs t new) = n"
    using bne ane by (simp add: t h3_def h2_def h1_def)
  show "x \<noteq> new \<Longrightarrow> blk_size (mcbs t x) = blk_size (mcbs s x)"
    by (simp add: t h3_def h2_def h1_def)
  show "x \<notin> set (A @ new # B) \<Longrightarrow> mcbs t x = mcbs s x"
    using bne ane by (auto simp: t h3_def h2_def h1_def)
qed

lemma unlink_alloc_lists:
  assumes seg: "seg (mcbs s) NULL (alloc_head s) (A @ b # B) l NULL" and dist: "distinct (A @ b # B)"
  shows "\<exists>t. unlink_alloc b s = Some t \<and> dll (mcbs t) (alloc_head t) (A @ B) \<and>
    (\<forall>x. blk_size (mcbs t x) = blk_size (mcbs s x)) \<and>
    (\<forall>x. x \<notin> set (A @ B) \<longrightarrow> mcbs t x = mcbs s x) \<and>
    free_head t = free_head s \<and> heap_isinit t = heap_isinit s"
proof -
  let ?h = "mcbs s"
  define q where "q = m_next (?h b)"
  obtain l1 where A: "seg ?h NULL (alloc_head s) A l1 b" and l1: "m_prev (?h b) = l1"
    and B: "seg ?h b q B l NULL" and nn: "b \<noteq> NULL"
    using seg by (auto simp: q_def)
  have l1A: "l1 = (if A = [] then NULL else last A)" using seg_last [OF A] .
  have qB: "q = (if B = [] then NULL else hd B)" using seg_first [OF B] .
  have l1ne: "l1 \<noteq> b" "l1 \<notin> set B" "l1 \<noteq> NULL \<longrightarrow> l1 \<in> set A" "l1 = NULL \<longleftrightarrow> A = []"
    using l1A nn dist seg_nonNULL [OF A] seg_nonNULL [OF B]
    by (cases A rule: rev_cases; auto)+
  have qne: "q \<noteq> b" "q \<notin> set A" "q \<noteq> NULL \<longrightarrow> q \<in> set B"
    using qB nn dist seg_nonNULL [OF A] hd_in_set [of B] by (auto split: if_splits)
  have headA: "b = alloc_head s \<longleftrightarrow> A = []" using A dist by (cases A) auto
  define s2 where "s2 = (if A = [] then s\<lparr>alloc_head := q\<rparr> else set_next l1 q s)"
  define h2 where "h2 = (if l1 \<noteq> NULL then ?h(l1 := (?h l1)\<lparr>m_next := q\<rparr>) else ?h)"
  define t where "t = (if q \<noteq> NULL then set_prev q l1 s2 else s2)"
  have m2: "mcbs s2 = h2" using l1ne by (simp add: s2_def h2_def)
  have b2: "m_next (mcbs s2 b) = q" "m_prev (mcbs s2 b) = l1"
    using l1ne by (simp_all add: m2 h2_def q_def l1)
  have run: "unlink_alloc b s = Some t"
  proof (cases "A = []")
    case True
    then have "s2 = s\<lparr>alloc_head := m_next (mcbs s b)\<rparr>" by (simp add: s2_def q_def)
    with True headA b2 show ?thesis by (simp add: unlink_alloc_def t_def)
  next
    case False
    then have "s2 = set_next (m_prev (mcbs s b)) (m_next (mcbs s b)) s" by (simp add: s2_def q_def l1)
    with False headA b2 l1ne l1 show ?thesis by (simp add: unlink_alloc_def t_def)
  qed
  have "seg h2 NULL (if A = [] then q else alloc_head s) A l1 q" "seg h2 b q B l NULL"
    using seg_retarget_next [OF A, of q] B dist l1ne by (auto simp: h2_def)
  then have "seg (mcbs t) NULL (if A = [] then q else alloc_head s) A l1 q" "\<exists>l'. seg (mcbs t) l1 q B l' NULL"
    using seg_retarget_prev [of h2 b q B l l1] dist qne
    by (auto simp: t_def m2)
  moreover have "alloc_head t = (if A = [] then q else alloc_head s)"
    by (simp add: t_def s2_def)
  ultimately obtain l' where "seg (mcbs t) NULL (alloc_head t) A l1 q" "seg (mcbs t) l1 q B l' NULL"
    by metis
  then have "seg (mcbs t) NULL (alloc_head t) (A @ B) l' NULL" unfolding seg_append by blast
  then have "dll (mcbs t) (alloc_head t) (A @ B)" by blast
  moreover have "blk_size (mcbs t x) = blk_size (mcbs s x)" for x
    by (simp add: t_def m2 h2_def)
  moreover have "x \<notin> set (A @ B) \<Longrightarrow> mcbs t x = mcbs s x" for x
    using l1ne qne by (auto simp: t_def m2 h2_def)
  moreover have "free_head t = free_head s" "heap_isinit t = heap_isinit s"
    by (simp_all add: t_def s2_def)
  ultimately show ?thesis using run by blast
qed

lemma absorb_lists:
  assumes R: "seg (mcbs s) y (m_next (mcbs s y)) R l NULL"
    and dist: "distinct (y # R)" "x \<notin> set (y # R)" and t_eq: "t = absorb x y s"
  shows "\<exists>l'. seg (mcbs t) x (m_next (mcbs t x)) R l' NULL"
    and "m_prev (mcbs t x) = m_prev (mcbs s x)"
    and "blk_size (mcbs t x) = blk_size (mcbs s x) + (blk_size (mcbs s y) + SZ_MCB)"
    and "z \<noteq> x \<Longrightarrow> blk_size (mcbs t z) = blk_size (mcbs s z)"
    and "z \<notin> set (x # R) \<Longrightarrow> mcbs t z = mcbs s z"
    and "free_head t = free_head s" "alloc_head t = alloc_head s" "heap_isinit t = heap_isinit s"
proof -
  let ?h = "mcbs s" and ?r = "m_next (mcbs s y)"
  have xy: "x \<noteq> y" "y \<noteq> x" using dist by auto
  have r: "?r = (if R = [] then NULL else hd R)" using seg_first [OF R] .
  then have rne: "?r \<noteq> x \<or> ?r = NULL" "?r \<noteq> NULL \<longrightarrow> ?r \<in> set R" "?r = NULL \<longleftrightarrow> R = []"
    using dist seg_nonNULL [OF R] by (cases R; auto)+
  define h1 where "h1 = ?h(x := (?h x)\<lparr>blk_size := blk_size (?h x) + (blk_size (?h y) + SZ_MCB), m_next := ?r\<rparr>)"
  have m: "mcbs t = (if ?r \<noteq> NULL then h1(?r := (h1 ?r)\<lparr>m_prev := x\<rparr>) else h1)"
    using xy by (auto simp: t_eq absorb_def Let_def h1_def fun_upd_def)
  have "seg h1 y ?r R l NULL" using R dist by (simp add: h1_def)
  then have "\<exists>l'. seg (mcbs t) x ?r R l' NULL"
    using seg_retarget_prev [of h1 y ?r R l x] dist by (auto simp: m)
  moreover have "m_next (mcbs t x) = ?r" using rne by (auto simp: m h1_def)
  ultimately show "\<exists>l'. seg (mcbs t) x (m_next (mcbs t x)) R l' NULL" by simp
  show "m_prev (mcbs t x) = m_prev (mcbs s x)"
    "blk_size (mcbs t x) = blk_size (mcbs s x) + (blk_size (mcbs s y) + SZ_MCB)"
    using rne by (auto simp: m h1_def)
  show "z \<noteq> x \<Longrightarrow> blk_size (mcbs t z) = blk_size (mcbs s z)"
    using rne by (auto simp: m h1_def)
  show "z \<notin> set (x # R) \<Longrightarrow> mcbs t z = mcbs s z"
    using rne by (auto simp: m h1_def)
  show "free_head t = free_head s" "alloc_head t = alloc_head s" "heap_isinit t = heap_isinit s"
    by (simp_all add: t_eq absorb_def Let_def)
qed


lemma insert_free_lists:
  assumes A: "seg (mcbs s) NULL (free_head s) A sel nxt" and B: "seg (mcbs s) sel nxt B l NULL"
    and dist: "distinct (A @ b # B)" and b: "b \<noteq> NULL"
    and safe: "A = [] \<or> block_end sel s = b"
  defines "joins \<equiv> B \<noteq> [] \<and> block_end b s = nxt"
  shows "\<exists>t. insert_free b sel nxt s = Some t \<and>
    dll (mcbs t) (free_head t) ((if A = [] then [b] else A) @ (if joins then tl B else B)) \<and>
    blk_size (mcbs t (if A = [] then b else sel)) =
      (if A = [] then 0 else blk_size (mcbs s sel) + SZ_MCB) + blk_size (mcbs s b) +
      (if joins then blk_size (mcbs s nxt) + SZ_MCB else 0) \<and>
    (\<forall>x. x \<noteq> (if A = [] then b else sel) \<longrightarrow> blk_size (mcbs t x) = blk_size (mcbs s x)) \<and>
    (\<forall>x. x \<notin> set (A @ b # B) \<longrightarrow> mcbs t x = mcbs s x) \<and>
    alloc_head t = alloc_head s \<and> heap_isinit t = heap_isinit s"
proof (cases "A = []")
  case True
  with A have sel: "sel = NULL" and nxt: "nxt = free_head s" by auto
  show ?thesis
  proof (cases B)
    case Nil
    with B nxt have "free_head s = NULL" by simp
    with True Nil b show ?thesis
      by (auto simp: insert_free_def joins_def)
  next
    case (Cons q R)
    with B nxt sel have q: "nxt = q" "q \<noteq> NULL" "free_head s = q" "m_prev (mcbs s q) = NULL"
      and R: "seg (mcbs s) q (m_next (mcbs s q)) R l NULL" by auto
    define u where "u = set_prev b NULL s"
    have ub: "block_end b u = block_end b s" by (simp add: block_end_def u_def)
    have run: "insert_free b sel nxt s = Some ((join_forward b q u)\<lparr>free_head := b\<rparr>)"
      using q sel by (simp add: insert_free_def u_def Let_def)
    show ?thesis
    proof (cases "block_end b s = q")
      case True
      let ?t = "absorb b q u"
      have d: "distinct (q # R)" "b \<notin> set (q # R)" "q \<noteq> b" using dist Cons by auto
      have Ru: "seg (mcbs u) q (m_next (mcbs u q)) R l NULL"
        using R d by (simp add: u_def)
      note ab = absorb_lists [OF Ru d(1,2) refl]
      have "joins" using True Cons q by (simp add: joins_def)
      then show ?thesis
        using ab True Cons q b d run ub \<open>A = []\<close>
        by (auto simp: join_forward_def u_def)
    next
      case False
      then have "\<not> joins" using q by (simp add: joins_def)
      moreover have "join_forward b q u = set_prev q b (set_next b q u)"
        using False ub by (simp add: join_forward_def)
      ultimately show ?thesis
        using False Cons q b R dist run \<open>A = []\<close> by (auto simp: u_def)
    qed
  qed
next
  case False
  then obtain A' where A': "A = A' @ [sel]" using seg_last [OF A] by (cases A rule: rev_cases) auto
  from False safe have adj: "block_end sel s = b" by simp
  have sel: "sel \<noteq> NULL" "free_head s \<noteq> NULL" "m_next (mcbs s sel) = nxt"
    using A A' seg_nonNULL [OF A] by (cases A'; auto)+
  define u where "u = set_size sel (blk_size (mcbs s sel) + (blk_size (mcbs s b) + SZ_MCB)) s"
  have bs: "b \<noteq> sel" "b \<notin> set B" "sel \<notin> set B" using dist A' by auto
  have ub: "block_end b u = block_end b s" using bs by (simp add: block_end_def u_def)
  have Au: "seg (mcbs u) NULL (free_head u) A sel nxt" and Bu: "seg (mcbs u) sel nxt B l NULL"
    using A B by (simp_all add: u_def)
  have run: "insert_free b sel nxt s = Some (merge_back b sel nxt s)"
    using sel adj by (simp add: insert_free_def)
  show ?thesis
  proof (cases B)
    case Nil
    with B have nxt: "nxt = NULL" by simp
    let ?t = "set_next sel NULL u"
    have same: "mcbs ?t = mcbs u" using sel(3) nxt by (auto simp: u_def fun_eq_iff)
    have mb: "merge_back b sel nxt s = ?t" using nxt by (simp add: merge_back_def u_def)
    have "dll (mcbs ?t) (free_head ?t) A" using Au nxt unfolding same by (auto simp: u_def)
    moreover have "blk_size (mcbs ?t sel) = blk_size (mcbs s sel) + SZ_MCB + blk_size (mcbs s b)"
      unfolding same by (simp add: u_def algebra_simps)
    moreover have "x \<noteq> sel \<longrightarrow> blk_size (mcbs ?t x) = blk_size (mcbs s x)" for x
      unfolding same by (simp add: u_def)
    moreover have "x \<notin> set (A @ b # B) \<longrightarrow> mcbs ?t x = mcbs s x" for x
      unfolding same by (simp add: u_def A')
    moreover have "alloc_head ?t = alloc_head s" "heap_isinit ?t = heap_isinit s"
      by (simp_all add: u_def)
    moreover have "\<not> joins" using Nil by (simp add: joins_def)
    ultimately show ?thesis using run mb False Nil by simp
  next
    case (Cons q R)
    with B have q: "nxt = q" "q \<noteq> NULL" and R: "seg (mcbs s) q (m_next (mcbs s q)) R l NULL" by auto
    show ?thesis
    proof (cases "block_end b s = q")
      case True
      let ?t = "absorb sel q u"
      have d: "distinct (q # R)" "sel \<notin> set (q # R)" "q \<noteq> sel" using dist Cons A' by auto
      have Ru: "seg (mcbs u) q (m_next (mcbs u q)) R l NULL" using R d by (simp add: u_def)
      note ab = absorb_lists [OF Ru d(1,2) refl]
      have mb: "merge_back b sel nxt s = ?t" using True ub q by (simp add: merge_back_def u_def)
      have j: joins using True Cons q by (simp add: joins_def)
      obtain m where m: "seg (mcbs u) NULL (free_head u) A' m sel" "m_prev (mcbs u sel) = m"
        using Au A' by auto
      have keep: "mcbs ?t z = mcbs u z" if "z \<in> set A'" for z
        using that dist A' Cons by (intro ab(5)) auto
      have "seg (mcbs ?t) NULL (free_head ?t) A' m sel"
        unfolding ab(6) using m(1) seg_cong [of A' "mcbs ?t" "mcbs u"] keep by simp
      then have "dll (mcbs ?t) (free_head ?t) (A @ R)"
        using ab(1,2) m(2) sel(1) unfolding A' by auto
      moreover have "blk_size (mcbs ?t sel) = blk_size (mcbs s sel) + SZ_MCB + blk_size (mcbs s b) +
          (blk_size (mcbs s q) + SZ_MCB)"
        using ab(3) d by (auto simp: u_def algebra_simps)
      moreover have "x \<noteq> sel \<longrightarrow> blk_size (mcbs ?t x) = blk_size (mcbs s x)" for x
        using ab(4) by (simp add: u_def)
      moreover have "x \<notin> set (A @ b # B) \<longrightarrow> mcbs ?t x = mcbs s x" for x
        using ab(5) A' Cons by (simp add: u_def)
      moreover have "alloc_head ?t = alloc_head s" "heap_isinit ?t = heap_isinit s"
        using ab(7,8) by (simp_all add: u_def)
      ultimately show ?thesis using run mb j False Cons q by simp
    next
      case False2: False
      have mb: "merge_back b sel nxt s = u" using False2 ub q by (simp add: merge_back_def u_def)
      have "dll (mcbs u) (free_head u) (A @ B)" using Au Bu by auto
      with run mb False False2 q bs show ?thesis
        unfolding joins_def by (auto simp: u_def A' algebra_simps)
    qed
  qed
qed

end
