(* ===== verification/Heap_Alloc.thy ===== *)
theory Heap_Alloc
  imports Heap_Lists
begin

text \<open>
  The heap as a list of blocks in address order, free and allocated, that tile it without
  gaps; the relation to the linked lists; the refinement of \<^verbatim>\<open>allocate_memory\<close>
  by first fit on that list.
\<close>

section \<open>Blocks\<close>

type_synonym block = "addr \<times> u32 \<times> bool"

fun tiles :: "nat \<Rightarrow> block list \<Rightarrow> nat \<Rightarrow> bool" where
  "tiles lo [] hi \<longleftrightarrow> lo = hi"
| "tiles lo ((a, n, f) # bs) hi \<longleftrightarrow> unat a = lo \<and> tiles (lo + 12 + unat n) bs hi"

fun frees :: "block list \<Rightarrow> addr list" where
  "frees [] = []"
| "frees ((a, n, f) # bs) = (if f then a # frees bs else frees bs)"

fun allocs :: "block list \<Rightarrow> addr list" where
  "allocs [] = []"
| "allocs ((a, n, f) # bs) = (if f then allocs bs else a # allocs bs)"

lemma frees_append [simp]: "frees (xs @ ys) = frees xs @ frees ys"
  by (induction xs rule: frees.induct) auto

lemma allocs_append [simp]: "allocs (xs @ ys) = allocs xs @ allocs ys"
  by (induction xs rule: allocs.induct) auto

lemma set_frees: "set (frees bs) = {a. \<exists>n. (a, n, True) \<in> set bs}"
  by (induction bs rule: frees.induct) auto

lemma set_allocs: "set (allocs bs) = {a. \<exists>n. (a, n, False) \<in> set bs}"
  by (induction bs rule: allocs.induct) auto

lemma tiles_append [simp]: "tiles lo (xs @ ys) hi \<longleftrightarrow> (\<exists>m. tiles lo xs m \<and> tiles m ys hi)"
  by (induction xs arbitrary: lo rule: frees.induct) auto

lemma tiles_le: "tiles lo bs hi \<Longrightarrow> lo \<le> hi"
  by (induction lo bs hi rule: tiles.induct) auto

lemma tiles_range: "tiles lo bs hi \<Longrightarrow> (a, n, f) \<in> set bs \<Longrightarrow> lo \<le> unat a \<and> unat a + 12 + unat n \<le> hi"
proof (induction lo bs hi rule: tiles.induct)
  case (2 lo a' n' f' bs hi)
  then show ?case using tiles_le [of "lo + 12 + unat n'" bs hi] by auto
qed simp

lemma tiles_disjoint:
  "tiles lo bs hi \<Longrightarrow> (a, n, f) \<in> set bs \<Longrightarrow> (b, m, g) \<in> set bs \<Longrightarrow>
   (a, n, f) = (b, m, g) \<or> unat a + 12 + unat n \<le> unat b \<or> unat b + 12 + unat m \<le> unat a"
proof (induction lo bs hi rule: tiles.induct)
  case (2 lo a' n' f' bs hi)
  then show ?case using tiles_range [of "lo + 12 + unat n'" bs hi] by fastforce
qed simp

lemma tiles_before:
  "tiles lo (P @ (a, n, f) # Q) hi \<Longrightarrow> (b, m, g) \<in> set P \<Longrightarrow> unat b + 12 + unat m \<le> unat a"
  using tiles_range [of lo P _ b m g] by auto

lemma tiles_after:
  "tiles lo (P @ (a, n, f) # Q) hi \<Longrightarrow> (b, m, g) \<in> set Q \<Longrightarrow> unat a + 12 + unat n \<le> unat b"
  using tiles_range [of _ Q hi b m g] by auto

lemma tiles_unique:
  "tiles lo bs hi \<Longrightarrow> (a, n, f) \<in> set bs \<Longrightarrow> (a, m, g) \<in> set bs \<Longrightarrow> n = m \<and> f = g"
  using tiles_disjoint [of lo bs hi a n f a m g] by auto

lemma tiles_distinct_frees: "tiles lo bs hi \<Longrightarrow> distinct (frees bs)"
proof (induction lo bs hi rule: tiles.induct)
  case (2 lo a n f bs hi)
  then show ?case using tiles_range [of "lo + 12 + unat n" bs hi] by (fastforce simp: set_frees)
qed simp

lemma tiles_distinct_allocs: "tiles lo bs hi \<Longrightarrow> distinct (allocs bs)"
proof (induction lo bs hi rule: tiles.induct)
  case (2 lo a n f bs hi)
  then show ?case using tiles_range [of "lo + 12 + unat n" bs hi] by (fastforce simp: set_allocs)
qed simp

lemma tiles_frees_not_allocs: "tiles lo bs hi \<Longrightarrow> set (frees bs) \<inter> set (allocs bs) = {}"
  using tiles_disjoint [of lo bs hi] by (fastforce simp: set_frees set_allocs)


section \<open>The heap as a list of blocks\<close>

definition heap_rel :: "'a heap_scheme \<Rightarrow> block list \<Rightarrow> bool" where
  "heap_rel s bs \<longleftrightarrow> heap_isinit s \<and>
     (\<exists>lo hi. 0 < lo \<and> hi < 2 ^ 32 \<and> tiles lo bs hi) \<and>
     (\<forall>(a, n, f) \<in> set bs. blk_size (mcbs s a) = n) \<and>
     dll (mcbs s) (free_head s) (frees bs) \<and> dll (mcbs s) (alloc_head s) (allocs bs)"

text \<open>The first free block of at least the requested size, with what is in front and behind.\<close>

fun fit_at :: "u32 \<Rightarrow> block list \<Rightarrow> (block list \<times> addr \<times> u32 \<times> block list) option" where
  "fit_at sz [] = None"
| "fit_at sz ((a, n, f) # bs) =
     (if f \<and> sz \<le> n then Some ([], a, n, bs)
      else map_option (\<lambda>(P, r). ((a, n, f) # P, r)) (fit_at sz bs))"

definition a_alloc :: "u32 \<Rightarrow> block list \<Rightarrow> addr \<times> block list" where
  "a_alloc sz bs =
     (case fit_at sz bs of
        None \<Rightarrow> (NULL, bs)
      | Some (P, a, n, Q) \<Rightarrow>
          (a + 12,
           if unat n \<le> unat sz + 12 then P @ (a, n, False) # Q
           else P @ (a, sz, False) # (a + 12 + sz, n - (sz + 12), True) # Q))"

definition alloc_safe :: "u32 \<Rightarrow> block list \<Rightarrow> bool" where
  "alloc_safe sz bs =
     (case fit_at sz bs of
        None \<Rightarrow> True
      | Some (P, a, n, Q) \<Rightarrow>
          (unat sz + 12 < unat n \<or> frees P = [] \<and> frees Q = []) \<and>
          (allocs P = [] \<longrightarrow> allocs Q = []))"

lemma fit_at_Some:
  "fit_at sz bs = Some (P, a, n, Q) \<Longrightarrow>
   bs = P @ (a, n, True) # Q \<and> sz \<le> n \<and> (\<forall>(b, m, f) \<in> set P. \<not> (f \<and> sz \<le> m))"
  by (induction sz bs arbitrary: P rule: fit_at.induct) (auto split: if_splits)

lemma fit_at_None: "fit_at sz bs = None \<Longrightarrow> \<forall>(b, m, f) \<in> set bs. \<not> (f \<and> sz \<le> m)"
  by (induction sz bs rule: fit_at.induct) (auto split: if_splits)

lemma heap_rel_tiles:
  assumes "heap_rel s bs"
  obtains lo hi where "0 < lo" "hi < 2 ^ 32" "tiles lo bs hi"
  using assms by (auto simp: heap_rel_def)

lemma heap_rel_size: "heap_rel s bs \<Longrightarrow> (a, n, f) \<in> set bs \<Longrightarrow> blk_size (mcbs s a) = n"
  by (auto simp: heap_rel_def)

lemma fits_iff:
  assumes "unat sz + 12 < 2 ^ 32"
  shows "n \<ge> sz + SZ_MCB \<or> replaces_free n sz \<longleftrightarrow> sz \<le> n"
    and "replaces_free n sz \<longleftrightarrow> sz \<le> n \<and> unat n \<le> unat sz + 12"
proof -
  have "unat (sz + SZ_MCB) = unat sz + 12"
    using assms by (simp add: SZ_MCB_def unat_simps)
  then show "n \<ge> sz + SZ_MCB \<or> replaces_free n sz \<longleftrightarrow> sz \<le> n"
    and "replaces_free n sz \<longleftrightarrow> sz \<le> n \<and> unat n \<le> unat sz + 12"
    by (auto simp: replaces_free_def word_le_nat_alt)
qed

lemma first_fit_rel:
  assumes rel: "heap_rel s bs" and sz: "unat sz + 12 < 2 ^ 32"
  shows "first_fit (mcbs s) sz (free_head s) =
    Some (case fit_at sz bs of None \<Rightarrow> (NULL, False)
          | Some (P, a, n, Q) \<Rightarrow> (a, unat n \<le> unat sz + 12))"
proof -
  let ?h = "mcbs s"
  let ?fit = "\<lambda>a. blk_size (?h a) \<ge> sz + SZ_MCB \<or> replaces_free (blk_size (?h a)) sz"
  obtain l where "seg ?h NULL (free_head s) (frees bs) l NULL" using rel by (auto simp: heap_rel_def)
  note ff = first_fit_seg [OF this, of sz]
  have none: "find ?fit (frees xs) = None"
    if "\<forall>(b, m, f) \<in> set xs. \<not> (f \<and> sz \<le> m)" "set xs \<subseteq> set bs" for xs
  proof -
    have "\<not> ?fit x" if "x \<in> set (frees xs)" for x
    proof -
      from that obtain m where m: "(x, m, True) \<in> set xs" by (auto simp: set_frees)
      then have "blk_size (?h x) = m" using that \<open>set xs \<subseteq> set bs\<close> by (intro heap_rel_size [OF rel]) auto
      moreover have "\<not> sz \<le> m"
        using m \<open>\<forall>(b, m, f) \<in> set xs. \<not> (f \<and> sz \<le> m)\<close> by fastforce
      ultimately show ?thesis using fits_iff(1) [OF sz] by metis
    qed
    then show ?thesis by (simp add: find_None_iff)
  qed
  show ?thesis
  proof (cases "fit_at sz bs")
    case None
    then show ?thesis using ff none [of bs] fit_at_None [of sz bs] by simp
  next
    case (Some r)
    then obtain P a n Q where r: "r = (P, a, n, Q)" by (cases r)
    note fa = fit_at_Some [OF Some [unfolded r]]
    have none_P: "find ?fit (frees P) = None" using fa by (intro none) auto
    have bs: "bs = P @ (a, n, True) # Q" and le: "sz \<le> n" using fa by auto
    have n: "blk_size (?h a) = n" by (rule heap_rel_size [OF rel, of _ _ True]) (simp add: bs)
    have "?fit a \<longleftrightarrow> sz \<le> n" unfolding n by (rule fits_iff(1) [OF sz])
    with le have "find ?fit (frees bs) = Some a" unfolding bs by (simp add: find_append none_P)
    then show ?thesis
      by (simp only: ff Some r option.case prod.case) (simp add: n le fits_iff [OF sz])
  qed
qed

lemma tiles_strict:
  assumes "tiles lo (P @ (a, n, f) # Q) hi" "hi < 2 ^ 32"
  shows "\<forall>x \<in> set (frees P) \<union> set (allocs P). x < a"
    and "\<forall>x \<in> set (frees Q) \<union> set (allocs Q). a < x"
  using tiles_before [OF assms(1)] tiles_after [OF assms(1)]
  by (fastforce simp: set_frees set_allocs word_less_nat_alt)+

text \<open>
  \<^verbatim>\<open>allocate_memory\<close> refines first fit on the tiled heap. From a
  well-formed heap, and when the first fitting free block can be split (or is the only free
  block) and does not lie below every allocated block, the call returns the address that
  first fit chooses, or NULL when no free block is large enough, and leaves a well-formed heap
  whose blocks are those of the abstract operation.
\<close>

lemma allocate_rel:
  assumes rel: "heap_rel s bs" and sz: "unat sz + 12 < 2 ^ 32" and safe: "alloc_safe sz bs"
  shows "\<exists>t. allocate_memory sz s = Some (fst (a_alloc sz bs), t) \<and> heap_rel t (snd (a_alloc sz bs))"
proof (cases "fit_at sz bs")
  case None
  with rel show ?thesis
    by (simp add: allocate_memory_def first_fit_rel [OF rel sz] a_alloc_def heap_rel_def)
next
  case (Some r)
  then obtain P a n Q where r: "r = (P, a, n, Q)" by (cases r)
  note fa = fit_at_Some [OF Some [unfolded r]]
  then have bs: "bs = P @ (a, n, True) # Q" by simp
  obtain lo hi where lh: "0 < lo" "hi < 2 ^ 32" and tl: "tiles lo bs hi" using rel by (rule heap_rel_tiles)
  note ord = tiles_strict [OF tl [unfolded bs] lh(2)]
  have init: "heap_isinit s" using rel by (simp add: heap_rel_def)
  have n: "blk_size (mcbs s a) = n" by (rule heap_rel_size [OF rel, of _ _ True]) (simp add: bs)
  have a0: "a \<noteq> NULL" using rel by (auto simp: heap_rel_def bs)
  obtain l1 q1 l2 where
    A: "seg (mcbs s) NULL (alloc_head s) (allocs P) l1 q1" and B: "seg (mcbs s) l1 q1 (allocs Q) l2 NULL"
    using rel by (auto simp: heap_rel_def bs)
  obtain lf where F: "seg (mcbs s) NULL (free_head s) (frees P @ a # frees Q) lf NULL"
    using rel unfolding heap_rel_def bs by auto
  have nb: "neighbours (mcbs s) a (alloc_head s) = Some (l1, q1)"
    using ord by (intro neighbours_seg [OF A B]) (auto simp: less_imp_le)
  have run: "allocate_memory sz s =
      Some (a + 12, insert_alloc a l1 q1 (if unat n \<le> unat sz + 12 then n else sz)
        (if unat n \<le> unat sz + 12 then take_free a s else split_free a sz s))"
    using init a0 nb n
    by (simp add: allocate_memory_def first_fit_rel [OF rel sz] Some r SZ_MCB_def)
  show ?thesis
  proof (cases "unat n \<le> unat sz + 12")
    case True
    with safe have sole: "frees P = []" "frees Q = []" and low: "allocs P = [] \<longrightarrow> allocs Q = []"
      by (auto simp: alloc_safe_def Some r)
    let ?u = "take_free a s"
    let ?t = "insert_alloc a l1 q1 n ?u"
    have u: "mcbs ?u = mcbs s" "alloc_head ?u = alloc_head s" "heap_isinit ?u" "free_head ?u = NULL"
      using F init by (auto simp: take_free_def sole)
    have seg: "seg (mcbs ?u) NULL (alloc_head ?u) (allocs P) l1 q1" "seg (mcbs ?u) l1 q1 (allocs Q) l2 NULL"
      using A B by (simp_all add: u)
    have dist: "distinct (allocs P @ allocs Q)" "a \<notin> set (allocs P @ allocs Q)"
      using tiles_distinct_allocs [OF tl] ord by (auto simp: bs)
    note ins = insert_alloc_lists [OF seg dist a0 low refl, where n = n]
    have tl': "tiles lo (P @ (a, n, False) # Q) hi" using tl by (auto simp: bs)
    have "blk_size (mcbs ?t b) = m" if "(b, m, f) \<in> set (P @ (a, n, False) # Q)" for b m f
    proof (cases "b = a")
      case True
      with tiles_unique [OF tl', of a n False m f] that ins(2) show ?thesis by auto
    next
      case False
      with that have "(b, m, f) \<in> set bs" by (auto simp: bs)
      with False ins(3) u heap_rel_size [OF rel] show ?thesis by simp
    qed
    then have "heap_rel ?t (P @ (a, n, False) # Q)"
      using tl' ins(1,5,6) u lh sole unfolding heap_rel_def by auto
    with run True show ?thesis by (simp add: a_alloc_def Some r)
  next
    case False
    let ?new = "a + 12 + sz" and ?rest = "n - (sz + 12)"
    let ?bs' = "P @ (a, sz, False) # (?new, ?rest, True) # Q"
    have an: "unat a + 12 + unat n \<le> hi" using tiles_range [OF tl, of a n True] by (simp add: bs)
    have sz12: "unat (sz + 12) = unat sz + 12" using sz by (simp add: unat_simps)
    have unew: "unat ?new = unat a + 12 + unat sz"
    proof -
      have "unat (a + 12) = unat a + 12" using an lh(2) by (simp add: unat_simps)
      then show ?thesis using an lh(2) False by (simp add: unat_simps)
    qed
    have urest: "unat ?rest = unat n - (unat sz + 12)"
      using False sz12 by (simp add: unat_simps)
    from safe have low: "allocs P = [] \<longrightarrow> allocs Q = []"
      by (auto simp: alloc_safe_def Some r)
    have tl': "tiles lo ?bs' hi"
    proof -
      have "unat a + 12 + unat sz + 12 + unat ?rest = unat a + 12 + unat n"
        using urest False by linarith
      moreover have "tiles lo P (unat a)" "tiles (unat a + 12 + unat n) Q hi" using tl by (auto simp: bs)
      ultimately show ?thesis
        unfolding tiles_append by (intro exI [of _ "unat a"]) (simp only: tiles.simps unew simp_thms)
    qed
    have new_in: "?new \<notin> set (frees P @ a # frees Q)" "?new \<notin> set (allocs P @ a # allocs Q)" "?new \<noteq> NULL"
      using tiles_frees_not_allocs [OF tl'] tiles_distinct_frees [OF tl'] an lh(2) unew
      by (auto simp: word_unat_eq_iff)
    have dist: "distinct (frees P @ a # frees Q)" "distinct (allocs P @ allocs Q)" "a \<notin> set (allocs P @ allocs Q)"
      using tiles_distinct_frees [OF tl] tiles_distinct_allocs [OF tl] ord by (auto simp: bs)
    have new_eq: "?new = a + (sz + SZ_MCB)" by (simp add: SZ_MCB_def)
    let ?u = "split_free a sz s"
    note sp = split_free_lists [OF F dist(1) new_eq new_in(1,3)]
    have same: "mcbs ?u x = mcbs s x" if "x \<in> set (allocs P @ allocs Q)" for x
      using that new_in tiles_frees_not_allocs [OF tl] by (intro sp(4)) (auto simp: bs)
    have seg: "seg (mcbs ?u) NULL (alloc_head ?u) (allocs P) l1 q1" "seg (mcbs ?u) l1 q1 (allocs Q) l2 NULL"
      unfolding sp(5) using A B same by (simp_all cong: seg_cong)
    let ?t = "insert_alloc a l1 q1 sz ?u"
    note ins = insert_alloc_lists [OF seg dist(2,3) a0 low refl, where n = sz]
    have keep: "mcbs ?t x = mcbs ?u x" if "x \<in> set (frees P @ ?new # frees Q)" for x
      using that new_in dist tiles_frees_not_allocs [OF tl'] by (intro ins(4)) auto
    have "dll (mcbs ?t) (free_head ?t) (frees ?bs')"
      unfolding ins(5) using sp(1) keep
        seg_cong [of "frees P @ ?new # frees Q" "mcbs ?t" "mcbs ?u"] by simp
    moreover have "dll (mcbs ?t) (alloc_head ?t) (allocs ?bs')" using ins(1) by simp
    moreover have "blk_size (mcbs ?t b) = m" if mem: "(b, m, f) \<in> set ?bs'" for b m f
    proof (cases "b = a \<or> b = ?new")
      case True
      have "a \<noteq> ?new" using new_in by auto
      with True tiles_unique [OF tl' mem, of sz False] tiles_unique [OF tl' mem, of ?rest True]
      show ?thesis using ins(2) ins(3) [of ?new] sp(2) n by (auto simp: SZ_MCB_def)
    next
      case False
      with mem have "(b, m, f) \<in> set bs" by (auto simp: bs)
      with False ins(3) sp(3) heap_rel_size [OF rel] show ?thesis by simp
    qed
    ultimately have "heap_rel ?t ?bs'"
      using tl' lh ins(6) sp(6) init unfolding heap_rel_def by blast
    with run False show ?thesis by (simp add: a_alloc_def Some r)
  qed
qed

end
