(* ===== verification/Heap_Free.thy ===== *)
theory Heap_Free
  imports Heap_Alloc
begin

text \<open>
  The refinement of \<^verbatim>\<open>free_memory\<close>: the released block is merged with the
  free blocks around it.
\<close>

fun block_at :: "addr \<Rightarrow> block list \<Rightarrow> (block list \<times> u32 \<times> block list) option" where
  "block_at b [] = None"
| "block_at b ((a, n, f) # bs) =
     (if a = b \<and> \<not> f then Some ([], n, bs)
      else map_option (\<lambda>(P, r). ((a, n, f) # P, r)) (block_at b bs))"

fun merge_right :: "u32 \<Rightarrow> block list \<Rightarrow> u32 \<times> block list" where
  "merge_right n ((a, m, True) # Q) = (n + (m + 12), Q)"
| "merge_right n Q = (n, Q)"

definition ends_free :: "block list \<Rightarrow> bool" where
  "ends_free P = (P \<noteq> [] \<and> snd (snd (last P)))"

definition a_free :: "addr \<Rightarrow> block list \<Rightarrow> block list" where
  "a_free b bs =
     (case block_at b bs of
        None \<Rightarrow> bs
      | Some (P, n, Q) \<Rightarrow>
          (let (k, R) = merge_right n Q
           in if ends_free P
              then butlast P @ (fst (last P), fst (snd (last P)) + (k + 12), True) # R
              else P @ (b, k, True) # R))"

definition free_safe :: "addr \<Rightarrow> block list \<Rightarrow> bool" where
  "free_safe b bs =
     (case block_at b bs of None \<Rightarrow> True | Some (P, n, Q) \<Rightarrow> frees P = [] \<or> ends_free P)"

lemma block_at_Some: "block_at b bs = Some (P, n, Q) \<Longrightarrow> bs = P @ (b, n, False) # Q"
  by (induction b bs arbitrary: P rule: block_at.induct) (auto split: if_splits)

lemma block_at_None: "block_at b bs = None \<longleftrightarrow> b \<notin> set (allocs bs)"
  by (induction b bs rule: block_at.induct) auto

lemma unat_block_end:
  "unat b + 12 + unat n < 2 ^ 32 \<Longrightarrow> unat (b + 12 + n :: u32) = unat b + 12 + unat n"
proof -
  assume a: "unat b + 12 + unat n < 2 ^ 32"
  then have "unat (b + 12) = unat b + 12" by (simp add: unat_simps)
  with a show ?thesis by (simp add: unat_simps)
qed

lemma unat_joined:
  "unat n + (unat m + 12) < 2 ^ 32 \<Longrightarrow> unat (n + (m + 12) :: u32) = unat n + (unat m + 12)"
proof -
  assume a: "unat n + (unat m + 12) < 2 ^ 32"
  then have "unat (m + 12) = unat m + 12" by (simp add: unat_simps)
  with a show ?thesis by (simp add: unat_simps)
qed

text \<open>In an address-ordered tiling, meeting the next free block means that it comes next.\<close>

lemma merge_right_tiles:
  assumes tl: "tiles (unat b + 12 + unat n) Q hi" and hi: "hi < 2 ^ 32"
    and nxt: "nxt = (if frees Q = [] then NULL else hd (frees Q))"
    and mr: "merge_right n Q = (k, R)"
  defines "joins \<equiv> frees Q \<noteq> [] \<and> b + 12 + n = nxt"
  shows "tiles (unat b + 12 + unat k) R hi" and "allocs R = allocs Q"
    and "frees R = (if joins then tl (frees Q) else frees Q)"
    and "joins \<Longrightarrow> \<exists>m. (nxt, m, True) \<in> set Q \<and> k = n + (m + 12)"
    and "\<not> joins \<Longrightarrow> k = n" and "set R \<subseteq> set Q" and "joins \<Longrightarrow> nxt \<notin> set (frees R)"
proof -
  have be: "unat (b + 12 + n) = unat b + 12 + unat n"
    using tiles_le [OF tl] hi by (intro unat_block_end) simp
  have "tiles (unat b + 12 + unat k) R hi \<and> allocs R = allocs Q \<and>
    frees R = (if joins then tl (frees Q) else frees Q) \<and>
    (joins \<longrightarrow> (\<exists>m. (nxt, m, True) \<in> set Q \<and> k = n + (m + 12))) \<and> (\<not> joins \<longrightarrow> k = n) \<and>
    set R \<subseteq> set Q \<and> (joins \<longrightarrow> nxt \<notin> set (frees R))"
  proof (cases Q)
    case Nil
    with mr tl show ?thesis by (simp add: joins_def)
  next
    case (Cons x Q')
    obtain a m f where x: "x = (a, m, f)" by (cases x)
    have a: "unat a = unat b + 12 + unat n" and tl': "tiles (unat a + 12 + unat m) Q' hi"
      using tl by (auto simp: Cons x)
    show ?thesis
    proof (cases f)
      case True
      have "a = b + 12 + n" using a be by (simp add: word_unat_eq_iff)
      then have j: joins and n1: "nxt = a" using True by (simp_all add: joins_def nxt Cons x)
      have kR: "k = n + (m + 12)" "R = Q'" using mr True by (simp_all add: Cons x)
      have "unat k = unat n + (unat m + 12)"
        unfolding kR using tiles_le [OF tl'] a hi by (intro unat_joined) simp
      then have "unat b + 12 + unat k = unat a + 12 + unat m" using a by simp
      then have "tiles (unat b + 12 + unat k) Q' hi" by (simp only: tl')
      moreover have "a \<notin> set (frees Q')" using tiles_range [OF tl', of a _ True] by (auto simp: set_frees)
      ultimately show ?thesis using j n1 kR True by (auto simp: Cons x)
    next
      case False
      have "nxt \<noteq> b + 12 + n" if "frees Q \<noteq> []"
      proof -
        have "nxt \<in> set (frees Q')" using that False by (auto simp: nxt Cons x)
        then have "unat a < unat nxt" using tiles_range [OF tl', of nxt _ True] by (fastforce simp: set_frees)
        with a be show ?thesis by auto
      qed
      then have "\<not> joins" by (auto simp: joins_def)
      moreover have "k = n" "R = Q" using mr False by (simp_all add: Cons x)
      ultimately show ?thesis using tl by simp
    qed
  qed
  then show "tiles (unat b + 12 + unat k) R hi" "allocs R = allocs Q"
    "frees R = (if joins then tl (frees Q) else frees Q)"
    "joins \<Longrightarrow> \<exists>m. (nxt, m, True) \<in> set Q \<and> k = n + (m + 12)"
    "\<not> joins \<Longrightarrow> k = n" "set R \<subseteq> set Q" "joins \<Longrightarrow> nxt \<notin> set (frees R)" by blast+
qed

text \<open>
  The first half of a release: the block leaves the allocated list, and the search finds its
  neighbours in the free list.
\<close>

lemma release_start:
  assumes rel: "heap_rel s bs" and blk: "block_at b bs = Some (P, n, Q)"
  shows "\<exists>u sel nxt lf l. seg (mcbs s) NULL (alloc_head s) (allocs P @ b # allocs Q) l NULL \<and>
    unlink_alloc b s = Some u \<and> dll (mcbs u) (alloc_head u) (allocs P @ allocs Q) \<and>
    (\<forall>x. blk_size (mcbs u x) = blk_size (mcbs s x)) \<and> (\<forall>x. x \<notin> set (allocs P @ allocs Q) \<longrightarrow> mcbs u x = mcbs s x) \<and>
    free_head u = free_head s \<and> heap_isinit u = heap_isinit s \<and>
    seg (mcbs u) NULL (free_head u) (frees P) sel nxt \<and> seg (mcbs u) sel nxt (frees Q) lf NULL \<and>
    neighbours (mcbs u) b (free_head u) = Some (sel, nxt)"
proof -
  have bs: "bs = P @ (b, n, False) # Q" using blk by (rule block_at_Some)
  obtain lo hi where lh: "0 < lo" "hi < 2 ^ 32" and tl: "tiles lo bs hi" using rel by (rule heap_rel_tiles)
  note ord = tiles_strict [OF tl [unfolded bs] lh(2)]
  obtain la where L: "seg (mcbs s) NULL (alloc_head s) (allocs P @ b # allocs Q) la NULL"
    using rel unfolding heap_rel_def bs by auto
  have dA: "distinct (allocs P @ b # allocs Q)" using tiles_distinct_allocs [OF tl] by (simp add: bs)
  obtain u where u: "unlink_alloc b s = Some u" "dll (mcbs u) (alloc_head u) (allocs P @ allocs Q)"
    "\<And>x. blk_size (mcbs u x) = blk_size (mcbs s x)"
    "\<And>x. x \<notin> set (allocs P @ allocs Q) \<Longrightarrow> mcbs u x = mcbs s x"
    "free_head u = free_head s" "heap_isinit u = heap_isinit s"
    using unlink_alloc_lists [OF L dA] by metis
  obtain sel nxt lf where
    "seg (mcbs s) NULL (free_head s) (frees P) sel nxt" "seg (mcbs s) sel nxt (frees Q) lf NULL"
    using rel by (auto simp: heap_rel_def bs)
  moreover have "mcbs u x = mcbs s x" if "x \<in> set (frees P @ frees Q)" for x
    using that tiles_frees_not_allocs [OF tl] by (intro u(4)) (auto simp: bs)
  ultimately have F: "seg (mcbs u) NULL (free_head u) (frees P) sel nxt"
    and G: "seg (mcbs u) sel nxt (frees Q) lf NULL"
    using seg_cong [of "frees P" "mcbs u" "mcbs s"] seg_cong [of "frees Q" "mcbs u" "mcbs s"] u(5)
    by simp_all
  have "neighbours (mcbs u) b (free_head u) = Some (sel, nxt)"
    using ord by (intro neighbours_seg [OF F G]) (auto simp: less_imp_le)
  with L u F G show ?thesis by blast
qed

text \<open>
  \<^verbatim>\<open>free_memory\<close> refines releasing with coalescing. Freeing a live
  block of a well-formed heap returns 0 and merges the block with the free blocks on either
  side, provided that no free block lies below it or the block directly below it is free.
\<close>

lemma free_rel:
  assumes rel: "heap_rel s bs" and mem: "b \<in> set (allocs bs)" and safe: "free_safe b bs"
  shows "\<exists>t. free_memory (b + 12) s = Some (0, t) \<and> heap_rel t (a_free b bs)"
proof -
  obtain P n Q where blk: "block_at b bs = Some (P, n, Q)"
    using mem block_at_None [of b bs] by (cases "block_at b bs") auto
  then have bs: "bs = P @ (b, n, False) # Q" by (rule block_at_Some)
  obtain lo hi where lh: "0 < lo" "hi < 2 ^ 32" and tl: "tiles lo bs hi" using rel by (rule heap_rel_tiles)
  note ord = tiles_strict [OF tl [unfolded bs] lh(2)]
  have init: "heap_isinit s" using rel by (simp add: heap_rel_def)
  have size: "blk_size (mcbs s a) = m" if "(a, m, f) \<in> set bs" for a m f
    using that by (rule heap_rel_size [OF rel])
  obtain u sel nxt lf la where L: "seg (mcbs s) NULL (alloc_head s) (allocs P @ b # allocs Q) la NULL" and
    u: "unlink_alloc b s = Some u" "dll (mcbs u) (alloc_head u) (allocs P @ allocs Q)"
      "\<And>x. blk_size (mcbs u x) = blk_size (mcbs s x)"
      "\<And>x. x \<notin> set (allocs P @ allocs Q) \<Longrightarrow> mcbs u x = mcbs s x"
      "free_head u = free_head s" "heap_isinit u = heap_isinit s" and
    F: "seg (mcbs u) NULL (free_head u) (frees P) sel nxt" and G: "seg (mcbs u) sel nxt (frees Q) lf NULL" and
    nb: "neighbours (mcbs u) b (free_head u) = Some (sel, nxt)"
    using release_start [OF rel blk] by blast
  have b0: "b \<noteq> NULL" using seg_nonNULL [OF L] by auto
  have dA: "distinct (allocs P @ b # allocs Q)" using tiles_distinct_allocs [OF tl] by (simp add: bs)
  obtain k R where mr: "merge_right n Q = (k, R)" by (cases "merge_right n Q")
  have tlP: "tiles lo P (unat b)" and tlQ: "tiles (unat b + 12 + unat n) Q hi" using tl by (auto simp: bs)
  have nxt: "nxt = (if frees Q = [] then NULL else hd (frees Q))" by (rule seg_first [OF G])
  note mg = merge_right_tiles [OF tlQ lh(2) nxt mr]
  have sb: "blk_size (mcbs u b) = n" using size [of b n False] u(3) by (simp add: bs)
  have be: "block_end b u = b + 12 + n" by (simp add: block_end_def sb SZ_MCB_def)
  have dF: "distinct (frees P @ b # frees Q)"
    using tiles_distinct_frees [OF tl] ord by (auto simp: bs)
  have sel: "sel = (if frees P = [] then NULL else last (frees P))" by (rule seg_last [OF F])
  have adj: "frees P = [] \<or> block_end sel u = b"
  proof (cases "frees P = []")
    case False
    then have "ends_free P" using safe by (simp add: free_safe_def blk)
    then obtain P' c m where P: "P = P' @ [(c, m, True)]"
      by (cases P rule: rev_cases) (auto simp: ends_free_def)
    then have "sel = c" "unat c + 12 + unat m = unat b" using sel tlP by auto
    moreover have "blk_size (mcbs u c) = m" using size [of c m True] u(3) by (simp add: bs P)
    ultimately have "block_end sel u = c + 12 + m" by (simp add: block_end_def SZ_MCB_def)
    moreover have "unat (c + 12 + m) = unat b"
      using \<open>unat c + 12 + unat m = unat b\<close> u32_lt_4G [of b] by (subst unat_block_end) simp_all
    ultimately show ?thesis by (simp add: word_unat_eq_iff)
  qed simp
  define joins where "joins \<longleftrightarrow> frees Q \<noteq> [] \<and> b + 12 + n = nxt"
  note mg = mg [folded joins_def]
  define tgt where "tgt = (if frees P = [] then b else sel)"
  obtain t where run: "insert_free b sel nxt u = Some t" and
    t: "dll (mcbs t) (free_head t) ((if frees P = [] then [b] else frees P) @ (if joins then tl (frees Q) else frees Q))"
      "blk_size (mcbs t tgt) = (if frees P = [] then 0 else blk_size (mcbs u sel) + SZ_MCB) + n +
         (if joins then blk_size (mcbs u nxt) + SZ_MCB else 0)"
      "\<And>x. x \<noteq> tgt \<Longrightarrow> blk_size (mcbs t x) = blk_size (mcbs u x)"
      "\<And>x. x \<notin> set (frees P @ b # frees Q) \<Longrightarrow> mcbs t x = mcbs u x"
      "alloc_head t = alloc_head u" "heap_isinit t = heap_isinit u"
    using insert_free_lists [OF F G dF b0 adj, unfolded be sb, folded joins_def tgt_def] by blast
  have k: "k = n + (if joins then blk_size (mcbs u nxt) + SZ_MCB else 0)"
  proof (cases joins)
    case True
    with mg(4) obtain m where m: "(nxt, m, True) \<in> set Q" "k = n + (m + 12)" by blast
    then have "blk_size (mcbs u nxt) = m" using size [of nxt m True] u(3) by (simp add: bs)
    with m True show ?thesis by (simp add: SZ_MCB_def)
  next
    case False
    with mg(5) show ?thesis by simp
  qed
  have exec: "free_memory (b + 12) s = Some (0, t)"
    using init find_block_seg [OF L, of b] b0 u(1) nb run by (simp add: free_memory_def SZ_MCB_def)
  have alloc_list: "dll (mcbs t) (alloc_head t) (allocs P @ allocs Q)"
  proof -
    have "mcbs t x = mcbs u x" if "x \<in> set (allocs P @ allocs Q)" for x
      using that dA tiles_frees_not_allocs [OF tl] by (intro t(4)) (auto simp: bs)
    then show ?thesis
      unfolding t(5) using u(2) seg_cong [of "allocs P @ allocs Q" "mcbs t" "mcbs u"] by simp
  qed
  show ?thesis
  proof (cases "ends_free P")
    case True
    then obtain P' c m where P: "P = P' @ [(c, m, True)]"
      by (cases P rule: rev_cases) (auto simp: ends_free_def)
    have res: "a_free b bs = P' @ (c, m + (k + 12), True) # R"
      using True by (simp add: a_free_def blk mr P)
    have c: "sel = c" "tgt = c" "unat c + 12 + unat m = unat b" "tiles lo P' (unat c)"
      using sel tlP by (auto simp: P tgt_def)
    have um: "unat (m + (k + 12)) = unat m + (unat k + 12)"
      using tiles_le [OF mg(1)] c(3) lh(2) by (intro unat_joined) simp
    let ?bs = "P' @ (c, m + (k + 12), True) # R"
    have tl': "tiles lo ?bs hi"
    proof -
      have "unat c + 12 + unat (m + (k + 12)) = unat b + 12 + unat k" using um c(3) by simp
      then have "tiles (unat c + 12 + unat (m + (k + 12))) R hi" by (simp only: mg(1))
      with c(4) show ?thesis by auto
    qed
    have "blk_size (mcbs u c) = m" using size [of c m True] u(3) by (simp add: bs P)
    then have tc: "blk_size (mcbs t c) = m + (k + 12)"
      using t(2) c k by (simp add: P SZ_MCB_def algebra_simps)
    have "blk_size (mcbs t x) = y" if mem: "(x, y, f) \<in> set ?bs" for x y f
    proof (cases "x = c")
      case True
      with tiles_unique [OF tl' mem, of "m + (k + 12)" True] tc show ?thesis by simp
    next
      case False
      with mem mg(6) have "(x, y, f) \<in> set bs" by (auto simp: bs P)
      with False t(3) u(3) size c show ?thesis by simp
    qed
    moreover have "dll (mcbs t) (free_head t) (frees ?bs)" using t(1) mg(3) by (simp add: P)
    moreover have "dll (mcbs t) (alloc_head t) (allocs ?bs)" using alloc_list mg(2) by (simp add: P)
    ultimately have "heap_rel t ?bs"
      using tl' lh t(6) u(6) init unfolding heap_rel_def by blast
    with exec show ?thesis by (simp add: res)
  next
    case False
    then have nil: "frees P = []" using safe by (simp add: free_safe_def blk)
    have res: "a_free b bs = P @ (b, k, True) # R" using False by (simp add: a_free_def blk mr)
    let ?bs = "P @ (b, k, True) # R"
    have tl': "tiles lo ?bs hi" using tlP mg(1) by auto
    have "blk_size (mcbs t x) = y" if mem: "(x, y, f) \<in> set ?bs" for x y f
    proof (cases "x = b")
      case True
      with tiles_unique [OF tl' mem, of k True] t(2) k nil show ?thesis by (simp add: tgt_def)
    next
      case False
      with mem mg(6) have "(x, y, f) \<in> set bs" by (auto simp: bs)
      with False t(3) u(3) size nil show ?thesis by (simp add: tgt_def)
    qed
    moreover have "dll (mcbs t) (free_head t) (frees ?bs)" using t(1) mg(3) nil by simp
    moreover have "dll (mcbs t) (alloc_head t) (allocs ?bs)" using alloc_list mg(2) by simp
    ultimately have "heap_rel t ?bs"
      using tl' lh t(6) u(6) init unfolding heap_rel_def by blast
    with exec show ?thesis by (simp add: res)
  qed
qed

end
