(* ===== verification/Heap_Seq.thy ===== *)
theory Heap_Seq
  imports Heap_Free
begin

text \<open>
  Sequences of heap operations, the live pointers, coalescing and stack-like use, the start
  of the heap, and the sequences on which the heap manager goes wrong.
\<close>

lemma seg_unique: "seg h pr p xs l NULL \<Longrightarrow> seg h pr p ys l' NULL \<Longrightarrow> xs = ys"
proof (induction xs arbitrary: pr p ys)
  case Nil
  then show ?case by (cases ys) auto
next
  case (Cons x xs)
  then show ?case by (cases ys) auto
qed

definition live_ptrs :: "'a heap_scheme \<Rightarrow> addr set" where
  "live_ptrs s = {a + SZ_MCB | a. \<exists>xs. dll (mcbs s) (alloc_head s) xs \<and> a \<in> set xs}"

lemma live_ptrs_rel: "heap_rel s bs \<Longrightarrow> live_ptrs s = (\<lambda>a. a + 12) ` set (allocs bs)"
  unfolding heap_rel_def live_ptrs_def SZ_MCB_def by (auto dest: seg_unique)

lemma allocate_none:
  assumes "heap_rel s bs" "unat sz + 12 < 2 ^ 32" "fit_at sz bs = None"
  shows "allocate_memory sz s = Some (NULL, s)"
proof -
  have "heap_isinit s" using assms(1) by (simp add: heap_rel_def)
  then show ?thesis using first_fit_rel [OF assms(1,2)] assms(3) by (simp add: allocate_memory_def)
qed

lemma free_unknown:
  assumes rel: "heap_rel s bs" and unknown: "p - 12 \<notin> set (allocs bs)"
  shows "free_memory p s = Some (1, s)"
proof -
  obtain l where "seg (mcbs s) NULL (alloc_head s) (allocs bs) l NULL" "heap_isinit s"
    using rel by (auto simp: heap_rel_def)
  with unknown show ?thesis by (simp add: free_memory_def find_block_seg SZ_MCB_def)
qed

section \<open>Sequences of heap operations\<close>

datatype heap_op = Alloc u32 | Release addr

fun heap_run :: "heap_op list \<Rightarrow> 'a heap_scheme \<Rightarrow> (u32 list \<times> 'a heap_scheme) option" where
  "heap_run [] s = Some ([], s)"
| "heap_run (Alloc n # ops) s = do {
     (p, s) \<leftarrow> allocate_memory n s;
     (rs, s) \<leftarrow> heap_run ops s;
     Some (p # rs, s)
   }"
| "heap_run (Release p # ops) s = do {
     (r, s) \<leftarrow> free_memory p s;
     (rs, s) \<leftarrow> heap_run ops s;
     Some (word_of_int r # rs, s)
   }"

fun a_run :: "heap_op list \<Rightarrow> block list \<Rightarrow> u32 list \<times> block list" where
  "a_run [] bs = ([], bs)"
| "a_run (Alloc n # ops) bs =
     (let (p, bs) = a_alloc n bs; (rs, bs) = a_run ops bs in (p # rs, bs))"
| "a_run (Release p # ops) bs =
     (let r = (if p - 12 \<in> set (allocs bs) then 0 else 1);
          (rs, bs) = a_run ops (a_free (p - 12) bs)
      in (r # rs, bs))"

fun ops_safe :: "heap_op list \<Rightarrow> block list \<Rightarrow> bool" where
  "ops_safe [] bs = True"
| "ops_safe (Alloc n # ops) bs =
     (unat n + 12 < 2 ^ 32 \<and> alloc_safe n bs \<and> ops_safe ops (snd (a_alloc n bs)))"
| "ops_safe (Release p # ops) bs = (free_safe (p - 12) bs \<and> ops_safe ops (a_free (p - 12) bs))"

text \<open>
  Every sequence of allocations and releases whose steps are safe runs to its end on the
  linked lists, returns the pointers and codes of the abstract heap, and leaves a heap that
  its blocks describe.
\<close>

lemma heap_run_rel:
  "heap_rel s bs \<Longrightarrow> ops_safe ops bs \<Longrightarrow>
   \<exists>t. heap_run ops s = Some (fst (a_run ops bs), t) \<and> heap_rel t (snd (a_run ops bs))"
proof (induction ops arbitrary: s bs)
  case (Cons x ops)
  show ?case
  proof (cases x)
    case (Alloc n)
    with Cons.prems obtain t where t: "allocate_memory n s = Some (fst (a_alloc n bs), t)"
      "heap_rel t (snd (a_alloc n bs))"
      using allocate_rel [of s bs n] by auto
    moreover from Cons.prems Alloc have "ops_safe ops (snd (a_alloc n bs))" by simp
    ultimately obtain u where "heap_run ops t = Some (fst (a_run ops (snd (a_alloc n bs))), u)"
      "heap_rel u (snd (a_run ops (snd (a_alloc n bs))))"
      using Cons.IH by blast
    with t Alloc show ?thesis by (simp add: case_prod_unfold Let_def)
  next
    case (Release p)
    show ?thesis
    proof (cases "p - 12 \<in> set (allocs bs)")
      case True
      with Cons.prems Release obtain t where t: "free_memory p s = Some (0, t)"
        "heap_rel t (a_free (p - 12) bs)"
        using free_rel [of s bs "p - 12"] by auto
      moreover from Cons.prems Release have "ops_safe ops (a_free (p - 12) bs)" by simp
      ultimately obtain u where "heap_run ops t = Some (fst (a_run ops (a_free (p - 12) bs)), u)"
        "heap_rel u (snd (a_run ops (a_free (p - 12) bs)))"
        using Cons.IH by blast
      with t Release True show ?thesis by (simp add: case_prod_unfold Let_def)
    next
      case False
      then have "a_free (p - 12) bs = bs" by (simp add: a_free_def block_at_None [THEN iffD2])
      moreover from Cons.prems Release this have "ops_safe ops bs" by simp
      moreover from Cons.prems False have "free_memory p s = Some (1, s)" by (simp add: free_unknown)
      ultimately show ?thesis using Cons.IH [OF Cons.prems(1)] Release False
        by (auto simp: case_prod_unfold Let_def)
    qed
  qed
qed simp

section \<open>Adjacent free blocks and LIFO use\<close>

fun coalesced :: "block list \<Rightarrow> bool" where
  "coalesced ((a, n, f) # (b, m, g) # bs) = (\<not> (f \<and> g) \<and> coalesced ((b, m, g) # bs))"
| "coalesced bs = True"

definition starts_free :: "block list \<Rightarrow> bool" where
  "starts_free bs = (bs \<noteq> [] \<and> snd (snd (hd bs)))"

lemma coalesced_append:
  "coalesced (P @ Q) \<longleftrightarrow> coalesced P \<and> coalesced Q \<and> \<not> (ends_free P \<and> starts_free Q)"
proof (induction P)
  case (Cons x P)
  obtain a n f where x: "x = (a, n, f)" by (cases x)
  show ?case
  proof (cases P)
    case Nil
    show ?thesis
    proof (cases Q)
      case (Cons y Q')
      then show ?thesis by (cases y) (auto simp: x Nil ends_free_def starts_free_def)
    qed (simp add: x Nil starts_free_def)
  next
    case P: (Cons y P')
    obtain b m g where "y = (b, m, g)" by (cases y)
    with Cons.IH show ?thesis by (auto simp: x P ends_free_def)
  qed
qed (simp add: ends_free_def)

lemma coalesced_Cons:
  "coalesced ((a, n, f) # Q) \<longleftrightarrow> coalesced Q \<and> \<not> (f \<and> starts_free Q)"
  using coalesced_append [of "[(a, n, f)]" Q] by (simp add: ends_free_def)

lemma coalesced_alloc: "coalesced bs \<Longrightarrow> coalesced (snd (a_alloc sz bs))"
proof (cases "fit_at sz bs")
  case (Some r)
  assume co: "coalesced bs"
  obtain P a n Q where r: "r = (P, a, n, Q)" by (cases r)
  have "snd (a_alloc sz bs) = (if unat n \<le> unat sz + 12 then P @ (a, n, False) # Q
      else P @ (a, sz, False) # (a + 12 + sz, n - (sz + 12), True) # Q)"
    by (simp add: a_alloc_def Some r)
  moreover have "bs = P @ (a, n, True) # Q" using fit_at_Some [of sz bs] Some r by auto
  ultimately show ?thesis
    using co by (simp add: coalesced_append coalesced_Cons) (simp add: starts_free_def)
qed (simp add: a_alloc_def)

lemma merge_right_coalesced:
  "merge_right n Q = (k, R) \<Longrightarrow> coalesced Q \<Longrightarrow> coalesced R \<and> \<not> starts_free R"
  by (cases "(n, Q)" rule: merge_right.cases)
     (auto simp: coalesced_Cons starts_free_def)

lemma coalesced_free: "coalesced bs \<Longrightarrow> coalesced (a_free b bs)"
proof (cases "block_at b bs")
  case (Some r)
  assume co: "coalesced bs"
  obtain P n Q where r: "r = (P, n, Q)" by (cases r)
  have bs: "bs = P @ (b, n, False) # Q" using block_at_Some [of b bs] Some r by auto
  obtain k R where mr: "merge_right n Q = (k, R)" by (cases "merge_right n Q")
  have cP: "coalesced P" and cQ: "coalesced Q"
    using co by (auto simp: bs coalesced_append coalesced_Cons)
  from merge_right_coalesced [OF mr cQ] have R: "coalesced R" "\<not> starts_free R" by auto
  show ?thesis
  proof (cases "ends_free P")
    case True
    then obtain P' c m where P: "P = P' @ [(c, m, True)]"
      by (cases P rule: rev_cases) (auto simp: ends_free_def)
    with cP R show ?thesis
      using True by (auto simp: a_free_def Some r mr coalesced_append coalesced_Cons starts_free_def)
  next
    case False
    with cP R show ?thesis
      by (auto simp: a_free_def Some r mr coalesced_append coalesced_Cons)
  qed
qed (simp add: a_free_def)

definition stack_like :: "block list \<Rightarrow> bool" where
  "stack_like bs = (bs \<noteq> [] \<and> snd (snd (last bs)) \<and> frees (butlast bs) = [])"

lemma stack_likeE:
  assumes "stack_like bs"
  obtains P a n where "bs = P @ [(a, n, True)]" "frees P = []"
  using assms by (cases bs rule: rev_cases) (auto simp: stack_like_def)

lemma fit_at_no_free: "frees P = [] \<Longrightarrow> fit_at sz (P @ Q) = map_option (\<lambda>(R, r). (P @ R, r)) (fit_at sz Q)"
proof (induction P)
  case Nil
  then show ?case by (cases "fit_at sz Q") auto
next
  case (Cons x P)
  then show ?case by (cases x) (auto split: if_splits simp: option.map_comp comp_def case_prod_unfold)
qed

lemma block_at_stack:
  "b \<notin> set (allocs P) \<Longrightarrow> block_at b (P @ (b, n, False) # Q) = Some (P, n, Q)"
proof (induction P)
  case (Cons x P)
  then show ?case by (cases x) (auto split: if_splits)
qed simp

text \<open>
  Used as a stack, the heap gives back what it handed out. When all free space is one
  block at the end, an allocation that leaves room returns a pointer that was not live before
  and is live now, keeps the free space one block at the end, and releasing that pointer
  returns 0 and restores the blocks of the start.
\<close>

lemma lifo_rel:
  assumes rel: "heap_rel s bs" and st: "stack_like bs"
    and room: "unat sz + 12 < unat (fst (snd (last bs)))"
  shows "\<exists>p t u. allocate_memory sz s = Some (p, t) \<and> p \<noteq> NULL \<and> p \<notin> live_ptrs s \<and>
    live_ptrs t = insert p (live_ptrs s) \<and> heap_rel t (snd (a_alloc sz bs)) \<and>
    stack_like (snd (a_alloc sz bs)) \<and> free_memory p t = Some (0, u) \<and> heap_rel u bs"
proof -
  from st obtain P a n where bs: "bs = P @ [(a, n, True)]" and fP: "frees P = []" by (rule stack_likeE)
  have room': "unat sz + 12 < unat n" using room by (simp add: bs)
  then have small: "unat sz + 12 < 2 ^ 32" using u32_lt_4G [of n] by simp
  have "sz \<le> n" using room' by (simp add: word_le_nat_alt)
  then have fit: "fit_at sz bs = Some (P, a, n, [])" by (simp add: bs fit_at_no_free fP)
  let ?bs = "P @ [(a, sz, False), (a + 12 + sz, n - (sz + 12), True)]"
  have res: "a_alloc sz bs = (a + 12, ?bs)" using room' by (simp add: a_alloc_def fit)
  have "alloc_safe sz bs" using room' by (simp add: alloc_safe_def fit)
  from allocate_rel [OF rel small this] obtain t where
    t: "allocate_memory sz s = Some (a + 12, t)" "heap_rel t ?bs" by (auto simp: res)
  obtain lo hi where lh: "0 < lo" "hi < 2 ^ 32" and tl: "tiles lo ?bs hi" using t(2) by (rule heap_rel_tiles)
  have aP: "a \<notin> set (allocs P)" using tiles_distinct_allocs [OF tl] by simp
  have blk: "block_at a ?bs = Some (P, sz, [(a + 12 + sz, n - (sz + 12), True)])"
    by (rule block_at_stack [OF aP])
  have "free_safe a ?bs" by (simp add: free_safe_def blk fP)
  moreover have "a \<in> set (allocs ?bs)" by simp
  ultimately obtain u where u: "free_memory (a + 12) t = Some (0, u)" "heap_rel u (a_free a ?bs)"
    using free_rel [OF t(2)] by blast
  have "\<not> ends_free P" using fP by (cases P rule: rev_cases) (auto simp: ends_free_def)
  then have restored: "a_free a ?bs = bs" by (simp add: a_free_def blk bs)
  have ne: "a + 12 \<noteq> NULL"
  proof -
    have "unat (a + 12) = unat a + 12" using tl lh by (auto simp: unat_simps dest!: tiles_le)
    then show ?thesis by auto
  qed
  have "live_ptrs s = (\<lambda>a. a + 12) ` set (allocs P)" "live_ptrs t = insert (a + 12) ((\<lambda>a. a + 12) ` set (allocs P))"
    using live_ptrs_rel [OF rel] live_ptrs_rel [OF t(2)] by (auto simp: bs)
  moreover have "a + 12 \<notin> (\<lambda>a. a + 12) ` set (allocs P)" using aP by auto
  moreover have "stack_like ?bs" by (simp add: stack_like_def butlast_append fP)
  ultimately show ?thesis using t u ne res restored by auto
qed

section \<open>Start-up\<close>

text \<open>
  \<^verbatim>\<open>initialize_heap\<close> on the primitive heap of the running kernel
  produces a well-formed heap that is one free block.
\<close>

lemma initialize_heap_rel:
  assumes "\<not> heap_isinit s" and "heap_is_initialized s" and "heap_addr s \<noteq> 0" and "12 \<le> sz"
    and "unat (heap_addr s) + unat sz \<le> unat (KHEAP_BASE + KHEAP_SIZE)"
    and "alloc_head s = NULL"
  shows "\<exists>t. initialize_heap sz s = Some t \<and> heap_rel t [(heap_addr s, sz - 12, True)]"
proof -
  let ?a = "heap_addr s"
  have lim: "unat ?a + unat sz < 2 ^ 32" using assms(5) by (simp add: vm_consts)
  then have "unat (?a + sz) = unat ?a + unat sz" by (simp add: unat_simps)
  then have "\<not> ?a + sz > KHEAP_BASE + KHEAP_SIZE" using assms(5) by (simp add: word_less_nat_alt)
  moreover have "0 < unat ?a" using assms(3) by (simp add: unat_gt_0)
  moreover have "unat ?a + 12 + unat (sz - 12) < 2 ^ 32"
    using lim assms(4) by (simp add: unat_simps word_le_nat_alt)
  ultimately show ?thesis
    using assms(1-3,6)
    by (auto simp: initialize_heap_def kmalloc_def alloc_def Let_def heap_rel_def SZ_MCB_def
        intro!: exI [of _ "unat ?a"])
qed

end
