(* ===== verification/Heap_Props.thy ===== *)
theory Heap_Props
  imports Heap_Seq
begin

text \<open>
  The statements of the heap manager's correctness, a concrete heap on which they are
  exercised, and the sequences on which the manager loses or hands out a block twice.
\<close>

section \<open>A concrete heap\<close>

text \<open>
  The state in which \<^verbatim>\<open>kmain\<close> calls \<^verbatim>\<open>initialize_heap\<close>: the
  kernel heap exists and the heap manager does not. \<open>heap_on\<close> is the heap of 50000 bytes
  that it then makes.
\<close>

definition boot_heap :: "'a \<Rightarrow> 'a heap_scheme" where
  "boot_heap x =
     \<lparr>m_env = (\<lambda>n h p. 0), m_count = 0, m_trace = [],
      frames = replicate 512 0, kdir = 0x200000, tables = (\<lambda>i. NULL), tables_phys = (\<lambda>i. 0),
      ptabs = (\<lambda>t i. zero_page), phys_alloc_addr = 0x300000, heap_addr = KHEAP_BASE,
      heap_is_initialized = True, cr0 = 0x80000000, cr3 = 0x201000,
      heap_isinit = False, free_head = NULL, alloc_head = NULL, global_heap = NULL,
      mcbs = (\<lambda>a. \<lparr>m_prev = 0, m_next = 0, blk_size = 0\<rparr>), \<dots> = x\<rparr>"

definition heap_on :: "'a \<Rightarrow> 'a heap_scheme" where
  "heap_on x = the (initialize_heap 50000 (boot_heap x))"

abbreviation heap50000 :: "unit heap_scheme" where
  "heap50000 \<equiv> heap_on ()"

lemmas heap_eval =
  allocate_memory_def free_memory_def first_fit.simps seek_pos.simps find_block.simps neighbours_def
  replaces_free_def SZ_MCB_def split_free_def take_free_def insert_alloc_def unlink_alloc_def
  block_end_def absorb_def merge_back_def join_forward_def insert_free_def Let_def
  set_next_def set_prev_def set_size_def

lemma heap_on_eq: "heap_on x = (boot_heap x)\<lparr>heap_addr := 0xD00C350, heap_isinit := True,
    free_head := 0xD000000, global_heap := 0xD000000,
    mcbs := (mcbs (boot_heap x))(0xD000000 := \<lparr>m_prev = 0, m_next = 0, blk_size = 49988\<rparr>)\<rparr>"
  by (simp add: heap_on_def initialize_heap_def kmalloc_def alloc_def vm_consts heap_eval boot_heap_def)

lemma heap_on_rel: "heap_rel (heap_on x) [(0xD000000, 49988, True)]"
  by (auto simp: heap_on_eq boot_heap_def heap_rel_def)

section \<open>Refinement\<close>

text \<open>
  \<^verbatim>\<open>initialize_heap\<close> on the primitive heap of the running kernel
  produces a well-formed heap that is one free block.
\<close>

theorem initialize_heap_refines:
  assumes "\<not> heap_isinit s" and "heap_is_initialized s" and "heap_addr s \<noteq> 0" and "12 \<le> sz"
    and "unat (heap_addr s) + unat sz \<le> unat (KHEAP_BASE + KHEAP_SIZE)"
    and "alloc_head s = NULL"
  shows "\<exists>t. initialize_heap sz s = Some t \<and> heap_rel t [(heap_addr s, sz - 12, True)]"
  by (rule initialize_heap_rel [OF assms])

theorem initialize_heap_refines_witness:
  "\<exists>t. initialize_heap 50000 (boot_heap ()) = Some t \<and> heap_rel t [(KHEAP_BASE, 49988, True)]"
  using initialize_heap_refines [of "boot_heap ()" 50000] by (simp add: boot_heap_def vm_consts)

text \<open>
  C1: \<^verbatim>\<open>allocate_memory\<close> refines first fit on the tiled heap. From a
  well-formed heap, and when the first fitting free block can be split (or is the only free
  block) and does not lie below every allocated block, the call returns the address that
  first fit chooses, or NULL when no free block is large enough, and leaves a well-formed heap
  whose blocks are those of the abstract operation.
\<close>

theorem allocate_refines:
  assumes "heap_rel s bs" and "unat sz + 12 < 2 ^ 32" and "alloc_safe sz bs"
  shows "\<exists>t. allocate_memory sz s = Some (fst (a_alloc sz bs), t) \<and> heap_rel t (snd (a_alloc sz bs))"
  by (rule allocate_rel [OF assms])

theorem allocate_refines_witness:
  "\<exists>t. allocate_memory 100 heap50000 = Some (0xD00000C, t) \<and>
     heap_rel t [(0xD000000, 100, False), (0xD000070, 49876, True)]"
  using allocate_refines [OF heap_on_rel [of "()"], of 100] by (simp add: a_alloc_def alloc_safe_def)

text \<open>
  C2: \<^verbatim>\<open>free_memory\<close> refines releasing with coalescing. Freeing a live
  block of a well-formed heap returns 0 and merges the block with the free blocks on either
  side, provided that no free block lies below it or the block directly below it is free.
\<close>

theorem free_refines:
  assumes "heap_rel s bs" and "b \<in> set (allocs bs)" and "free_safe b bs"
  shows "\<exists>t. free_memory (b + 12) s = Some (0, t) \<and> heap_rel t (a_free b bs)"
  by (rule free_rel [OF assms])

theorem free_refines_witness:
  "\<exists>s t. allocate_memory 100 heap50000 = Some (0xD00000C, s) \<and> free_memory (0xD000000 + 12) s = Some (0, t) \<and>
     heap_rel t [(0xD000000, 49988, True)]"
proof -
  obtain s where s: "allocate_memory 100 heap50000 = Some (0xD00000C, s)"
    "heap_rel s [(0xD000000, 100, False), (0xD000070, 49876, True)]"
    using allocate_rel [OF heap_on_rel [of "()"], of 100] by (auto simp: a_alloc_def alloc_safe_def)
  show ?thesis using free_refines [OF s(2), where b = "0xD000000"] s(1)
    by (auto simp: a_free_def free_safe_def ends_free_def)
qed

text \<open>
  Live blocks never overlap. In a well-formed heap, which every operation of the claims
  above keeps, the byte ranges behind two different live pointers are disjoint.
\<close>

theorem live_blocks_disjoint:
  assumes "heap_rel s bs" and "p \<in> live_ptrs s" and "q \<in> live_ptrs s" and "p \<noteq> q"
  shows "{unat p ..< unat p + unat (blk_size (mcbs s (p - 12)))} \<inter>
    {unat q ..< unat q + unat (blk_size (mcbs s (q - 12)))} = {}"
proof -
  obtain lo hi where lh: "0 < lo" "hi < 2 ^ 32" and tl: "tiles lo bs hi" using assms(1) by (rule heap_rel_tiles)
  have blk: "\<exists>a n. x = a + 12 \<and> (a, n, False) \<in> set bs \<and> blk_size (mcbs s (x - 12)) = n \<and>
      unat x = unat a + 12" if x: "x \<in> live_ptrs s" for x
  proof -
    obtain a n where a: "x = a + 12" "(a, n, False) \<in> set bs"
      using x unfolding live_ptrs_rel [OF assms(1)] set_allocs by blast
    moreover have "unat (a + 12) = unat a + 12"
      using tiles_range [OF tl a(2)] lh by (simp add: unat_simps)
    ultimately show ?thesis using heap_rel_size [OF assms(1) a(2)] by auto
  qed
  from blk [OF assms(2)] blk [OF assms(3)] show ?thesis
    using assms(4) tiles_disjoint [OF tl] by fastforce
qed

theorem live_blocks_disjoint_witness:
  "\<exists>s. map_option snd (heap_run [Alloc 16, Alloc 32] heap50000) = Some s \<and>
     {0xD00000C ..< 0xD00001C :: nat} \<inter> {0xD000028 ..< 0xD000048} = {}"
proof -
  obtain s where s: "heap_run [Alloc 16, Alloc 32] heap50000 = Some ([0xD00000C, 0xD000028], s)"
    "heap_rel s [(0xD000000, 16, False), (0xD00001C, 32, False), (0xD000048, 49916, True)]"
    using heap_run_rel [OF heap_on_rel [of "()"], of "[Alloc 16, Alloc 32]"]
    by (auto simp: a_alloc_def alloc_safe_def)
  then have "blk_size (mcbs s 0xD000000) = 16" "blk_size (mcbs s 0xD00001C) = 32"
    using heap_rel_size [OF s(2), where a = "0xD000000"] heap_rel_size [OF s(2), where a = "0xD00001C"] by auto
  with s(1) show ?thesis
    using live_blocks_disjoint [OF s(2), where p = "0xD00000C" and q = "0xD000028"]
    by (simp add: live_ptrs_rel [OF s(2)])
qed


text \<open>
  C4: Every sequence of allocations and releases whose steps are safe runs to its end on the
  linked lists, returns the pointers and codes of the abstract heap, and leaves a heap that
  its blocks describe.
\<close>

theorem heap_run_refines:
  assumes "heap_rel s bs" and "ops_safe ops bs"
  shows "\<exists>t. heap_run ops s = Some (fst (a_run ops bs), t) \<and> heap_rel t (snd (a_run ops bs))"
  by (rule heap_run_rel [OF assms])

theorem heap_run_refines_witness:
  "\<exists>t. heap_run [Alloc 16, Alloc 32, Release 0xD000028, Release 0xD00000C, Release 4] heap50000 =
     Some ([0xD00000C, 0xD000028, 0, 0, 1], t) \<and> heap_rel t [(0xD000000, 49988, True)]"
  using heap_run_refines [OF heap_on_rel [of "()"],
      of "[Alloc 16, Alloc 32, Release 0xD000028, Release 0xD00000C, Release 4]"]
  by (simp add: a_alloc_def alloc_safe_def a_free_def free_safe_def ends_free_def)

text \<open>
  Used as a stack, the heap gives back what it handed out. When all free space is one
  block at the end, an allocation that leaves room returns a pointer that was not live before
  and is live now, keeps the free space one block at the end, and releasing that pointer
  returns 0 and restores the blocks of the start.
\<close>

theorem lifo_roundtrip:
  assumes "heap_rel s bs" and "stack_like bs" and "unat sz + 12 < unat (fst (snd (last bs)))"
  shows "\<exists>p t u. allocate_memory sz s = Some (p, t) \<and> p \<noteq> NULL \<and> p \<notin> live_ptrs s \<and>
    live_ptrs t = insert p (live_ptrs s) \<and> heap_rel t (snd (a_alloc sz bs)) \<and>
    stack_like (snd (a_alloc sz bs)) \<and> free_memory p t = Some (0, u) \<and> heap_rel u bs"
  by (rule lifo_rel [OF assms])

theorem lifo_roundtrip_witness:
  "\<exists>p t u. allocate_memory 4096 heap50000 = Some (p, t) \<and> p \<noteq> NULL \<and>
     free_memory p t = Some (0, u) \<and> heap_rel u [(0xD000000, 49988, True)]"
  using lifo_roundtrip [OF heap_on_rel [of "()"], of 4096] by (auto simp: stack_like_def)

section \<open>Where the manager goes wrong\<close>


text \<open>
  The size computation wraps around. A request for 4294967284 bytes, 12 below the range
  of \<^verbatim>\<open>size_t\<close>, is granted by a heap of 50000 bytes.
\<close>

theorem heap_size_wraps:
  "map_option fst (heap_run [Alloc 4294967284] heap50000) = Some [0xD00000C]"
  by (simp add: heap_on_eq boot_heap_def heap_eval)

text \<open>
  A live block can be lost. An allocation below the first allocated block does not become
  the head of the allocated list, so that releasing it is refused with 1.
\<close>

theorem heap_lost_block:
  "map_option fst (heap_run [Alloc 16, Alloc 16, Release 0xD00000C, Alloc 16, Release 0xD00000C]
     heap50000) = Some [0xD00000C, 0xD000028, 0, 0xD00000C, 1]"
  by (simp add: heap_on_eq boot_heap_def heap_eval)

end
