(* ===== verification/Sysmem.thy ===== *)
theory Sysmem
  imports Heap_Props
begin

text \<open>
  The allocation interface of \<^verbatim>\<open>user/system.c\<close>. Every other component gets
  its memory through \<^verbatim>\<open>sys_alloc_mem\<close> and \<^verbatim>\<open>sys_free_mem\<close>,
  which call the heap manager through two function pointers once it is installed. The
  contract its clients use is the locale \<open>allocator\<close>.
\<close>

section \<open>The installed heap functions\<close>

datatype alloc_fn = No_Alloc_Fn | Allocate_Memory
datatype free_fn = No_Free_Fn | Free_Memory

record usr = heap +
  malloc_function :: alloc_fn
  free_function :: free_fn

definition sys_set_heap_functions :: "alloc_fn \<Rightarrow> free_fn \<Rightarrow> 'a usr_scheme \<Rightarrow> 'a usr_scheme" where
  "sys_set_heap_functions alloc_fn free_fn s =
     s\<lparr>malloc_function := alloc_fn, free_function := free_fn\<rparr>"

definition sys_alloc_mem :: "u32 \<Rightarrow> 'a usr_scheme \<Rightarrow> (addr \<times> 'a usr_scheme) option" where
  "sys_alloc_mem sz s =
     (case malloc_function s of
        Allocate_Memory \<Rightarrow> allocate_memory sz s
      | No_Alloc_Fn \<Rightarrow> map_option (\<lambda>(a, _, t). (a, t)) (kmalloc sz False False s))"

definition sys_free_mem :: "addr \<Rightarrow> 'a usr_scheme \<Rightarrow> (int \<times> 'a usr_scheme) option" where
  "sys_free_mem ptr s =
     (case free_function s of
        Free_Memory \<Rightarrow> free_memory ptr s
      | No_Free_Fn \<Rightarrow> Some (- 1, s))"

section \<open>The contract\<close>

text \<open>
  \<open>room n s\<close>: a request of \<open>n\<close> bytes is one that the provider serves;
  \<open>releasable p s\<close>: the live pointer \<open>p\<close> can be given back in state \<open>s\<close>.
\<close>

locale allocator =
  fixes malloc :: "u32 \<Rightarrow> 's \<Rightarrow> (addr \<times> 's) option"
    and mfree :: "addr \<Rightarrow> 's \<Rightarrow> (int \<times> 's) option"
    and ok :: "'s \<Rightarrow> bool" and live :: "'s \<Rightarrow> addr set"
    and room :: "u32 \<Rightarrow> 's \<Rightarrow> bool" and releasable :: "addr \<Rightarrow> 's \<Rightarrow> bool"
  assumes malloc_fresh: "ok s \<Longrightarrow> room n s \<Longrightarrow>
      \<exists>p t. malloc n s = Some (p, t) \<and> p \<noteq> NULL \<and> p \<notin> live s \<and> live t = insert p (live s) \<and> ok t"
    and mfree_live: "ok s \<Longrightarrow> p \<in> live s \<Longrightarrow> releasable p s \<Longrightarrow>
      \<exists>t. mfree p s = Some (0, t) \<and> live t = live s - {p} \<and> ok t"
    and mfree_dead: "ok s \<Longrightarrow> p \<notin> live s \<Longrightarrow> mfree p s = Some (1, s)"
begin

text \<open>An object with a second object hanging off it.\<close>

lemma malloc_pair:
  assumes "ok s" "room n s" and second: "\<And>p t. malloc n s = Some (p, t) \<Longrightarrow> room m t"
  shows "\<exists>p t q u. malloc n s = Some (p, t) \<and> malloc m t = Some (q, u) \<and>
    p \<noteq> NULL \<and> q \<noteq> NULL \<and> p \<noteq> q \<and> p \<notin> live s \<and> q \<notin> live s \<and>
    live u = insert q (insert p (live s)) \<and> ok u"
proof -
  obtain p t where p: "malloc n s = Some (p, t)" "p \<noteq> NULL" "p \<notin> live s"
      "live t = insert p (live s)" "ok t"
    using malloc_fresh [OF assms(1,2)] by blast
  obtain q u where "malloc m t = Some (q, u)" "q \<noteq> NULL" "q \<notin> live t"
      "live u = insert q (live t)" "ok u"
    using malloc_fresh [OF p(5) second [OF p(1)]] by blast
  with p show ?thesis by auto
qed

lemma mfree_pair:
  assumes "ok s" "p \<in> live s" "q \<in> live s" "p \<noteq> q" "releasable q s"
    and second: "\<And>t. mfree q s = Some (0, t) \<Longrightarrow> releasable p t"
  shows "\<exists>t u. mfree q s = Some (0, t) \<and> mfree p t = Some (0, u) \<and> live u = live s - {p, q} \<and> ok u"
proof -
  obtain t where t: "mfree q s = Some (0, t)" "live t = live s - {q}" "ok t"
    using mfree_live [OF assms(1,3,5)] by blast
  moreover obtain u where "mfree p t = Some (0, u)" "live u = live t - {p}" "ok u"
    using mfree_live [OF t(3) _ second [OF t(1)]] t(2) assms(2,4) by blast
  ultimately show ?thesis by auto
qed

lemma double_free: "ok s \<Longrightarrow> p \<in> live s \<Longrightarrow> releasable p s \<Longrightarrow>
    \<exists>t. mfree p s = Some (0, t) \<and> mfree p t = Some (1, t)"
  using mfree_live [of s p] mfree_dead [of _ p] by blast

end

section \<open>The heap manager fulfils it\<close>

definition heap_ok :: "'a usr_scheme \<Rightarrow> bool" where
  "heap_ok s \<longleftrightarrow> malloc_function s = Allocate_Memory \<and> free_function s = Free_Memory \<and>
     (\<exists>bs. heap_rel s bs)"

definition heap_room :: "u32 \<Rightarrow> 'a usr_scheme \<Rightarrow> bool" where
  "heap_room n s \<longleftrightarrow> unat n + 12 < 2 ^ 32 \<and>
     (\<exists>bs. heap_rel s bs \<and> fit_at n bs \<noteq> None \<and> alloc_safe n bs)"

definition heap_releasable :: "addr \<Rightarrow> 'a usr_scheme \<Rightarrow> bool" where
  "heap_releasable p s \<longleftrightarrow> (\<exists>bs. heap_rel s bs \<and> free_safe (p - 12) bs)"

lemma fns_touch: "heap_touch s t \<Longrightarrow>
    malloc_function t = malloc_function s \<and> free_function t = free_function s"
  by (cases s; cases t) (simp add: heap_touch_def)

lemma allocs_a_alloc:
  assumes "fit_at n bs = Some (P, a, m, Q)"
  shows "fst (a_alloc n bs) = a + 12" and "set (allocs (snd (a_alloc n bs))) = insert a (set (allocs bs))"
proof -
  have "set (allocs bs) = set (allocs (P @ (a, m, True) # Q))" using fit_at_Some [OF assms] by simp
  then show "set (allocs (snd (a_alloc n bs))) = insert a (set (allocs bs))"
    by (auto simp: a_alloc_def assms)
  show "fst (a_alloc n bs) = a + 12" by (simp add: a_alloc_def assms)
qed

lemma allocs_a_free:
  assumes "b \<in> set (allocs bs)" "distinct (allocs bs)"
  shows "set (allocs (a_free b bs)) = set (allocs bs) - {b}"
proof -
  obtain P n Q where blk: "block_at b bs = Some (P, n, Q)"
    using assms(1) block_at_None [of b bs] by (cases "block_at b bs") auto
  have bs: "allocs bs = allocs P @ b # allocs Q" using block_at_Some [OF blk] by simp
  obtain k R where mr: "merge_right n Q = (k, R)" by (cases "merge_right n Q")
  have R: "allocs R = allocs Q" using mr by (cases "(n, Q)" rule: merge_right.cases) auto
  have P: "ends_free P \<Longrightarrow> allocs (butlast P) = allocs P"
    by (cases P rule: rev_cases) (auto simp: ends_free_def)
  have "allocs (a_free b bs) = allocs P @ allocs Q"
    using P R by (simp add: a_free_def blk mr)
  with bs assms(2) show ?thesis by auto
qed

lemma heap_rel_alloc_nonNULL:
  assumes "heap_rel s bs" "b \<in> set (allocs bs)"
  shows "b + 12 \<noteq> NULL"
proof -
  obtain lo hi where lh: "0 < lo" "hi < 2 ^ 32" and tl: "tiles lo bs hi" using assms(1) by (rule heap_rel_tiles)
  obtain n where "(b, n, False) \<in> set bs" using assms(2) by (auto simp: set_allocs)
  from tiles_range [OF tl this] lh(2) have "unat (b + 12) = unat b + 12" by (simp add: unat_simps)
  then show ?thesis by auto
qed

interpretation heap: allocator sys_alloc_mem sys_free_mem heap_ok live_ptrs heap_room heap_releasable
proof
  fix s :: "'a usr_scheme" and n
  assume ok: "heap_ok s" and room: "heap_room n s"
  from ok have fns: "malloc_function s = Allocate_Memory" "free_function s = Free_Memory"
    by (simp_all add: heap_ok_def)
  from room obtain bs where rel: "heap_rel s bs" and small: "unat n + 12 < 2 ^ 32"
    and fit: "fit_at n bs \<noteq> None" and safe: "alloc_safe n bs" by (auto simp: heap_room_def)
  obtain P a m Q where f: "fit_at n bs = Some (P, a, m, Q)" using fit by (metis not_None_eq prod_cases3 surj_pair)
  note al = allocs_a_alloc [OF f]
  obtain t where t: "allocate_memory n s = Some (a + 12, t)" "heap_rel t (snd (a_alloc n bs))"
    using allocate_rel [OF rel small safe] al by auto
  obtain lo hi where "tiles lo bs hi" using rel by (auto elim: heap_rel_tiles)
  moreover have "a \<in> set (frees bs)" using fit_at_Some [OF f] by auto
  ultimately have "a \<notin> set (allocs bs)" using tiles_frees_not_allocs by blast
  then have "a + 12 \<notin> live_ptrs s" by (auto simp: live_ptrs_rel [OF rel])
  moreover have "live_ptrs t = insert (a + 12) (live_ptrs s)"
    using al by (simp add: live_ptrs_rel [OF rel] live_ptrs_rel [OF t(2)])
  moreover have "a + 12 \<noteq> NULL" using al by (intro heap_rel_alloc_nonNULL [OF t(2)]) simp
  moreover have "heap_ok t"
    using fns_touch [OF allocate_frame [OF t(1)]] fns t(2) by (auto simp: heap_ok_def)
  ultimately show "\<exists>p t. sys_alloc_mem n s = Some (p, t) \<and> p \<noteq> NULL \<and> p \<notin> live_ptrs s \<and>
      live_ptrs t = insert p (live_ptrs s) \<and> heap_ok t"
    using t(1) fns by (auto simp: sys_alloc_mem_def)
next
  fix s :: "'a usr_scheme" and p
  assume ok: "heap_ok s" and live: "p \<in> live_ptrs s" and rls: "heap_releasable p s"
  from ok have fns: "malloc_function s = Allocate_Memory" "free_function s = Free_Memory"
    by (simp_all add: heap_ok_def)
  from rls obtain bs where rel: "heap_rel s bs" and safe: "free_safe (p - 12) bs"
    by (auto simp: heap_releasable_def)
  have mem: "p - 12 \<in> set (allocs bs)" using live by (auto simp: live_ptrs_rel [OF rel])
  obtain t where t: "free_memory p s = Some (0, t)" "heap_rel t (a_free (p - 12) bs)"
    using free_rel [OF rel mem safe] by auto
  obtain lo hi where "tiles lo bs hi" using rel by (auto elim: heap_rel_tiles)
  then have "set (allocs (a_free (p - 12) bs)) = set (allocs bs) - {p - 12}"
    using mem by (intro allocs_a_free tiles_distinct_allocs)
  moreover have "inj (\<lambda>a :: addr. a + 12)" by (rule injI) simp
  ultimately have "live_ptrs t = live_ptrs s - {p}"
    unfolding live_ptrs_rel [OF rel] live_ptrs_rel [OF t(2)] by (simp add: image_set_diff)
  moreover have "heap_ok t"
    using fns_touch [OF free_frame [OF t(1)]] fns t(2) by (auto simp: heap_ok_def)
  ultimately show "\<exists>t. sys_free_mem p s = Some (0, t) \<and> live_ptrs t = live_ptrs s - {p} \<and> heap_ok t"
    using t(1) fns by (auto simp: sys_free_mem_def)
next
  fix s :: "'a usr_scheme" and p
  assume ok: "heap_ok s" and dead: "p \<notin> live_ptrs s"
  then obtain bs where rel: "heap_rel s bs" by (auto simp: heap_ok_def)
  have "p - 12 \<notin> set (allocs bs)"
  proof
    assume "p - 12 \<in> set (allocs bs)"
    then have "p - 12 + 12 \<in> live_ptrs s" unfolding live_ptrs_rel [OF rel] by (rule imageI)
    with dead show False by simp
  qed
  with rel ok show "sys_free_mem p s = Some (1, s)"
    by (simp add: sys_free_mem_def heap_ok_def free_unknown)
qed


text \<open>Room for two allocations in a row.\<close>

definition heap_room2 :: "u32 \<Rightarrow> u32 \<Rightarrow> 'a usr_scheme \<Rightarrow> bool" where
  "heap_room2 n m s \<longleftrightarrow> unat n + 12 < 2 ^ 32 \<and> unat m + 12 < 2 ^ 32 \<and>
     (\<exists>bs. heap_rel s bs \<and> fit_at n bs \<noteq> None \<and> alloc_safe n bs \<and>
        fit_at m (snd (a_alloc n bs)) \<noteq> None \<and> alloc_safe m (snd (a_alloc n bs)))"

lemma heap_room2_first: "heap_room2 n m s \<Longrightarrow> heap_room n s"
  by (auto simp: heap_room2_def heap_room_def)

lemma heap_room2_second:
  assumes "heap_ok s" and "heap_room2 n m s" and "sys_alloc_mem n s = Some (p, t)"
  shows "heap_room m t"
proof -
  obtain bs where bs: "heap_rel s bs" "alloc_safe n bs" "unat n + 12 < 2 ^ 32" "unat m + 12 < 2 ^ 32"
    "fit_at m (snd (a_alloc n bs)) \<noteq> None" "alloc_safe m (snd (a_alloc n bs))"
    using assms(2) by (auto simp: heap_room2_def)
  have "allocate_memory n s = Some (p, t)" using assms(1,3) by (simp add: heap_ok_def sys_alloc_mem_def)
  then have "heap_rel t (snd (a_alloc n bs))" using allocate_rel [OF bs(1,3,2)] by simp
  with bs show ?thesis by (auto simp: heap_room_def)
qed

text \<open>Two releases in a row.\<close>

definition heap_releasable2 :: "addr \<Rightarrow> addr \<Rightarrow> 'a usr_scheme \<Rightarrow> bool" where
  "heap_releasable2 p q s \<longleftrightarrow>
     (\<exists>bs. heap_rel s bs \<and> free_safe (p - 12) bs \<and> free_safe (q - 12) (a_free (p - 12) bs))"

lemma heap_releasable2_first: "heap_releasable2 p q s \<Longrightarrow> heap_releasable p s"
  by (auto simp: heap_releasable2_def heap_releasable_def)

lemma heap_releasable2_second:
  assumes "heap_ok s" and "heap_releasable2 p q s" and "p \<in> live_ptrs s" and "sys_free_mem p s = Some (0, t)"
  shows "heap_releasable q t"
proof -
  obtain bs where bs: "heap_rel s bs" "free_safe (p - 12) bs" "free_safe (q - 12) (a_free (p - 12) bs)"
    using assms(2) by (auto simp: heap_releasable2_def)
  have "p - 12 \<in> set (allocs bs)" using assms(3) by (auto simp: live_ptrs_rel [OF bs(1)])
  from free_rel [OF bs(1) this bs(2)] have "heap_rel t (a_free (p - 12) bs)"
    using assms(1,4) by (simp add: heap_ok_def sys_free_mem_def)
  with bs(3) show ?thesis by (auto simp: heap_releasable_def)
qed

lemma sys_alloc_touch: "heap_ok s \<Longrightarrow> sys_alloc_mem n s = Some (p, t) \<Longrightarrow> heap_touch s t"
  by (auto simp: heap_ok_def sys_alloc_mem_def intro: allocate_frame)

lemma sys_free_touch: "heap_ok s \<Longrightarrow> sys_free_mem p s = Some (r, t) \<Longrightarrow> heap_touch s t"
  by (auto simp: heap_ok_def sys_free_mem_def intro: free_frame)

lemma stack_releasable:
  assumes "heap_rel s bs" "stack_like bs"
  shows "heap_releasable p s"
proof -
  have "free_safe (p - 12) bs"
  proof (cases "block_at (p - 12) bs")
    case None
    then show ?thesis by (simp add: free_safe_def)
  next
    case (Some r)
    then obtain A n B where b: "block_at (p - 12) bs = Some (A, n, B)" by (cases r) auto
    note bs = block_at_Some [OF b]
    have "B \<noteq> []" using assms(2) unfolding bs stack_like_def by auto
    then have "frees A = []" using assms(2) unfolding bs stack_like_def by (simp add: butlast_append)
    then show ?thesis by (simp add: free_safe_def b)
  qed
  with assms(1) show ?thesis by (auto simp: heap_releasable_def)
qed

end
