(* ===== verification/Pcb.thy ===== *)
theory Pcb
  imports Sysmem Libc
begin

text \<open>
  Process control blocks and the four process queues of \<^verbatim>\<open>kernel/pcb.c\<close>.
  PCBs are objects of the typed heap \<open>pcbs\<close> at their addresses, linked through
  \<open>p_next\<close>; saved contexts are objects of \<open>ctxts\<close>; the bytes of stacks and caller
  buffers are \<open>ram\<close>.
\<close>

section \<open>Data\<close>

abbreviation (input) PCB_EXEC_BLOCKED :: "2 word" where "PCB_EXEC_BLOCKED \<equiv> 0"
abbreviation (input) PCB_EXEC_READY :: "2 word" where "PCB_EXEC_READY \<equiv> 1"
abbreviation (input) PCB_EXEC_RUNNING :: "2 word" where "PCB_EXEC_RUNNING \<equiv> 2"
abbreviation (input) PCB_DPATCH_SUSPENDED :: "1 word" where "PCB_DPATCH_SUSPENDED \<equiv> 0"
abbreviation (input) PCB_DPATCH_ACTIVE :: "1 word" where "PCB_DPATCH_ACTIVE \<equiv> 1"
abbreviation (input) PCB_CLASS_SYSTEM :: u32 where "PCB_CLASS_SYSTEM \<equiv> 0"
abbreviation (input) PCB_CLASS_USER :: u32 where "PCB_CLASS_USER \<equiv> 1"
abbreviation (input) MPX_PCB_PROCNAME_BUFFER_SZ :: nat where "MPX_PCB_PROCNAME_BUFFER_SZ \<equiv> 64"
abbreviation (input) MPX_PCB_STACK_SZ :: u32 where "MPX_PCB_STACK_SZ \<equiv> 4096"
abbreviation (input) MPX_PCB_MAX_ARG_SZ :: nat where "MPX_PCB_MAX_ARG_SZ \<equiv> 32"

record pcb_state =
  exec :: "2 word"
  dpatch :: "1 word"
  cls :: "1 word"
  pri :: "4 word"

record pcb =
  p_next :: addr
  p_state :: pcb_state
  pstackseg :: addr
  pctxt :: addr
  p_name :: "u8 list"

record pcb_queue =
  pcb_head :: addr
  pcb_tail :: addr
  ispriority :: u8

record ctxt =
  c_gs :: u16
  c_fs :: u16
  c_es :: u16
  c_ds :: u16
  c_ss :: u16
  c_edi :: u32
  c_esi :: u32
  c_ebp :: u32
  c_esp :: u32
  c_ebx :: u32
  c_edx :: u32
  c_ecx :: u32
  c_eax :: u32
  c_eip :: u32
  c_cs :: u16
  c_eflags :: u32

definition SZ_PCB :: u32 where "SZ_PCB = 80"
definition SZ_CONTEXT :: u32 where "SZ_CONTEXT = 64"

record procs = usr +
  pcbs :: "addr \<Rightarrow> pcb"
  pcb_queues :: "nat \<Rightarrow> pcb_queue"
  pcb_running :: addr
  ctxts :: "addr \<Rightarrow> ctxt"
  ram :: "addr \<Rightarrow> u8"

definition PSTATE_QUEUE_SELECTOR :: "pcb_state \<Rightarrow> nat" where
  "PSTATE_QUEUE_SELECTOR st =
     (if exec st \<noteq> PCB_EXEC_READY then 1 else 0) +
     2 * (if dpatch st \<noteq> PCB_DPATCH_ACTIVE then 1 else 0)"

text \<open>The initial value of \<^verbatim>\<open>pcb_queues\<close>.\<close>

definition initial_queues :: "nat \<Rightarrow> pcb_queue" where
  "initial_queues i =
     \<lparr>pcb_head = NULL, pcb_tail = NULL, ispriority = (if i = 0 \<or> i = 2 then 1 else 0)\<rparr>"

definition set_p_next :: "addr \<Rightarrow> addr \<Rightarrow> 'a procs_scheme \<Rightarrow> 'a procs_scheme" where
  "set_p_next p v s = s\<lparr>pcbs := (pcbs s)(p := (pcbs s p)\<lparr>p_next := v\<rparr>)\<rparr>"

definition set_p_state :: "addr \<Rightarrow> pcb_state \<Rightarrow> 'a procs_scheme \<Rightarrow> 'a procs_scheme" where
  "set_p_state p v s = s\<lparr>pcbs := (pcbs s)(p := (pcbs s p)\<lparr>p_state := v\<rparr>)\<rparr>"

definition set_pctxt :: "addr \<Rightarrow> addr \<Rightarrow> 'a procs_scheme \<Rightarrow> 'a procs_scheme" where
  "set_pctxt p v s = s\<lparr>pcbs := (pcbs s)(p := (pcbs s p)\<lparr>pctxt := v\<rparr>)\<rparr>"

definition set_pcb_head :: "nat \<Rightarrow> addr \<Rightarrow> 'a procs_scheme \<Rightarrow> 'a procs_scheme" where
  "set_pcb_head i v s = s\<lparr>pcb_queues := (pcb_queues s)(i := (pcb_queues s i)\<lparr>pcb_head := v\<rparr>)\<rparr>"

definition set_pcb_tail :: "nat \<Rightarrow> addr \<Rightarrow> 'a procs_scheme \<Rightarrow> 'a procs_scheme" where
  "set_pcb_tail i v s = s\<lparr>pcb_queues := (pcb_queues s)(i := (pcb_queues s i)\<lparr>pcb_tail := v\<rparr>)\<rparr>"

section \<open>Insertion\<close>

text \<open>
  The loop past the PCBs of greater or equal priority; the result is the pair of
  \<^verbatim>\<open>prevcmpnode\<close> and \<^verbatim>\<open>cmpnode\<close>, the latter NULL when
  the jump to \<^verbatim>\<open>pri_iterend\<close> is taken.
\<close>

partial_function (option) pri_scan ::
  "(addr \<Rightarrow> pcb) \<Rightarrow> 4 word \<Rightarrow> addr \<Rightarrow> addr \<Rightarrow> (addr \<times> addr) option" where
  "pri_scan h k prevcmpnode cmpnode =
     (if k \<ge> pri (p_state (h cmpnode)) then
        (let prevcmpnode = cmpnode; cmpnode = p_next (h cmpnode)
         in if cmpnode = NULL then Some (prevcmpnode, NULL) else pri_scan h k prevcmpnode cmpnode)
      else Some (prevcmpnode, cmpnode))"

definition pcb_insert_tail :: "nat \<Rightarrow> addr \<Rightarrow> 'a procs_scheme \<Rightarrow> 'a procs_scheme option" where
  "pcb_insert_tail i pcb_in s = do {
     ensure (pcb_tail (pcb_queues s i) \<noteq> NULL);
     Some (set_pcb_tail i pcb_in (set_p_next (pcb_tail (pcb_queues s i)) pcb_in s))
   }"

definition pcb_insert :: "addr \<Rightarrow> 'a procs_scheme \<Rightarrow> 'a procs_scheme option" where
  "pcb_insert pcb_in s = do {
     ensure (pcb_in \<noteq> NULL);
     let i = PSTATE_QUEUE_SELECTOR (p_state (pcbs s pcb_in));
     let head = pcb_head (pcb_queues s i);
     let prio = pri (p_state (pcbs s pcb_in));
     if head \<noteq> NULL then
       (if p_next (pcbs s head) = NULL then
          (if ispriority (pcb_queues s i) \<noteq> 0 \<and> prio < pri (p_state (pcbs s head)) then
             Some (set_pcb_head i pcb_in (set_p_next pcb_in head s))
           else Some (set_pcb_tail i pcb_in (set_p_next head pcb_in s)))
        else if ispriority (pcb_queues s i) \<noteq> 0 then do {
          (prevcmpnode, cmpnode) \<leftarrow> pri_scan (pcbs s) prio NULL head;
          if cmpnode = NULL then pcb_insert_tail i pcb_in s
          else if cmpnode = head then Some (set_pcb_head i pcb_in (set_p_next pcb_in head s))
          else do {
            ensure (prevcmpnode \<noteq> NULL);
            Some (set_p_next pcb_in cmpnode (set_p_next prevcmpnode pcb_in s))
          }
        }
        else pcb_insert_tail i pcb_in s)
     else Some (set_pcb_tail i pcb_in (set_pcb_head i pcb_in s))
   }"

section \<open>Removal\<close>

text \<open>
  The search loop of \<^verbatim>\<open>pcb_remove\<close>; the result is the node before the one to
  remove, or NULL when the end is reached.
\<close>

partial_function (option) rmv_scan :: "(addr \<Rightarrow> pcb) \<Rightarrow> addr \<Rightarrow> addr \<Rightarrow> addr option" where
  "rmv_scan h pcb pcb_iter =
     (if p_next (h pcb_iter) \<noteq> NULL then
        (if p_next (h pcb_iter) = pcb then Some pcb_iter
         else rmv_scan h pcb (p_next (h pcb_iter)))
      else Some NULL)"

definition pcb_remove :: "addr \<Rightarrow> 'a procs_scheme \<Rightarrow> (int \<times> 'a procs_scheme) option" where
  "pcb_remove pcb s = do {
     ensure (pcb \<noteq> NULL);
     let i = PSTATE_QUEUE_SELECTOR (p_state (pcbs s pcb));
     let head = pcb_head (pcb_queues s i);
     if head = NULL then Some (- 1, s)
     else if head = pcb then
       (let s = (if head = pcb_tail (pcb_queues s i) then set_pcb_tail i NULL s else s);
            s = set_pcb_head i (p_next (pcbs s head)) s;
            s = set_p_next head NULL s
        in Some (0, s))
     else if p_next (pcbs s head) = NULL then Some (- 1, s)
     else do {
       pcb_iter \<leftarrow> rmv_scan (pcbs s) pcb head;
       if pcb_iter = NULL then Some (- 1, s)
       else
         (let s = (if p_next (pcbs s pcb_iter) = pcb_tail (pcb_queues s i)
                   then set_pcb_tail i pcb_iter s else s);
              pcb_rmv = p_next (pcbs s pcb_iter);
              s = set_p_next pcb_iter (p_next (pcbs s pcb_rmv)) s;
              s = set_p_next pcb_rmv NULL s
          in Some (0, s))
     }
   }"

section \<open>Search\<close>

partial_function (option) find_scan :: "(addr \<Rightarrow> pcb) \<Rightarrow> u8 list \<Rightarrow> addr \<Rightarrow> addr option" where
  "find_scan h nm pcb_iter = do {
     c \<leftarrow> strcmp nm (p_name (h pcb_iter));
     if c = 0 then Some pcb_iter
     else if p_next (h pcb_iter) = NULL then Some NULL
     else find_scan h nm (p_next (h pcb_iter))
   }"

fun find_queues :: "'a procs_scheme \<Rightarrow> u8 list \<Rightarrow> nat list \<Rightarrow> addr option" where
  "find_queues s nm [] = Some NULL"
| "find_queues s nm (i # is) =
     (if pcb_head (pcb_queues s i) \<noteq> NULL then do {
        p \<leftarrow> find_scan (pcbs s) nm (pcb_head (pcb_queues s i));
        if p \<noteq> NULL then Some p else find_queues s nm is
      } else find_queues s nm is)"

definition pcb_find :: "u8 list \<Rightarrow> 'a procs_scheme \<Rightarrow> addr option" where
  "pcb_find nm s = find_queues s nm [0, 1, 2, 3]"

section \<open>Creation and destruction\<close>

text \<open>The bytes of an object written into \<open>ram\<close>.\<close>

fun store_bytes :: "addr \<Rightarrow> u8 list \<Rightarrow> (addr \<Rightarrow> u8) \<Rightarrow> (addr \<Rightarrow> u8)" where
  "store_bytes p [] m = m"
| "store_bytes p (b # bs) m = store_bytes (p + 1) bs (m(p := b))"

definition pcb_allocate :: "'a procs_scheme \<Rightarrow> (addr \<times> 'a procs_scheme) option" where
  "pcb_allocate s = do {
     (pcb_new, s) \<leftarrow> sys_alloc_mem SZ_PCB s;
     if pcb_new \<noteq> NULL then do {
       (stack, s) \<leftarrow> sys_alloc_mem MPX_PCB_STACK_SZ s;
       let s = s\<lparr>pcbs := (pcbs s)(pcb_new := (pcbs s pcb_new)\<lparr>pstackseg := stack\<rparr>)\<rparr>;
       if stack \<noteq> NULL then
         Some (pcb_new, s\<lparr>ram := store_bytes stack (replicate (unat MPX_PCB_STACK_SZ) 0) (ram s)\<rparr>)
       else do {
         (_, s) \<leftarrow> sys_free_mem pcb_new s;
         Some (NULL, s)
       }
     } else Some (NULL, s)
   }"

definition pcb_setup ::
  "u8 list \<Rightarrow> u32 \<Rightarrow> u8 \<Rightarrow> 'a procs_scheme \<Rightarrow> (addr \<times> 'a procs_scheme) option" where
  "pcb_setup nm cl prio s = do {
     len \<leftarrow> strlen nm;
     let namelen = len + 1;
     if namelen \<le> MPX_PCB_PROCNAME_BUFFER_SZ then do {
       found \<leftarrow> pcb_find nm s;
       if found = NULL \<and> (cl = PCB_CLASS_USER \<or> cl = PCB_CLASS_SYSTEM) \<and> prio \<le> 9 then do {
         (pcb_new, s) \<leftarrow> pcb_allocate s;
         if pcb_new \<noteq> NULL then do {
           nm' \<leftarrow> memcpy (p_name (pcbs s pcb_new)) nm namelen;
           let p = (pcbs s pcb_new)\<lparr>p_next := NULL, p_name := nm',
                     p_state := \<lparr>exec = PCB_EXEC_READY, dpatch = PCB_DPATCH_ACTIVE,
                                 cls = ucast cl, pri = ucast prio\<rparr>,
                     pctxt := pstackseg (pcbs s pcb_new) + MPX_PCB_STACK_SZ - 1\<rparr>;
           Some (pcb_new, s\<lparr>pcbs := (pcbs s)(pcb_new := p)\<rparr>)
         } else Some (NULL, s)
       } else Some (NULL, s)
     } else Some (NULL, s)
   }"

text \<open>The arguments are the bytes of the caller's buffer; \<open>None\<close> is a NULL pointer.\<close>

definition pcb_context_init ::
  "addr \<Rightarrow> u32 \<Rightarrow> u8 list option \<Rightarrow> nat \<Rightarrow> 'a procs_scheme \<Rightarrow> 'a procs_scheme option" where
  "pcb_context_init pcb func fargs fargc s =
     (if fargc > MPX_PCB_MAX_ARG_SZ then Some s
      else do {
        ensure (pcb \<noteq> NULL);
        s \<leftarrow> (case fargs of
               None \<Rightarrow> Some s
             | Some args \<Rightarrow> do {
                 ensure (fargc \<le> length args);
                 let s = set_pctxt pcb (pctxt (pcbs s pcb) - of_nat fargc + 1) s;
                 Some (s\<lparr>ram := store_bytes (pctxt (pcbs s pcb)) (take fargc args) (ram s)\<rparr>)
               });
        let s = set_pctxt pcb (pctxt (pcbs s pcb) - 4) s;
        let pctxt_oppo = pctxt (pcbs s pcb);
        let s = set_pctxt pcb (pctxt (pcbs s pcb) - SZ_CONTEXT) s;
        let c = \<lparr>c_gs = 0x0010, c_fs = 0x0010, c_es = 0x0010, c_ds = 0x0010, c_ss = 0x0010,
                 c_edi = 0, c_esi = 0, c_ebp = pctxt_oppo, c_esp = pctxt_oppo, c_ebx = 0,
                 c_edx = 0, c_ecx = 0, c_eax = 0, c_eip = func, c_cs = 0x0008,
                 c_eflags = 0x00000202\<rparr>;
        Some (s\<lparr>ctxts := (ctxts s)(pctxt (pcbs s pcb) := c)\<rparr>)
      })"

definition zero_pcb :: pcb where
  "zero_pcb = \<lparr>p_next = NULL, p_state = \<lparr>exec = 0, dpatch = 0, cls = 0, pri = 0\<rparr>,
               pstackseg = NULL, pctxt = NULL, p_name = replicate MPX_PCB_PROCNAME_BUFFER_SZ 0\<rparr>"

definition pcb_free :: "addr \<Rightarrow> 'a procs_scheme \<Rightarrow> (int \<times> 'a procs_scheme) option" where
  "pcb_free pcb s = do {
     ensure (pcb \<noteq> NULL);
     (r, s) \<leftarrow> sys_free_mem (pstackseg (pcbs s pcb)) s;
     if r = 0 then do {
       let s = s\<lparr>pcbs := (pcbs s)(pcb := zero_pcb)\<rparr>;
       (r, s) \<leftarrow> sys_free_mem pcb s;
       if r = 0 then Some (0, s) else Some (- 1, s)
     } else Some (- 1, s)
   }"

end
