(* ===== verification/Pcb_Queues.thy ===== *)
theory Pcb_Queues
  imports Pcb
begin

text \<open>
  The process queues as lists: what the pointers of a queue mean, stable insertion by
  priority, removal and search, and the contract of the queues that the scheduler uses.
\<close>

section \<open>The lists behind the queues\<close>

abbreviation prio :: "(addr \<Rightarrow> pcb) \<Rightarrow> addr \<Rightarrow> 4 word" where
  "prio h p \<equiv> pri (p_state (h p))"

abbreviation sel :: "'a procs_scheme \<Rightarrow> addr \<Rightarrow> nat" where
  "sel s p \<equiv> PSTATE_QUEUE_SELECTOR (p_state (pcbs s p))"

definition queue_rel :: "(addr \<Rightarrow> pcb) \<Rightarrow> pcb_queue \<Rightarrow> addr list \<Rightarrow> bool" where
  "queue_rel h q xs \<longleftrightarrow>
     path (\<lambda>a. p_next (h a)) (pcb_head q) xs NULL \<and>
     pcb_tail q = (if xs = [] then NULL else last xs)"

text \<open>
  \<open>Q i\<close> are the PCBs of queue \<open>i\<close>, in order. The even queues are the ready queues; they are
  ordered by priority.
\<close>

definition queues_rel :: "'a procs_scheme \<Rightarrow> (nat \<Rightarrow> addr list) \<Rightarrow> bool" where
  "queues_rel s Q \<longleftrightarrow>
     (\<forall>i < 4. queue_rel (pcbs s) (pcb_queues s i) (Q i) \<and>
        (\<forall>p \<in> set (Q i). sel s p = i) \<and>
        (ispriority (pcb_queues s i) \<noteq> 0 \<longleftrightarrow> even i) \<and>
        (even i \<longrightarrow> sorted (map (prio (pcbs s)) (Q i))))"

lemma selector_less [simp]: "PSTATE_QUEUE_SELECTOR st < 4"
  by (simp add: PSTATE_QUEUE_SELECTOR_def)

lemma initial_queues_rel: "pcb_queues s = initial_queues \<Longrightarrow> queues_rel s (\<lambda>i. [])"
proof -
  have "even i \<longleftrightarrow> i = 0 \<or> i = 2" if "i < 4" for i :: nat using that by presburger
  then show "pcb_queues s = initial_queues \<Longrightarrow> queues_rel s (\<lambda>i. [])"
    by (simp add: queues_rel_def queue_rel_def initial_queues_def)
qed

lemma queue_rel_head: "queue_rel h q xs \<Longrightarrow> pcb_head q = (case xs of [] \<Rightarrow> NULL | x # _ \<Rightarrow> x)"
  by (auto simp: queue_rel_def dest: path_start)

lemma queue_rel_unique: "queue_rel h q xs \<Longrightarrow> queue_rel h q ys \<Longrightarrow> xs = ys"
  by (auto simp: queue_rel_def intro: path_unique)

lemma queue_rel_distinct: "queue_rel h q xs \<Longrightarrow> distinct xs \<and> NULL \<notin> set xs"
  by (auto simp: queue_rel_def dest: path_distinct path_nonNULL)

lemma queue_rel_cong:
  "(\<And>x. x \<in> set xs \<Longrightarrow> p_next (h x) = p_next (h' x)) \<Longrightarrow> queue_rel h q xs \<longleftrightarrow> queue_rel h' q xs"
  unfolding queue_rel_def by (subst path_cong [of xs _ "\<lambda>a. p_next (h' a)"]) auto

lemma queue_rel_last_next: "queue_rel h q (xs @ [x]) \<Longrightarrow> p_next (h x) = NULL"
  by (auto simp: queue_rel_def)

section \<open>Insertion\<close>

text \<open>
  Where an insertion puts a PCB: behind all PCBs of greater or equal priority (a smaller number
  is a greater priority) in a priority queue, and at the end of the others.
\<close>

definition place :: "(addr \<Rightarrow> pcb) \<Rightarrow> bool \<Rightarrow> addr \<Rightarrow> addr list \<Rightarrow> addr list" where
  "place h priority p xs =
     (if priority
      then takeWhile (\<lambda>y. prio h y \<le> prio h p) xs @ p # dropWhile (\<lambda>y. prio h y \<le> prio h p) xs
      else xs @ [p])"

definition insert_at :: "addr list \<Rightarrow> addr list \<Rightarrow> addr \<Rightarrow> nat \<Rightarrow> 'a procs_scheme \<Rightarrow> 'a procs_scheme" where
  "insert_at A B p i s =
     (let s = (if A = [] then set_pcb_head i p s else set_p_next (last A) p s)
      in if B = [] then set_pcb_tail i p s else set_p_next p (hd B) s)"

lemma pri_scan_path:
  "path (\<lambda>a. p_next (h a)) c (x # xs) NULL \<Longrightarrow>
   pri_scan h k prev c =
     Some (last (prev # takeWhile (\<lambda>y. prio h y \<le> k) (x # xs)),
           case dropWhile (\<lambda>y. prio h y \<le> k) (x # xs) of [] \<Rightarrow> NULL | y # _ \<Rightarrow> y)"
proof (induction xs arbitrary: x prev c)
  case Nil
  then show ?case by (subst pri_scan.simps) (auto simp: Let_def)
next
  case (Cons y xs)
  then have "path (\<lambda>a. p_next (h a)) (p_next (h x)) (y # xs) NULL" and "c = x" and "p_next (h x) = y" "y \<noteq> NULL"
    by auto
  with Cons.IH [of "p_next (h x)" y x] show ?case
    by (subst pri_scan.simps) (auto simp: Let_def)
qed

lemma pcb_insert_at:
  assumes rel: "queue_rel (pcbs s) (pcb_queues s i) (A @ B)" and i: "i = sel s p"
    and p: "p \<noteq> NULL" "p_next (pcbs s p) = NULL" "p \<notin> set (A @ B)"
    and split: "ispriority (pcb_queues s i) \<noteq> 0 \<Longrightarrow>
        A = takeWhile (\<lambda>y. prio (pcbs s) y \<le> prio (pcbs s) p) (A @ B) \<and>
        B = dropWhile (\<lambda>y. prio (pcbs s) y \<le> prio (pcbs s) p) (A @ B)"
      "ispriority (pcb_queues s i) = 0 \<Longrightarrow> B = []"
  shows "pcb_insert p s = Some (insert_at A B p i s)"
proof -
  note defs = pcb_insert_def Let_def i [symmetric] insert_at_def set_p_next_def set_pcb_head_def
    set_pcb_tail_def pcb_insert_tail_def
  have hd: "pcb_head (pcb_queues s i) = (case A @ B of [] \<Rightarrow> NULL | x # _ \<Rightarrow> x)"
    by (rule queue_rel_head [OF rel])
  have tl: "pcb_tail (pcb_queues s i) = (if A @ B = [] then NULL else last (A @ B))"
    using rel by (simp add: queue_rel_def)
  have nn: "NULL \<notin> set (A @ B)" and dist: "distinct (A @ B)" using queue_rel_distinct [OF rel] by auto
  have pth: "path (\<lambda>a. p_next (pcbs s a)) (pcb_head (pcb_queues s i)) (A @ B) NULL"
    using rel by (simp add: queue_rel_def)
  consider (empty) "A @ B = []" | (one) x where "A @ B = [x]" | (more) x y zs where "A @ B = x # y # zs"
    by (metis neq_Nil_conv)
  then show ?thesis
  proof cases
    case empty
    then show ?thesis using hd tl p by (simp add: defs)
  next
    case (one x)
    have x: "x \<noteq> NULL" "x \<noteq> p" "p_next (pcbs s x) = NULL" using one nn p pth by auto
    show ?thesis
    proof (cases "ispriority (pcb_queues s i) \<noteq> 0 \<and> \<not> prio (pcbs s) x \<le> prio (pcbs s) p")
      case True
      then have "A = []" "B = [x]" using split(1) one by auto
      with True x hd tl p show ?thesis by (auto simp: defs)
    next
      case False
      then have "A = [x]" "B = []" using split one by (cases "ispriority (pcb_queues s i) = 0"; auto)+
      with False x hd tl p show ?thesis by (auto simp: defs)
    qed
  next
    case (more x y zs)
    have x: "x \<noteq> NULL" "pcb_head (pcb_queues s i) = x" "p_next (pcbs s x) \<noteq> NULL"
      using more hd nn pth by auto
    have last_nn: "last (A @ B) \<noteq> NULL" "last (A @ B) \<noteq> p"
      using more nn p(3) last_in_set [of "A @ B"] by auto
    show ?thesis
    proof (cases "ispriority (pcb_queues s i) \<noteq> 0")
      case False
      then have "B = []" using split(2) by simp
      with False x p more tl last_nn show ?thesis by (auto simp: defs)
    next
      case True
      have scan: "pri_scan (pcbs s) (prio (pcbs s) p) NULL x =
          Some (last (NULL # A), case B of [] \<Rightarrow> NULL | b # _ \<Rightarrow> b)"
        using pri_scan_path [OF pth [unfolded more x(2)], of "prio (pcbs s) p" NULL] split(1) [OF True]
        by (simp only: more [symmetric])
      show ?thesis
      proof (cases B)
        case Nil
        with True x p more tl last_nn scan show ?thesis by (auto simp: defs)
      next
        case (Cons b B')
        have b: "b \<noteq> NULL" using nn Cons by auto
        show ?thesis
        proof (cases "A = []")
          case True
          with Cons more have "b = x" by simp
          with \<open>ispriority (pcb_queues s i) \<noteq> 0\<close> True x p Cons b tl scan more show ?thesis
            by (simp add: defs)
        next
          case A: False
          then have "x \<in> set A" using more by (cases A) auto
          moreover have "b \<notin> set A" using dist Cons by auto
          ultimately have "b \<noteq> x" by auto
          moreover have "last A \<noteq> NULL" "last A \<noteq> p" using nn p(3) last_in_set [OF A] by auto
          ultimately show ?thesis using True A x p Cons b tl scan more
            by (simp add: defs)
        qed
      qed
    qed
  qed
qed


lemma place_split:
  "\<exists>A B. xs = A @ B \<and> place h pr p xs = A @ p # B \<and>
     (pr \<longrightarrow> A = takeWhile (\<lambda>y. prio h y \<le> prio h p) xs \<and> B = dropWhile (\<lambda>y. prio h y \<le> prio h p) xs) \<and>
     (\<not> pr \<longrightarrow> B = [])"
proof (cases pr)
  case True
  show ?thesis
    by (rule exI [of _ "takeWhile (\<lambda>y. prio h y \<le> prio h p) xs"],
        rule exI [of _ "dropWhile (\<lambda>y. prio h y \<le> prio h p) xs"]) (simp add: place_def True)
next
  case False
  then show ?thesis by (simp add: place_def)
qed

lemma set_place [simp]: "set (place h pr p xs) = insert p (set xs)"
  using place_split [of xs h pr p] by auto

lemma dropWhile_greater:
  "sorted (map (prio h) xs) \<Longrightarrow>
   \<forall>b \<in> set (dropWhile (\<lambda>y. prio h y \<le> prio h p) xs). prio h p < prio h b"
  by (induction xs) (auto simp: not_le)

lemma sorted_place:
  assumes "sorted (map (prio h) xs)"
  shows "sorted (map (prio h) (place h True p xs))"
proof -
  let ?P = "\<lambda>y. prio h y \<le> prio h p"
  have "\<forall>y \<in> set (dropWhile ?P xs). prio h p < prio h y"
    by (rule dropWhile_greater [OF assms])
  moreover have "\<forall>y \<in> set (takeWhile ?P xs). ?P y" using set_takeWhileD by metis
  moreover have "sorted (map (prio h) (takeWhile ?P xs))" "sorted (map (prio h) (dropWhile ?P xs))"
    using assms sorted_append [of "map (prio h) (takeWhile ?P xs)" "map (prio h) (dropWhile ?P xs)"]
    by (simp_all flip: map_append)
  ultimately show ?thesis unfolding place_def if_True map_append list.map sorted_append sorted_simps
    by (auto simp: less_imp_le intro: order.trans)
qed

lemma insert_at_frame [frame_simps]:
  "pcb_queues (insert_at A B p i s) j = (if j = i
     then (pcb_queues s i)\<lparr>pcb_head := (if A = [] then p else pcb_head (pcb_queues s i)),
       pcb_tail := (if B = [] then p else pcb_tail (pcb_queues s i))\<rparr>
     else pcb_queues s j)"
  "p_next (pcbs (insert_at A B p i s) x) =
     (if B \<noteq> [] \<and> x = p then hd B else if A \<noteq> [] \<and> x = last A then p else p_next (pcbs s x))"
  "p_state (pcbs (insert_at A B p i s) x) = p_state (pcbs s x)"
  by (simp_all add: insert_at_def set_p_next_def set_pcb_head_def set_pcb_tail_def Let_def)

lemma insert_at_rel:
  assumes rel: "queue_rel (pcbs s) (pcb_queues s i) (A @ B)"
    and p: "p \<noteq> NULL" "p_next (pcbs s p) = NULL" "p \<notin> set (A @ B)"
  shows "queue_rel (pcbs (insert_at A B p i s)) (pcb_queues (insert_at A B p i s) i) (A @ p # B)"
proof -
  let ?t = "insert_at A B p i s"
  let ?nx = "\<lambda>a. p_next (pcbs s a)" and ?nx' = "\<lambda>a. p_next (pcbs ?t a)"
  let ?hd = "pcb_head (pcb_queues s i)"
  have dist: "distinct (A @ B)" and nn: "NULL \<notin> set (A @ B)" using queue_rel_distinct [OF rel] by auto
  obtain r where A: "path ?nx ?hd A r" and B: "path ?nx r B NULL"
    using rel by (auto simp: queue_rel_def)
  have r: "r = (case B of [] \<Rightarrow> NULL | b # _ \<Rightarrow> b)" by (rule path_start [OF B])
  have lA: "last A \<notin> set B" if "A \<noteq> []" using dist last_in_set [OF that] by auto
  have pB: "path ?nx' r B NULL"
    using B p lA by (subst path_cong [of B _ ?nx]) (auto simp: frame_simps)
  have nxp: "?nx' p = r"
    using p r by (cases B; cases A rule: rev_cases) (auto simp: frame_simps)
  have "path ?nx' (if A = [] then p else ?hd) A p"
  proof (cases A rule: rev_cases)
    case Nil
    then show ?thesis by simp
  next
    case (snoc A' a)
    obtain q where q: "path ?nx ?hd A' q" "q = a" "a \<noteq> NULL" using A snoc by auto
    have "path ?nx' ?hd A' a"
      using q p dist by (subst path_cong [of A' _ ?nx]) (auto simp: frame_simps snoc)
    moreover have "?nx' a = p" using p dist snoc by (auto simp: frame_simps)
    ultimately show ?thesis using q(3) by (auto simp: snoc)
  qed
  with pB nxp p(1) have "path ?nx' (if A = [] then p else ?hd) (A @ p # B) NULL" by auto
  then show ?thesis using rel by (simp add: queue_rel_def frame_simps)
qed

text \<open>What may be put into a queue: a PCB that is in none and is not linked.\<close>

definition loose :: "'a procs_scheme \<Rightarrow> (nat \<Rightarrow> addr list) \<Rightarrow> addr \<Rightarrow> bool" where
  "loose s Q p \<longleftrightarrow> p \<noteq> NULL \<and> p_next (pcbs s p) = NULL \<and> (\<forall>i < 4. p \<notin> set (Q i))"

definition placed :: "'a procs_scheme \<Rightarrow> addr \<Rightarrow> (nat \<Rightarrow> addr list) \<Rightarrow> (nat \<Rightarrow> addr list)" where
  "placed s p Q = Q(sel s p := place (pcbs s) (even (sel s p)) p (Q (sel s p)))"

lemma queues_relD:
  assumes "queues_rel s Q" "i < 4"
  shows "queue_rel (pcbs s) (pcb_queues s i) (Q i)" "\<And>p. p \<in> set (Q i) \<Longrightarrow> sel s p = i"
    "ispriority (pcb_queues s i) \<noteq> 0 \<longleftrightarrow> even i" "even i \<Longrightarrow> sorted (map (prio (pcbs s)) (Q i))"
  using assms by (auto simp: queues_rel_def)

text \<open>Only the queues and the links of PCBs change; the rest of the state and every PCB's state stay.\<close>

definition links_only :: "'a procs_scheme \<Rightarrow> 'a procs_scheme \<Rightarrow> bool" where
  "links_only s t \<longleftrightarrow> t = s\<lparr>pcbs := pcbs t, pcb_queues := pcb_queues t\<rparr> \<and>
     (\<forall>x. pcbs t x = (pcbs s x)\<lparr>p_next := p_next (pcbs t x)\<rparr>)"

lemma links_only_state: "links_only s t \<Longrightarrow> p_state (pcbs t x) = p_state (pcbs s x)"
  unfolding links_only_def by (metis (no_types) pcb.ext_inject pcb.surjective pcb.update_convs(1))

lemma insert_at_links: "links_only s (insert_at A B p i s)"
  by (auto simp: links_only_def insert_at_def Let_def set_p_next_def set_pcb_head_def set_pcb_tail_def)

lemma pcb_insert_rel_next:
  assumes rel: "queues_rel s Q" and p: "loose s Q p"
  shows "\<exists>t. pcb_insert p s = Some t \<and> queues_rel t (placed s p Q) \<and> links_only s t \<and>
    (\<forall>x. x \<notin> insert p (set (Q (sel s p))) \<longrightarrow> p_next (pcbs t x) = p_next (pcbs s x))"
proof -
  define i where "i = sel s p"
  have i4: "i < 4" by (simp add: i_def)
  obtain A B where AB: "Q i = A @ B" "place (pcbs s) (even i) p (Q i) = A @ p # B"
    "even i \<longrightarrow> A = takeWhile (\<lambda>y. prio (pcbs s) y \<le> prio (pcbs s) p) (Q i) \<and>
       B = dropWhile (\<lambda>y. prio (pcbs s) y \<le> prio (pcbs s) p) (Q i)"
    "odd i \<longrightarrow> B = []"
    using place_split [of "Q i" "pcbs s" "even i" p] by blast
  note q = queues_relD [OF rel i4]
  have p': "p \<noteq> NULL" "p_next (pcbs s p) = NULL" "\<And>j. j < 4 \<Longrightarrow> p \<notin> set (Q j)"
    using p by (auto simp: loose_def)
  let ?t = "insert_at A B p i s"
  have ins: "pcb_insert p s = Some ?t"
  proof (rule pcb_insert_at)
    show "queue_rel (pcbs s) (pcb_queues s i) (A @ B)" using q(1) by (simp only: AB(1))
    show "p \<notin> set (A @ B)" using p'(3) [OF i4] by (simp only: AB(1) not_False_eq_True)
    show "A = takeWhile (\<lambda>y. prio (pcbs s) y \<le> prio (pcbs s) p) (A @ B) \<and>
        B = dropWhile (\<lambda>y. prio (pcbs s) y \<le> prio (pcbs s) p) (A @ B)"
      if "ispriority (pcb_queues s i) \<noteq> 0"
      using that q(3) AB(3) [unfolded AB(1)] by blast
    show "B = []" if "ispriority (pcb_queues s i) = 0" using that q(3) AB(4) by blast
  qed (simp_all add: i_def p'(1,2))
  have "queue_rel (pcbs ?t) (pcb_queues ?t j) (placed s p Q j)" if j: "j < 4" for j
  proof (cases "j = i")
    case True
    have "queue_rel (pcbs ?t) (pcb_queues ?t i) (A @ p # B)"
      using q(1) AB(1) p'(1,2) p'(3) [OF i4] by (intro insert_at_rel) simp_all
    then show ?thesis by (simp add: True placed_def i_def [symmetric] AB(2))
  next
    case False
    have "x \<noteq> p \<and> (A \<noteq> [] \<longrightarrow> x \<noteq> last A)" if x: "x \<in> set (Q j)" for x
    proof -
      have "x \<notin> set (Q i)" using queues_relD(2) [OF rel j x] q(2) [of x] False by auto
      then show ?thesis using p'(3) [OF j] x AB(1) by auto
    qed
    then have "queue_rel (pcbs ?t) (pcb_queues s j) (Q j) \<longleftrightarrow> queue_rel (pcbs s) (pcb_queues s j) (Q j)"
      by (intro queue_rel_cong) (auto simp: frame_simps)
    then show ?thesis using False queues_relD(1) [OF rel j] by (simp add: placed_def i_def frame_simps)
  qed
  moreover have "sorted (map (prio (pcbs ?t)) (placed s p Q j))" if "j < 4" "even j" for j
    using queues_relD(4) [OF rel that] sorted_place [of "pcbs s" "Q i" p] that
    by (auto simp: placed_def i_def frame_simps)
  moreover have "sel ?t x = j" if "j < 4" "x \<in> set (placed s p Q j)" for j x
    using queues_relD(2) [OF rel that(1), of x] that by (auto simp: placed_def frame_simps split: if_splits)
  moreover have "ispriority (pcb_queues ?t j) \<noteq> 0 \<longleftrightarrow> even j" if "j < 4" for j
    using queues_relD(3) [OF rel that] by (auto simp: frame_simps)
  ultimately have "queues_rel ?t (placed s p Q)" unfolding queues_rel_def by blast
  moreover have "\<forall>x. x \<notin> insert p (set (Q i)) \<longrightarrow> p_next (pcbs ?t x) = p_next (pcbs s x)"
    by (auto simp: frame_simps AB(1))
  ultimately show ?thesis using ins insert_at_links [of s A B p i] unfolding i_def by blast
qed

lemma pcb_insert_rel:
  assumes "queues_rel s Q" and "loose s Q p"
  shows "\<exists>t. pcb_insert p s = Some t \<and> queues_rel t (placed s p Q) \<and> links_only s t"
  using pcb_insert_rel_next [OF assms] by blast


section \<open>Removal\<close>

lemma rmv_scan_path:
  "path (\<lambda>a. p_next (h a)) x (x # xs) NULL \<Longrightarrow> p \<noteq> NULL \<Longrightarrow>
   (p \<notin> set xs \<longrightarrow> rmv_scan h p x = Some NULL) \<and>
   (\<forall>A B. xs = A @ p # B \<longrightarrow> p \<notin> set A \<longrightarrow> rmv_scan h p x = Some (last (x # A)))"
proof (induction xs arbitrary: x)
  case Nil
  then show ?case by (subst rmv_scan.simps) simp
next
  case (Cons y xs)
  then have y: "path (\<lambda>a. p_next (h a)) y (y # xs) NULL" "p_next (h x) = y" "y \<noteq> NULL" by auto
  have step: "rmv_scan h p x = (if y = p then Some x else rmv_scan h p y)"
    by (subst rmv_scan.simps) (simp add: y)
  have "rmv_scan h p x = Some (last (x # A))" if "y # xs = A @ p # B" "p \<notin> set A" for A B
  proof (cases A)
    case (Cons a A')
    with that have "xs = A' @ p # B" "p \<notin> set A'" "y \<noteq> p" "a = y" by auto
    with Cons.IH [OF y(1) Cons.prems(2)] step show ?thesis by (auto simp: Cons)
  qed (use that step in simp)
  with Cons.IH [OF y(1) Cons.prems(2)] step show ?case by auto
qed

lemma rmv_scan_found:
  "path (\<lambda>a. p_next (h a)) x (x # A @ p # B) NULL \<Longrightarrow> p \<noteq> NULL \<Longrightarrow> p \<notin> set A \<Longrightarrow>
   rmv_scan h p x = Some (last (x # A))"
  using rmv_scan_path by blast

definition remove_at :: "addr list \<Rightarrow> addr list \<Rightarrow> addr \<Rightarrow> nat \<Rightarrow> 'a procs_scheme \<Rightarrow> 'a procs_scheme" where
  "remove_at A B p i s =
     (let nx = p_next (pcbs s p);
          s = (if B = [] then set_pcb_tail i (if A = [] then NULL else last A) s else s);
          s = (if A = [] then set_pcb_head i nx s else set_p_next (last A) nx s)
      in set_p_next p NULL s)"

lemma pcb_remove_at:
  assumes rel: "queue_rel (pcbs s) (pcb_queues s i) (A @ p # B)" and i: "i = sel s p"
  shows "pcb_remove p s = Some (0, remove_at A B p i s)"
proof -
  note defs = pcb_remove_def Let_def i [symmetric] remove_at_def set_p_next_def set_pcb_head_def
    set_pcb_tail_def
  have hd: "pcb_head (pcb_queues s i) = (case A of [] \<Rightarrow> p | x # _ \<Rightarrow> x)"
    using queue_rel_head [OF rel] by (cases A) auto
  have tl: "pcb_tail (pcb_queues s i) = (if B = [] then p else last B)"
    using rel by (simp add: queue_rel_def)
  have nn: "NULL \<notin> set (A @ p # B)" and dist: "distinct (A @ p # B)" using queue_rel_distinct [OF rel] by auto
  have pth: "path (\<lambda>a. p_next (pcbs s a)) (pcb_head (pcb_queues s i)) (A @ p # B) NULL"
    using rel by (simp add: queue_rel_def)
  have lB: "last B \<noteq> p" if "B \<noteq> []" using dist last_in_set [OF that] by auto
  show ?thesis
  proof (cases A)
    case Nil
    then show ?thesis using hd tl nn lB by (cases "B = []") (auto simp: defs)
  next
    case (Cons x A')
    have x: "x \<noteq> p" "x \<noteq> NULL" "pcb_head (pcb_queues s i) = x" using dist nn hd by (auto simp: Cons)
    have "path (\<lambda>a. p_next (pcbs s a)) x (x # A' @ p # B) NULL" using pth x by (simp add: Cons)
    then have scan: "rmv_scan (pcbs s) p x = Some (last A)"
      using rmv_scan_found [of "pcbs s" x A' p B] dist nn by (simp add: Cons)
    have la: "last A \<noteq> p" "last A \<noteq> NULL" "p_next (pcbs s (last A)) = p"
    proof -
      obtain A'' a where A: "A = A'' @ [a]" using Cons by (metis list.distinct(1) rev_exhaust)
      then show "last A \<noteq> p" "last A \<noteq> NULL" "p_next (pcbs s (last A)) = p" using dist nn pth by auto
    qed
    have "p_next (pcbs s x) \<noteq> NULL"
      using pth nn x by (cases A') (auto simp: Cons)
    with x scan la tl lB nn show ?thesis by (cases "B = []") (auto simp: defs Cons)
  qed
qed

lemma remove_at_frame [frame_simps]:
  "pcb_queues (remove_at A B p i s) j = (if j = i
     then (pcb_queues s i)\<lparr>pcb_head := (if A = [] then p_next (pcbs s p) else pcb_head (pcb_queues s i)),
       pcb_tail := (if B = [] then if A = [] then NULL else last A else pcb_tail (pcb_queues s i))\<rparr>
     else pcb_queues s j)"
  "p_next (pcbs (remove_at A B p i s) x) =
     (if x = p then NULL else if A \<noteq> [] \<and> x = last A then p_next (pcbs s p) else p_next (pcbs s x))"
  "p_state (pcbs (remove_at A B p i s) x) = p_state (pcbs s x)"
  by (simp_all add: remove_at_def set_p_next_def set_pcb_head_def set_pcb_tail_def Let_def)

lemma remove_at_rel:
  assumes rel: "queue_rel (pcbs s) (pcb_queues s i) (A @ p # B)"
  shows "queue_rel (pcbs (remove_at A B p i s)) (pcb_queues (remove_at A B p i s) i) (A @ B)"
proof -
  let ?t = "remove_at A B p i s"
  let ?nx = "\<lambda>a. p_next (pcbs s a)" and ?nx' = "\<lambda>a. p_next (pcbs ?t a)"
  let ?hd = "pcb_head (pcb_queues s i)"
  have dist: "distinct (A @ p # B)" using queue_rel_distinct [OF rel] by auto
  obtain "path ?nx ?hd A p" and B: "path ?nx (?nx p) B NULL"
    using rel by (auto simp: queue_rel_def)
  then have A: "path ?nx ?hd A p" by simp
  have lA: "last A \<notin> set B" if "A \<noteq> []" using dist last_in_set [OF that] by auto
  have pB: "path ?nx' (?nx p) B NULL"
    using B lA dist by (subst path_cong [of B _ ?nx]) (auto simp: frame_simps)
  have "path ?nx' (if A = [] then ?nx p else ?hd) A (?nx p)"
  proof (cases A rule: rev_cases)
    case Nil
    then show ?thesis by simp
  next
    case (snoc A' a)
    obtain q where q: "path ?nx ?hd A' q" "q = a" "a \<noteq> NULL" using A snoc by auto
    have "path ?nx' ?hd A' a"
      using q dist by (subst path_cong [of A' _ ?nx]) (auto simp: frame_simps snoc)
    moreover have "?nx' a = ?nx p" using dist snoc by (auto simp: frame_simps)
    ultimately show ?thesis using q(3) by (auto simp: snoc)
  qed
  with pB have "path ?nx' (if A = [] then ?nx p else ?hd) (A @ B) NULL" by auto
  then show ?thesis using rel by (simp add: queue_rel_def frame_simps)
qed

lemma remove_at_links: "links_only s (remove_at A B p i s)"
  by (auto simp: links_only_def remove_at_def Let_def set_p_next_def set_pcb_head_def set_pcb_tail_def)

definition unplaced :: "'a procs_scheme \<Rightarrow> addr \<Rightarrow> (nat \<Rightarrow> addr list) \<Rightarrow> (nat \<Rightarrow> addr list)" where
  "unplaced s p Q = Q(sel s p := remove1 p (Q (sel s p)))"

lemma sorted_map_remove1: "sorted (map f xs) \<Longrightarrow> sorted (map f (remove1 p xs))"
  by (induction xs) (auto dest: in_set_remove1 [THEN iffD1, rotated] notin_set_remove1)

lemma pcb_remove_rel_next:
  assumes rel: "queues_rel s Q" and p: "p \<in> set (Q (sel s p))"
  shows "\<exists>t. pcb_remove p s = Some (0, t) \<and> queues_rel t (unplaced s p Q) \<and>
    loose t (unplaced s p Q) p \<and> links_only s t \<and>
    (\<forall>x. x \<notin> set (Q (sel s p)) \<longrightarrow> p_next (pcbs t x) = p_next (pcbs s x))"
proof -
  define i where "i = sel s p"
  have i4: "i < 4" by (simp add: i_def)
  note q = queues_relD [OF rel i4]
  note dist = queue_rel_distinct [OF q(1)]
  obtain A B where AB: "Q i = A @ p # B" "p \<notin> set A" using p split_list_first [of p "Q i"] by (auto simp: i_def)
  have pB: "p \<notin> set B" using dist by (simp add: AB(1))
  have r1: "remove1 p (Q i) = A @ B" using AB(2) by (simp add: AB(1) remove1_append)
  have ab: "queue_rel (pcbs s) (pcb_queues s i) (A @ p # B)" using q(1) by (simp only: AB(1))
  let ?t = "remove_at A B p i s"
  have rm: "pcb_remove p s = Some (0, ?t)" using pcb_remove_at [OF ab i_def] .
  have other: "p \<notin> set (Q j)" if "j < 4" "j \<noteq> i" for j
    using queues_relD(2) [OF rel that(1), of p] that(2) by (auto simp: i_def)
  have "queue_rel (pcbs ?t) (pcb_queues ?t j) (unplaced s p Q j)" if j: "j < 4" for j
  proof (cases "j = i")
    case True
    then show ?thesis using remove_at_rel [OF ab] by (simp add: unplaced_def i_def [symmetric] r1)
  next
    case False
    have "x \<noteq> p \<and> (A \<noteq> [] \<longrightarrow> x \<noteq> last A)" if x: "x \<in> set (Q j)" for x
    proof -
      have "x \<notin> set (Q i)" using queues_relD(2) [OF rel j x] q(2) [of x] False by auto
      then show ?thesis using AB(1) by auto
    qed
    then have "queue_rel (pcbs ?t) (pcb_queues s j) (Q j) \<longleftrightarrow> queue_rel (pcbs s) (pcb_queues s j) (Q j)"
      by (intro queue_rel_cong) (auto simp: frame_simps)
    then show ?thesis using False queues_relD(1) [OF rel j] by (simp add: unplaced_def i_def frame_simps)
  qed
  moreover have "sorted (map (prio (pcbs ?t)) (unplaced s p Q j))" if "j < 4" "even j" for j
    using queues_relD(4) [OF rel that] by (auto simp: unplaced_def frame_simps sorted_map_remove1)
  moreover have "sel ?t x = j" if "j < 4" "x \<in> set (unplaced s p Q j)" for j x
    using queues_relD(2) [OF rel that(1), of x] that
    by (auto simp: unplaced_def frame_simps split: if_splits dest: notin_set_remove1 [rotated])
  moreover have "ispriority (pcb_queues ?t j) \<noteq> 0 \<longleftrightarrow> even j" if "j < 4" for j
    using queues_relD(3) [OF rel that] by (auto simp: frame_simps)
  ultimately have "queues_rel ?t (unplaced s p Q)" unfolding queues_rel_def by blast
  moreover have "loose ?t (unplaced s p Q) p"
    using dist other AB pB r1 by (auto simp: loose_def unplaced_def frame_simps i_def [symmetric])
  moreover have "\<forall>x. x \<notin> set (Q i) \<longrightarrow> p_next (pcbs ?t x) = p_next (pcbs s x)"
    by (auto simp: frame_simps AB(1))
  ultimately show ?thesis using rm remove_at_links [of s A B p i] unfolding i_def by blast
qed

lemma pcb_remove_rel:
  assumes "queues_rel s Q" and "p \<in> set (Q (sel s p))"
  shows "\<exists>t. pcb_remove p s = Some (0, t) \<and> queues_rel t (unplaced s p Q) \<and>
    loose t (unplaced s p Q) p \<and> links_only s t"
  using pcb_remove_rel_next [OF assms] by blast

lemma pcb_remove_absent:
  assumes rel: "queues_rel s Q" and p: "p \<noteq> NULL" "p \<notin> set (Q (sel s p))"
  shows "pcb_remove p s = Some (- 1, s)"
proof -
  define i where "i = sel s p"
  have q: "queue_rel (pcbs s) (pcb_queues s i) (Q i)" using queues_relD(1) [OF rel] by (simp add: i_def)
  show ?thesis
  proof (cases "Q i")
    case Nil
    then show ?thesis using queue_rel_head [OF q] p by (simp add: pcb_remove_def Let_def i_def [symmetric])
  next
    case (Cons x xs)
    have pth: "path (\<lambda>a. p_next (pcbs s a)) x (x # xs) NULL" and hd: "pcb_head (pcb_queues s i) = x" "x \<noteq> NULL"
      using q Cons by (auto simp: queue_rel_def)
    have "rmv_scan (pcbs s) p x = Some NULL" using rmv_scan_path [OF pth p(1)] p(2) by (simp add: i_def [symmetric] Cons)
    moreover have "p \<noteq> x" using p(2) by (auto simp: i_def [symmetric] Cons)
    ultimately show ?thesis using hd p(1) by (simp add: pcb_remove_def Let_def i_def [symmetric])
  qed
qed


section \<open>Search\<close>

text \<open>Every queued PCB has a NUL-terminated name.\<close>

definition named :: "'a procs_scheme \<Rightarrow> (nat \<Rightarrow> addr list) \<Rightarrow> bool" where
  "named s Q \<longleftrightarrow> (\<forall>i < 4. \<forall>p \<in> set (Q i). 0 \<in> set (p_name (pcbs s p)))"

abbreviation pname :: "(addr \<Rightarrow> pcb) \<Rightarrow> addr \<Rightarrow> u8 list" where
  "pname h p \<equiv> cchars (p_name (h p))"

definition first_named :: "(addr \<Rightarrow> pcb) \<Rightarrow> u8 list \<Rightarrow> addr list \<Rightarrow> addr" where
  "first_named h nm ps = (case find (\<lambda>p. pname h p = nm) ps of Some p \<Rightarrow> p | None \<Rightarrow> NULL)"

lemma find_scan_path:
  "path (\<lambda>a. p_next (h a)) x (x # xs) NULL \<Longrightarrow> 0 \<in> set nm \<Longrightarrow>
   \<forall>p \<in> set (x # xs). 0 \<in> set (p_name (h p)) \<Longrightarrow>
   find_scan h nm x = Some (first_named h (cchars nm) (x # xs))"
proof (induction xs arbitrary: x)
  case Nil
  then obtain d where "strcmp nm (p_name (h x)) = Some d" "d = 0 \<longleftrightarrow> cchars nm = pname h x"
    using strcmp_spec [of nm "p_name (h x)"] by auto
  with Nil show ?case by (subst find_scan.simps) (auto simp: first_named_def)
next
  case (Cons y xs)
  then obtain d where "strcmp nm (p_name (h x)) = Some d" "d = 0 \<longleftrightarrow> cchars nm = pname h x"
    using strcmp_spec [of nm "p_name (h x)"] by auto
  moreover have "find_scan h nm y = Some (first_named h (cchars nm) (y # xs))"
    using Cons by (intro Cons.IH) auto
  ultimately show ?case using Cons.prems
    by (subst find_scan.simps) (auto simp: first_named_def)
qed

lemma first_named_append:
  "NULL \<notin> set xs \<Longrightarrow> first_named h nm (xs @ ys) =
     (if first_named h nm xs = NULL then first_named h nm ys else first_named h nm xs)"
  by (induction xs) (auto simp: first_named_def)

lemma find_queues_rel:
  assumes rel: "queues_rel s Q" and nm: "0 \<in> set nm" and names: "named s Q"
  shows "\<forall>i \<in> set is. i < 4 \<Longrightarrow>
    find_queues s nm is = Some (first_named (pcbs s) (cchars nm) (concat (map Q is)))"
proof (induction "is")
  case (Cons i "is")
  then have i: "i < 4" by simp
  note q = queues_relD(1) [OF rel i]
  show ?case
  proof (cases "Q i")
    case Nil
    then show ?thesis using queue_rel_head [OF q] Cons by simp
  next
    case (Cons x xs)
    have nn: "NULL \<notin> set (Q i)" using queue_rel_distinct [OF q] by simp
    have "find_scan (pcbs s) nm x = Some (first_named (pcbs s) (cchars nm) (Q i))"
      using q nm names i unfolding Cons by (intro find_scan_path) (auto simp: queue_rel_def named_def Cons)
    moreover have "pcb_head (pcb_queues s i) = x" "x \<noteq> NULL" using q by (auto simp: queue_rel_def Cons)
    ultimately show ?thesis using Cons.IH Cons.prems nn by (simp add: first_named_append)
  qed
qed (simp add: first_named_def)

definition all_queued :: "(nat \<Rightarrow> addr list) \<Rightarrow> addr list" where
  "all_queued Q = Q 0 @ Q 1 @ Q 2 @ Q 3"

lemma set_all_queued: "set (all_queued Q) = (\<Union>i < 4. set (Q i))"
  by (auto simp: all_queued_def lessThan_nat_numeral lessThan_Suc)

lemma pcb_find_rel:
  assumes "queues_rel s Q" and "0 \<in> set nm" and "named s Q"
  shows "pcb_find nm s = Some (first_named (pcbs s) (cchars nm) (all_queued Q))"
  using find_queues_rel [OF assms, of "[0, 1, 2, 3]"] by (simp add: pcb_find_def all_queued_def)

lemma first_named_cases:
  assumes "NULL \<notin> set ps"
  shows "first_named h nm ps = NULL \<longleftrightarrow> (\<forall>p \<in> set ps. pname h p \<noteq> nm)"
    and "first_named h nm ps \<noteq> NULL \<Longrightarrow> first_named h nm ps \<in> set ps \<and> pname h (first_named h nm ps) = nm"
  using assms
  by (auto simp: first_named_def find_None_iff find_Some_iff split: option.splits dest: nth_mem)

end
