(* ===== verification/Pcb_Props.thy ===== *)
theory Pcb_Props
  imports Pcb_Queues
begin

text \<open>
  The contract of the process queues, creation and destruction of processes on the heap, and
  the statements of their correctness with concrete instances.
\<close>

section \<open>The contract of the queues\<close>

text \<open>
  What a scheduler relies on. \<open>rel s Q\<close>: the queues hold \<open>Q\<close>; \<open>free s Q p\<close>: \<open>p\<close> is in no
  queue; \<open>put s p Q\<close> and \<open>cut s p Q\<close>: the lists after inserting and removing \<open>p\<close>.
\<close>

locale proc_queues =
  fixes ins :: "'p \<Rightarrow> 's \<Rightarrow> 's option" and rem :: "'p \<Rightarrow> 's \<Rightarrow> (int \<times> 's) option"
    and rel :: "'s \<Rightarrow> (nat \<Rightarrow> 'p list) \<Rightarrow> bool" and free :: "'s \<Rightarrow> (nat \<Rightarrow> 'p list) \<Rightarrow> 'p \<Rightarrow> bool"
    and home :: "'s \<Rightarrow> 'p \<Rightarrow> nat" and put :: "'s \<Rightarrow> 'p \<Rightarrow> 'p list \<Rightarrow> 'p list" and same :: "'s \<Rightarrow> 's \<Rightarrow> bool"
  assumes ins_rel: "rel s Q \<Longrightarrow> free s Q p \<Longrightarrow>
      \<exists>t. ins p s = Some t \<and> rel t (Q(home s p := put s p (Q (home s p)))) \<and> same s t"
    and rem_rel: "rel s Q \<Longrightarrow> p \<in> set (Q (home s p)) \<Longrightarrow>
      \<exists>t. rem p s = Some (0, t) \<and> rel t (Q(home s p := remove1 p (Q (home s p)))) \<and>
        free t (Q(home s p := remove1 p (Q (home s p)))) p \<and> same s t"
    and put_set: "set (put s p xs) = insert p (set xs)"
    and put_remove: "p \<notin> set xs \<Longrightarrow> remove1 p (put s p xs) = xs"
    and free_not: "free s Q p \<Longrightarrow> p \<notin> set (Q (home s p))"
    and same_home: "same s t \<Longrightarrow> home t p = home s p"
begin

lemma ins_then_rem:
  assumes "rel s Q" "free s Q p"
  shows "\<exists>t u. ins p s = Some t \<and> rem p t = Some (0, u) \<and> rel u Q \<and> free u Q p \<and> same s t \<and> same t u"
proof -
  obtain t where t: "ins p s = Some t" "rel t (Q(home s p := put s p (Q (home s p))))" "same s t"
    using ins_rel [OF assms] by blast
  let ?Q = "Q(home s p := put s p (Q (home s p)))"
  have h: "home t p = home s p" by (rule same_home [OF t(3)])
  have "p \<in> set (?Q (home t p))" by (simp add: h put_set)
  from rem_rel [OF t(2) this] obtain u where u: "rem p t = Some (0, u)"
    "rel u (?Q(home t p := remove1 p (?Q (home t p))))"
    "free u (?Q(home t p := remove1 p (?Q (home t p)))) p" "same t u" by blast
  moreover have "?Q(home t p := remove1 p (?Q (home t p))) = Q"
    using put_remove [OF free_not [OF assms(2)]] by (simp add: h)
  ultimately show ?thesis using t by auto
qed

text \<open>Taking the head off a queue, which is what every dispatch does.\<close>

lemma rem_head:
  assumes "rel s Q" "Q i = p # ps" "home s p = i"
  shows "\<exists>t. rem p s = Some (0, t) \<and> rel t (Q(i := ps)) \<and> free t (Q(i := ps)) p \<and> same s t"
  using rem_rel [OF assms(1), of p] assms(2,3) by simp

end

lemma remove1_place: "p \<notin> set xs \<Longrightarrow> remove1 p (place h pr p xs) = xs"
  using place_split [of xs h pr p] by (auto simp: remove1_append)

lemma links_only_same: "links_only s t \<Longrightarrow> sel t p = sel s p"
  by (simp add: links_only_state)

interpretation pq: proc_queues pcb_insert pcb_remove queues_rel loose sel
    "\<lambda>s p. place (pcbs s) (even (sel s p)) p" links_only
proof
  fix s :: "'a procs_scheme" and Q p
  assume "queues_rel s Q" "loose s Q p"
  then show "\<exists>t. pcb_insert p s = Some t \<and>
      queues_rel t (Q(sel s p := place (pcbs s) (even (sel s p)) p (Q (sel s p)))) \<and> links_only s t"
    using pcb_insert_rel [of s Q p] by (simp add: placed_def)
next
  fix s :: "'a procs_scheme" and Q p
  assume "queues_rel s Q" "p \<in> set (Q (sel s p))"
  then show "\<exists>t. pcb_remove p s = Some (0, t) \<and> queues_rel t (Q(sel s p := remove1 p (Q (sel s p)))) \<and>
      loose t (Q(sel s p := remove1 p (Q (sel s p)))) p \<and> links_only s t"
    using pcb_remove_rel [of s Q p] by (simp add: unplaced_def)
qed (auto simp: loose_def remove1_place links_only_same)

section \<open>Processes and the heap\<close>

text \<open>
  \<open>procs_ok s Q\<close>: the queues hold \<open>Q\<close>, the queued PCBs are live heap blocks with terminated,
  pairwise different names, and every PCB object has its 64 bytes of name.
\<close>

definition procs_ok :: "'a procs_scheme \<Rightarrow> (nat \<Rightarrow> addr list) \<Rightarrow> bool" where
  "procs_ok s Q \<longleftrightarrow> queues_rel s Q \<and> named s Q \<and> heap_ok s \<and>
     set (all_queued Q) \<subseteq> live_ptrs s \<and>
     (\<forall>p. length (p_name (pcbs s p)) = MPX_PCB_PROCNAME_BUFFER_SZ) \<and>
     inj_on (pname (pcbs s)) (set (all_queued Q))"

lemma touch_procs:
  "heap_touch s t \<Longrightarrow> pcbs t = pcbs s \<and> pcb_queues t = pcb_queues s \<and> ram t = ram s \<and>
     ctxts t = ctxts s \<and> pcb_running t = pcb_running s"
  by (cases s; cases t) (simp add: heap_touch_def)

lemma live_ptrs_cong: "mcbs t = mcbs s \<Longrightarrow> alloc_head t = alloc_head s \<Longrightarrow> live_ptrs t = live_ptrs s"
  by (simp add: live_ptrs_def)

lemma heap_ok_upd [simp]:
  "heap_ok (s\<lparr>pcbs := f\<rparr>) = heap_ok s" "heap_ok (s\<lparr>ram := g\<rparr>) = heap_ok s"
  "heap_ok (s\<lparr>pcb_queues := h\<rparr>) = heap_ok s"
  "live_ptrs (s\<lparr>pcbs := f\<rparr>) = live_ptrs s" "live_ptrs (s\<lparr>ram := g\<rparr>) = live_ptrs s"
  "live_ptrs (s\<lparr>pcb_queues := h\<rparr>) = live_ptrs s"
  by (simp_all add: heap_ok_def heap_rel_def live_ptrs_def)

lemma heap_rel_upd [simp]:
  "heap_rel (s\<lparr>pcbs := f\<rparr>) bs = heap_rel s bs" "heap_rel (s\<lparr>ram := g\<rparr>) bs = heap_rel s bs"
  "heap_rel (s\<lparr>pcb_queues := h\<rparr>) bs = heap_rel s bs"
  by (simp_all add: heap_rel_def)

lemma pcb_allocate_ok:
  assumes "heap_ok s" and "heap_room2 SZ_PCB MPX_PCB_STACK_SZ s"
  shows "\<exists>p q u. pcb_allocate s = Some (p, u) \<and> p \<noteq> NULL \<and> q \<noteq> NULL \<and> p \<noteq> q \<and>
    p \<notin> live_ptrs s \<and> q \<notin> live_ptrs s \<and> live_ptrs u = insert q (insert p (live_ptrs s)) \<and>
    heap_ok u \<and> pcbs u = (pcbs s)(p := (pcbs s p)\<lparr>pstackseg := q\<rparr>) \<and>
    pcb_queues u = pcb_queues s \<and> ram u = store_bytes q (replicate 4096 0) (ram s)"
proof -
  obtain p t q u where pq: "sys_alloc_mem SZ_PCB s = Some (p, t)" "sys_alloc_mem MPX_PCB_STACK_SZ t = Some (q, u)"
    "p \<noteq> NULL" "q \<noteq> NULL" "p \<noteq> q" "p \<notin> live_ptrs s" "q \<notin> live_ptrs s"
    "live_ptrs u = insert q (insert p (live_ptrs s))" "heap_ok u"
    using heap.malloc_pair [OF assms(1) heap_room2_first [OF assms(2)], of MPX_PCB_STACK_SZ]
      heap_room2_second [OF assms(1,2)] by blast
  obtain p' t' where pt: "sys_alloc_mem SZ_PCB s = Some (p', t')" "heap_ok t'"
    using heap.malloc_fresh [OF assms(1) heap_room2_first [OF assms(2)]] by blast
  then have "heap_ok t" using pq(1) by simp
  then have "heap_touch s t" "heap_touch t u"
    using sys_alloc_touch [OF assms(1) pq(1)] sys_alloc_touch [OF _ pq(2)] by auto
  then have "pcbs u = pcbs s" "pcb_queues u = pcb_queues s" "ram u = ram s"
    using touch_procs [of s t] touch_procs [of t u] by auto
  with pq show ?thesis by (auto simp: pcb_allocate_def)
qed

text \<open>The name of a process, as it is stored.\<close>

lemma stored_name:
  assumes "0 \<in> set nm" "length (cchars nm) < 64" "length old = 64"
  shows "memcpy old nm (length (cchars nm) + 1) =
    Some (take (length (cchars nm) + 1) nm @ drop (length (cchars nm) + 1) old)"
    and "cchars (take (length (cchars nm) + 1) nm @ drop (length (cchars nm) + 1) old) = cchars nm"
    and "0 \<in> set (take (length (cchars nm) + 1) nm @ drop (length (cchars nm) + 1) old)"
proof -
  obtain xs ys where nm: "nm = xs @ 0 # ys" "0 \<notin> set xs" using split_list_first [OF assms(1)] by blast
  then have "cchars nm = xs" by (simp add: cchars_prefix)
  then show "memcpy old nm (length (cchars nm) + 1) =
      Some (take (length (cchars nm) + 1) nm @ drop (length (cchars nm) + 1) old)"
    "cchars (take (length (cchars nm) + 1) nm @ drop (length (cchars nm) + 1) old) = cchars nm"
    "0 \<in> set (take (length (cchars nm) + 1) nm @ drop (length (cchars nm) + 1) old)"
    using nm assms(2,3) by (simp_all add: memcpy_eq cchars_prefix)
qed


lemma queues_rel_cong:
  assumes "pcb_queues t = pcb_queues s"
    and "\<And>p. p \<in> set (all_queued Q) \<Longrightarrow> pcbs t p = pcbs s p"
  shows "queues_rel t Q \<longleftrightarrow> queues_rel s Q"
proof -
  have q: "pcbs t p = pcbs s p" if "i < 4" "p \<in> set (Q i)" for i p
    using assms(2) [of p] that by (auto simp: set_all_queued)
  have e: "queue_rel (pcbs t) (pcb_queues s i) (Q i) \<longleftrightarrow> queue_rel (pcbs s) (pcb_queues s i) (Q i)"
    "map (prio (pcbs t)) (Q i) = map (prio (pcbs s)) (Q i)"
    "(\<forall>p \<in> set (Q i). sel t p = i) \<longleftrightarrow> (\<forall>p \<in> set (Q i). sel s p = i)" if "i < 4" for i
    using q [OF that] by (auto intro!: queue_rel_cong)
  show ?thesis unfolding queues_rel_def assms(1) by (intro all_cong1 imp_cong refl) (simp only: e)
qed

lemma named_iff: "named s Q \<longleftrightarrow> (\<forall>p \<in> set (all_queued Q). 0 \<in> set (p_name (pcbs s p)))"
  by (auto simp: named_def set_all_queued)

text \<open>
  A successful \<^verbatim>\<open>pcb_setup\<close>: a new PCB with a new stack, unlinked, active and
  ready, with the given name, class and priority; nothing about the queues changes.
\<close>

lemma pcb_setup_ok:
  assumes ok: "procs_ok s Q" and room: "heap_room2 SZ_PCB MPX_PCB_STACK_SZ s"
    and nm: "0 \<in> set nm" "length (cchars nm) < 64"
    and new: "\<forall>p \<in> set (all_queued Q). pname (pcbs s) p \<noteq> cchars nm"
    and cp: "cl = PCB_CLASS_USER \<or> cl = PCB_CLASS_SYSTEM" "pr \<le> 9"
  shows "\<exists>p t. pcb_setup nm cl pr s = Some (p, t) \<and> procs_ok t Q \<and> loose t Q p \<and>
    p \<notin> live_ptrs s \<and> pstackseg (pcbs t p) \<notin> live_ptrs s \<and> p \<noteq> pstackseg (pcbs t p) \<and>
    live_ptrs t = insert (pstackseg (pcbs t p)) (insert p (live_ptrs s)) \<and>
    pname (pcbs t) p = cchars nm \<and> 0 \<in> set (p_name (pcbs t p)) \<and>
    p_state (pcbs t p) = \<lparr>exec = PCB_EXEC_READY, dpatch = PCB_DPATCH_ACTIVE, cls = ucast cl, pri = ucast pr\<rparr> \<and>
    pctxt (pcbs t p) = pstackseg (pcbs t p) + 4095 \<and>
    (\<forall>x \<in> set (all_queued Q). pname (pcbs t) x = pname (pcbs s) x)"
proof -
  have rel: "queues_rel s Q" and names: "named s Q" and hk: "heap_ok s"
    and live: "set (all_queued Q) \<subseteq> live_ptrs s" and len: "\<And>p. length (p_name (pcbs s p)) = 64"
    and inj: "inj_on (pname (pcbs s)) (set (all_queued Q))"
    using ok by (auto simp: procs_ok_def)
  have nn: "NULL \<notin> set (all_queued Q)"
    using queue_rel_distinct [OF queues_relD(1) [OF rel]] by (auto simp: set_all_queued)
  have find: "pcb_find nm s = Some NULL"
    using pcb_find_rel [OF rel nm(1) names] first_named_cases(1) [OF nn] new by simp
  obtain p q u where a: "pcb_allocate s = Some (p, u)" "p \<noteq> NULL" "q \<noteq> NULL" "p \<noteq> q"
    "p \<notin> live_ptrs s" "q \<notin> live_ptrs s" "live_ptrs u = insert q (insert p (live_ptrs s))"
    "heap_ok u" "pcbs u = (pcbs s)(p := (pcbs s p)\<lparr>pstackseg := q\<rparr>)" "pcb_queues u = pcb_queues s"
    using pcb_allocate_ok [OF hk room] by blast
  note st = stored_name [OF nm len [of p]]
  let ?nm = "take (length (cchars nm) + 1) nm @ drop (length (cchars nm) + 1) (p_name (pcbs s p))"
  let ?r = "(pcbs u p)\<lparr>p_next := NULL, p_name := ?nm,
      p_state := \<lparr>exec = PCB_EXEC_READY, dpatch = PCB_DPATCH_ACTIVE, cls = ucast cl, pri = ucast pr\<rparr>,
      pctxt := q + 4095\<rparr>"
  let ?t = "u\<lparr>pcbs := (pcbs u)(p := ?r)\<rparr>"
  have run: "pcb_setup nm cl pr s = Some (p, ?t)"
    using nm cp find a st(1) by (auto simp: pcb_setup_def strlen_eq Let_def algebra_simps)
  have pQ: "p \<notin> set (all_queued Q)" using a(5) live by blast
  have same: "pcbs ?t x = pcbs s x" if "x \<noteq> p" for x using that a(9) by simp
  have "queues_rel ?t Q \<longleftrightarrow> queues_rel s Q"
    using pQ same a(10) by (intro queues_rel_cong) auto
  moreover have "named ?t Q" using names pQ same unfolding named_def set_all_queued by fastforce
  moreover have "length ?nm = 64"
  proof -
    obtain xs ys where "nm = xs @ 0 # ys" "0 \<notin> set xs" using split_list_first [OF nm(1)] by blast
    then show ?thesis using nm(2) len [of p] by (simp add: cchars_prefix)
  qed
  moreover have "inj_on (pname (pcbs ?t)) (set (all_queued Q))"
    using inj pQ by (subst inj_on_cong [of _ _ "pname (pcbs s)"]) (auto simp: a(9))
  ultimately have "procs_ok ?t Q" using rel a(7,8) live len by (auto simp: procs_ok_def a(9))
  moreover have "loose ?t Q p" using pQ a(2) by (auto simp: loose_def set_all_queued)
  moreover have "\<forall>x \<in> set (all_queued Q). pname (pcbs ?t) x = pname (pcbs s) x"
    using pQ same by auto
  moreover have "pcbs ?t p = ?r" and f: "pstackseg ?r = q" "p_name ?r = ?nm" "pctxt ?r = q + 4095"
    "p_state ?r = \<lparr>exec = PCB_EXEC_READY, dpatch = PCB_DPATCH_ACTIVE, cls = ucast cl, pri = ucast pr\<rparr>"
    "live_ptrs ?t = live_ptrs u"
    by (simp_all add: a(9))
  ultimately show ?thesis using run a(4-7) st(2,3)
    by (intro exI [of _ p] exI [of _ ?t]) (simp only: f simp_thms not_False_eq_True)
qed

text \<open>Inserting such a PCB keeps the invariant.\<close>

lemma set_placed: "set (all_queued (placed s p Q)) = insert p (set (all_queued Q))"
proof -
  have "sel s p \<in> {0, 1, 2, 3}" by (simp add: PSTATE_QUEUE_SELECTOR_def)
  then show ?thesis by (auto simp: all_queued_def placed_def)
qed

lemma links_only_frame:
  assumes "links_only s t"
  shows "p_name (pcbs t x) = p_name (pcbs s x)" "pstackseg (pcbs t x) = pstackseg (pcbs s x)"
    "pctxt (pcbs t x) = pctxt (pcbs s x)" "live_ptrs t = live_ptrs s" "heap_ok t = heap_ok s"
proof -
  have x: "pcbs t x = (pcbs s x)\<lparr>p_next := p_next (pcbs t x)\<rparr>"
    and t: "t = s\<lparr>pcbs := pcbs t, pcb_queues := pcb_queues t\<rparr>"
    using assms by (auto simp: links_only_def)
  show "p_name (pcbs t x) = p_name (pcbs s x)" by (subst x) simp
  show "pstackseg (pcbs t x) = pstackseg (pcbs s x)" by (subst x) simp
  show "pctxt (pcbs t x) = pctxt (pcbs s x)" by (subst x) simp
  show "live_ptrs t = live_ptrs s" by (subst t) simp
  show "heap_ok t = heap_ok s" by (subst t) simp
qed

lemma links_only_heap:
  assumes "links_only s t"
  shows "heap_rel t bs = heap_rel s bs"
proof -
  have "t = s\<lparr>pcbs := pcbs t, pcb_queues := pcb_queues t\<rparr>" using assms by (simp add: links_only_def)
  then show ?thesis by (metis heap_rel_upd(1,3))
qed

lemma pcb_insert_ok:
  assumes ok: "procs_ok s Q" and p: "loose s Q p" "p \<in> live_ptrs s" "0 \<in> set (p_name (pcbs s p))"
    and new: "\<forall>x \<in> set (all_queued Q). pname (pcbs s) x \<noteq> pname (pcbs s) p"
  shows "\<exists>t. pcb_insert p s = Some t \<and> procs_ok t (placed s p Q) \<and> links_only s t"
proof -
  have rel: "queues_rel s Q" using ok by (simp add: procs_ok_def)
  obtain t where t: "pcb_insert p s = Some t" "queues_rel t (placed s p Q)" "links_only s t"
    using pcb_insert_rel [OF rel p(1)] by blast
  have "named t (placed s p Q)"
    using ok p(3) by (auto simp: named_iff procs_ok_def links_only_frame [OF t(3)] set_placed)
  moreover have "inj_on (pname (pcbs t)) (set (all_queued (placed s p Q)))"
    using ok new by (auto simp: set_placed procs_ok_def links_only_frame [OF t(3)] inj_on_def)
  ultimately have "procs_ok t (placed s p Q)"
    using ok t(2) p(2) by (simp add: procs_ok_def links_only_frame [OF t(3)] set_placed)
  with t show ?thesis by blast
qed


section \<open>Bytes in memory\<close>

lemma store_bytes_out:
  "unat p + length bs < 2 ^ 32 \<Longrightarrow> \<not> (unat p \<le> unat x \<and> unat x < unat p + length bs) \<Longrightarrow>
   store_bytes p bs m x = m x"
proof (induction p bs m rule: store_bytes.induct)
  case (2 p b bs m)
  then have p1: "unat (p + 1) = unat p + 1" by (simp add: unat_simps)
  have "x \<noteq> p" using 2(3) by auto
  with 2 p1 show ?case by (simp add: fun_upd_def)
qed simp

lemma store_bytes_in:
  "i < length bs \<Longrightarrow> length bs < 2 ^ 32 \<Longrightarrow> store_bytes p bs m (p + of_nat i) = bs ! i"
proof (induction p bs m arbitrary: i rule: store_bytes.induct)
  case (2 p b bs m)
  have keep: "store_bytes q cs m' x = m' x"
    if "\<forall>j < length cs. x \<noteq> q + of_nat j" for q cs and m' :: "addr \<Rightarrow> u8" and x
    using that
  proof (induction q cs m' rule: store_bytes.induct)
    case (2 q c cs m')
    have "\<forall>j < length cs. x \<noteq> q + 1 + of_nat j"
    proof (intro allI impI)
      fix j
      assume "j < length cs"
      with 2(2) have "x \<noteq> q + of_nat (Suc j)" by (simp del: of_nat_Suc)
      then show "x \<noteq> q + 1 + of_nat j" by (simp add: add.assoc)
    qed
    moreover have "x \<noteq> q" using 2(2) by (auto dest: spec [of _ 0])
    ultimately show ?case using 2(1) by (simp add: fun_upd_def)
  qed simp
  show ?case
  proof (cases i)
    case 0
    have "p \<noteq> p + 1 + of_nat j" if "j < length bs" for j
    proof
      assume "p = p + 1 + of_nat j"
      then have "(of_nat (Suc j) :: addr) = 0" by (simp add: add.assoc)
      then have "Suc j mod 2 ^ 32 = 0" by (simp add: word_of_nat_eq_0_iff dvd_eq_mod_eq_0 del: of_nat_Suc)
      then show False using that 2(3) by simp
    qed
    then show ?thesis using 0 keep [of bs p "p + 1"] by simp
  next
    case (Suc j)
    then show ?thesis using 2(1) [of j] 2(2,3) by (simp add: add.assoc fun_upd_def)
  qed
qed simp

end
