(* ===== verification/Pcb_Claims.thy ===== *)
theory Pcb_Claims
  imports Pcb_Props
begin

text \<open>
  The statements about process control blocks and their queues, each with an instance on a
  concrete state.
\<close>

section \<open>A concrete state\<close>

definition boot_procs :: "'a \<Rightarrow> 'a procs_scheme" where
  "boot_procs x = heap_on (usr_ext Allocate_Memory Free_Memory
     (procs_ext (\<lambda>p. zero_pcb) initial_queues NULL
        (\<lambda>p. \<lparr>c_gs = 0, c_fs = 0, c_es = 0, c_ds = 0, c_ss = 0, c_edi = 0, c_esi = 0, c_ebp = 0,
              c_esp = 0, c_ebx = 0, c_edx = 0, c_ecx = 0, c_eax = 0, c_eip = 0, c_cs = 0, c_eflags = 0\<rparr>)
        (\<lambda>p. 0) x))"

definition demo_name :: "string \<Rightarrow> u8 list" where
  "demo_name n = cstr n @ replicate (63 - length n) 0"

definition demo_pcb :: "string \<Rightarrow> 4 word \<Rightarrow> addr \<Rightarrow> pcb" where
  "demo_pcb n k stack =
     \<lparr>p_next = NULL, p_state = \<lparr>exec = PCB_EXEC_READY, dpatch = PCB_DPATCH_ACTIVE, cls = 1, pri = k\<rparr>,
      pstackseg = stack, pctxt = stack + 4095, p_name = demo_name n\<rparr>"

text \<open>One queued process, at \<open>0xD00000C\<close>, and another, at \<open>0xD002000\<close>, that is not.\<close>

definition demo :: "'a procs_scheme \<Rightarrow> 'a procs_scheme" where
  "demo s = s\<lparr>
     pcbs := (\<lambda>p. zero_pcb)(0xD00000C := demo_pcb ''init'' 3 0xD000068, 0xD002000 := demo_pcb ''idle'' 9 0xD003000),
     pcb_queues := initial_queues(0 := \<lparr>pcb_head = 0xD00000C, pcb_tail = 0xD00000C, ispriority = 1\<rparr>)\<rparr>"

definition demo_Q :: "nat \<Rightarrow> addr list" where
  "demo_Q = (\<lambda>i. [])(0 := [0xD00000C])"

lemmas demo_defs = demo_def demo_Q_def demo_pcb_def demo_name_def

lemma demo_sel [simp]: "sel (demo s) 0xD00000C = 0" "sel (demo s) 0xD002000 = 0"
  by (simp_all add: PSTATE_QUEUE_SELECTOR_def demo_def demo_pcb_def)

lemma demo_Q_simps [simp]: "demo_Q 0 = [0xD00000C]" "demo_Q(0 := []) = (\<lambda>i. [])"
  by (auto simp: demo_Q_def)

lemma demo_all [simp]: "all_queued demo_Q = [0xD00000C]"
  by (simp add: all_queued_def demo_Q_def)

lemma demo_unplaced [simp]: "unplaced (demo s) 0xD00000C demo_Q = (\<lambda>i. [])"
  by (simp add: unplaced_def)

lemma demo_queues: "queues_rel (demo s) demo_Q"
proof -
  have "even i \<longleftrightarrow> i = 0 \<or> i = 2" if "i < 4" for i :: nat using that by presburger
  then show ?thesis
    by (auto simp: queues_rel_def queue_rel_def initial_queues_def demo_defs PSTATE_QUEUE_SELECTOR_def)
qed

lemma demo_loose: "loose (demo s) demo_Q 0xD002000"
  by (simp add: loose_def demo_defs)

lemma demo_named: "named (demo s) demo_Q"
  by (simp add: named_iff all_queued_def demo_defs cstr_def)

lemma boot_procs_heap: "heap_ok (boot_procs x)" "heap_rel (boot_procs x) [(0xD000000, 49988, True)]"
proof -
  show r: "heap_rel (boot_procs x) [(0xD000000, 49988, True)]" unfolding boot_procs_def by (rule heap_on_rel)
  have "malloc_function (boot_procs x) = Allocate_Memory" "free_function (boot_procs x) = Free_Memory"
    by (simp_all add: boot_procs_def heap_on_eq boot_heap_def)
  with r show "heap_ok (boot_procs x)" by (auto simp: heap_ok_def)
qed

text \<open>The concrete state on a heap in which the process and its stack are allocated.\<close>

abbreviation demo_blocks :: "block list" where
  "demo_blocks \<equiv> [(0xD000000, 80, False), (0xD00005C, 4096, False), (0xD001068, 45788, True)]"

lemma alloc_on:
  assumes "heap_ok s" and "heap_rel s bs" and "unat n + 12 < 2 ^ 32" and "alloc_safe n bs" and "fst (a_alloc n bs) \<noteq> NULL"
  shows "\<exists>t. heap_ok t \<and> heap_rel t (snd (a_alloc n bs)) \<and> heap_touch s t"
proof -
  obtain t where t: "allocate_memory n s = Some (fst (a_alloc n bs), t)" "heap_rel t (snd (a_alloc n bs))"
    using allocate_rel [OF assms(2,3,4)] by auto
  have "heap_touch s t" by (rule allocate_frame [OF t(1)])
  then show ?thesis using t(2) assms(1) fns_touch [OF allocate_frame [OF t(1)]] by (auto simp: heap_ok_def)
qed

lemma demo_heap_touch: "\<exists>t :: 'a procs_scheme. heap_ok t \<and> heap_rel t demo_blocks \<and> heap_touch (boot_procs x) t"
proof -
  obtain s where s: "heap_ok s" "heap_rel s [(0xD000000, 80, False), (0xD00005C, 49896, True)]" "heap_touch (boot_procs x) s"
    using alloc_on [OF boot_procs_heap, of 80 x] by (auto simp: a_alloc_def alloc_safe_def)
  obtain t where t: "heap_ok t" "heap_rel t demo_blocks" "heap_touch s t"
    using alloc_on [OF s(1,2), of 4096] by (auto simp: a_alloc_def alloc_safe_def)
  have "heap_touch (boot_procs x) t"
    using s(3) t(3) by (cases "boot_procs x"; cases s; cases t) (simp add: heap_touch_def)
  with t show ?thesis by blast
qed

lemma demo_heap: "\<exists>t :: unit procs_scheme. heap_ok t \<and> heap_rel t demo_blocks"
  using demo_heap_touch [of "()"] by blast

lemma demo_ok:
  assumes "heap_ok t" "heap_rel t demo_blocks"
  shows "procs_ok (demo t) demo_Q" "heap_rel (demo t) demo_blocks" "heap_ok (demo t)"
proof -
  show r: "heap_rel (demo t) demo_blocks" and h: "heap_ok (demo t)" using assms by (simp_all add: demo_def)
  show "procs_ok (demo t) demo_Q"
    unfolding procs_ok_def live_ptrs_rel [OF r]
    using h demo_queues [of t] demo_named [of t]
    by (simp add: all_queued_def demo_defs cstr_def zero_pcb_def)
qed

section \<open>The queues\<close>

text \<open>
  C5: \<^verbatim>\<open>pcb_insert\<close> is a stable priority insertion. A PCB that is in no queue
  goes to the queue of its state: in a ready queue behind every PCB of the same or a greater
  priority and before every PCB of a smaller one (a greater number), in a blocked queue at the
  end. The other queues, and everything but the links, stay as they are.
\<close>

theorem pcb_insert_stable:
  assumes "queues_rel s Q" and "loose s Q p"
  shows "\<exists>t A B. Q (sel s p) = A @ B \<and> pcb_insert p s = Some t \<and>
    queues_rel t (Q(sel s p := A @ p # B)) \<and> links_only s t \<and>
    (if even (sel s p)
     then (\<forall>a \<in> set A. prio (pcbs s) a \<le> prio (pcbs s) p) \<and> (\<forall>b \<in> set B. prio (pcbs s) p < prio (pcbs s) b)
     else B = [])"
proof -
  let ?xs = "Q (sel s p)" and ?P = "\<lambda>y. prio (pcbs s) y \<le> prio (pcbs s) p"
  obtain A B where AB: "?xs = A @ B" "place (pcbs s) (even (sel s p)) p ?xs = A @ p # B"
    "even (sel s p) \<longrightarrow> A = takeWhile ?P ?xs \<and> B = dropWhile ?P ?xs" "odd (sel s p) \<longrightarrow> B = []"
    using place_split [of ?xs "pcbs s" "even (sel s p)" p] by blast
  obtain t where t: "pcb_insert p s = Some t" "queues_rel t (Q(sel s p := A @ p # B))" "links_only s t"
    using pq.ins_rel [OF assms] unfolding AB(2) by blast
  have A: "\<forall>a \<in> set A. ?P a" if "even (sel s p)" using AB(3) that set_takeWhileD by metis
  have B: "\<forall>b \<in> set B. prio (pcbs s) p < prio (pcbs s) b" if "even (sel s p)"
    using dropWhile_greater [OF queues_relD(4) [OF assms(1) _ that]] AB(3) that by simp
  have "if even (sel s p) then (\<forall>a \<in> set A. ?P a) \<and> (\<forall>b \<in> set B. prio (pcbs s) p < prio (pcbs s) b)
      else B = []"
    using A B AB(4) by simp
  with AB(1) t show ?thesis by blast
qed

theorem pcb_insert_stable_witness:
  "\<exists>t A B. demo_Q 0 = A @ B \<and> pcb_insert 0xD002000 (demo (boot_procs ())) = Some t \<and>
     queues_rel t (demo_Q(0 := A @ 0xD002000 # B))"
  using pcb_insert_stable [OF demo_queues demo_loose, of "boot_procs ()"]
  by auto

text \<open>
  C6: \<^verbatim>\<open>pcb_remove\<close> takes a queued PCB out of its queue and unlinks it, returning 0,
  and returns -1 without any change for a PCB that is not in the queue of its state.
\<close>

theorem pcb_remove_correct:
  assumes "queues_rel s Q" and "p \<noteq> NULL"
  shows "if p \<in> set (Q (sel s p))
    then \<exists>t. pcb_remove p s = Some (0, t) \<and> queues_rel t (Q(sel s p := remove1 p (Q (sel s p)))) \<and>
      loose t (Q(sel s p := remove1 p (Q (sel s p)))) p \<and> links_only s t
    else pcb_remove p s = Some (- 1, s)"
  using pq.rem_rel [OF assms(1)] pcb_remove_absent [OF assms] by simp

theorem pcb_remove_correct_witness:
  "\<exists>t. pcb_remove 0xD00000C (demo (boot_procs ())) = Some (0, t) \<and> queues_rel t (\<lambda>i. [])"
  using pcb_remove_correct [OF demo_queues, of "0xD00000C" "boot_procs ()"]
  by auto

text \<open>
  Removing a PCB directly after inserting it succeeds and leaves the queues as they were.
\<close>

theorem pcb_insert_remove:
  assumes "queues_rel s Q" and "loose s Q p"
  shows "\<exists>t u. pcb_insert p s = Some t \<and> pcb_remove p t = Some (0, u) \<and> queues_rel u Q \<and> loose u Q p"
  using pq.ins_then_rem [OF assms] by blast

theorem pcb_insert_remove_witness:
  "\<exists>t u. pcb_insert 0xD002000 (demo (boot_procs ())) = Some t \<and> pcb_remove 0xD002000 t = Some (0, u) \<and>
     queues_rel u demo_Q"
  using pcb_insert_remove [OF demo_queues demo_loose, of "boot_procs ()"] by blast

text \<open>
  C31: \<^verbatim>\<open>pcb_find\<close> returns NULL exactly when no queued process has the name, and
  otherwise a queued process of that name.
\<close>

theorem pcb_find_correct:
  assumes "queues_rel s Q" and "named s Q" and "0 \<in> set nm"
  shows "\<exists>p. pcb_find nm s = Some p \<and>
    (if p = NULL then \<forall>q \<in> set (all_queued Q). pname (pcbs s) q \<noteq> cchars nm
     else p \<in> set (all_queued Q) \<and> pname (pcbs s) p = cchars nm)"
proof -
  have "NULL \<notin> set (all_queued Q)"
    using queue_rel_distinct [OF queues_relD(1) [OF assms(1)]] by (auto simp: set_all_queued)
  then show ?thesis using pcb_find_rel [OF assms(1,3,2)] first_named_cases by auto
qed

theorem pcb_find_correct_witness:
  "pcb_find (cstr ''init'') (demo (boot_procs ())) = Some 0xD00000C \<and>
   (\<exists>p. pcb_find (cstr ''init'') (demo (boot_procs ())) = Some p)"
  using pcb_find_correct [OF demo_queues demo_named, of "cstr ''init''" "boot_procs ()"]
  by (auto simp: all_queued_def demo_defs cstr_def bytes_def cchars_def zero_pcb_def split: if_splits)


section \<open>Creation and destruction\<close>

text \<open>
  C7: Creating a process. With room in the heap for a PCB and a stack, an unused name of at
  most 63 characters, a valid class and a priority of at most 9, \<^verbatim>\<open>pcb_setup\<close>
  followed by \<^verbatim>\<open>pcb_insert\<close>, as every creator of a process does it, queues one
  more process that is active and ready with the given name, class and priority, whose PCB and
  stack are two new heap blocks, and keeps the invariant: live PCBs, terminated and unique names,
  sorted ready queues.
\<close>

theorem process_create:
  assumes "procs_ok s Q" and "heap_room2 SZ_PCB MPX_PCB_STACK_SZ s"
    and "0 \<in> set nm" and "length (cchars nm) < 64"
    and "\<forall>p \<in> set (all_queued Q). pname (pcbs s) p \<noteq> cchars nm"
    and "cl = PCB_CLASS_USER \<or> cl = PCB_CLASS_SYSTEM" and "pr \<le> 9"
  shows "\<exists>p t u. pcb_setup nm cl pr s = Some (p, t) \<and> pcb_insert p t = Some u \<and>
    procs_ok u (placed t p Q) \<and> set (all_queued (placed t p Q)) = insert p (set (all_queued Q)) \<and>
    p \<notin> live_ptrs s \<and> pstackseg (pcbs u p) \<notin> live_ptrs s \<and>
    live_ptrs u = {p, pstackseg (pcbs u p)} \<union> live_ptrs s \<and> pname (pcbs u) p = cchars nm \<and>
    p_state (pcbs u p) = \<lparr>exec = PCB_EXEC_READY, dpatch = PCB_DPATCH_ACTIVE, cls = ucast cl, pri = ucast pr\<rparr>"
proof -
  obtain p t where t: "pcb_setup nm cl pr s = Some (p, t)" "procs_ok t Q" "loose t Q p"
    "p \<notin> live_ptrs s" "pstackseg (pcbs t p) \<notin> live_ptrs s" "p \<noteq> pstackseg (pcbs t p)"
    "live_ptrs t = insert (pstackseg (pcbs t p)) (insert p (live_ptrs s))"
    "pname (pcbs t) p = cchars nm" "0 \<in> set (p_name (pcbs t p))"
    "p_state (pcbs t p) = \<lparr>exec = PCB_EXEC_READY, dpatch = PCB_DPATCH_ACTIVE, cls = ucast cl, pri = ucast pr\<rparr>"
    "\<forall>x \<in> set (all_queued Q). pname (pcbs t) x = pname (pcbs s) x"
    using pcb_setup_ok [OF assms] by blast
  have "\<forall>x \<in> set (all_queued Q). pname (pcbs t) x \<noteq> pname (pcbs t) p" using t(8,11) assms(5) by simp
  moreover have "p \<in> live_ptrs t" using t(7) by simp
  ultimately obtain u where u: "pcb_insert p t = Some u" "procs_ok u (placed t p Q)" "links_only t u"
    using pcb_insert_ok [OF t(2,3) _ t(9)] by blast
  show ?thesis
    using t u by (intro exI [of _ p] exI [of _ t] exI [of _ u])
      (auto simp: set_placed links_only_frame [OF u(3)] links_only_state [OF u(3)])
qed

theorem process_create_witness:
  "\<exists>p t u. pcb_setup (cstr ''init'') PCB_CLASS_USER 3 (boot_procs ()) = Some (p, t) \<and>
     pcb_insert p t = Some u \<and> procs_ok u (placed t p (\<lambda>i. []))"
proof -
  note b = boot_procs_heap [of "()"]
  have z: "pcbs (boot_procs ()) = (\<lambda>p. zero_pcb)" "pcb_queues (boot_procs ()) = initial_queues"
    by (simp_all add: boot_procs_def heap_on_eq boot_heap_def)
  have "procs_ok (boot_procs ()) (\<lambda>i. [])"
    using b(1) by (simp add: procs_ok_def named_def all_queued_def z zero_pcb_def initial_queues_rel)
  moreover have "heap_room2 SZ_PCB MPX_PCB_STACK_SZ (boot_procs ())"
    unfolding heap_room2_def SZ_PCB_def
    by (rule conjI, simp, rule conjI, simp, rule exI [of _ "[(0xD000000, 49988, True)]"])
      (simp add: b(2) a_alloc_def alloc_safe_def)
  ultimately show ?thesis
    using process_create [of "boot_procs ()" "\<lambda>i. []" "cstr ''init''" PCB_CLASS_USER 3]
    by (auto simp: all_queued_def cstr_def bytes_def cchars_def)
qed

text \<open>
  C32: \<^verbatim>\<open>pcb_setup\<close> refuses, with NULL and without any change, a name of more than 63
  characters, a name that a queued process has, a class that is neither system nor user, and a
  priority above 9.
\<close>

theorem pcb_setup_refuses:
  assumes "queues_rel s Q" and "named s Q" and "0 \<in> set nm"
    and "64 \<le> length (cchars nm) \<or> (\<exists>p \<in> set (all_queued Q). pname (pcbs s) p = cchars nm) \<or>
      \<not> (cl = PCB_CLASS_USER \<or> cl = PCB_CLASS_SYSTEM) \<or> 9 < pr"
  shows "pcb_setup nm cl pr s = Some (NULL, s)"
proof -
  have "NULL \<notin> set (all_queued Q)"
    using queue_rel_distinct [OF queues_relD(1) [OF assms(1)]] by (auto simp: set_all_queued)
  then obtain p where "pcb_find nm s = Some p"
    "(\<exists>p \<in> set (all_queued Q). pname (pcbs s) p = cchars nm) \<longrightarrow> p \<noteq> NULL"
    using pcb_find_rel [OF assms(1,3,2)] first_named_cases(1) by auto
  with assms(3,4) show ?thesis by (auto simp: pcb_setup_def strlen_eq Let_def)
qed

theorem pcb_setup_refuses_witness:
  "pcb_setup (cstr ''init'') PCB_CLASS_USER 3 (demo (boot_procs ())) = Some (NULL, demo (boot_procs ()))"
  using pcb_setup_refuses [OF demo_queues demo_named, of "cstr ''init''" "boot_procs ()"]
  by (auto simp: all_queued_def demo_defs cstr_def bytes_def cchars_def)

lemma process_delete_lemma:
  assumes "procs_ok s Q" and "p \<in> set (Q (sel s p))"
    and "pstackseg (pcbs s p) \<in> live_ptrs s" and "pstackseg (pcbs s p) \<notin> set (all_queued Q)"
    and "heap_releasable2 (pstackseg (pcbs s p)) p s"
  shows "\<exists>t u. pcb_remove p s = Some (0, t) \<and> pcb_free p t = Some (0, u) \<and>
    procs_ok u (unplaced s p Q) \<and> live_ptrs u = live_ptrs s - {p, pstackseg (pcbs s p)} \<and>
    (\<forall>x. x \<noteq> p \<longrightarrow> p_name (pcbs u x) = p_name (pcbs s x) \<and> p_state (pcbs u x) = p_state (pcbs s x))"
proof -
  let ?q = "pstackseg (pcbs s p)" and ?Q = "unplaced s p Q"
  have rel: "queues_rel s Q" using assms(1) by (simp add: procs_ok_def)
  obtain t where t: "pcb_remove p s = Some (0, t)" "queues_rel t ?Q" "loose t ?Q p" "links_only s t"
    using pcb_remove_rel [OF rel assms(2)] by blast
  note fr = links_only_frame [OF t(4)]
  have pQ: "p \<in> set (all_queued Q)" using assms(2) by (auto simp: set_all_queued)
  then have p0: "p \<noteq> NULL" and pl: "p \<in> live_ptrs s" using t(3) assms(1) by (auto simp: loose_def procs_ok_def)
  have hk: "heap_ok t" using assms(1) by (simp add: procs_ok_def fr)
  have r2: "heap_releasable2 ?q p t" using assms(5) links_only_heap [OF t(4)] by (simp add: heap_releasable2_def)
  have qt: "?q \<in> live_ptrs t" using assms(3) by (simp add: fr)
  obtain v where v: "sys_free_mem ?q t = Some (0, v)" "live_ptrs v = live_ptrs t - {?q}" "heap_ok v"
    using heap.mfree_live [OF hk qt heap_releasable2_first [OF r2]] by blast
  let ?w = "v\<lparr>pcbs := (pcbs v)(p := zero_pcb)\<rparr>"
  have "p \<noteq> ?q" using pQ assms(4) by auto
  then have "p \<in> live_ptrs ?w" using pl by (simp add: v(2) fr)
  moreover have "heap_releasable p ?w" using heap_releasable2_second [OF hk r2 qt v(1)] by (simp add: heap_releasable_def)
  moreover have "heap_ok ?w" using v(3) by simp
  ultimately obtain u where u: "sys_free_mem p ?w = Some (0, u)" "live_ptrs u = live_ptrs ?w - {p}" "heap_ok u"
    using heap.mfree_live [of ?w p] by blast
  have run: "pcb_free p t = Some (0, u)" using v(1) u(1) p0 by (simp add: pcb_free_def fr)
  have pc: "pcbs u = (pcbs t)(p := zero_pcb)" "pcb_queues u = pcb_queues t"
    using touch_procs [OF sys_free_touch [OF hk v(1)]] touch_procs [OF sys_free_touch [OF _ u(1)]] v(3) by auto
  have nQ: "p \<notin> set (all_queued ?Q)" using t(3) by (auto simp: loose_def set_all_queued)
  have sub: "set (all_queued ?Q) \<subseteq> set (all_queued Q)"
    unfolding set_all_queued
    by (intro UN_mono) (use set_remove1_subset [of p "Q (sel s p)"] in \<open>auto simp: unplaced_def\<close>)
  have "queues_rel u ?Q" using t(2) nQ by (subst queues_rel_cong [of _ t]) (auto simp: pc)
  moreover have "named u ?Q" using assms(1) sub nQ by (auto simp: procs_ok_def named_iff pc fr)
  moreover have "inj_on (pname (pcbs u)) (set (all_queued ?Q))"
    using assms(1) sub nQ by (subst inj_on_cong [of _ _ "pname (pcbs s)"])
      (auto simp: procs_ok_def pc fr intro: inj_on_subset)
  moreover have "set (all_queued ?Q) \<subseteq> live_ptrs u"
    using assms(1,4) sub nQ by (auto simp: procs_ok_def u(2) v(2) fr)
  ultimately have "procs_ok u ?Q"
    using assms(1) u(3) by (simp add: procs_ok_def pc fr zero_pcb_def)
  moreover have "live_ptrs u = live_ptrs s - {p, ?q}" by (auto simp: u(2) v(2) fr)
  moreover have "\<forall>x. x \<noteq> p \<longrightarrow> p_name (pcbs u x) = p_name (pcbs s x) \<and> p_state (pcbs u x) = p_state (pcbs s x)"
    using links_only_state [OF t(4)] by (simp add: pc fr)
  ultimately show ?thesis using t(1) run by blast
qed

text \<open>
  C8: Destroying a process. Taking a queued process out of its queue and freeing it returns 0
  twice, leaves neither its PCB nor its stack live, and keeps the invariant of the remaining
  processes.
\<close>

theorem process_delete:
  assumes "procs_ok s Q" and "p \<in> set (Q (sel s p))"
    and "pstackseg (pcbs s p) \<in> live_ptrs s" and "pstackseg (pcbs s p) \<notin> set (all_queued Q)"
    and "heap_releasable2 (pstackseg (pcbs s p)) p s"
  shows "\<exists>t u. pcb_remove p s = Some (0, t) \<and> pcb_free p t = Some (0, u) \<and>
    procs_ok u (unplaced s p Q) \<and> live_ptrs u = live_ptrs s - {p, pstackseg (pcbs s p)}"
  using process_delete_lemma [OF assms] by blast

theorem process_delete_witness:
  "\<exists>s t u :: unit procs_scheme. procs_ok s demo_Q \<and> pcb_remove 0xD00000C s = Some (0, t) \<and>
     pcb_free 0xD00000C t = Some (0, u) \<and> procs_ok u (\<lambda>i. []) \<and> live_ptrs u = {}"
proof -
  obtain h :: "unit procs_scheme" where h: "heap_ok h" "heap_rel h demo_blocks" using demo_heap by blast
  note d = demo_ok [OF h]
  have stack: "pstackseg (pcbs (demo h) 0xD00000C) = 0xD000068" by (simp add: demo_def demo_pcb_def)
  have live: "live_ptrs (demo h) = {0xD00000C, 0xD000068}" by (auto simp: live_ptrs_rel [OF d(2)])
  have "heap_releasable2 0xD000068 0xD00000C (demo h)"
    unfolding heap_releasable2_def
    by (rule exI [of _ demo_blocks]) (simp add: d(2) free_safe_def a_free_def ends_free_def)
  then show ?thesis
    using process_delete [OF d(1), of "0xD00000C"] d(1)
    by (auto simp: stack live demo_all demo_unplaced)
qed

section \<open>The initial context\<close>

text \<open>
  C33: \<^verbatim>\<open>pcb_context_init\<close> builds the first stack frame inside the stack. For a PCB
  as \<^verbatim>\<open>pcb_setup\<close> leaves it and at most 32 bytes of arguments, the saved context, the
  place of a return address and the arguments fill the top of the 4096 bytes of stack without
  overlap; the context starts the function with interrupts on and the stack pointer below the
  return address, where a C function finds its arguments 4 bytes above. No other byte is written.
\<close>

theorem pcb_context_init_frame:
  assumes "p \<noteq> NULL" and "pctxt (pcbs s p) = stack + 4095" and "unat stack + 4096 < 2 ^ 32"
    and "length args \<le> 32"
  shows "\<exists>t c. pcb_context_init p func (Some args) (length args) s = Some t \<and>
    pctxt (pcbs t p) = c \<and> unat stack \<le> unat c \<and>
    unat c + unat SZ_CONTEXT + 4 + length args = unat stack + 4096 \<and>
    c_eip (ctxts t c) = func \<and> c_esp (ctxts t c) = c + SZ_CONTEXT \<and> c_ebp (ctxts t c) = c + SZ_CONTEXT \<and>
    c_cs (ctxts t c) = 0x08 \<and> c_ss (ctxts t c) = 0x10 \<and> c_eflags (ctxts t c) = 0x202 \<and>
    (\<forall>i < length args. ram t (c_esp (ctxts t c) + 4 + of_nat i) = args ! i) \<and>
    (\<forall>x. \<not> (c + SZ_CONTEXT + 4 \<le> x \<and> x < stack + 4096) \<longrightarrow> ram t x = ram s x)"
proof -
  let ?n = "length args"
  define a where "a = stack + 4096 - of_nat ?n"
  define c where "c = a - 4 - SZ_CONTEXT"
  obtain t where t: "pcb_context_init p func (Some args) ?n s = Some t" "pctxt (pcbs t p) = c"
    "ram t = store_bytes a args (ram s)"
    "ctxts t c = \<lparr>c_gs = 0x0010, c_fs = 0x0010, c_es = 0x0010, c_ds = 0x0010, c_ss = 0x0010,
       c_edi = 0, c_esi = 0, c_ebp = a - 4, c_esp = a - 4, c_ebx = 0, c_edx = 0, c_ecx = 0, c_eax = 0,
       c_eip = func, c_cs = 0x0008, c_eflags = 0x00000202\<rparr>"
    using assms(1,2,4) unfolding c_def a_def
    by (simp add: pcb_context_init_def set_pctxt_def Let_def algebra_simps)
  have top: "unat (stack + 4096) = unat stack + 4096" using assms(3) by (simp add: unat_simps)
  have n: "unat (of_nat ?n :: u32) = ?n" using assms(4) by (simp add: unat_of_nat)
  have a: "unat a = unat stack + 4096 - ?n" using top n assms(4) by (simp add: unat_simps a_def)
  have "unat (a - 4) = unat a - unat (4 :: addr)"
    by (rule unat_sub_noflow) (use a assms(4) in simp)
  then have a4: "unat (a - 4) = unat stack + 4092 - ?n" unfolding a by simp
  have "unat c = unat (a - 4) - unat SZ_CONTEXT"
    unfolding c_def by (rule unat_sub_noflow) (use assms(4) in \<open>simp add: a4 SZ_CONTEXT_def\<close>)
  then have c: "unat c = unat stack + 4028 - ?n" unfolding a4 by (simp add: SZ_CONTEXT_def)
  have sp: "c + SZ_CONTEXT = a - 4" by (simp add: c_def)
  have rd: "ram t (a + of_nat i) = args ! i" if "i < ?n" for i
    using that assms(4) by (simp add: t(3) store_bytes_in)
  have out: "ram t x = ram s x" if "\<not> (a \<le> x \<and> x < stack + 4096)" for x
  proof -
    have "unat a + ?n < 2 ^ 32" using a assms(3,4) by simp
    moreover have "\<not> (unat a \<le> unat x \<and> unat x < unat a + ?n)"
      using that top a assms(4) by (simp add: word_le_nat_alt word_less_nat_alt)
    ultimately show ?thesis by (simp add: t(3) store_bytes_out)
  qed
  have sz: "unat SZ_CONTEXT = 64" by (simp add: SZ_CONTEXT_def)
  have "(\<forall>i < ?n. ram t (c_esp (ctxts t c) + 4 + of_nat i) = args ! i) \<and>
      (\<forall>x. \<not> (c + SZ_CONTEXT + 4 \<le> x \<and> x < stack + 4096) \<longrightarrow> ram t x = ram s x)"
    unfolding sp t(4) using rd out by simp
  then show ?thesis
    using t(1,2) c assms(4) by (intro exI [of _ t] exI [of _ c]) (simp add: sz sp t(4))
qed

theorem pcb_context_init_frame_witness:
  "\<exists>t c. pcb_context_init 0xD00000C 0x100000 (Some [1, 2, 3, 4]) (Suc 3) (demo (boot_procs ())) = Some t \<and>
     pctxt (pcbs t 0xD00000C) = c \<and> c_eip (ctxts t c) = 0x100000 \<and> ram t (c_esp (ctxts t c) + 4) = 1"
proof -
  have ctxt: "pctxt (pcbs (demo (boot_procs ())) 0xD00000C) = 0xD000068 + 4095"
    by (simp add: demo_def demo_pcb_def)
  show ?thesis
    using pcb_context_init_frame [of "0xD00000C" "demo (boot_procs ())" "0xD000068" "[1, 2, 3, 4]" "0x100000"]
    by (auto simp: ctxt numeral_3_eq_3 dest!: spec [of _ "0 :: nat"])
qed

end
