(* ===== verification/Idt.thy ===== *)
theory Idt
  imports Pcb_Claims
begin

text \<open>
  The descriptor tables and the interrupt controllers of \<^verbatim>\<open>kernel/core.c\<close>. A
  handler is named by its symbol; \<open>isr_addr\<close> is the address the linker gives it, about which
  nothing is assumed.
\<close>

section \<open>State\<close>

datatype isr =
    divide_error | isr_debug | nmi | breakpoint | isr_overflow | isr_bounds | invalid_op
  | device_not_available | double_fault | coprocessor_segment | invalid_tss
  | segment_not_present | stack_segment | general_protection | page_fault | isr_reserved
  | coprocessor | rtc_isr | sys_call_isr | serial_isr

record gdt_entry =
  limit_low :: u16
  base_low :: u16
  base_mid :: u8
  gdt_access :: u8
  gdt_flags :: u8
  gdt_base_high :: u8

record idt_entry =
  idt_base_low :: u16
  sselect :: u16
  idt_zero :: u8
  idt_flags :: u8
  idt_base_high :: u16

record kern = procs +
  isr_addr :: "isr \<Rightarrow> addr"
  idt_entries :: "idt_entry list"
  idtr :: "idt_entry list option"
  gdtr :: "gdt_entry list option"
  data_segs :: u16
  initialized :: "bool list"

definition zero_gate :: idt_entry where
  "zero_gate = \<lparr>idt_base_low = 0, sselect = 0, idt_zero = 0, idt_flags = 0, idt_base_high = 0\<rparr>"

definition REQUIRED_INTERRUPTS :: nat where "REQUIRED_INTERRUPTS = 32"
definition PIC1 :: u16 where "PIC1 = 0x20"
definition PIC2 :: u16 where "PIC2 = 0xA0"
definition ICW1 :: u8 where "ICW1 = 0x11"
definition ICW4 :: u8 where "ICW4 = 0x01"

section \<open>The global descriptor table\<close>

definition gdt_table :: "gdt_entry list" where
  "gdt_table =
     [\<lparr>limit_low = 0x0000, base_low = 0x0, base_mid = 0x0, gdt_access = 0x00, gdt_flags = 0x00, gdt_base_high = 0x0\<rparr>,
      \<lparr>limit_low = 0xffff, base_low = 0x0, base_mid = 0x0, gdt_access = 0x9a, gdt_flags = 0xff, gdt_base_high = 0x0\<rparr>,
      \<lparr>limit_low = 0xffff, base_low = 0x0, base_mid = 0x0, gdt_access = 0x92, gdt_flags = 0xff, gdt_base_high = 0x0\<rparr>,
      \<lparr>limit_low = 0xffff, base_low = 0x0, base_mid = 0x0, gdt_access = 0xfa, gdt_flags = 0xff, gdt_base_high = 0x0\<rparr>,
      \<lparr>limit_low = 0xffff, base_low = 0x0, base_mid = 0x0, gdt_access = 0xf2, gdt_flags = 0xff, gdt_base_high = 0x0\<rparr>]"

definition gdt_init :: "'a kern_scheme \<Rightarrow> 'a kern_scheme" where
  "gdt_init s = s\<lparr>gdtr := Some gdt_table, data_segs := 0x10\<rparr>"

section \<open>The interrupt descriptor table\<close>

definition idt_set_gate ::
  "nat \<Rightarrow> isr \<Rightarrow> u16 \<Rightarrow> u8 \<Rightarrow> 'a kern_scheme \<Rightarrow> 'a kern_scheme option" where
  "idt_set_gate idx fn sl flags s = do {
     let base = isr_addr s fn;
     let new_entry = \<lparr>idt_base_low = ucast (base AND 0xFFFF), sselect = sl, idt_zero = 0,
                      idt_flags = flags, idt_base_high = ucast (drop_bit 16 base AND 0xFFFF)\<rparr>;
     es \<leftarrow> wr (idt_entries s) idx new_entry;
     Some (s\<lparr>idt_entries := es\<rparr>)
   }"

text \<open>\<^verbatim>\<open>lidt\<close> loads the address of the table, so that later gates are live.\<close>

definition idt_init :: "'a kern_scheme \<Rightarrow> 'a kern_scheme" where
  "idt_init s = s\<lparr>idtr := Some (idt_entries s)\<rparr>"

definition idt_install :: "nat \<Rightarrow> isr \<Rightarrow> 'a kern_scheme \<Rightarrow> 'a kern_scheme option" where
  "idt_install vector handler s = idt_set_gate vector handler 0x08 0x8e s"

definition isrs :: "isr list" where
  "isrs = [divide_error, isr_debug, nmi, breakpoint, isr_overflow, isr_bounds, invalid_op,
     device_not_available, double_fault, coprocessor_segment, invalid_tss, segment_not_present,
     stack_segment, general_protection, page_fault, isr_reserved, coprocessor]"

fun set_gates :: "nat \<Rightarrow> isr list \<Rightarrow> 'a kern_scheme \<Rightarrow> 'a kern_scheme option" where
  "set_gates i [] s = Some s"
| "set_gates i (f # fs) s = do {
     s \<leftarrow> idt_set_gate i f 0x08 0x8e s;
     set_gates (Suc i) fs s
   }"

definition irq_init :: "'a kern_scheme \<Rightarrow> 'a kern_scheme option" where
  "irq_init s = do {
     let nisrs = length isrs;
     s \<leftarrow> set_gates 0 isrs s;
     s \<leftarrow> set_gates nisrs (replicate (REQUIRED_INTERRUPTS - nisrs) isr_reserved) s;
     s \<leftarrow> idt_set_gate 0x08 rtc_isr 0x08 0x8e s;
     idt_set_gate 0x60 sys_call_isr 0x08 0x8e s
   }"

text \<open>
  \<^verbatim>\<open>io_wait\<close> writes whatever \<^verbatim>\<open>al\<close> holds to the unused port
  \<open>0x80\<close>, a delay without effect; it is left out.
\<close>

definition pic_init :: "'a kern_scheme \<Rightarrow> 'a kern_scheme" where
  "pic_init s =
     (let s = outb PIC1 ICW1 s;
          s = outb PIC2 ICW1 s;
          s = outb (PIC1 + 1) 0x20 s;
          s = outb (PIC2 + 1) 0x28 s;
          s = outb (PIC1 + 1) 4 s;
          s = outb (PIC2 + 1) 2 s;
          s = outb (PIC1 + 1) ICW4 s;
          s = outb (PIC2 + 1) ICW4 s;
          s = outb (PIC1 + 1) 0xFF s;
          s = outb (PIC2 + 1) 0xFF s
      in s)"

section \<open>What the hardware reads\<close>

text \<open>The address a gate leads to, as the processor puts it together.\<close>

definition gate_target :: "idt_entry \<Rightarrow> addr" where
  "gate_target e = push_bit 16 (ucast (idt_base_high e)) OR ucast (idt_base_low e)"

lemma gate_roundtrip:
  "push_bit 16 (ucast (ucast (drop_bit 16 b AND 0xFFFF) :: u16)) OR ucast (ucast (b AND 0xFFFF) :: u16) = (b :: addr)"
proof -
  have m: "0xFFFF = (mask 16 :: addr)" by (simp add: mask_eq_exp_minus_1)
  show ?thesis unfolding m by (intro bit_word_eqI) (auto simp: bit_simps)
qed

definition installed :: "'a kern_scheme \<Rightarrow> nat \<Rightarrow> isr \<Rightarrow> bool" where
  "installed s v f \<longleftrightarrow> v < length (idt_entries s) \<and>
     gate_target (idt_entries s ! v) = isr_addr s f \<and>
     sselect (idt_entries s ! v) = 0x08 \<and> idt_flags (idt_entries s ! v) = 0x8e"

lemma idt_set_gate_ok:
  "v < length (idt_entries s) \<Longrightarrow>
   \<exists>t. idt_set_gate v f 0x08 0x8e s = Some t \<and> installed t v f \<and>
     length (idt_entries t) = length (idt_entries s) \<and> isr_addr t = isr_addr s \<and>
     (\<forall>w. w \<noteq> v \<longrightarrow> idt_entries t ! w = idt_entries s ! w) \<and> t = s\<lparr>idt_entries := idt_entries t\<rparr>"
  by (simp add: idt_set_gate_def Let_def installed_def gate_target_def gate_roundtrip)

lemma idt_set_gate_frame: "idt_set_gate v f sl fl s = Some t \<Longrightarrow> t = s\<lparr>idt_entries := idt_entries t\<rparr>"
  by (auto simp: idt_set_gate_def Let_def wr_def split: if_splits)

lemma set_gates_trace: "set_gates i fs s = Some t \<Longrightarrow> m_trace t = m_trace s"
proof (induction i fs s rule: set_gates.induct)
  case (2 i f fs s)
  then obtain u where u: "idt_set_gate i f 0x08 0x8e s = Some u" "set_gates (Suc i) fs u = Some t"
    by (auto simp: bind_eq_Some_conv)
  have "m_trace u = m_trace s" by (subst idt_set_gate_frame [OF u(1)]) simp
  with 2(1) [OF u] show ?case by simp
qed simp

lemma irq_init_trace:
  assumes "irq_init s = Some t"
  shows "m_trace t = m_trace s"
proof -
  obtain a b c where a: "set_gates 0 isrs s = Some a"
    "set_gates (length isrs) (replicate (REQUIRED_INTERRUPTS - length isrs) isr_reserved) a = Some b"
    "idt_set_gate 0x08 rtc_isr 0x08 0x8e b = Some c" "idt_set_gate 0x60 sys_call_isr 0x08 0x8e c = Some t"
    using assms by (auto simp: irq_init_def Let_def bind_eq_Some_conv)
  have "m_trace c = m_trace b" by (subst idt_set_gate_frame [OF a(3)]) simp
  moreover have "m_trace t = m_trace c" by (subst idt_set_gate_frame [OF a(4)]) simp
  ultimately show ?thesis using set_gates_trace [OF a(1)] set_gates_trace [OF a(2)] by simp
qed

lemma set_gates_ok:
  "i + length fs \<le> length (idt_entries s) \<Longrightarrow>
   \<exists>t. set_gates i fs s = Some t \<and> length (idt_entries t) = length (idt_entries s) \<and>
     isr_addr t = isr_addr s \<and> (\<forall>k < length fs. installed t (i + k) (fs ! k)) \<and>
     (\<forall>w. w < i \<or> i + length fs \<le> w \<longrightarrow> idt_entries t ! w = idt_entries s ! w)"
proof (induction i fs s rule: set_gates.induct)
  case (2 i f fs s)
  obtain t where t: "idt_set_gate i f 0x08 0x8e s = Some t" "installed t i f"
    "length (idt_entries t) = length (idt_entries s)" "isr_addr t = isr_addr s"
    "\<forall>w. w \<noteq> i \<longrightarrow> idt_entries t ! w = idt_entries s ! w"
    using idt_set_gate_ok [of i s f] 2(2) by auto
  obtain u where u: "set_gates (Suc i) fs t = Some u" "length (idt_entries u) = length (idt_entries t)"
    "isr_addr u = isr_addr t" "\<forall>k < length fs. installed u (Suc i + k) (fs ! k)"
    "\<forall>w. w < Suc i \<or> Suc i + length fs \<le> w \<longrightarrow> idt_entries u ! w = idt_entries t ! w"
    using 2(1) [OF t(1)] 2(2) t(3) by auto
  have "installed u i f" using t(2,3,4) u(2,3,5) by (simp add: installed_def)
  then have "\<forall>k < length (f # fs). installed u (i + k) ((f # fs) ! k)"
    using u(4) by (auto simp: nth_Cons split: nat.split)
  with t u show ?case by auto
qed simp

lemma irq_init_lemma:
  assumes "length (idt_entries s) = 256"
  shows "\<exists>t. irq_init s = Some t \<and>
    (\<forall>v < 32. installed t v (if v = 8 then rtc_isr else if v < 17 then isrs ! v else isr_reserved)) \<and>
    installed t 0x60 sys_call_isr \<and>
    (\<forall>v. 32 \<le> v \<and> v \<noteq> 0x60 \<longrightarrow> idt_entries t ! v = idt_entries s ! v)"
proof -
  have n: "length isrs = 17" by (simp add: isrs_def)
  obtain a where a: "set_gates 0 isrs s = Some a" "length (idt_entries a) = 256" "isr_addr a = isr_addr s"
    "\<forall>k < 17. installed a k (isrs ! k)" "\<forall>w \<ge> 17. idt_entries a ! w = idt_entries s ! w"
    using set_gates_ok [of 0 isrs s] assms by (auto simp: n)
  let ?fs = "replicate 15 isr_reserved"
  obtain b where b: "set_gates 17 ?fs a = Some b" "length (idt_entries b) = 256" "isr_addr b = isr_addr a"
    "\<forall>k < 15. installed b (17 + k) isr_reserved"
    "\<forall>w. w < 17 \<or> 32 \<le> w \<longrightarrow> idt_entries b ! w = idt_entries a ! w"
    using set_gates_ok [of 17 ?fs a] a(2) by auto
  obtain c where c: "idt_set_gate 8 rtc_isr 0x08 0x8e b = Some c" "installed c 8 rtc_isr"
    "length (idt_entries c) = 256" "isr_addr c = isr_addr b"
    "\<forall>w. w \<noteq> 8 \<longrightarrow> idt_entries c ! w = idt_entries b ! w"
    using idt_set_gate_ok [of 8 b rtc_isr] b(2) by auto
  obtain d where d: "idt_set_gate 0x60 sys_call_isr 0x08 0x8e c = Some d" "installed d 0x60 sys_call_isr"
    "length (idt_entries d) = 256" "isr_addr d = isr_addr c"
    "\<forall>w. w \<noteq> 0x60 \<longrightarrow> idt_entries d ! w = idt_entries c ! w"
    using idt_set_gate_ok [of "0x60" c sys_call_isr] c(3) by auto
  have run: "irq_init s = Some d"
    using a(1) b(1) c(1) d(1) by (simp add: irq_init_def n REQUIRED_INTERRUPTS_def)
  have "installed d v (if v = 8 then rtc_isr else if v < 17 then isrs ! v else isr_reserved)" if v: "v < 32" for v
  proof -
    consider "v = 8" | "v < 17" "v \<noteq> 8" | k where "v = 17 + k" "k < 15"
      using v that(3) [of "v - 17"] by fastforce
    then show ?thesis
    proof cases
      case 1
      then show ?thesis using c(2,3,4) d(3,4,5) by (simp add: installed_def)
    next
      case 2
      then show ?thesis using a(2,3,4) b(2,3,5) c(3,4,5) d(3,4,5) by (simp add: installed_def)
    next
      case 3
      then have "installed b v isr_reserved" using b(4) by simp
      then show ?thesis using 3 b(2) c(3,4,5) d(3,4,5) by (simp add: installed_def)
    qed
  qed
  moreover have "idt_entries d ! v = idt_entries s ! v" if "32 \<le> v" "v \<noteq> 0x60" for v
    using that a(5) b(5) c(5) d(5) by simp
  ultimately show ?thesis using run d(2) by blast
qed


definition boot_kern :: "'a \<Rightarrow> 'a kern_scheme" where
  "boot_kern x = boot_procs (kern_ext (\<lambda>f. 0x100000) (replicate 256 zero_gate) None None 0 (replicate 4 False) x)"

text \<open>
  \<^verbatim>\<open>irq_init\<close> on an IDT of 256 entries installs a present interrupt gate of
  the kernel code segment in every one of the first 32 vectors and in the system call vector.
  The gate leads to the exception's handler, to \<^verbatim>\<open>reserved\<close> for vectors 17 to 31, to
  \<^verbatim>\<open>sys_call_isr\<close> for \<open>0x60\<close>, and, for vector 8, to the clock's handler in
  place of the double fault's. The vector of the clock's line, \<open>0x28\<close>, is not touched.
\<close>

theorem irq_init_installs:
  assumes "length (idt_entries s) = 256"
  shows "\<exists>t. irq_init s = Some t \<and>
    (\<forall>v < 32. installed t v (if v = 8 then rtc_isr else if v < 17 then isrs ! v else isr_reserved)) \<and>
    installed t 0x60 sys_call_isr \<and>
    (\<forall>v. 32 \<le> v \<and> v \<noteq> 0x60 \<longrightarrow> idt_entries t ! v = idt_entries s ! v)"
  by (rule irq_init_lemma [OF assms])

lemma boot_kern_idt: "length (idt_entries (boot_kern x)) = 256" "m_trace (boot_kern x) = []"
  "idt_entries (boot_kern x) = replicate 256 zero_gate"
  by (simp_all add: boot_kern_def boot_procs_def heap_on_eq boot_heap_def)

theorem irq_init_installs_witness:
  "\<exists>t. irq_init (boot_kern ()) = Some t \<and> installed t 14 page_fault \<and> installed t 0x60 sys_call_isr"
proof -
  obtain t where t: "irq_init (boot_kern ()) = Some t" "installed t 0x60 sys_call_isr"
    "\<forall>v < 32. installed t v (if v = 8 then rtc_isr else if v < 17 then isrs ! v else isr_reserved)"
    using irq_init_installs [OF boot_kern_idt(1) [of "()"]] by blast
  have "isrs ! 14 = page_fault" by (simp add: isrs_def)
  with t show ?thesis using t(3) [rule_format, of 14] by simp
qed

text \<open>
  The clock's handler sits on the wrong vector. The controllers are remapped so that line
  8, the clock, raises vector \<open>0x28\<close>; after \<^verbatim>\<open>irq_init\<close> on the empty
  table and \<^verbatim>\<open>pic_init\<close> that vector has no gate, and vector 8, the double
  fault, leads to \<^verbatim>\<open>rtc_isr\<close>.
\<close>

theorem rtc_vector_unset:
  "(case irq_init (boot_kern ()) of
      None \<Rightarrow> False
    | Some t \<Rightarrow> idt_entries (pic_init t) ! 0x28 = zero_gate \<and> installed (pic_init t) 8 rtc_isr \<and>
        outs_of (PIC2 + 1) (m_trace (pic_init t)) = [0x28, 2, ICW4, 0xFF])"
proof -
  obtain t where t: "irq_init (boot_kern ()) = Some t"
    "\<forall>v < 32. installed t v (if v = 8 then rtc_isr else if v < 17 then isrs ! v else isr_reserved)"
    "\<forall>v. 32 \<le> v \<and> v \<noteq> 0x60 \<longrightarrow> idt_entries t ! v = idt_entries (boot_kern ()) ! v"
    using irq_init_lemma [OF boot_kern_idt(1) [of "()"]] by blast
  have v8: "installed t 8 rtc_isr" using t(2) [rule_format, of 8] by simp
  have v28: "idt_entries t ! 0x28 = zero_gate"
    using t(3) [rule_format, of "0x28"] by (simp add: boot_kern_idt)
  have tr: "m_trace t = []" using irq_init_trace [OF t(1)] by (simp add: boot_kern_idt)
  have "idt_entries (pic_init t) = idt_entries t" "isr_addr (pic_init t) = isr_addr t"
    by (simp_all add: pic_init_def Let_def outb_def)
  with t(1) v8 v28 tr show ?thesis
    by (simp add: installed_def pic_init_def Let_def PIC1_def PIC2_def)
qed

end
