(* ===== verification/Serial_Poll.thy ===== *)
theory Serial_Poll
  imports Idt
begin

text \<open>
  Polled serial I/O of \<^verbatim>\<open>kernel/serial.c\<close>: initialisation, blocking output and
  the line editor of \<^verbatim>\<open>serial_poll\<close>.
\<close>

section \<open>Devices and registers\<close>

definition COM1 :: u32 where "COM1 = 0x3f8"
definition COM2 :: u32 where "COM2 = 0x2f8"
definition COM3 :: u32 where "COM3 = 0x3e8"
definition COM4 :: u32 where "COM4 = 0x2e8"

lemmas devices = COM1_def COM2_def COM3_def COM4_def

definition RBR :: u32 where "RBR = 0"
definition DLL :: u32 where "DLL = 0"
definition IER :: u32 where "IER = 1"
definition DLM :: u32 where "DLM = 1"
definition IIR :: u32 where "IIR = 2"
definition FCR :: u32 where "FCR = 2"
definition LCR :: u32 where "LCR = 3"
definition MCR :: u32 where "MCR = 4"
definition LSR :: u32 where "LSR = 5"
definition MSR :: u32 where "MSR = 6"

lemmas uart_registers = RBR_def DLL_def IER_def DLM_def IIR_def FCR_def LCR_def MCR_def LSR_def MSR_def

text \<open>The port of a register: the processor takes the low 16 bits.\<close>

definition port :: "u32 \<Rightarrow> u32 \<Rightarrow> u16" where
  "port dev reg = ucast (dev + reg)"

definition serial_devno :: "u32 \<Rightarrow> nat option" where
  "serial_devno dev =
     (if dev = COM1 then Some 0 else if dev = COM2 then Some 1
      else if dev = COM3 then Some 2 else if dev = COM4 then Some 3 else None)"

section \<open>Initialisation and output\<close>

definition serial_init :: "u32 \<Rightarrow> 'a kern_scheme \<Rightarrow> (int \<times> 'a kern_scheme) option" where
  "serial_init dev s =
     (case serial_devno dev of
        None \<Rightarrow> Some (- 1, s)
      | Some dno \<Rightarrow> do {
          let s = outb (port dev IER) 0x00 s;
          let s = outb (port dev LCR) 0x80 s;
          let s = outb (port dev DLL) (115200 div 9600) s;
          let s = outb (port dev DLM) 0x00 s;
          let s = outb (port dev LCR) 0x03 s;
          let s = outb (port dev FCR) 0xC7 s;
          let s = outb (port dev MCR) 0x0B s;
          let (_, s) = inb (port dev RBR) s;
          ini \<leftarrow> wr (initialized s) dno True;
          Some (0, s\<lparr>initialized := ini\<rparr>)
        })"

fun serial_out_loop :: "u32 \<Rightarrow> u8 list \<Rightarrow> nat \<Rightarrow> nat \<Rightarrow> 'a kern_scheme \<Rightarrow> 'a kern_scheme option" where
  "serial_out_loop dev buffer i 0 s = Some s"
| "serial_out_loop dev buffer i (Suc k) s = do {
     b \<leftarrow> rd buffer i;
     serial_out_loop dev buffer (Suc i) k (outb (port dev RBR) b s)
   }"

definition serial_out ::
  "u32 \<Rightarrow> u8 list \<Rightarrow> nat \<Rightarrow> 'a kern_scheme \<Rightarrow> (int \<times> 'a kern_scheme) option" where
  "serial_out dev buffer len s =
     (case serial_devno dev of
        None \<Rightarrow> Some (- 1, s)
      | Some dno \<Rightarrow> do {
          ini \<leftarrow> rd (initialized s) dno;
          if \<not> ini then Some (- 1, s)
          else do {
            s \<leftarrow> serial_out_loop dev buffer 0 len s;
            Some (int len, s)
          }
        })"

section \<open>The line editor\<close>

text \<open>Moving the bytes behind the cursor one place down, and up.\<close>

fun copy_down :: "nat \<Rightarrow> nat \<Rightarrow> nat \<Rightarrow> u8 list \<Rightarrow> u8 list option" where
  "copy_down d b 0 buffer = Some buffer"
| "copy_down d b (Suc k) buffer = do {
     x \<leftarrow> rd buffer (d + 1 + b);
     buffer \<leftarrow> wr buffer (d + b) x;
     copy_down d (Suc b) k buffer
   }"

fun copy_up :: "nat \<Rightarrow> nat \<Rightarrow> u8 list \<Rightarrow> u8 list option" where
  "copy_up i 0 buffer = Some buffer"
| "copy_up i (Suc b) buffer = do {
     x \<leftarrow> rd buffer (i + b);
     buffer \<leftarrow> wr buffer (i + Suc b) x;
     copy_up i b buffer
   }"

text \<open>Printing the line again and moving the terminal's cursor back.\<close>

fun cursor_back :: "u32 \<Rightarrow> nat \<Rightarrow> 'a kern_scheme \<Rightarrow> 'a kern_scheme" where
  "cursor_back dev 0 s = s"
| "cursor_back dev (Suc k) s =
     cursor_back dev k (outb (port dev RBR) 0x44 (outb (port dev RBR) 0x5B (outb (port dev RBR) 0x1B s)))"

definition redraw :: "u32 \<Rightarrow> u8 list \<Rightarrow> nat \<Rightarrow> bool \<Rightarrow> nat \<Rightarrow> 'a kern_scheme \<Rightarrow> 'a kern_scheme option" where
  "redraw dev buffer currsz blank back s = do {
     let s = outb (port dev RBR) 0x0D s;
     s \<leftarrow> serial_out_loop dev buffer 0 currsz s;
     let s = (if blank then outb (port dev RBR) 0x20 s else s);
     Some (cursor_back dev back s)
   }"

text \<open>
  One received byte. The loop variables are the buffer, \<^verbatim>\<open>currsz\<close> and the position
  \<^verbatim>\<open>i\<close>; the first component of the result says whether ENTER ended the poll.
\<close>

definition poll_key ::
  "u32 \<Rightarrow> u8 \<Rightarrow> u8 list \<times> nat \<times> nat \<Rightarrow> 'a kern_scheme \<Rightarrow>
   (bool \<times> (u8 list \<times> nat \<times> nat) \<times> 'a kern_scheme) option" where
  "poll_key dev c v s =
     (case v of (buffer, currsz, i) \<Rightarrow>
      if c = 0x08 \<and> i > 0 then do {
        buffer \<leftarrow> copy_down (i - 1) 0 (currsz - i) buffer;
        let i = i - 1;
        let currsz = currsz - 1;
        buffer \<leftarrow> wr buffer currsz 0;
        s \<leftarrow> redraw dev buffer currsz True (currsz - i + 1) s;
        Some (False, (buffer, currsz, i), s)
      }
      else if c = 0x7F then
        (if i < currsz then do {
           buffer \<leftarrow> copy_down i 0 (currsz - i) buffer;
           let currsz = currsz - 1;
           buffer \<leftarrow> wr buffer currsz 0;
           s \<leftarrow> redraw dev buffer currsz True (currsz - i + 1) s;
           Some (False, (buffer, currsz, i), s)
         }
         else Some (False, (buffer, currsz, i), s))
      else if c = 0x1B then
        (let (c, s) = inb (port dev RBR) s
         in if c = 0x5B then
              (let (c, s) = inb (port dev RBR) s
               in if c = 0x44 then
                    (if i > 0 then Some (False, (buffer, currsz, i - 1), outb (port dev RBR) 0x08 s)
                     else Some (False, (buffer, currsz, i), s))
                  else if c = 0x43 then
                    (if i < currsz
                     then Some (False, (buffer, currsz, i + 1),
                       outb (port dev RBR) 0x43 (outb (port dev RBR) 0x5B (outb (port dev RBR) 0x1B s)))
                     else Some (False, (buffer, currsz, i), s))
                  else Some (False, (buffer, currsz, i), s))
            else Some (False, (buffer, currsz, i), s))
      else if (c \<ge> 0x21 \<and> c \<le> 0x7E) \<or> isspace c then
        (if c = 0x0A \<or> c = 0x0D then Some (True, (buffer, currsz, i), s)
         else do {
           buffer \<leftarrow> copy_up i (currsz - i) buffer;
           buffer \<leftarrow> wr buffer i c;
           let i = i + 1;
           let currsz = currsz + 1;
           s \<leftarrow> redraw dev buffer currsz False (currsz - i) s;
           Some (False, (buffer, currsz, i), s)
         })
      else Some (False, (buffer, currsz, i), s))"

partial_function (option) poll_loop ::
  "u32 \<Rightarrow> nat \<Rightarrow> u8 list \<times> nat \<times> nat \<Rightarrow> 'a kern_scheme \<Rightarrow> ((u8 list \<times> nat) \<times> 'a kern_scheme) option" where
  "poll_loop dev len v s =
     (case v of (buffer, currsz, i) \<Rightarrow>
      if currsz < len then
        (case inb (port dev LSR) s of (lsr, s) \<Rightarrow>
         if lsr AND 0x01 \<noteq> 0 then
           (case inb (port dev RBR) s of (c, s) \<Rightarrow>
            Option.bind (poll_key dev c (buffer, currsz, i) s)
              (\<lambda>(stop, v, s). if stop then Some ((fst v, fst (snd v)), s) else poll_loop dev len v s))
         else poll_loop dev len (buffer, currsz, i) s)
      else Some ((buffer, currsz), s))"

definition serial_poll ::
  "u32 \<Rightarrow> u8 list \<Rightarrow> u32 \<Rightarrow> 'a kern_scheme \<Rightarrow> (int \<times> u8 list \<times> 'a kern_scheme) option" where
  "serial_poll dev buffer len s =
     (case serial_devno dev of
        None \<Rightarrow> Some (- 1, buffer, s)
      | Some dno \<Rightarrow> do {
          ini \<leftarrow> rd (initialized s) dno;
          if \<not> ini then Some (- 1, buffer, s)
          else do {
            let len = len - 1;
            buffer \<leftarrow> wr buffer (unat len) 0;
            ((buffer, currsz), s) \<leftarrow> poll_loop dev (unat len) (buffer, 0, 0) s;
            Some (int currsz, buffer, s)
          }
        })"

end
