(* ===== verification/Serial_Edit.thy ===== *)
theory Serial_Edit
  imports Serial_Poll
begin

text \<open>
  The line editor of \<^verbatim>\<open>serial_poll\<close> against its specification: a text with a
  cursor.
\<close>

section \<open>The specification\<close>

datatype key = Typed u8 | Backspace | Delete | Cursor_Left | Cursor_Right | No_Data

definition typable :: "u8 \<Rightarrow> bool" where
  "typable c \<longleftrightarrow> (c \<ge> 0x21 \<and> c \<le> 0x7E \<or> isspace c) \<and> c \<noteq> 0x0A \<and> c \<noteq> 0x0D"

definition enter :: "u8 \<Rightarrow> bool" where
  "enter c \<longleftrightarrow> c = 0x0A \<or> c = 0x0D"

fun edit :: "key \<Rightarrow> u8 list \<times> nat \<Rightarrow> u8 list \<times> nat" where
  "edit (Typed c) (t, i) = (take i t @ c # drop i t, i + 1)"
| "edit Backspace (t, i) = (if i > 0 then (take (i - 1) t @ drop i t, i - 1) else (t, i))"
| "edit Delete (t, i) = (if i < length t then (take i t @ drop (i + 1) t, i) else (t, i))"
| "edit Cursor_Left (t, i) = (t, i - 1)"
| "edit Cursor_Right (t, i) = (t, if i < length t then i + 1 else i)"
| "edit No_Data (t, i) = (t, i)"

fun valid_key :: "key \<Rightarrow> bool" where
  "valid_key (Typed c) = typable c"
| "valid_key k = True"

text \<open>
  What the device's registers deliver for a key: the line status register says that there is
  data, then the receive register has the bytes.
\<close>

definition sends :: "u32 \<Rightarrow> u8 list \<Rightarrow> (u16 \<times> u8) list" where
  "sends dev bs = (port dev LSR, 1) # map (Pair (port dev RBR)) bs"

fun wire :: "u32 \<Rightarrow> key \<Rightarrow> (u16 \<times> u8) list" where
  "wire dev (Typed c) = sends dev [c]"
| "wire dev Backspace = sends dev [0x08]"
| "wire dev Delete = sends dev [0x7F]"
| "wire dev Cursor_Left = sends dev [0x1B, 0x5B, 0x44]"
| "wire dev Cursor_Right = sends dev [0x1B, 0x5B, 0x43]"
| "wire dev No_Data = [(port dev LSR, 0)]"

text \<open>The keys leave the text shorter than \<open>len\<close> all the time.\<close>

fun fits_in :: "nat \<Rightarrow> key list \<Rightarrow> u8 list \<times> nat \<Rightarrow> bool" where
  "fits_in len [] st \<longleftrightarrow> length (fst st) < len"
| "fits_in len (k # ks) st \<longleftrightarrow> length (fst st) < len \<and> valid_key k \<and> fits_in len ks (edit k st)"

text \<open>
  The hardware: the next input instructions find \<open>xs\<close>, each value in the register it is paired
  with. What any other register would answer is open.
\<close>

definition serves :: "'a machine_scheme \<Rightarrow> (u16 \<times> u8) list \<Rightarrow> bool" where
  "serves s xs \<longleftrightarrow>
     (\<forall>j < length xs. \<forall>h. m_env s (m_count s + j) h (fst (xs ! j)) = snd (xs ! j))"

text \<open>Hardware for the concrete instances: it serves \<open>xs\<close>, and every other register is 0.\<close>

definition ports :: "(u16 \<times> u8) list \<Rightarrow> nat \<Rightarrow> io_event list \<Rightarrow> u16 \<Rightarrow> u8" where
  "ports xs n h p = (if n < length xs \<and> p = fst (xs ! n) then snd (xs ! n) else 0)"

lemma serves_ports: "m_env s = ports xs \<Longrightarrow> m_count s = 0 \<Longrightarrow> serves s xs"
  by (simp add: serves_def ports_def)

section \<open>Moving bytes\<close>

lemma copy_down_eq:
  "d + b + k < length buf \<Longrightarrow>
   copy_down d b k buf = Some (take (d + b) buf @ take k (drop (d + b + 1) buf) @ drop (d + b + k) buf)"
proof (induction k arbitrary: b buf)
  case (Suc k)
  let ?buf = "buf[d + b := buf ! (d + b + 1)]"
  have "take (d + Suc b) ?buf = take (d + b) buf @ [buf ! (d + b + 1)]"
    using Suc.prems by (simp add: take_Suc_conv_app_nth take_update_swap list_update_append)
  moreover have "drop (d + b + 1) buf = buf ! (d + b + 1) # drop (d + b + 2) buf"
    using Suc.prems by (simp add: Cons_nth_drop_Suc)
  ultimately show ?case using Suc.prems Suc.IH [of "Suc b" ?buf] by simp
qed simp

lemma copy_up_eq:
  "i + b < length buf \<Longrightarrow>
   copy_up i b buf = Some (take (Suc i) buf @ take b (drop i buf) @ drop (i + b + 1) buf)"
proof (induction b arbitrary: buf)
  case (Suc b)
  let ?buf = "buf[i + Suc b := buf ! (i + b)]"
  have "take (Suc b) (drop i buf) = take b (drop i buf) @ [buf ! (i + b)]"
    using Suc.prems by (simp add: take_Suc_conv_app_nth)
  moreover have "drop (i + b + 1) ?buf = buf ! (i + b) # drop (i + b + 2) buf"
    using Suc.prems by (simp add: Cons_nth_drop_Suc [symmetric] drop_update_cancel)
  ultimately show ?case using Suc.prems Suc.IH [of ?buf] by (simp add: drop_update_swap take_update_cancel)
next
  case 0
  then show ?case by (simp add: take_Suc_conv_app_nth id_take_nth_drop [symmetric])
qed

section \<open>Printing\<close>

definition prints :: "'a machine_scheme \<Rightarrow> 'a machine_scheme \<Rightarrow> bool" where
  "prints s t \<longleftrightarrow> t = s\<lparr>m_trace := m_trace t\<rparr>"

lemma prints_refl [simp]: "prints s s"
  by (simp add: prints_def)

lemma prints_outb [simp]: "prints s t \<Longrightarrow> prints s (outb p b t)"
  by (cases s; cases t) (simp add: prints_def outb_def)

lemma prints_trans: "prints s t \<Longrightarrow> prints t u \<Longrightarrow> prints s u"
  by (cases s; cases t; cases u) (simp add: prints_def)

lemma serial_out_loop_ok:
  "i + k \<le> length buf \<Longrightarrow> \<exists>t. serial_out_loop dev buf i k s = Some t \<and> prints s t \<and>
     m_trace t = m_trace s @ map (Outb (port dev RBR)) (take k (drop i buf))"
proof (induction k arbitrary: i s)
  case (Suc k)
  then obtain t where "serial_out_loop dev buf (Suc i) k (outb (port dev RBR) (buf ! i) s) = Some t"
    "prints (outb (port dev RBR) (buf ! i) s) t"
    "m_trace t = m_trace s @ Outb (port dev RBR) (buf ! i) # map (Outb (port dev RBR)) (take k (drop (Suc i) buf))"
    by (metis Suc_le_eq add_Suc_right add_Suc append.assoc append_Cons append_Nil trace_simps(1))
  moreover have "prints s (outb (port dev RBR) (buf ! i) s)" by simp
  then have "prints s t" using calculation(2) by (rule prints_trans)
  ultimately show ?case using Suc.prems by (auto simp: Cons_nth_drop_Suc [symmetric])
qed simp

lemma cursor_back_prints: "prints s t \<Longrightarrow> prints s (cursor_back dev k t)"
  by (induction dev k t rule: cursor_back.induct) auto

lemma redraw_ok: "n \<le> length buf \<Longrightarrow> \<exists>t. redraw dev buf n bl bk s = Some t \<and> prints s t"
proof -
  assume "n \<le> length buf"
  then obtain t where "serial_out_loop dev buf 0 n (outb (port dev RBR) 0x0D s) = Some t"
    "prints (outb (port dev RBR) 0x0D s) t"
    using serial_out_loop_ok [of 0 n buf dev "outb (port dev RBR) 0x0D s"] by auto
  moreover have "prints s (outb (port dev RBR) 0x0D s)" by simp
  then have "prints s t" using calculation(2) by (rule prints_trans)
  ultimately show ?thesis by (auto simp: redraw_def intro!: cursor_back_prints)
qed

section \<open>One key\<close>

text \<open>The editor's variables hold the text \<open>t\<close> with the cursor at \<open>i\<close>.\<close>

definition ed_rel :: "nat \<Rightarrow> u8 list \<times> nat \<times> nat \<Rightarrow> u8 list \<times> nat \<Rightarrow> bool" where
  "ed_rel len v st \<longleftrightarrow>
     (case v of (buf, n, i) \<Rightarrow> case st of (t, j) \<Rightarrow>
        n = length t \<and> i = j \<and> j \<le> length t \<and> take n buf = t \<and> len < length buf \<and> buf ! len = 0)"

lemma inb_serves:
  "serves s ((p, x) # xs) \<Longrightarrow> \<exists>t. inb p s = (x, t) \<and> serves t xs \<and> m_env t = m_env s \<and>
     t = s\<lparr>m_trace := m_trace t, m_count := m_count t\<rparr>"
proof -
  assume a: "serves s ((p, x) # xs)"
  then have "m_env s (m_count s) (m_trace s) p = x" by (auto simp: serves_def dest: spec [of _ 0])
  moreover have "m_env s (Suc (m_count s) + j) h (fst (xs ! j)) = snd (xs ! j)" if "j < length xs" for j h
    using a that unfolding serves_def by (metis Suc_less_eq add_Suc add_Suc_right length_Cons nth_Cons_Suc)
  ultimately show ?thesis by (simp add: inb_def Let_def serves_def)
qed

lemma prints_serves: "prints s t \<Longrightarrow> serves t xs = serves s xs"
  by (cases s; cases t) (simp add: prints_def serves_def)


lemma ed_rel_split:
  assumes "ed_rel len (buf, n, i) (t, j)" "length t < len"
  obtains y rest where "buf = t @ y # rest" "n = length t" "i = j" "j \<le> length t"
    "len < length buf" "(y # rest) ! (len - length t) = 0"
proof -
  have r: "n = length t" "i = j" "j \<le> length t" "take n buf = t" "len < length buf" "buf ! len = 0"
    using assms(1) by (auto simp: ed_rel_def)
  then obtain y rest where buf: "buf = t @ y # rest"
    using assms(2) append_take_drop_id [of n buf] by (cases "drop n buf") auto
  then show ?thesis using r assms(2) by (intro that [of y rest]) (simp_all add: nth_append)
qed

lemma poll_key_insert:
  assumes rel: "ed_rel len (buf, n, i) (t, j)" and c: "typable c" and room: "length t < len"
  shows "\<exists>v s'. poll_key dev c (buf, n, i) s = Some (False, v, s') \<and> prints s s' \<and>
    ed_rel len v (edit (Typed c) (t, j))"
proof -
  obtain y rest where buf: "buf = t @ y # rest" and r: "n = length t" "i = j" "j \<le> length t" "len < length buf"
    and z: "(y # rest) ! (len - length t) = 0" using ed_rel_split [OF rel room] .
  have esc: "c \<noteq> 0x08" "c \<noteq> 0x7F" "c \<noteq> 0x1B" "(c \<ge> 0x21 \<and> c \<le> 0x7E) \<or> isspace c" "c \<noteq> 0x0A" "c \<noteq> 0x0D"
    using c by (auto simp: typable_def isspace_def)
  obtain A B where t: "t = A @ B" and A: "j = length A" using r(3) by (metis append_take_drop_id length_take min.absorb2)
  let ?buf = "A @ c # B @ rest"
  have up: "copy_up j (n - j) buf = Some (take (Suc j) buf @ B @ rest)"
    using r by (subst copy_up_eq) (auto simp: buf t A)
  have wr: "wr (take (Suc j) buf @ B @ rest) j c = Some ?buf"
    by (cases B) (auto simp: buf t A list_update_append)
  obtain s' where s': "redraw dev ?buf (n + 1) False (n + 1 - (j + 1)) s = Some s'" "prints s s'"
    using redraw_ok [of "n + 1" ?buf dev False "n + 1 - (j + 1)" s] r by (auto simp: t)
  have "poll_key dev c (buf, n, i) s = Some (False, (?buf, n + 1, j + 1), s')"
    using esc up wr s'(1) r(2) by (simp add: poll_key_def)
  moreover have "ed_rel len (?buf, n + 1, j + 1) (edit (Typed c) (t, j))"
    using r room z by (auto simp: ed_rel_def buf t A nth_append nth_Cons' Suc_diff_le)
  ultimately show ?thesis using s'(2) by blast
qed

lemma poll_key_remove:
  assumes rel: "ed_rel len (buf, n, i) (t, j)" and d: "d < length t" and room: "length t < len"
    and k: "k = n - d \<or> k = n - d - 1"
  shows "\<exists>b b'. copy_down d 0 k buf = Some b \<and> wr b (n - 1) 0 = Some b' \<and>
    ed_rel len (b', n - 1, d) (take d t @ drop (d + 1) t, d) \<and> n - 1 \<le> length b'"
proof -
  obtain y rest where buf: "buf = t @ y # rest" and r: "n = length t" "len < length buf"
    and z: "(y # rest) ! (len - length t) = 0" using ed_rel_split [OF rel room] .
  obtain A x B where t: "t = A @ x # B" and A: "d = length A"
    using id_take_nth_drop [OF d] d by (metis length_take min.absorb4)
  obtain w where "copy_down d 0 k buf = Some (A @ B @ w # y # rest)"
  proof (cases "k = n - d")
    case True
    have "copy_down d 0 k buf = Some (A @ B @ y # y # rest)"
      using r room True by (subst copy_down_eq) (auto simp: buf t A)
    then show ?thesis by (rule that)
  next
    case False
    then have k1: "k = length B" using k by (simp add: r t A)
    have "copy_down d 0 k buf = Some (A @ B @ drop (length B) (x # B) @ y # rest)"
      using r room drop_append [of "length B" "x # B" "y # rest"]
      by (subst copy_down_eq) (auto simp: buf t A k1)
    moreover obtain w where "drop (length B) (x # B) = [w]" by (cases B rule: rev_cases) auto
    ultimately show ?thesis using that by simp
  qed
  moreover have "wr (A @ B @ w # y # rest) (n - 1) 0 = Some (A @ B @ 0 # y # rest)"
    by (simp add: r t list_update_append)
  moreover have "ed_rel len (A @ B @ 0 # y # rest, n - 1, d) (take d t @ drop (d + 1) t, d)"
    using r room z by (auto simp: ed_rel_def buf t A nth_append nth_Cons' Suc_diff_le)
  ultimately show ?thesis by (intro exI [of _ "A @ B @ w # y # rest"] exI [of _ "A @ B @ 0 # y # rest"])
      (simp add: r t)
qed

text \<open>A key, all of whose bytes are there, is the edit of the specification.\<close>

lemma wire_Cons:
  "k \<noteq> No_Data \<Longrightarrow> wire dev k = (port dev LSR, 1) # (port dev RBR, snd (hd (tl (wire dev k)))) # tl (tl (wire dev k))"
  by (cases k) (auto simp: sends_def)

lemma poll_key_edit:
  assumes rel: "ed_rel len v (t, j)" and k: "valid_key k" "k \<noteq> No_Data" and room: "length t < len"
    and srv: "serves s (tl (tl (wire dev k)) @ xs)"
  shows "\<exists>v' s'. poll_key dev (snd (hd (tl (wire dev k)))) v s = Some (False, v', s') \<and> ed_rel len v' (edit k (t, j)) \<and>
    serves s' xs \<and> s' = s\<lparr>m_trace := m_trace s', m_count := m_count s'\<rparr>"
proof -
  obtain buf n i where v: "v = (buf, n, i)" by (cases v)
  have r: "n = length t" "i = j" "j \<le> length t" using rel by (auto simp: v ed_rel_def)
  have pr: "serves u xs \<and> u = s\<lparr>m_trace := m_trace u, m_count := m_count u\<rparr>"
    if "serves s xs" "prints s u" for u
  proof -
    have "u = s\<lparr>m_trace := m_trace u, m_count := m_count u\<rparr>"
      using that(2) by (cases s; cases u) (simp add: prints_def)
    with that show ?thesis by (simp add: prints_serves)
  qed
  have rmv: "\<exists>v' s'. Option.bind (copy_down d 0 m buf) (\<lambda>b. Option.bind (wr b (n - 1) 0) (\<lambda>b.
      Option.bind (redraw dev b (n - 1) True bk s) (\<lambda>s. Some (False, (b, n - 1, d), s)))) =
      Some (False, v', s') \<and> ed_rel len v' (take d t @ drop (d + 1) t, d) \<and> serves s' xs \<and>
      s' = s\<lparr>m_trace := m_trace s', m_count := m_count s'\<rparr>"
    if d: "d < length t" and sv: "serves s xs" and m: "m = n - d \<or> m = n - d - 1" for d m bk
  proof -
    obtain b b' where b: "copy_down d 0 m buf = Some b" "wr b (n - 1) 0 = Some b'"
      "ed_rel len (b', n - 1, d) (take d t @ drop (d + 1) t, d)" "n - 1 \<le> length b'"
      using poll_key_remove [OF rel [unfolded v] d room m] by blast
    obtain u where "redraw dev b' (n - 1) True bk s = Some u" "prints s u"
      using redraw_ok [OF b(4), of dev True bk s] by blast
    with b pr [OF sv] show ?thesis by simp
  qed
  show ?thesis
  proof (cases k)
    case (Typed c)
    obtain v' s' where "poll_key dev c (buf, n, i) s = Some (False, v', s')" "prints s s'"
      "ed_rel len v' (edit (Typed c) (t, j))"
      using poll_key_insert [OF rel [unfolded v], of c dev s] k(1) room by (auto simp: Typed)
    with pr [of s'] srv show ?thesis by (simp add: v Typed sends_def)
  next
    case Backspace
    show ?thesis
    proof (cases "j > 0")
      case True
      have "serves s xs" using srv by (simp add: Backspace sends_def)
      moreover have "n - j = n - (j - 1) - 1" "j - 1 < length t" using True r by auto
      ultimately show ?thesis
        using rmv [of "j - 1" "n - j" "n - 1 - (j - 1) + 1"] True
        by (simp add: Backspace v r poll_key_def Let_def sends_def)
    next
      case False
      with srv rel show ?thesis by (simp add: Backspace v r poll_key_def isspace_def sends_def)
    qed
  next
    case Delete
    show ?thesis
    proof (cases "j < length t")
      case True
      have "serves s xs" using srv by (simp add: Delete sends_def)
      with rmv [OF True, of "n - 1 - j + 1"] True show ?thesis
        by (simp add: Delete v r poll_key_def Let_def sends_def)
    next
      case False
      with srv rel show ?thesis by (simp add: Delete v r poll_key_def sends_def)
    qed
  next
    case Cursor_Left
    obtain a where a: "inb (port dev RBR) s = (0x5B, a)" "serves a ((port dev RBR, 0x44) # xs)"
      "a = s\<lparr>m_trace := m_trace a, m_count := m_count a\<rparr>"
      using inb_serves [of s "port dev RBR" "0x5B" "(port dev RBR, 0x44) # xs"] srv by (auto simp: Cursor_Left sends_def)
    obtain b where b: "inb (port dev RBR) a = (0x44, b)" "serves b xs"
      "b = a\<lparr>m_trace := m_trace b, m_count := m_count b\<rparr>"
      using inb_serves [OF a(2)] by auto
    have sb: "u = s\<lparr>m_trace := m_trace u, m_count := m_count u\<rparr> \<and> serves u xs" if "prints b u" for u
      using that a(3) b(2,3) by (cases s; cases a; cases b; cases u) (simp add: prints_def serves_def)
    show ?thesis using a(1) b(1) sb [of b] sb [of "outb (port dev RBR) 0x08 b"] rel r room
      by (auto simp: Cursor_Left v poll_key_def Let_def ed_rel_def sends_def)
  next
    case Cursor_Right
    obtain a where a: "inb (port dev RBR) s = (0x5B, a)" "serves a ((port dev RBR, 0x43) # xs)"
      "a = s\<lparr>m_trace := m_trace a, m_count := m_count a\<rparr>"
      using inb_serves [of s "port dev RBR" "0x5B" "(port dev RBR, 0x43) # xs"] srv by (auto simp: Cursor_Right sends_def)
    obtain b where b: "inb (port dev RBR) a = (0x43, b)" "serves b xs"
      "b = a\<lparr>m_trace := m_trace b, m_count := m_count b\<rparr>"
      using inb_serves [OF a(2)] by auto
    have sb: "u = s\<lparr>m_trace := m_trace u, m_count := m_count u\<rparr> \<and> serves u xs" if "prints b u" for u
      using that a(3) b(2,3) by (cases s; cases a; cases b; cases u) (simp add: prints_def serves_def)
    show ?thesis using a(1) b(1) sb [of b] rel r room
        sb [of "outb (port dev RBR) 0x43 (outb (port dev RBR) 0x5B (outb (port dev RBR) 0x1B b))"]
      by (auto simp: Cursor_Right v poll_key_def Let_def ed_rel_def sends_def)
  qed (use k in simp)
qed


section \<open>The whole line\<close>

lemma serves_append_tl: "serves s ((p, b) # (q, c) # xs) \<Longrightarrow>
  \<exists>t u. inb p s = (b, t) \<and> inb q t = (c, u) \<and> serves u xs \<and>
    u = s\<lparr>m_trace := m_trace u, m_count := m_count u\<rparr>"
proof -
  assume "serves s ((p, b) # (q, c) # xs)"
  then obtain t where t: "inb p s = (b, t)" "serves t ((q, c) # xs)" "t = s\<lparr>m_trace := m_trace t, m_count := m_count t\<rparr>"
    using inb_serves by blast
  then obtain u where u: "inb q t = (c, u)" "serves u xs" "u = t\<lparr>m_trace := m_trace u, m_count := m_count u\<rparr>"
    using inb_serves by blast
  have "u = s\<lparr>m_trace := m_trace u, m_count := m_count u\<rparr>"
    using t(3) u(3) by (cases s; cases t; cases u) simp
  with t u show ?thesis by blast
qed

lemma poll_loop_line:
  "ed_rel len v st \<Longrightarrow> fits_in len ks st \<Longrightarrow> enter e \<Longrightarrow>
   serves s (concat (map (wire dev) ks) @ sends dev [e]) \<Longrightarrow>
   \<exists>v' s'. poll_loop dev len v s = Some ((fst v', fst (snd v')), s') \<and> ed_rel len v' (fold edit ks st) \<and>
     s' = s\<lparr>m_trace := m_trace s', m_count := m_count s'\<rparr>"
proof (induction ks arbitrary: v st s)
  case Nil
  obtain buf n i where v: "v = (buf, n, i)" by (cases v)
  obtain t j where st: "st = (t, j)" by (cases st)
  have n: "n = length t" "length t < len" using Nil by (auto simp: v st ed_rel_def)
  obtain a u where a: "inb (port dev LSR) s = (1, a)" "inb (port dev RBR) a = (e, u)"
    "u = s\<lparr>m_trace := m_trace u, m_count := m_count u\<rparr>"
    using serves_append_tl [of s "port dev LSR" 1 "port dev RBR" e "[]"] Nil(4) by (auto simp: sends_def)
  have "poll_key dev e v u = Some (True, v, u)"
    using Nil(3) by (auto simp: enter_def v poll_key_def isspace_def)
  then have "poll_loop dev len v s = Some ((buf, n), u)"
    using n a by (subst poll_loop.simps) (simp add: v)
  with Nil(1) a(3) show ?case by (intro exI [of _ v] exI [of _ u]) (simp add: v)
next
  case (Cons k ks)
  obtain buf n i where v: "v = (buf, n, i)" by (cases v)
  obtain t j where st: "st = (t, j)" by (cases st)
  have n: "n = length t" "length t < len" using Cons.prems by (auto simp: v st ed_rel_def)
  have fits: "valid_key k" "fits_in len ks (edit k (t, j))" using Cons.prems(2) by (auto simp: st)
  show ?case
  proof (cases "k = No_Data")
    case True
    obtain u where u: "inb (port dev LSR) s = (0, u)" "serves u (concat (map (wire dev) ks) @ sends dev [e])"
      "u = s\<lparr>m_trace := m_trace u, m_count := m_count u\<rparr>"
      using inb_serves [of s "port dev LSR" 0 "concat (map (wire dev) ks) @ sends dev [e]"] Cons.prems(4) True by auto
    have "poll_loop dev len v s = poll_loop dev len v u"
      using n u(1) by (subst poll_loop.simps) (simp add: v)
    moreover obtain v' s' where "poll_loop dev len v u = Some ((fst v', fst (snd v')), s')"
      "ed_rel len v' (fold edit ks st)" "s' = u\<lparr>m_trace := m_trace s', m_count := m_count s'\<rparr>"
      using Cons.IH [OF Cons.prems(1) _ Cons.prems(3) u(2)] fits True by (auto simp: st)
    moreover from this(3) u(3) have "s' = s\<lparr>m_trace := m_trace s', m_count := m_count s'\<rparr>"
      by (cases s; cases u; cases s') simp
    ultimately show ?thesis using True by (cases v') (auto simp: st)
  next
    case False
    obtain c cs where w: "wire dev k = (port dev LSR, 1) # (port dev RBR, c) # cs" using wire_Cons [OF False] by blast
    obtain a u where a: "inb (port dev LSR) s = (1, a)" "inb (port dev RBR) a = (c, u)"
      "serves u (cs @ concat (map (wire dev) ks) @ sends dev [e])" "u = s\<lparr>m_trace := m_trace u, m_count := m_count u\<rparr>"
      using serves_append_tl [of s "port dev LSR" 1 "port dev RBR" c "cs @ concat (map (wire dev) ks) @ sends dev [e]"]
        Cons.prems(4) by (auto simp: w)
    obtain v1 s1 where b: "poll_key dev c v u = Some (False, v1, s1)" "ed_rel len v1 (edit k (t, j))"
      "serves s1 (concat (map (wire dev) ks) @ sends dev [e])" "s1 = u\<lparr>m_trace := m_trace s1, m_count := m_count s1\<rparr>"
      using poll_key_edit [of len v t j k u dev "concat (map (wire dev) ks) @ sends dev [e]"] Cons.prems(1) fits False n(2) a(3)
      by (auto simp: w st)
    have "poll_loop dev len v s = poll_loop dev len v1 s1"
      using n a b(1) by (subst poll_loop.simps) (simp add: v)
    moreover obtain v' s' where "poll_loop dev len v1 s1 = Some ((fst v', fst (snd v')), s')"
      "ed_rel len v' (fold edit ks (edit k (t, j)))" "s' = s1\<lparr>m_trace := m_trace s', m_count := m_count s'\<rparr>"
      using Cons.IH [OF b(2) fits(2) Cons.prems(3) b(3)] by blast
    moreover from this(3) a(4) b(4) have "s' = s\<lparr>m_trace := m_trace s', m_count := m_count s'\<rparr>"
      by (cases s; cases u; cases s1; cases s') simp
    ultimately show ?thesis by (cases v') (auto simp: st)
  qed
qed

text \<open>
  C14: \<^verbatim>\<open>serial_poll\<close> is a line editor. On an initialised device, for any
  sequence of keys (typed characters, backspace, delete, cursor movements, and polls without
  data), signalled in the line status register and delivered in the receive register of the
  device, that keeps the line below the buffer's capacity and ends with ENTER, the call returns
  the length of the line that the edits produce, and the buffer starts with that line and has a
  NUL at its end; only port activity changes in the state.
\<close>

theorem serial_poll_line:
  assumes "serial_devno dev = Some d" and "d < length (initialized s)" and "initialized s ! d"
    and "0 < len" and "unat len \<le> length buffer"
    and "fits_in (unat len - 1) ks ([], 0)" and "enter e"
    and "serves s (concat (map (wire dev) ks) @ sends dev [e])"
  shows "\<exists>buffer' s'. serial_poll dev buffer len s =
      Some (int (length (fst (fold edit ks ([], 0)))), buffer', s') \<and>
    take (length (fst (fold edit ks ([], 0)))) buffer' = fst (fold edit ks ([], 0)) \<and>
    buffer' ! (unat len - 1) = 0 \<and> s' = s\<lparr>m_trace := m_trace s', m_count := m_count s'\<rparr>"
proof -
  have l: "unat (len - 1) = unat len - 1" "unat len > 0"
    using assms(4) by (simp_all add: unat_minus_one unat_gt_0 word_neq_0_conv)
  let ?b = "buffer[unat len - 1 := 0]"
  have "ed_rel (unat len - 1) (?b, 0, 0) ([], 0)" using assms(5) l by (simp add: ed_rel_def)
  from poll_loop_line [OF this assms(6-8)] obtain v' s' where
    r: "poll_loop dev (unat len - 1) (?b, 0, 0) s = Some ((fst v', fst (snd v')), s')"
      "ed_rel (unat len - 1) v' (fold edit ks ([], 0))" "s' = s\<lparr>m_trace := m_trace s', m_count := m_count s'\<rparr>"
    by blast
  obtain t j where t: "fold edit ks ([], 0) = (t, j)" by (metis surj_pair)
  have "wr buffer (unat len - 1) 0 = Some ?b" using assms(5) l(2) by simp
  then have "serial_poll dev buffer len s = Some (int (fst (snd v')), fst v', s')"
    using assms(1-3) r(1) l(1) by (simp add: serial_poll_def)
  with r(2,3) show ?thesis by (cases v') (auto simp: ed_rel_def t)
qed


text \<open>A terminal on which someone types \<open>hx\<close>, erases the \<open>x\<close>, types \<open>i\<close> and ENTER.\<close>

definition demo_keys :: "key list" where
  "demo_keys = [No_Data, Typed 0x68, Typed 0x78, Backspace, Typed 0x69]"

definition demo_terminal :: "unit kern_scheme" where
  "demo_terminal = (boot_kern ())\<lparr>initialized := [True, False, False, False],
     m_env := ports (concat (map (wire COM1) demo_keys) @ sends COM1 [0x0D])\<rparr>"

lemma boot_kern_count [simp]: "m_count (boot_kern x) = 0"
  by (simp add: boot_kern_def boot_procs_def heap_on_eq boot_heap_def)

theorem serial_poll_line_witness:
  "\<exists>buffer' s'. serial_poll COM1 (replicate 100 0) 100 demo_terminal = Some (2, buffer', s') \<and>
     take (length (bytes ''hi'')) buffer' = bytes ''hi''"
proof -
  have "serves demo_terminal (concat (map (wire COM1) demo_keys) @ sends COM1 [0x0D])"
    by (rule serves_ports) (simp_all add: demo_terminal_def)
  moreover have "fits_in 99 demo_keys ([], 0)" by (simp add: demo_keys_def typable_def)
  ultimately show ?thesis
    using serial_poll_line [of COM1 0 demo_terminal 100 "replicate 100 0" demo_keys "0x0D"]
    by (auto simp: serial_devno_def enter_def demo_keys_def bytes_def demo_terminal_def)
qed

text \<open>
  \<^verbatim>\<open>serial_out\<close> sends exactly the first \<open>len\<close> bytes of the buffer to the data
  register of an initialised device, in order, returns \<open>len\<close> and changes nothing else; it
  returns -1 without output for an unknown device or one that is not initialised.
\<close>

theorem serial_out_exact:
  assumes "len \<le> length buffer" and "length (initialized s) = 4"
  shows "case serial_devno dev of
      None \<Rightarrow> serial_out dev buffer len s = Some (- 1, s)
    | Some d \<Rightarrow>
        if initialized s ! d
        then \<exists>t. serial_out dev buffer len s = Some (int len, t) \<and> t = s\<lparr>m_trace := m_trace t\<rparr> \<and>
          m_trace t = m_trace s @ map (Outb (port dev RBR)) (take len buffer)
        else serial_out dev buffer len s = Some (- 1, s)"
proof (cases "serial_devno dev")
  case (Some d)
  then have "d < 4" by (auto simp: serial_devno_def split: if_splits)
  obtain t where "serial_out_loop dev buffer 0 len s = Some t" "prints s t"
    "m_trace t = m_trace s @ map (Outb (port dev RBR)) (take len buffer)"
    using serial_out_loop_ok [of 0 len buffer dev s] assms(1) by auto
  with Some \<open>d < 4\<close> assms(2) show ?thesis by (simp add: serial_out_def prints_def)
qed (simp add: serial_out_def)

theorem serial_out_exact_witness:
  "\<exists>t. serial_out COM1 (bytes ''ok'') 2 demo_terminal = Some (2, t) \<and> outs_of 0x3f8 (m_trace t) = bytes ''ok''"
  using serial_out_exact [of 2 "bytes ''ok''" demo_terminal COM1]
  by (auto simp: serial_devno_def demo_terminal_def boot_kern_idt port_def devices uart_registers bytes_def)

end
