(* ===== verification/Serial.thy ===== *)
theory Serial
  imports Serial_Edit
begin

text \<open>
  Interrupt-driven serial I/O of \<^verbatim>\<open>kernel/serial.c\<close>: device control blocks, the
  queue of I/O requests of a device, opening and closing, starting and completing requests,
  and the interrupt handlers. Requests are objects of the typed heap \<open>iocbs\<close>; the callers'
  buffers are addresses in \<open>ram\<close>.
\<close>

section \<open>State\<close>

abbreviation (input) IO_OP_READ :: "1 word" where "IO_OP_READ \<equiv> 0"
abbreviation (input) IO_OP_WRITE :: "1 word" where "IO_OP_WRITE \<equiv> 1"

record iocb =
  i_next :: addr
  pcb_rq :: addr
  i_buffer :: addr
  buffer_sz :: u32
  io_op :: "1 word"

record dcb =
  dcb_dev :: u32
  iocb_queue_head :: addr
  iocb_queue_tail :: addr
  rbuffer :: "u8 list"
  rbuffer_sz :: nat
  rbuffer_idx_begin :: nat
  rbuffer_idx_end :: nat
  buffer_idx :: u32
  dopen :: bool
  event :: bool

record serial = kern +
  serial_dcb_list :: "dcb list"
  iocbs :: "addr \<Rightarrow> iocb"

definition SERIAL_RBUFFER_SIZE :: nat where "SERIAL_RBUFFER_SIZE = 32"
definition SERIAL_IRQ_COM_2_4 :: nat where "SERIAL_IRQ_COM_2_4 = 3"
definition SERIAL_IRQ_COM_1_3 :: nat where "SERIAL_IRQ_COM_1_3 = 4"
definition PIC_1_CMD :: u16 where "PIC_1_CMD = 0x20"
definition PIC_1_MASK :: u16 where "PIC_1_MASK = 0x21"
definition PIC_EOI :: u8 where "PIC_EOI = 0x20"
definition PIC_READ_ISR :: u8 where "PIC_READ_ISR = 0x0b"
definition IRQV_BASE :: nat where "IRQV_BASE = 0x20"
definition SZ_IOCB :: u32 where "SZ_IOCB = 20"

definition IRQ_BIT :: "nat \<Rightarrow> u8" where
  "IRQ_BIT irq = push_bit irq 1"

abbreviation (input) SERIAL_ERR_DEV_NOT_FOUND :: int where "SERIAL_ERR_DEV_NOT_FOUND \<equiv> - 1"
abbreviation (input) SERIAL_O_ERR_PORT_ALREADY_OPEN :: int where "SERIAL_O_ERR_PORT_ALREADY_OPEN \<equiv> - 103"
abbreviation (input) SERIAL_C_ERR_PORT_NOT_OPEN :: int where "SERIAL_C_ERR_PORT_NOT_OPEN \<equiv> - 201"
abbreviation (input) SERIAL_C_ERR_DEV_BUSY :: int where "SERIAL_C_ERR_DEV_BUSY \<equiv> - 204"
abbreviation (input) SERIAL_R_ERR_PORT_NOT_OPEN :: int where "SERIAL_R_ERR_PORT_NOT_OPEN \<equiv> - 301"
abbreviation (input) SERIAL_R_ERR_INVALID_BUFFER :: int where "SERIAL_R_ERR_INVALID_BUFFER \<equiv> - 302"
abbreviation (input) SERIAL_R_ERR_INVALID_BUF_LEN :: int where "SERIAL_R_ERR_INVALID_BUF_LEN \<equiv> - 303"
abbreviation (input) SERIAL_R_ERR_DEV_BUSY :: int where "SERIAL_R_ERR_DEV_BUSY \<equiv> - 304"
abbreviation (input) SERIAL_R_ERR_OUT_OF_MEM :: int where "SERIAL_R_ERR_OUT_OF_MEM \<equiv> - 305"
abbreviation (input) SERIAL_W_ERR_PORT_NOT_OPEN :: int where "SERIAL_W_ERR_PORT_NOT_OPEN \<equiv> - 401"
abbreviation (input) SERIAL_W_ERR_INVALID_BUFFER :: int where "SERIAL_W_ERR_INVALID_BUFFER \<equiv> - 402"
abbreviation (input) SERIAL_W_ERR_INVALID_BUF_LEN :: int where "SERIAL_W_ERR_INVALID_BUF_LEN \<equiv> - 403"
abbreviation (input) SERIAL_W_ERR_DEV_BUSY :: int where "SERIAL_W_ERR_DEV_BUSY \<equiv> - 404"
abbreviation (input) SERIAL_W_ERR_OUT_OF_MEM :: int where "SERIAL_W_ERR_OUT_OF_MEM \<equiv> - 405"
abbreviation (input) SERIAL_S_ERR_DEV_NOT_FOUND :: int where "SERIAL_S_ERR_DEV_NOT_FOUND \<equiv> - 500"
abbreviation (input) SERIAL_S_ERR_PORT_NOT_OPEN :: int where "SERIAL_S_ERR_PORT_NOT_OPEN \<equiv> - 501"
abbreviation (input) SERIAL_S_ERR_INVALID_BUFFER :: int where "SERIAL_S_ERR_INVALID_BUFFER \<equiv> - 502"
abbreviation (input) SERIAL_S_ERR_INVALID_BUF_LEN :: int where "SERIAL_S_ERR_INVALID_BUF_LEN \<equiv> - 503"
abbreviation (input) SERIAL_S_ERR_DEV_BUSY :: int where "SERIAL_S_ERR_DEV_BUSY \<equiv> - 504"
abbreviation (input) SERIAL_S_ERR_OUT_OF_MEM :: int where "SERIAL_S_ERR_OUT_OF_MEM \<equiv> - 505"

definition initial_dcb :: "u32 \<Rightarrow> dcb" where
  "initial_dcb d =
     \<lparr>dcb_dev = d, iocb_queue_head = NULL, iocb_queue_tail = NULL,
      rbuffer = replicate SERIAL_RBUFFER_SIZE 0, rbuffer_sz = SERIAL_RBUFFER_SIZE,
      rbuffer_idx_begin = 0, rbuffer_idx_end = 0, buffer_idx = 0, dopen = False, event = False\<rparr>"

definition initial_dcbs :: "dcb list" where
  "initial_dcbs = map initial_dcb [COM1, COM2, COM3, COM4]"

abbreviation dcb_at :: "'a serial_scheme \<Rightarrow> nat \<Rightarrow> dcb" where
  "dcb_at s d \<equiv> serial_dcb_list s ! d"

definition upd_dcb :: "nat \<Rightarrow> (dcb \<Rightarrow> dcb) \<Rightarrow> 'a serial_scheme \<Rightarrow> 'a serial_scheme" where
  "upd_dcb d f s = s\<lparr>serial_dcb_list := (serial_dcb_list s)[d := f (dcb_at s d)]\<rparr>"

section \<open>Opening and closing\<close>

definition serial_supported_baud_rates :: "int list" where
  "serial_supported_baud_rates = [110, 150, 300, 600, 1200, 2400, 4800, 9600, 19200]"

text \<open>
  The loop bound is the size of the table in bytes, 36, so that a speed that is not in the
  table makes the loop read behind its nine elements.
\<close>

fun baud_scan :: "nat \<Rightarrow> nat \<Rightarrow> int \<Rightarrow> bool option" where
  "baud_scan 0 i speed = Some False"
| "baud_scan (Suc k) i speed = do {
     r \<leftarrow> rd serial_supported_baud_rates i;
     if r = speed then Some True else baud_scan k (Suc i) speed
   }"

text \<open>The other device on the same interrupt line, and the line.\<close>

definition line_peer :: "nat \<Rightarrow> nat" where
  "line_peer d = (if d = 0 then 2 else if d = 2 then 0 else if d = 1 then 3 else 1)"

definition irq_line :: "nat \<Rightarrow> nat" where
  "irq_line d = (if d = 0 \<or> d = 2 then SERIAL_IRQ_COM_1_3 else SERIAL_IRQ_COM_2_4)"

text \<open>The \<^verbatim>\<open>switch\<close> statements over the mask, which fall through.\<close>

definition unmask :: "nat \<Rightarrow> u8 \<Rightarrow> u8" where
  "unmask d m =
     (let m = (if d = 0 \<or> d = 2 then m AND NOT (IRQ_BIT SERIAL_IRQ_COM_1_3) else m)
      in m AND NOT (IRQ_BIT SERIAL_IRQ_COM_2_4))"

definition mask_line :: "nat \<Rightarrow> u8 \<Rightarrow> u8" where
  "mask_line d m =
     (let m = (if d = 0 \<or> d = 2 then m OR IRQ_BIT SERIAL_IRQ_COM_1_3 else m)
      in m OR IRQ_BIT SERIAL_IRQ_COM_2_4)"

definition serial_open :: "u32 \<Rightarrow> int \<Rightarrow> 'a serial_scheme \<Rightarrow> (int \<times> 'a serial_scheme) option" where
  "serial_open dev speed s =
     (case serial_devno dev of
        None \<Rightarrow> Some (SERIAL_ERR_DEV_NOT_FOUND, s)
      | Some dno \<Rightarrow>
          if dopen (dcb_at s dno) then Some (SERIAL_O_ERR_PORT_ALREADY_OPEN, s)
          else do {
            matched \<leftarrow> baud_scan 36 0 speed;
            if \<not> matched then Some (- 102, s)
            else do {
              let s = upd_dcb dno (\<lambda>d. d\<lparr>rbuffer_idx_begin := 0, rbuffer_idx_end := 0,
                                         dopen := True, event := False\<rparr>) s;
              s \<leftarrow> (if \<not> dopen (dcb_at s (line_peer dno))
                    then idt_install (IRQV_BASE + irq_line dno) serial_isr s else Some s);
              let brd = (word_of_int (115200 div speed) :: u32);
              let s = outb (port dev IER) 0x00 s;
              let s = outb (port dev LCR) 0x80 s;
              let s = outb (port dev DLL) (ucast brd) s;
              let s = outb (port dev DLM) (ucast (drop_bit 8 brd)) s;
              let s = outb (port dev LCR) 0x03 s;
              let s = outb (port dev FCR) 0xC7 s;
              let s = cli s;
              let (m, s) = inb PIC_1_MASK s;
              let s = outb PIC_1_MASK (unmask dno m) s;
              let s = outb (port dev MCR) (push_bit 3 1) s;
              let s = outb (port dev IER) 1 s;
              let (_, s) = inb (port dev RBR) s;
              Some (0, sti s)
            }
          })"

definition serial_close :: "u32 \<Rightarrow> 'a serial_scheme \<Rightarrow> int \<times> 'a serial_scheme" where
  "serial_close dev s =
     (case serial_devno dev of
        None \<Rightarrow> (SERIAL_ERR_DEV_NOT_FOUND, s)
      | Some dno \<Rightarrow>
          if \<not> dopen (dcb_at s dno) then (SERIAL_C_ERR_PORT_NOT_OPEN, s)
          else if iocb_queue_head (dcb_at s dno) \<noteq> NULL then (SERIAL_C_ERR_DEV_BUSY, s)
          else
            (let s = (if dopen (dcb_at s (line_peer dno)) then s
                      else (let s = cli s; (m, s) = inb PIC_1_MASK s
                            in sti (outb PIC_1_MASK (mask_line dno m) s)));
                 s = outb (port dev IER) 0x00 s;
                 s = outb (port dev MCR) 0x00 s
             in (0, upd_dcb dno (\<lambda>d. d\<lparr>dopen := False\<rparr>) s)))"

section \<open>Starting a request\<close>

text \<open>
  Copying what the ring buffer holds into the caller's buffer; \<open>k\<close> is the room that is
  left in it. The result has the buffer index.
\<close>

fun ring_copy :: "nat \<Rightarrow> u32 \<Rightarrow> addr \<Rightarrow> dcb \<Rightarrow> (addr \<Rightarrow> u8) \<Rightarrow> (u32 \<times> dcb \<times> (addr \<Rightarrow> u8)) option" where
  "ring_copy 0 idx buf d m = Some (idx, d, m)"
| "ring_copy (Suc k) idx buf d m =
     (if rbuffer_idx_begin d < rbuffer_idx_end d then do {
        b \<leftarrow> rd (rbuffer d) (rbuffer_idx_begin d);
        let m = m(buf + idx := b);
        let bg = rbuffer_idx_begin d + 1;
        let d = d\<lparr>rbuffer_idx_begin := (if bg = rbuffer_sz d then 0 else bg)\<rparr>;
        if b = 0x0D then Some (idx + 1, d, m)
        else ring_copy k (idx + 1) buf d m
      }
      else Some (idx, d, m))"

text \<open>The transfer of what is there when a read starts: the index is stored, nothing else.\<close>

definition start_read :: "nat \<Rightarrow> addr \<Rightarrow> u32 \<Rightarrow> 'a serial_scheme \<Rightarrow> 'a serial_scheme option" where
  "start_read dno buf len s = do {
     (idx, d, m) \<leftarrow> ring_copy (unat len) 0 buf (dcb_at s dno) (ram s);
     Some (upd_dcb dno (\<lambda>_. d\<lparr>buffer_idx := idx\<rparr>) (s\<lparr>ram := m\<rparr>))
   }"

definition new_request :: "addr \<Rightarrow> addr \<Rightarrow> u32 \<Rightarrow> 1 word \<Rightarrow> 'a serial_scheme \<Rightarrow> 'a serial_scheme" where
  "new_request p buf len op s =
     s\<lparr>iocbs := (iocbs s)(p := \<lparr>i_next = NULL, pcb_rq = pcb_running s, i_buffer = buf,
                                buffer_sz = len, io_op = op\<rparr>)\<rparr>"

definition serial_read :: "u32 \<Rightarrow> addr \<Rightarrow> u32 \<Rightarrow> 'a serial_scheme \<Rightarrow> (int \<times> 'a serial_scheme) option" where
  "serial_read dev buf len s =
     (if buf = NULL then Some (SERIAL_R_ERR_INVALID_BUFFER, s)
      else if len = 0 then Some (SERIAL_R_ERR_INVALID_BUF_LEN, s)
      else case serial_devno dev of
        None \<Rightarrow> Some (SERIAL_ERR_DEV_NOT_FOUND, s)
      | Some dno \<Rightarrow>
          if \<not> dopen (dcb_at s dno) then Some (SERIAL_R_ERR_PORT_NOT_OPEN, s)
          else if iocb_queue_head (dcb_at s dno) \<noteq> NULL then Some (SERIAL_R_ERR_DEV_BUSY, s)
          else do {
            (p, s) \<leftarrow> sys_alloc_mem SZ_IOCB s;
            if p = NULL then Some (SERIAL_R_ERR_OUT_OF_MEM, s)
            else do {
              let s = upd_dcb dno (\<lambda>d. d\<lparr>iocb_queue_head := p, iocb_queue_tail := p\<rparr>) s;
              let s = new_request p buf len IO_OP_READ s;
              s \<leftarrow> start_read dno buf len s;
              Some (0, s)
            }
          })"

definition serial_write :: "u32 \<Rightarrow> addr \<Rightarrow> u32 \<Rightarrow> 'a serial_scheme \<Rightarrow> (int \<times> 'a serial_scheme) option" where
  "serial_write dev buf len s =
     (if buf = NULL then Some (SERIAL_W_ERR_INVALID_BUFFER, s)
      else if len = 0 then Some (SERIAL_W_ERR_INVALID_BUF_LEN, s)
      else case serial_devno dev of
        None \<Rightarrow> Some (SERIAL_ERR_DEV_NOT_FOUND, s)
      | Some dno \<Rightarrow>
          if \<not> dopen (dcb_at s dno) then Some (SERIAL_W_ERR_PORT_NOT_OPEN, s)
          else if iocb_queue_head (dcb_at s dno) \<noteq> NULL then Some (SERIAL_W_ERR_DEV_BUSY, s)
          else do {
            (p, s) \<leftarrow> sys_alloc_mem SZ_IOCB s;
            if p = NULL then Some (SERIAL_W_ERR_OUT_OF_MEM, s)
            else do {
              let s = upd_dcb dno (\<lambda>d. d\<lparr>iocb_queue_head := p, iocb_queue_tail := p\<rparr>) s;
              let s = new_request p buf len IO_OP_WRITE s;
              let s = upd_dcb dno (\<lambda>d. d\<lparr>buffer_idx := 0\<rparr>) s;
              let s = outb (port (dcb_dev (dcb_at s dno)) RBR) (ram s buf) s;
              let (ier, s) = inb (port dev IER) s;
              Some (0, outb (port dev IER) (ier OR push_bit 1 1) s)
            }
          })"

definition serial_schedule_io ::
  "u32 \<Rightarrow> addr \<Rightarrow> u32 \<Rightarrow> 1 word \<Rightarrow> 'a serial_scheme \<Rightarrow> (int \<times> 'a serial_scheme) option" where
  "serial_schedule_io dev buffer sz op s =
     (if buffer = NULL then Some (SERIAL_S_ERR_INVALID_BUFFER, s)
      else if sz = 0 then Some (SERIAL_S_ERR_INVALID_BUF_LEN, s)
      else case serial_devno dev of
        None \<Rightarrow> Some (SERIAL_S_ERR_DEV_NOT_FOUND, s)
      | Some dno \<Rightarrow>
          if \<not> dopen (dcb_at s dno) then Some (SERIAL_S_ERR_PORT_NOT_OPEN, s)
          else if iocb_queue_head (dcb_at s dno) = NULL then
            (if op = IO_OP_READ then do {
               (ret, s) \<leftarrow> serial_read dev buffer sz s;
               Some (if ret = SERIAL_R_ERR_DEV_BUSY then SERIAL_S_ERR_DEV_BUSY
                     else if ret = SERIAL_R_ERR_OUT_OF_MEM then SERIAL_S_ERR_OUT_OF_MEM
                     else 0, s)
             }
             else do {
               (ret, s) \<leftarrow> serial_write dev buffer sz s;
               Some (if ret = SERIAL_W_ERR_DEV_BUSY then SERIAL_S_ERR_DEV_BUSY
                     else if ret = SERIAL_W_ERR_OUT_OF_MEM then SERIAL_S_ERR_OUT_OF_MEM
                     else 0, s)
             })
          else do {
            (p, s) \<leftarrow> sys_alloc_mem SZ_IOCB s;
            if p = NULL then Some (SERIAL_S_ERR_OUT_OF_MEM, s)
            else do {
              let s = new_request p buffer sz op s;
              let tail = iocb_queue_tail (dcb_at s dno);
              ensure (tail \<noteq> NULL);
              let s = s\<lparr>iocbs := (iocbs s)(tail := (iocbs s tail)\<lparr>i_next := p\<rparr>)\<rparr>;
              Some (0, upd_dcb dno (\<lambda>d. d\<lparr>iocb_queue_tail := p\<rparr>) s)
            }
          })"

section \<open>Completing a request\<close>

text \<open>The requester becomes ready, with the number of bytes as the result of its call.\<close>

definition wake :: "addr \<Rightarrow> u32 \<Rightarrow> 'a serial_scheme \<Rightarrow> 'a serial_scheme option" where
  "wake p n s = do {
     (_, s) \<leftarrow> pcb_remove p s;
     let s = set_p_state p ((p_state (pcbs s p))\<lparr>exec := PCB_EXEC_READY\<rparr>) s;
     ensure (pctxt (pcbs s p) \<noteq> NULL);
     let s = s\<lparr>ctxts := (ctxts s)(pctxt (pcbs s p) := (ctxts s (pctxt (pcbs s p)))\<lparr>c_eax := n\<rparr>)\<rparr>;
     pcb_insert p s
   }"

text \<open>The first steps of the request that is next.\<close>

definition start_next :: "u32 \<Rightarrow> nat \<Rightarrow> addr \<Rightarrow> 1 word \<Rightarrow> 'a serial_scheme \<Rightarrow> 'a serial_scheme option" where
  "start_next dev dno nxt op_prev s =
     (let s = (if io_op (iocbs s nxt) \<noteq> op_prev \<and> op_prev = IO_OP_WRITE
               then (let (ier, s) = inb (port dev IER) s
                     in outb (port dev IER) (ier AND NOT (push_bit 1 1)) s)
               else s)
      in if io_op (iocbs s nxt) = IO_OP_READ
         then start_read dno (i_buffer (iocbs s nxt)) (buffer_sz (iocbs s nxt)) s
         else
           (let s = upd_dcb dno (\<lambda>d. d\<lparr>buffer_idx := 0\<rparr>) s;
                s = outb (port (dcb_dev (dcb_at s dno)) RBR) (ram s (i_buffer (iocbs s nxt))) s;
                (ier, s) = inb (port dev IER) s
            in Some (outb (port dev IER) (ier OR push_bit 1 1) s)))"

definition serial_check_io :: "u32 \<Rightarrow> 'a serial_scheme \<Rightarrow> (int \<times> 'a serial_scheme) option" where
  "serial_check_io dev s =
     (case serial_devno dev of
        None \<Rightarrow> Some (- 1, s)
      | Some dno \<Rightarrow>
          if \<not> dopen (dcb_at s dno) then Some (0, s)
          else if event (dcb_at s dno) then do {
            let hd = iocb_queue_head (dcb_at s dno);
            ensure (hd \<noteq> NULL);
            s \<leftarrow> wake (pcb_rq (iocbs s hd)) (buffer_idx (dcb_at s dno)) s;
            let s = upd_dcb dno (\<lambda>d. d\<lparr>event := False\<rparr>) s;
            let nxt = i_next (iocbs s hd);
            let op_prev = io_op (iocbs s hd);
            (_, s) \<leftarrow> sys_free_mem hd s;
            let s = (if hd = iocb_queue_tail (dcb_at s dno)
                     then upd_dcb dno (\<lambda>d. d\<lparr>iocb_queue_tail := nxt\<rparr>) s else s);
            let s = upd_dcb dno (\<lambda>d. d\<lparr>iocb_queue_head := nxt\<rparr>) s;
            s \<leftarrow> (if nxt \<noteq> NULL then start_next dev dno nxt op_prev s else Some s);
            Some (1, s)
          }
          else Some (0, s))"

section \<open>Interrupts\<close>

definition serial_input_interrupt :: "nat \<Rightarrow> 'a serial_scheme \<Rightarrow> 'a serial_scheme option" where
  "serial_input_interrupt dno s =
     (case inb (port (dcb_dev (dcb_at s dno)) RBR) s of (byte, s) \<Rightarrow> do {
        ensure (iocb_queue_head (dcb_at s dno) \<noteq> NULL);
        let rq = iocbs s (iocb_queue_head (dcb_at s dno));
        if io_op rq \<noteq> IO_OP_READ then do {
          let d = dcb_at s dno;
          rb \<leftarrow> wr (rbuffer d) (rbuffer_idx_end d) byte;
          let d = d\<lparr>rbuffer := rb\<rparr>;
          let d = (if rbuffer_idx_end d = rbuffer_idx_begin d
                   then d\<lparr>rbuffer_idx_begin :=
                          (if rbuffer_idx_begin d + 1 = rbuffer_sz d then 0 else rbuffer_idx_begin d + 1)\<rparr>
                   else d);
          let d = d\<lparr>rbuffer_idx_end := (if rbuffer_idx_end d + 1 = rbuffer_sz d then 0 else rbuffer_idx_end d + 1)\<rparr>;
          Some (upd_dcb dno (\<lambda>_. d) s)
        }
        else if \<not> event (dcb_at s dno) then do {
          let s = s\<lparr>ram := (ram s)(i_buffer rq + buffer_idx (dcb_at s dno) := byte)\<rparr>;
          let s = upd_dcb dno (\<lambda>d. d\<lparr>buffer_idx := buffer_idx d + 1\<rparr>) s;
          Some (if buffer_idx (dcb_at s dno) = buffer_sz rq \<or> byte = 0x0D
                then upd_dcb dno (\<lambda>d. d\<lparr>event := True\<rparr>) s else s)
        }
        else Some s
      })"

definition serial_output_interrupt :: "nat \<Rightarrow> 'a serial_scheme \<Rightarrow> 'a serial_scheme option" where
  "serial_output_interrupt dno s =
     (if \<not> event (dcb_at s dno) then do {
        ensure (iocb_queue_head (dcb_at s dno) \<noteq> NULL);
        let rq = iocbs s (iocb_queue_head (dcb_at s dno));
        let dev = dcb_dev (dcb_at s dno);
        if io_op rq = IO_OP_WRITE then do {
          let s = upd_dcb dno (\<lambda>d. d\<lparr>buffer_idx := buffer_idx d + 1\<rparr>) s;
          if buffer_idx (dcb_at s dno) = buffer_sz rq then
            (let s = upd_dcb dno (\<lambda>d. d\<lparr>event := True\<rparr>) s;
                 (ier, s) = inb (port dev IER) s
             in Some (outb (port dev IER) (ier AND NOT (push_bit 1 1)) s))
          else Some (outb (port dev RBR) (ram s (i_buffer rq + buffer_idx (dcb_at s dno))) s)
        }
        else Some s
      }
      else Some s)"

text \<open>
  The device that interrupts: the interrupt controller names the line, and the first device of
  the line is asked first. For another line the device is an uninitialised pointer.
\<close>

definition interrupting :: "'a serial_scheme \<Rightarrow> (nat \<times> u8 \<times> 'a serial_scheme) option" where
  "interrupting s =
     (let s = outb PIC_1_CMD PIC_READ_ISR s;
          (irq, s) = inb PIC_1_CMD s
      in if irq = IRQ_BIT SERIAL_IRQ_COM_2_4 then
           (let (iir, s) = inb (port COM2 IIR) s
            in if iir AND 0x01 = 0 then Some (1, iir, s)
               else (let (iir, s) = inb (port COM4 IIR) s in Some (3, iir, s)))
         else if irq = IRQ_BIT SERIAL_IRQ_COM_1_3 then
           (let (iir, s) = inb (port COM1 IIR) s
            in if iir AND 0x01 = 0 then Some (0, iir, s)
               else (let (iir, s) = inb (port COM3 IIR) s in Some (2, iir, s)))
         else None)"

definition serial_interrupt :: "'a serial_scheme \<Rightarrow> 'a serial_scheme option" where
  "serial_interrupt s = do {
     (dno, iir, s) \<leftarrow> interrupting s;
     s \<leftarrow>
       (if \<not> dopen (dcb_at s dno) then Some s
        else if iir AND 0x06 = 0 then Some (snd (inb (port (dcb_dev (dcb_at s dno)) MSR) s))
        else if iir AND 0x06 = 2 then serial_output_interrupt dno s
        else if iir AND 0x06 = 4 then serial_input_interrupt dno s
        else Some (snd (inb (port (dcb_dev (dcb_at s dno)) LSR) s)));
     Some (outb PIC_1_CMD PIC_EOI s)
   }"

end
