(* ===== verification/Serial_Irq.thy ===== *)
theory Serial_Irq
  imports Serial
begin

text \<open>
  Requests served by interrupts: a read fills the caller's buffer, a write sends it, and the
  event flag is raised at the end and not before.
\<close>

section \<open>Devices\<close>

definition dcbs_ok :: "'a serial_scheme \<Rightarrow> bool" where
  "dcbs_ok s \<longleftrightarrow> map dcb_dev (serial_dcb_list s) = [COM1, COM2, COM3, COM4]"

lemma dcbs_ok_length: "dcbs_ok s \<Longrightarrow> length (serial_dcb_list s) = 4"
proof -
  assume "dcbs_ok s"
  then have "length (map dcb_dev (serial_dcb_list s)) = length [COM1, COM2, COM3, COM4]"
    by (simp only: dcbs_ok_def)
  then show ?thesis by simp
qed

lemma dcbs_ok_devno: "dcbs_ok s \<Longrightarrow> d < 4 \<Longrightarrow> serial_devno (dcb_dev (dcb_at s d)) = Some d"
proof -
  assume ok: "dcbs_ok s" and d: "d < 4"
  have "dcb_dev (dcb_at s d) = map dcb_dev (serial_dcb_list s) ! d" using d dcbs_ok_length [OF ok] by simp
  then have "dcb_dev (dcb_at s d) = [COM1, COM2, COM3, COM4] ! d" using ok by (simp add: dcbs_ok_def)
  moreover have "d = 0 \<or> d = 1 \<or> d = 2 \<or> d = 3" using d by auto
  ultimately show ?thesis by (auto simp: serial_devno_def devices)
qed

lemma serial_devno_dcb: "dcbs_ok s \<Longrightarrow> serial_devno dev = Some d \<Longrightarrow> d < 4 \<and> dcb_dev (dcb_at s d) = dev"
proof -
  assume ok: "dcbs_ok s" and d: "serial_devno dev = Some d"
  then have "d < 4" by (auto simp: serial_devno_def split: if_splits)
  then have "dcb_dev (dcb_at s d) = map dcb_dev (serial_dcb_list s) ! d" using dcbs_ok_length [OF ok] by simp
  then have "dcb_dev (dcb_at s d) = [COM1, COM2, COM3, COM4] ! d" using ok by (simp add: dcbs_ok_def)
  with d \<open>d < 4\<close> show ?thesis by (auto simp: serial_devno_def split: if_splits)
qed

lemma upd_dcb_simps [simp]:
  "d < length (serial_dcb_list s) \<Longrightarrow> dcb_at (upd_dcb d f s) d = f (dcb_at s d)"
  "e \<noteq> d \<Longrightarrow> dcb_at (upd_dcb d f s) e = dcb_at s e"
  "length (serial_dcb_list (upd_dcb d f s)) = length (serial_dcb_list s)"
  "iocbs (upd_dcb d f s) = iocbs s" "ram (upd_dcb d f s) = ram s"
  "pcbs (upd_dcb d f s) = pcbs s" "pcb_queues (upd_dcb d f s) = pcb_queues s"
  "m_trace (upd_dcb d f s) = m_trace s" "m_count (upd_dcb d f s) = m_count s"
  "m_env (upd_dcb d f s) = m_env s" "pcb_running (upd_dcb d f s) = pcb_running s"
  by (simp_all add: upd_dcb_def)

lemma upd_dcb_ok: "(\<And>x. dcb_dev (f x) = dcb_dev x) \<Longrightarrow> dcbs_ok (upd_dcb d f s) = dcbs_ok s"
proof -
  assume f: "\<And>x. dcb_dev (f x) = dcb_dev x"
  have "map dcb_dev (serial_dcb_list (upd_dcb d f s)) = map dcb_dev (serial_dcb_list s)"
  proof (rule nth_equalityI)
    fix i
    assume "i < length (map dcb_dev (serial_dcb_list (upd_dcb d f s)))"
    then show "map dcb_dev (serial_dcb_list (upd_dcb d f s)) ! i = map dcb_dev (serial_dcb_list s) ! i"
      by (cases "i = d") (simp_all add: f)
  qed simp
  then show ?thesis by (simp add: dcbs_ok_def)
qed

lemma outb_serial [simp]:
  "serial_dcb_list (outb p b s) = serial_dcb_list s" "iocbs (outb p b s) = iocbs s"
  "ram (outb p b s) = ram s" "pcbs (outb p b s) = pcbs s" "pcb_queues (outb p b s) = pcb_queues s"
  "dcbs_ok (outb p b s) = dcbs_ok s" "serves (outb p b s) xs = serves s xs"
  by (simp_all add: outb_def dcbs_ok_def serves_def)

text \<open>What reading a port changes.\<close>

definition io_only :: "'a serial_scheme \<Rightarrow> 'a serial_scheme \<Rightarrow> bool" where
  "io_only s t \<longleftrightarrow> t = s\<lparr>m_trace := m_trace t, m_count := m_count t\<rparr>"

lemma io_only_refl [simp]: "io_only s s" by (simp add: io_only_def)

lemma io_only_outb: "io_only s t \<Longrightarrow> io_only s (outb p b t)"
  by (cases s; cases t) (simp add: io_only_def outb_def)

lemma io_only_trans: "io_only s t \<Longrightarrow> io_only t u \<Longrightarrow> io_only s u"
  by (cases s; cases t; cases u) (simp add: io_only_def)

lemma io_only_eqs:
  "io_only s t \<Longrightarrow> serial_dcb_list t = serial_dcb_list s \<and> iocbs t = iocbs s \<and> ram t = ram s \<and>
     pcbs t = pcbs s \<and> pcb_queues t = pcb_queues s \<and> m_env t = m_env s \<and> pcb_running t = pcb_running s"
  by (cases s; cases t) (simp add: io_only_def)

lemma io_only_inb: "io_only s (snd (inb p s))"
  by (simp add: io_only_def inb_def Let_def)

lemma io_only_cli: "io_only s t \<Longrightarrow> io_only s (cli t)" "io_only s t \<Longrightarrow> io_only s (sti t)"
  by (cases s; cases t; simp add: io_only_def cli_def sti_def)+

lemma inb_next: "serves s ((p, x) # xs) \<Longrightarrow> \<exists>t. inb p s = (x, t) \<and> serves t xs \<and> io_only s t \<and>
    m_trace t = m_trace s @ [Inb p x]"
  using inb_serves [of s p x xs] by (auto simp: io_only_def inb_def Let_def)

section \<open>Which device\<close>

text \<open>
  What the interrupt controller and the identification registers of the two devices on the line
  deliver when a device interrupts, and then the byte that a device has received.
\<close>

definition com :: "nat \<Rightarrow> u32" where
  "com d = (if d = 0 then COM1 else if d = 1 then COM2 else if d = 2 then COM3 else COM4)"

definition irq_poll :: "nat \<Rightarrow> u8 \<Rightarrow> (u16 \<times> u8) list" where
  "irq_poll d iir =
     (PIC_1_CMD, IRQ_BIT (irq_line d)) #
     (if d < 2 then [] else [(port (com (d - 2)) IIR, 1)]) @ [(port (com d) IIR, iir)]"

definition received :: "nat \<Rightarrow> u8 \<Rightarrow> (u16 \<times> u8) list" where
  "received d b = irq_poll d 4 @ [(port (com d) RBR, b)]"

lemma dcb_com: "dcbs_ok s \<Longrightarrow> d < 4 \<Longrightarrow> dcb_dev (dcb_at s d) = com d"
  using dcbs_ok_devno [of s d] by (auto simp: serial_devno_def com_def split: if_splits)

lemma devno_com: "serial_devno dev = Some d \<Longrightarrow> dev = com d"
  by (auto simp: serial_devno_def com_def split: if_splits)

lemma outs_Inb [simp]: "outs_of p (es @ [Inb q b]) = outs_of p es" by simp

lemma interrupting_poll:
  assumes "serves s (irq_poll d iir @ xs)" and "d < 4" and "iir AND 1 = 0"
  shows "\<exists>t. interrupting s = Some (d, iir, t) \<and> serves t xs \<and> io_only s t \<and>
    (\<forall>p. p \<noteq> PIC_1_CMD \<longrightarrow> outs_of p (m_trace t) = outs_of p (m_trace s))"
proof -
  let ?s = "outb PIC_1_CMD PIC_READ_ISR s"
  have s: "serves ?s ((PIC_1_CMD, IRQ_BIT (irq_line d)) #
      ((if d < 2 then [] else [(port (com (d - 2)) IIR, 1)]) @ [(port (com d) IIR, iir)]) @ xs)"
    using assms(1) by (simp add: irq_poll_def)
  obtain a where a: "inb PIC_1_CMD ?s = (IRQ_BIT (irq_line d), a)"
    "serves a (((if d < 2 then [] else [(port (com (d - 2)) IIR, 1)]) @ [(port (com d) IIR, iir)]) @ xs)" "io_only ?s a"
    "m_trace a = m_trace ?s @ [Inb PIC_1_CMD (IRQ_BIT (irq_line d))]"
    using inb_next [OF s] by blast
  have bits: "IRQ_BIT SERIAL_IRQ_COM_2_4 = 8" "IRQ_BIT SERIAL_IRQ_COM_1_3 = 16"
    by (simp_all add: IRQ_BIT_def SERIAL_IRQ_COM_1_3_def SERIAL_IRQ_COM_2_4_def)
  have sa: "io_only s a" using a(3) io_only_outb [OF io_only_refl] io_only_trans by blast
  have d: "d = 0 \<or> d = 1 \<or> d = 2 \<or> d = 3" using assms(2) by auto
  show ?thesis
  proof (cases "d < 2")
    case True
    obtain t where "inb (port (com d) IIR) a = (iir, t)" "serves t xs" "io_only a t"
      "m_trace t = m_trace a @ [Inb (port (com d) IIR) iir]"
      using inb_next [of a "port (com d) IIR" iir xs] a(2) True by auto
    with a d True assms(3) sa show ?thesis
      by (auto simp: interrupting_def Let_def irq_line_def bits com_def intro: io_only_trans)
  next
    case False
    obtain b where b: "inb (port (com (d - 2)) IIR) a = (1, b)" "serves b ((port (com d) IIR, iir) # xs)"
      "io_only a b" "m_trace b = m_trace a @ [Inb (port (com (d - 2)) IIR) 1]"
      using inb_next [of a "port (com (d - 2)) IIR" 1 "(port (com d) IIR, iir) # xs"] a(2) False by auto
    obtain t where "inb (port (com d) IIR) b = (iir, t)" "serves t xs" "io_only b t"
      "m_trace t = m_trace b @ [Inb (port (com d) IIR) iir]"
      using inb_next [OF b(2)] by blast
    moreover from this(3) have "io_only s t" using sa b(3) by (blast intro: io_only_trans)
    ultimately show ?thesis using a b d False assms(3)
      by (auto simp: interrupting_def Let_def irq_line_def bits com_def)
  qed
qed

fun interrupts :: "nat \<Rightarrow> 'a serial_scheme \<Rightarrow> 'a serial_scheme option" where
  "interrupts 0 s = Some s"
| "interrupts (Suc n) s = Option.bind (serial_interrupt s) (interrupts n)"


section \<open>A request being served\<close>

text \<open>
  Device \<open>d\<close> works on a request of kind \<open>op\<close> with the caller's buffer of \<open>sz\<close> bytes at \<open>buf\<close>; \<open>n\<close>
  bytes are done, and \<open>ev\<close> says whether the event flag is up.
\<close>

definition serving :: "'a serial_scheme \<Rightarrow> nat \<Rightarrow> 1 word \<Rightarrow> addr \<Rightarrow> u32 \<Rightarrow> nat \<Rightarrow> bool \<Rightarrow> bool" where
  "serving s d op buf sz n ev \<longleftrightarrow> dcbs_ok s \<and> d < 4 \<and> dopen (dcb_at s d) \<and>
     iocb_queue_head (dcb_at s d) \<noteq> NULL \<and> io_op (iocbs s (iocb_queue_head (dcb_at s d))) = op \<and>
     i_buffer (iocbs s (iocb_queue_head (dcb_at s d))) = buf \<and>
     buffer_sz (iocbs s (iocb_queue_head (dcb_at s d))) = sz \<and>
     buffer_idx (dcb_at s d) = of_nat n \<and> event (dcb_at s d) = ev"

lemma of_nat_eq_u32: "n \<le> unat sz \<Longrightarrow> of_nat n = sz \<longleftrightarrow> n = unat (sz :: u32)"
  using u32_lt_4G [of sz] by (auto simp: word_unat_eq_iff unat_of_nat)

lemma read_step:
  assumes sv: "serving s d IO_OP_READ buf sz n False" and n: "n < unat sz"
    and srv: "serves s (received d b @ xs)"
  shows "\<exists>t. serial_interrupt s = Some t \<and> serves t xs \<and>
    serving t d IO_OP_READ buf sz (Suc n) (Suc n = unat sz \<or> b = 0x0D) \<and>
    ram t = (ram s)(buf + of_nat n := b)"
proof -
  have d: "d < 4" "d < length (serial_dcb_list s)" and ok: "dcbs_ok s"
    using sv dcbs_ok_length [of s] by (auto simp: serving_def)
  obtain t where t: "interrupting s = Some (d, 4, t)" "serves t ((port (com d) RBR, b) # xs)" "io_only s t"
    using interrupting_poll [of s d 4 "(port (com d) RBR, b) # xs"] srv d(1) by (auto simp: received_def)
  have dv: "dcb_dev (dcb_at t d) = com d" using dcb_com [OF ok d(1)] io_only_eqs [OF t(3)] by simp
  obtain u where u: "inb (port (dcb_dev (dcb_at t d)) RBR) t = (b, u)" "serves u xs" "io_only t u"
    using inb_next [OF t(2)] dv by auto
  have e: "serial_dcb_list u = serial_dcb_list s" "iocbs u = iocbs s" "ram u = ram s" "serial_dcb_list t = serial_dcb_list s"
    using io_only_eqs [OF t(3)] io_only_eqs [OF u(3)] by auto
  let ?u = "upd_dcb d (\<lambda>d. d\<lparr>buffer_idx := buffer_idx d + 1\<rparr>) (u\<lparr>ram := (ram u)(buf + of_nat n := b)\<rparr>)"
  let ?v = "if Suc n = unat sz \<or> b = 0x0D then upd_dcb d (\<lambda>d. d\<lparr>event := True\<rparr>) ?u else ?u"
  have idx: "(of_nat n + 1 = sz) = (Suc n = unat sz)" using of_nat_eq_u32 [of "Suc n" sz] n by (simp add: add.commute)
  have len: "d < length (serial_dcb_list (u\<lparr>ram := (ram u)(buf + of_nat n := b)\<rparr>))" using d e by simp
  have run: "serial_interrupt s = Some (outb PIC_1_CMD PIC_EOI ?v)"
    using sv d t(1) u(1) e len
    by (simp add: serial_interrupt_def serial_input_interrupt_def serving_def Let_def idx)
  have sv': "serving ?v d IO_OP_READ buf sz (Suc n) (Suc n = unat sz \<or> b = 0x0D)"
    using sv d e len ok
    by (auto simp: serving_def upd_dcb_ok dcbs_ok_def [of "u\<lparr>ram := _\<rparr>"] dcbs_ok_def [of s])
  have "serves ?v xs" using u(2) by (simp add: serves_def)
  moreover have "ram ?v = (ram s)(buf + of_nat n := b)" using e by simp
  moreover have "serving (outb PIC_1_CMD PIC_EOI ?v) d IO_OP_READ buf sz (Suc n) (Suc n = unat sz \<or> b = 0x0D)"
    using sv' unfolding serving_def outb_serial .
  ultimately show ?thesis using run by (intro exI [of _ "outb PIC_1_CMD PIC_EOI ?v"]) (simp only: outb_serial simp_thms)
qed

definition finished :: "u8 list \<Rightarrow> nat \<Rightarrow> nat \<Rightarrow> bool" where
  "finished bs n sz \<longleftrightarrow> bs \<noteq> [] \<and> (last bs = 0x0D \<or> n + length bs = sz)"

lemma read_run:
  "serving s d IO_OP_READ buf sz n False \<Longrightarrow> n + length bs \<le> unat sz \<Longrightarrow> 0x0D \<notin> set (butlast bs) \<Longrightarrow>
   serves s (concat (map (received d) bs) @ xs) \<Longrightarrow>
   \<exists>t. interrupts (length bs) s = Some t \<and> serves t xs \<and>
     serving t d IO_OP_READ buf sz (n + length bs) (finished bs n (unat sz)) \<and>
     ram t = store_bytes (buf + of_nat n) bs (ram s)"
proof (induction bs arbitrary: s n)
  case Nil
  then show ?case by (simp add: finished_def)
next
  case (Cons b bs)
  let ?xs = "concat (map (received d) bs) @ xs"
  obtain t where t: "serial_interrupt s = Some t" "serves t ?xs"
    "serving t d IO_OP_READ buf sz (Suc n) (Suc n = unat sz \<or> b = 0x0D)"
    "ram t = (ram s)(buf + of_nat n := b)"
    using read_step [OF Cons.prems(1), of b ?xs] Cons.prems by auto
  show ?case
  proof (cases bs)
    case Nil
    with t show ?thesis by (simp add: finished_def disj_commute fun_upd_def)
  next
    case (Cons c cs)
    then have nf: "\<not> (Suc n = unat sz \<or> b = 0x0D)" and more: "Suc n + length bs \<le> unat sz"
      "0x0D \<notin> set (butlast bs)" using Cons.prems by auto
    have "serving t d IO_OP_READ buf sz (Suc n) False" using t(3) nf by simp
    from Cons.IH [OF this more t(2)] obtain u where u: "interrupts (length bs) t = Some u" "serves u xs"
      "serving u d IO_OP_READ buf sz (Suc n + length bs) (finished bs (Suc n) (unat sz))"
      "ram u = store_bytes (buf + of_nat (Suc n)) bs (ram t)" by blast
    moreover have "finished (b # bs) n (unat sz) = finished bs (Suc n) (unat sz)"
      by (simp add: finished_def Cons)
    ultimately show ?thesis using t(1,4) by (simp add: add.assoc add.commute [of 1] fun_upd_def)
  qed
qed

section \<open>Sending\<close>

lemma data_port: "d < 4 \<Longrightarrow> dcbs_ok s \<Longrightarrow> port (dcb_dev (dcb_at s d)) RBR \<noteq> PIC_1_CMD \<and>
    port (dcb_dev (dcb_at s d)) IER \<noteq> port (dcb_dev (dcb_at s d)) RBR"
proof -
  assume d: "d < 4" and ok: "dcbs_ok s"
  have "serial_devno (dcb_dev (dcb_at s d)) = Some d" by (rule dcbs_ok_devno [OF ok d])
  then show ?thesis
    by (auto simp: serial_devno_def devices port_def uart_registers PIC_1_CMD_def split: if_splits)
qed

lemma write_step:
  assumes sv: "serving s d IO_OP_WRITE buf sz n False" and n: "n < unat sz"
    and srv: "serves s (irq_poll d 2 @ (if Suc n = unat sz then [(port (com d) IER, ier)] else []) @ xs)"
  defines "p \<equiv> port (dcb_dev (dcb_at s d)) RBR"
  shows "\<exists>t. serial_interrupt s = Some t \<and> serves t xs \<and> dcb_dev (dcb_at t d) = dcb_dev (dcb_at s d) \<and>
    serving t d IO_OP_WRITE buf sz (Suc n) (Suc n = unat sz) \<and> ram t = ram s \<and>
    outs_of p (m_trace t) = outs_of p (m_trace s) @ (if Suc n = unat sz then [] else [ram s (buf + of_nat (Suc n))])"
proof -
  have d: "d < 4" "d < length (serial_dcb_list s)" and ok: "dcbs_ok s"
    using sv dcbs_ok_length [of s] by (auto simp: serving_def)
  note dp = data_port [OF d(1) ok, folded p_def]
  obtain t where t: "interrupting s = Some (d, 2, t)" "serves t ((if Suc n = unat sz then [(port (com d) IER, ier)] else []) @ xs)"
    "io_only s t" "outs_of p (m_trace t) = outs_of p (m_trace s)"
    using interrupting_poll [OF srv d(1)] dp by auto
  have e: "serial_dcb_list t = serial_dcb_list s" "iocbs t = iocbs s" "ram t = ram s"
    using io_only_eqs [OF t(3)] by auto
  let ?u = "upd_dcb d (\<lambda>d. d\<lparr>buffer_idx := buffer_idx d + 1\<rparr>) t"
  have idx: "(of_nat n + 1 = sz) = (Suc n = unat sz)" using of_nat_eq_u32 [of "Suc n" sz] n by (simp add: add.commute)
  have len: "d < length (serial_dcb_list t)" using d e by simp
  have okt: "dcbs_ok t" using ok e by (simp add: dcbs_ok_def)
  show ?thesis
  proof (cases "Suc n = unat sz")
    case False
    let ?v = "outb p (ram s (buf + of_nat (Suc n))) ?u"
    have run: "serial_interrupt s = Some (outb PIC_1_CMD PIC_EOI ?v)"
      using sv d t(1) e len idx False
      by (simp add: serial_interrupt_def serial_output_interrupt_def serving_def Let_def p_def add.commute)
    have "serving (outb PIC_1_CMD PIC_EOI ?v) d IO_OP_WRITE buf sz (Suc n) False"
      using sv d e len okt by (simp add: serving_def upd_dcb_ok)
    with run t(2,4) False dp e len show ?thesis
      by (auto simp: serves_def p_def)
  next
    case True
    let ?w = "upd_dcb d (\<lambda>d. d\<lparr>event := True\<rparr>) ?u"
    have "serves ?w ((port (dcb_dev (dcb_at s d)) IER, ier) # xs)"
      using t(2) True dcb_com [OF ok d(1)] by (simp add: serves_def)
    then obtain x where x: "inb (port (dcb_dev (dcb_at s d)) IER) ?w = (ier, x)" "serves x xs" "io_only ?w x"
      "m_trace x = m_trace ?w @ [Inb (port (dcb_dev (dcb_at s d)) IER) ier]"
      using inb_next by blast
    let ?v = "outb (port (dcb_dev (dcb_at s d)) IER) (ier AND NOT (push_bit 1 1)) x"
    have ex: "serial_dcb_list x = serial_dcb_list ?w" "iocbs x = iocbs s" "ram x = ram s"
      using io_only_eqs [OF x(3)] e by auto
    have run: "serial_interrupt s = Some (outb PIC_1_CMD PIC_EOI ?v)"
      using sv d t(1) e len idx True x(1)
      by (simp add: serial_interrupt_def serial_output_interrupt_def serving_def Let_def add.commute)
    have "dcbs_ok x" using okt ex(1) by (simp add: dcbs_ok_def [of x]) (simp add: upd_dcb_ok flip: dcbs_ok_def)
    then have "serving (outb PIC_1_CMD PIC_EOI ?v) d IO_OP_WRITE buf sz (Suc n) True"
      using sv d e len ex by (simp add: serving_def)
    with run x(2,4) t(4) True dp e ex len show ?thesis
      by (auto simp: p_def)
  qed
qed

end
