(* ===== verification/Serial_Claims.thy ===== *)
theory Serial_Claims
  imports Serial_Irq
begin

text \<open>
  From a request to its completion: what starting a read or a write does on an idle device, and
  how the interrupts serve it, with concrete instances.
\<close>

section \<open>Starting a request on an idle device\<close>

lemma touch_serial:
  "heap_touch s t \<Longrightarrow> serial_dcb_list t = serial_dcb_list s \<and> iocbs t = iocbs s \<and> m_env t = m_env s \<and>
     m_count t = m_count s \<and> m_trace t = m_trace s \<and> ram t = ram s \<and> pcb_running t = pcb_running s"
  by (cases s; cases t) (simp add: heap_touch_def)

definition ring_empty :: "dcb \<Rightarrow> bool" where
  "ring_empty d \<longleftrightarrow> rbuffer_idx_begin d = rbuffer_idx_end d \<and> rbuffer_idx_end d < rbuffer_sz d \<and>
     rbuffer_sz d = length (rbuffer d)"

definition idle_device :: "'a serial_scheme \<Rightarrow> nat \<Rightarrow> bool" where
  "idle_device s d \<longleftrightarrow> dcbs_ok s \<and> d < 4 \<and> dopen (dcb_at s d) \<and> iocb_queue_head (dcb_at s d) = NULL \<and>
     \<not> event (dcb_at s d) \<and> ring_empty (dcb_at s d)"

lemma ring_copy_empty: "rbuffer_idx_begin d = rbuffer_idx_end d \<Longrightarrow> ring_copy k i buf d m = Some (i, d, m)"
  by (cases k) auto

lemma new_request_simps [simp]:
  "iocbs (new_request p buf n op s) p =
     \<lparr>i_next = NULL, pcb_rq = pcb_running s, i_buffer = buf, buffer_sz = n, io_op = op\<rparr>"
  "q \<noteq> p \<Longrightarrow> iocbs (new_request p buf n op s) q = iocbs s q"
  "serial_dcb_list (new_request p buf n op s) = serial_dcb_list s"
  "ram (new_request p buf n op s) = ram s" "m_trace (new_request p buf n op s) = m_trace s"
  "m_count (new_request p buf n op s) = m_count s" "m_env (new_request p buf n op s) = m_env s"
  "dcbs_ok (new_request p buf n op s) = dcbs_ok s" "dcb_at (new_request p buf n op s) e = dcb_at s e"
  "pcbs (new_request p buf n op s) = pcbs s" "pcb_queues (new_request p buf n op s) = pcb_queues s"
  by (simp_all add: new_request_def dcbs_ok_def)

lemma read_start:
  assumes idle: "idle_device s d" and dev: "serial_devno dev = Some d" and heap: "heap_ok s" "heap_room SZ_IOCB s"
    and args: "buf \<noteq> NULL" "sz \<noteq> 0"
  shows "\<exists>t. serial_schedule_io dev buf sz IO_OP_READ s = Some (0, t) \<and>
    serving t d IO_OP_READ buf sz 0 False \<and> ram t = ram s \<and> (\<forall>xs. serves t xs = serves s xs)"
proof -
  have i: "dcbs_ok s" "d < 4" "dopen (dcb_at s d)" "iocb_queue_head (dcb_at s d) = NULL" "\<not> event (dcb_at s d)"
    "rbuffer_idx_begin (dcb_at s d) = rbuffer_idx_end (dcb_at s d)"
    using idle by (auto simp: idle_device_def ring_empty_def)
  obtain p t where p: "sys_alloc_mem SZ_IOCB s = Some (p, t)" "p \<noteq> NULL" "heap_ok t"
    using heap.malloc_fresh [OF heap] by blast
  have e: "serial_dcb_list t = serial_dcb_list s" "ram t = ram s" "m_env t = m_env s" "m_count t = m_count s"
    using touch_serial [OF sys_alloc_touch [OF heap(1) p(1)]] by auto
  have len: "d < length (serial_dcb_list t)" using dcbs_ok_length [OF i(1)] i(2) e(1) by simp
  have ok: "dcbs_ok t" using i(1) e(1) by (simp add: dcbs_ok_def)
  let ?a = "upd_dcb d (\<lambda>d. d\<lparr>iocb_queue_head := p, iocb_queue_tail := p\<rparr>) t"
  let ?b = "new_request p buf sz IO_OP_READ ?a"
  let ?c = "upd_dcb d (\<lambda>_. (dcb_at ?b d)\<lparr>buffer_idx := 0\<rparr>) (?b\<lparr>ram := ram ?b\<rparr>)"
  have "start_read d buf sz ?b = Some ?c"
    using i len e by (simp add: start_read_def ring_copy_empty)
  then have "serial_read dev buf sz s = Some (0, ?c)"
    using args dev i p by (simp add: serial_read_def Let_def)
  then have run: "serial_schedule_io dev buf sz IO_OP_READ s = Some (0, ?c)"
    using args dev i by (simp add: serial_schedule_io_def)
  have c: "?c = upd_dcb d (\<lambda>d. d\<lparr>buffer_idx := 0\<rparr>) ?b" by (simp add: upd_dcb_def)
  have "serving ?c d IO_OP_READ buf sz 0 False"
    unfolding c using i len ok p(2) e by (simp add: serving_def upd_dcb_ok)
  then show ?thesis using run e by (intro exI [of _ ?c]) (simp add: serves_def)
qed

lemma write_start:
  assumes idle: "idle_device s d" and dev: "serial_devno dev = Some d" and heap: "heap_ok s" "heap_room SZ_IOCB s"
    and args: "buf \<noteq> NULL" "sz \<noteq> 0" and srv: "serves s ((port dev IER, ier) # xs)"
  shows "\<exists>t. serial_schedule_io dev buf sz IO_OP_WRITE s = Some (0, t) \<and>
    serving t d IO_OP_WRITE buf sz 0 False \<and> ram t = ram s \<and> serves t xs \<and>
    outs_of (port dev RBR) (m_trace t) = outs_of (port dev RBR) (m_trace s) @ [ram s buf]"
proof -
  have i: "dcbs_ok s" "d < 4" "dopen (dcb_at s d)" "iocb_queue_head (dcb_at s d) = NULL" "\<not> event (dcb_at s d)"
    using idle by (auto simp: idle_device_def)
  have dv: "dcb_dev (dcb_at s d) = dev" using serial_devno_dcb [OF i(1) dev] by simp
  obtain p t where p: "sys_alloc_mem SZ_IOCB s = Some (p, t)" "p \<noteq> NULL" "heap_ok t"
    using heap.malloc_fresh [OF heap] by blast
  have e: "serial_dcb_list t = serial_dcb_list s" "ram t = ram s" "m_env t = m_env s" "m_count t = m_count s"
    "m_trace t = m_trace s"
    using touch_serial [OF sys_alloc_touch [OF heap(1) p(1)]] by auto
  have len: "d < length (serial_dcb_list t)" using dcbs_ok_length [OF i(1)] i(2) e(1) by simp
  have ok: "dcbs_ok t" using i(1) e(1) by (simp add: dcbs_ok_def)
  let ?a = "upd_dcb d (\<lambda>d. d\<lparr>iocb_queue_head := p, iocb_queue_tail := p\<rparr>) t"
  let ?b = "upd_dcb d (\<lambda>d. d\<lparr>buffer_idx := 0\<rparr>) (new_request p buf sz IO_OP_WRITE ?a)"
  let ?c = "outb (port dev RBR) (ram s buf) ?b"
  have "serves ?c ((port dev IER, ier) # xs)" using srv e by (simp add: serves_def)
  then obtain x where x: "inb (port dev IER) ?c = (ier, x)" "serves x xs" "io_only ?c x"
    "m_trace x = m_trace ?c @ [Inb (port dev IER) ier]" using inb_next by blast
  let ?x = "outb (port dev IER) (ier OR push_bit 1 1) x"
  have "serial_write dev buf sz s = Some (0, ?x)"
    using args dev i p x(1) len e dv by (simp add: serial_write_def Let_def)
  then have run: "serial_schedule_io dev buf sz IO_OP_WRITE s = Some (0, ?x)"
    using args dev i by (simp add: serial_schedule_io_def)
  have ex: "serial_dcb_list x = serial_dcb_list ?b" "iocbs x = iocbs ?b" "ram x = ram s"
    using io_only_eqs [OF x(3)] e by auto
  have okx: "dcbs_ok x" using ok ex(1) by (simp add: dcbs_ok_def [of x]) (simp add: upd_dcb_ok flip: dcbs_ok_def)
  have "serving ?x d IO_OP_WRITE buf sz 0 False"
    using i len okx p(2) e ex by (simp add: serving_def)
  moreover have "port dev IER \<noteq> port dev RBR" using data_port [OF i(2,1)] by (simp add: dv)
  ultimately show ?thesis using run e ex x(2,4) by (intro exI [of _ ?x]) simp
qed

lemma write_run:
  "serving s d IO_OP_WRITE buf sz n False \<Longrightarrow> n + Suc k = unat sz \<Longrightarrow>
   serves s (concat (replicate (Suc k) (irq_poll d 2)) @ (port (com d) IER, ier) # xs) \<Longrightarrow> p = port (dcb_dev (dcb_at s d)) RBR \<Longrightarrow>
   \<exists>t. interrupts (Suc k) s = Some t \<and> serves t xs \<and> serving t d IO_OP_WRITE buf sz (unat sz) True \<and>
     ram t = ram s \<and>
     outs_of p (m_trace t) = outs_of p (m_trace s) @ map (\<lambda>i. ram s (buf + of_nat i)) [Suc n ..< unat sz]"
proof (induction k arbitrary: s n)
  case 0
  have "serves s (irq_poll d 2 @ (if Suc n = unat sz then [(port (com d) IER, ier)] else []) @ xs)" using 0(2,3) by simp
  from write_step [OF 0(1) _ this] 0(2,4) show ?case by auto
next
  case (Suc k)
  have "serves s (irq_poll d 2 @ (if Suc n = unat sz then [(port (com d) IER, ier)] else []) @
      concat (replicate (Suc k) (irq_poll d 2)) @ (port (com d) IER, ier) # xs)" using Suc.prems(2,3) by simp
  from write_step [OF Suc.prems(1) _ this] Suc.prems(2,4) obtain t where
    t: "serial_interrupt s = Some t" "serves t (concat (replicate (Suc k) (irq_poll d 2)) @ (port (com d) IER, ier) # xs)"
      "dcb_dev (dcb_at t d) = dcb_dev (dcb_at s d)" "serving t d IO_OP_WRITE buf sz (Suc n) False" "ram t = ram s"
      "outs_of p (m_trace t) = outs_of p (m_trace s) @ [ram s (buf + of_nat (Suc n))]"
    by auto
  obtain u where u: "interrupts (Suc k) t = Some u" "serves u xs" "serving u d IO_OP_WRITE buf sz (unat sz) True"
    "ram u = ram t"
    "outs_of p (m_trace u) = outs_of p (m_trace t) @ map (\<lambda>i. ram t (buf + of_nat i)) [Suc (Suc n) ..< unat sz]"
    using Suc.IH [OF t(4) _ t(2)] Suc.prems(2,4) t(3) by auto
  have "[Suc n ..< unat sz] = Suc n # [Suc (Suc n) ..< unat sz]" using Suc.prems(2) by (simp add: upt_conv_Cons)
  with t u show ?case by simp
qed


section \<open>Whole requests\<close>

definition zero_iocb :: iocb where
  "zero_iocb = \<lparr>i_next = 0, pcb_rq = 0, i_buffer = 0, buffer_sz = 0, io_op = 0\<rparr>"

text \<open>A machine whose COM1 is open and idle, on which the ports deliver \<open>xs\<close>; the buffer at \<open>0x4000\<close> holds \<open>hi\<close>.\<close>

definition demo_serial :: "(u16 \<times> u8) list \<Rightarrow> unit serial_scheme" where
  "demo_serial xs = (boot_kern (serial_ext (initial_dcbs[0 := (initial_dcb COM1)\<lparr>dopen := True\<rparr>]) (\<lambda>p. zero_iocb) ()))
     \<lparr>m_env := ports xs, ram := store_bytes 0x4000 (bytes ''hi'') (\<lambda>a. 0)\<rparr>"

lemma demo_serial_idle: "idle_device (demo_serial xs) 0" "serial_devno COM1 = Some 0"
  by (simp_all add: idle_device_def demo_serial_def boot_kern_def boot_procs_def heap_on_eq boot_heap_def
      dcbs_ok_def initial_dcbs_def initial_dcb_def ring_empty_def SERIAL_RBUFFER_SIZE_def serial_devno_def)

lemma demo_serial_heap: "heap_ok (demo_serial xs)" "heap_room SZ_IOCB (demo_serial xs)"
proof -
  let ?s = "boot_kern (serial_ext (initial_dcbs[0 := (initial_dcb COM1)\<lparr>dopen := True\<rparr>]) (\<lambda>p. zero_iocb) ())"
  have r: "heap_rel (demo_serial xs) [(0xD000000, 49988, True)]"
    using boot_procs_heap(2) by (simp add: demo_serial_def boot_kern_def heap_rel_def)
  moreover have "malloc_function (demo_serial xs) = Allocate_Memory" "free_function (demo_serial xs) = Free_Memory"
    by (simp_all add: demo_serial_def boot_kern_def boot_procs_def heap_on_eq boot_heap_def)
  ultimately show "heap_ok (demo_serial xs)" by (auto simp: heap_ok_def)
  show "heap_room SZ_IOCB (demo_serial xs)"
    unfolding heap_room_def SZ_IOCB_def
    by (rule conjI, simp, rule exI [of _ "[(0xD000000, 49988, True)]"]) (simp add: r alloc_safe_def)
qed

lemma demo_serial_serves: "serves (demo_serial xs) xs"
  by (rule serves_ports) (simp_all add: demo_serial_def)

text \<open>
  C12: A read request on an idle device takes the line that arrives. After
  \<^verbatim>\<open>serial_schedule_io\<close> has accepted the request, one input interrupt per byte
  fills the caller's buffer in order; the event flag stays down until a carriage return or the
  last byte of the buffer arrives and is up then, with the number of bytes received in
  \<^verbatim>\<open>buffer_idx\<close>; no other memory changes.
\<close>

theorem read_request_served:
  assumes "idle_device s d" and "serial_devno dev = Some d" and "heap_ok s" and "heap_room SZ_IOCB s"
    and "buf \<noteq> NULL" and "bs \<noteq> []" and "length bs \<le> unat sz" and "0x0D \<notin> set (butlast bs)"
    and "last bs = 0x0D \<or> length bs = unat sz"
    and "serves s (concat (map (received d) bs))"
  shows "\<exists>t u. serial_schedule_io dev buf sz IO_OP_READ s = Some (0, t) \<and>
    interrupts (length bs) t = Some u \<and> event (dcb_at u d) \<and>
    buffer_idx (dcb_at u d) = of_nat (length bs) \<and> ram u = store_bytes buf bs (ram s) \<and>
    (\<forall>k < length bs. \<exists>v. interrupts k t = Some v \<and> \<not> event (dcb_at v d))"
proof -
  have sz: "sz \<noteq> 0" using assms(6,7) by auto
  obtain t where t: "serial_schedule_io dev buf sz IO_OP_READ s = Some (0, t)"
    "serving t d IO_OP_READ buf sz 0 False" "ram t = ram s" "\<forall>xs. serves t xs = serves s xs"
    using read_start [OF assms(1-5) sz] by blast
  have all: "serves t (concat (map (received d) bs) @ [])" using t(4) assms(10) by simp
  obtain u where u: "interrupts (length bs) t = Some u"
    "serving u d IO_OP_READ buf sz (0 + length bs) (finished bs 0 (unat sz))"
    "ram u = store_bytes (buf + of_nat 0) bs (ram t)"
    using read_run [OF t(2) _ assms(8) all] assms(7) by auto
  have "\<exists>v. interrupts k t = Some v \<and> \<not> event (dcb_at v d)" if k: "k < length bs" for k
  proof -
    let ?bs = "take k bs"
    have "serves t (concat (map (received d) ?bs) @ concat (map (received d) (drop k bs)))"
      using all by (metis append_Nil2 append_take_drop_id concat_append map_append)
    moreover have "0x0D \<notin> set (butlast ?bs)"
      using assms(8) k by (auto simp: butlast_take butlast_conv_take dest: in_set_takeD)
        (meson in_set_takeD set_take_subset_set_take diff_le_mono less_imp_le subsetD)
    ultimately obtain v where v: "interrupts (length ?bs) t = Some v"
      "serving v d IO_OP_READ buf sz (0 + length ?bs) (finished ?bs 0 (unat sz))"
      using read_run [OF t(2), of ?bs] assms(7) k by auto
    have "\<not> finished ?bs 0 (unat sz)"
    proof -
      have "last ?bs \<noteq> 0x0D" if "?bs \<noteq> []"
      proof -
        have "last ?bs = bs ! (k - 1)" using that k by (simp add: last_conv_nth)
        moreover have "bs ! (k - 1) \<in> set (butlast bs)"
        proof -
          have "k - 1 < length (butlast bs)" using k that by (cases k) auto
          then show ?thesis using nth_mem [of "k - 1" "butlast bs"] by (simp add: nth_butlast)
        qed
        ultimately show ?thesis using assms(8) by auto
      qed
      then show ?thesis using k assms(7) by (auto simp: finished_def)
    qed
    with v k show ?thesis by (auto simp: serving_def)
  qed
  with t u assms(6,9) show ?thesis by (auto simp: serving_def finished_def)
qed

theorem read_request_served_witness:
  "\<exists>t u. serial_schedule_io COM1 0x8000 10 IO_OP_READ
       (demo_serial (received 0 0x68 @ received 0 0x69 @ received 0 0x0D)) = Some (0, t) \<and>
     interrupts 3 t = Some u \<and> buffer_idx (dcb_at u 0) = 3 \<and> ram u 0x8001 = 0x69"
proof -
  let ?bs = "[0x68, 0x69, 0x0D] :: u8 list" and ?xs = "received 0 0x68 @ received 0 0x69 @ received 0 0x0D"
  have "serves (demo_serial ?xs) (concat (map (received 0) ?bs))" using demo_serial_serves [of ?xs] by simp
  from read_request_served [OF demo_serial_idle demo_serial_heap _ _ _ _ _ this, of "0x8000" 10]
  obtain t u where "serial_schedule_io COM1 0x8000 10 IO_OP_READ (demo_serial ?xs) = Some (0, t)"
    "interrupts (length ?bs) t = Some u" "buffer_idx (dcb_at u 0) = of_nat (length ?bs)"
    "ram u = store_bytes 0x8000 ?bs (ram (demo_serial ?xs))" by auto
  moreover have "length ?bs = 3" by simp
  ultimately show ?thesis by (intro exI [of _ t] exI [of _ u]) (simp only: \<open>length ?bs = 3\<close>, simp)
qed

text \<open>
  C13: A write request on an idle device sends the caller's buffer. The first byte is sent when
  \<^verbatim>\<open>serial_schedule_io\<close> accepts the request and one more with every output
  interrupt; after as many interrupts as there are bytes exactly the buffer's bytes have gone to
  the data register, in order, the event flag is up and \<^verbatim>\<open>buffer_idx\<close> is the
  length.
\<close>

theorem write_request_served:
  assumes "idle_device s d" and "serial_devno dev = Some d" and "heap_ok s" and "heap_room SZ_IOCB s"
    and "buf \<noteq> NULL" and "sz \<noteq> 0"
    and "serves s ((port dev IER, ier) # concat (replicate (unat sz) (irq_poll d 2)) @ [(port dev IER, ier')])"
  shows "\<exists>t u. serial_schedule_io dev buf sz IO_OP_WRITE s = Some (0, t) \<and>
    interrupts (unat sz) t = Some u \<and> event (dcb_at u d) \<and> buffer_idx (dcb_at u d) = sz \<and> ram u = ram s \<and>
    outs_of (port dev RBR) (m_trace u) =
      outs_of (port dev RBR) (m_trace s) @ map (\<lambda>i. ram s (buf + of_nat i)) [0 ..< unat sz]"
proof -
  have dv: "dcb_dev (dcb_at t d) = dev" if "dcbs_ok t" for t :: "'a serial_scheme"
    using serial_devno_dcb [OF that assms(2)] by simp
  obtain t where t: "serial_schedule_io dev buf sz IO_OP_WRITE s = Some (0, t)"
    "serving t d IO_OP_WRITE buf sz 0 False" "ram t = ram s"
    "serves t (concat (replicate (unat sz) (irq_poll d 2)) @ [(port (com d) IER, ier')])"
    "outs_of (port dev RBR) (m_trace t) = outs_of (port dev RBR) (m_trace s) @ [ram s buf]"
    using write_start [OF assms] devno_com [OF assms(2)] by blast
  obtain k where k: "unat sz = Suc k" using assms(6) by (metis not0_implies_Suc unat_eq_zero)
  have "port dev RBR = port (dcb_dev (dcb_at t d)) RBR" using dv t(2) by (simp add: serving_def)
  from write_run [OF t(2) _ t(4) [unfolded k] this] k obtain u where
    u: "interrupts (unat sz) t = Some u" "serving u d IO_OP_WRITE buf sz (unat sz) True" "ram u = ram t"
      "outs_of (port dev RBR) (m_trace u) =
         outs_of (port dev RBR) (m_trace t) @ map (\<lambda>i. ram t (buf + of_nat i)) [Suc 0 ..< unat sz]"
    by auto
  have "[0 ..< unat sz] = 0 # [Suc 0 ..< unat sz]" using k by (simp add: upt_conv_Cons)
  with t u show ?thesis by (auto simp: serving_def)
qed

theorem write_request_served_witness:
  "\<exists>t u. serial_schedule_io COM1 0x4000 2 IO_OP_WRITE (demo_serial ((port COM1 IER, 0) # irq_poll 0 2 @ irq_poll 0 2 @ [(port COM1 IER, 2)])) = Some (0, t) \<and>
     interrupts 2 t = Some u \<and> outs_of 0x3f8 (m_trace u) = bytes ''hi''"
proof -
  let ?xs = "(port COM1 IER, 0) # irq_poll 0 2 @ irq_poll 0 2 @ [(port COM1 IER, 2)]"
  have two: "unat (2 :: u32) = 2" by simp
  have "serves (demo_serial ?xs) ((port COM1 IER, 0) # concat (replicate (unat (2 :: u32)) (irq_poll 0 2)) @ [(port COM1 IER, 2)])"
    unfolding two using demo_serial_serves [of ?xs] by (simp add: numeral_2_eq_2)
  from write_request_served [OF demo_serial_idle demo_serial_heap _ _ this, of "0x4000"]
  obtain t u where "serial_schedule_io COM1 0x4000 2 IO_OP_WRITE (demo_serial ?xs) = Some (0, t)"
    "interrupts 2 t = Some u" "outs_of (port COM1 RBR) (m_trace u) =
      outs_of (port COM1 RBR) (m_trace (demo_serial ?xs)) @ map (\<lambda>i. ram (demo_serial ?xs) (0x4000 + of_nat i)) [0 ..< 2]"
    by (auto simp: two)
  moreover have "m_trace (demo_serial ?xs) = []" by (simp add: demo_serial_def boot_kern_idt)
  moreover have "map (\<lambda>i. ram (demo_serial ?xs) (0x4000 + of_nat i)) [0 ..< 2] = bytes ''hi''"
    by (simp add: demo_serial_def bytes_def upt_rec)
  moreover have "port COM1 RBR = 0x3f8" by (simp add: port_def devices uart_registers)
  ultimately show ?thesis by auto
qed

end
