(* ===== verification/Serial_Queue.thy ===== *)
theory Serial_Queue
  imports Serial_Claims
begin

text \<open>
  The queue of requests of a device: requests join at the end, and completing the first one
  wakes its process and starts the next.
\<close>

section \<open>Requests in order\<close>

text \<open>What the devices leave alone.\<close>

definition procs_same :: "'a procs_scheme \<Rightarrow> 'a procs_scheme \<Rightarrow> bool" where
  "procs_same s t \<longleftrightarrow> pcbs t = pcbs s \<and> pcb_queues t = pcb_queues s \<and> ctxts t = ctxts s \<and>
     pcb_running t = pcb_running s"

lemma procs_same_trans: "procs_same s t \<Longrightarrow> procs_same t u \<Longrightarrow> procs_same s u"
  by (simp add: procs_same_def)

lemma procs_same_upd [simp]:
  "procs_same s s" "procs_same s (upd_dcb d f s)" "procs_same s (s\<lparr>iocbs := h\<rparr>)"
  "procs_same s (new_request p b z op s)" "procs_same s (s\<lparr>ram := m\<rparr>)"
  by (simp_all add: procs_same_def upd_dcb_def new_request_def)

lemma touch_same: "heap_touch s t \<Longrightarrow> procs_same s t"
  by (cases s; cases t) (simp add: heap_touch_def procs_same_def)

definition ioq_rel :: "'a serial_scheme \<Rightarrow> nat \<Rightarrow> addr list \<Rightarrow> bool" where
  "ioq_rel s d xs \<longleftrightarrow>
     path (\<lambda>a. i_next (iocbs s a)) (iocb_queue_head (dcb_at s d)) xs NULL \<and>
     iocb_queue_tail (dcb_at s d) = (if xs = [] then NULL else last xs)"

lemma ioq_head: "ioq_rel s d (x # xs) \<Longrightarrow> iocb_queue_head (dcb_at s d) = x \<and> x \<noteq> NULL"
  by (auto simp: ioq_rel_def)

lemma schedule_queues:
  assumes ok: "dcbs_ok s" "serial_devno dev = Some d" "dopen (dcb_at s d)" and q: "ioq_rel s d (x # xs)"
    and heap: "heap_ok s" "heap_room SZ_IOCB s" and live: "set (x # xs) \<subseteq> live_ptrs s"
    and args: "buf \<noteq> NULL" "sz \<noteq> 0"
  shows "\<exists>p t. serial_schedule_io dev buf sz op s = Some (0, t) \<and> ioq_rel t d (x # xs @ [p]) \<and>
    p \<notin> live_ptrs s \<and> live_ptrs t = insert p (live_ptrs s) \<and> heap_ok t \<and>
    pcb_rq (iocbs t p) = pcb_running s \<and> i_buffer (iocbs t p) = buf \<and> buffer_sz (iocbs t p) = sz \<and>
    io_op (iocbs t p) = op \<and> (\<forall>y. y \<notin> {p, last (x # xs)} \<longrightarrow> iocbs t y = iocbs s y) \<and>
    (\<forall>y. y \<noteq> p \<longrightarrow> iocbs t y = (iocbs s y)\<lparr>i_next := i_next (iocbs t y)\<rparr>) \<and>
    serial_dcb_list t = (serial_dcb_list s)[d := (dcb_at s d)\<lparr>iocb_queue_tail := p\<rparr>] \<and> procs_same s t"
proof -
  obtain p u where p: "sys_alloc_mem SZ_IOCB s = Some (p, u)" "p \<noteq> NULL" "p \<notin> live_ptrs s"
    "live_ptrs u = insert p (live_ptrs s)" "heap_ok u"
    using heap.malloc_fresh [OF heap] by blast
  have e: "serial_dcb_list u = serial_dcb_list s" "iocbs u = iocbs s" "pcb_running u = pcb_running s"
    using touch_serial [OF sys_alloc_touch [OF heap(1) p(1)]] by auto
  have d: "d < 4" using serial_devno_dcb [OF ok(1,2)] by simp
  have len: "d < length (serial_dcb_list u)" using dcbs_ok_length [OF ok(1)] d e(1) by simp
  let ?l = "last (x # xs)"
  have l: "?l \<noteq> NULL" "?l \<noteq> p" "iocb_queue_tail (dcb_at s d) = ?l"
  proof -
    have "?l \<in> set (x # xs)" by (rule last_in_set) simp
    moreover have "NULL \<notin> set (x # xs)" using q path_nonNULL by (auto simp: ioq_rel_def)
    ultimately show "?l \<noteq> NULL" "?l \<noteq> p" using live p(3) by auto
    show "iocb_queue_tail (dcb_at s d) = ?l" using q by (simp add: ioq_rel_def)
  qed
  let ?a = "new_request p buf sz op u"
  let ?b = "?a\<lparr>iocbs := (iocbs ?a)(?l := (iocbs ?a ?l)\<lparr>i_next := p\<rparr>)\<rparr>"
  define t where "t = upd_dcb d (\<lambda>d. d\<lparr>iocb_queue_tail := p\<rparr>) ?b"
  have run: "serial_schedule_io dev buf sz op s = Some (0, t)"
    using ok args ioq_head [OF q] p l e by (simp add: serial_schedule_io_def Let_def t_def)
  have io: "iocbs t = (iocbs s)(p := \<lparr>i_next = NULL, pcb_rq = pcb_running s, i_buffer = buf,
      buffer_sz = sz, io_op = op\<rparr>, ?l := (iocbs s ?l)\<lparr>i_next := p\<rparr>)"
    using l e by (auto simp: new_request_def t_def)
  have pn: "p \<notin> set (x # xs)" using live p(3) by blast
  have pth: "path (\<lambda>a. i_next (iocbs s a)) x (x # xs) NULL" using q by (auto simp: ioq_rel_def)
  define nx where "nx a = i_next (iocbs t a)" for a
  have nx: "nx a = (if a = ?l then p else if a = p then NULL else i_next (iocbs s a))" for a
    unfolding nx_def io by simp
  have "path nx x ((x # xs) @ [p]) NULL"
  proof -
    obtain ys where ys: "x # xs = ys @ [?l]" by (metis append_butlast_last_id list.distinct(1))
    have "path (\<lambda>a. i_next (iocbs s a)) x (ys @ [?l]) NULL" using pth ys by metis
    then have y: "path (\<lambda>a. i_next (iocbs s a)) x ys ?l" by auto
    have "distinct (ys @ [?l])" using path_distinct [OF pth] ys by metis
    moreover have "p \<notin> set ys" using pn ys by (metis Un_iff set_append)
    ultimately have "path nx x ys ?l"
      using y by (subst path_cong [of ys _ "\<lambda>a. i_next (iocbs s a)"]) (auto simp: nx)
    then have "path nx x (ys @ [?l, p]) NULL" using l p(2) by (simp add: nx)
    then show ?thesis using ys by (metis append.assoc append_Cons append_Nil)
  qed
  moreover have "iocb_queue_head (dcb_at t d) = x" "iocb_queue_tail (dcb_at t d) = p"
    using ioq_head [OF q] len e by (simp_all add: t_def)
  ultimately have "ioq_rel t d (x # xs @ [p])" by (simp add: ioq_rel_def nx_def [abs_def])
  moreover have "live_ptrs t = live_ptrs u" "heap_ok t = heap_ok u"
    by (simp_all add: t_def upd_dcb_def new_request_def heap_ok_def heap_rel_def live_ptrs_def)
  moreover have "\<forall>y. y \<noteq> p \<longrightarrow> iocbs t y = (iocbs s y)\<lparr>i_next := i_next (iocbs t y)\<rparr>"
    unfolding io using l(2) by simp
  moreover have "pcb_rq (iocbs t p) = pcb_running s \<and> i_buffer (iocbs t p) = buf \<and>
      buffer_sz (iocbs t p) = sz \<and> io_op (iocbs t p) = op"
    unfolding io using l(2) by simp
  moreover have "\<forall>y. y \<notin> {p, last (x # xs)} \<longrightarrow> iocbs t y = iocbs s y"
    unfolding io by simp
  moreover have "procs_same s t"
    using touch_same [OF sys_alloc_touch [OF heap(1) p(1)]]
    by (simp add: procs_same_def t_def upd_dcb_def new_request_def)
  moreover have "serial_dcb_list t = (serial_dcb_list s)[d := (dcb_at s d)\<lparr>iocb_queue_tail := p\<rparr>]"
    using e by (simp add: t_def upd_dcb_def new_request_def)
  ultimately show ?thesis using run p by (intro exI [of _ p] exI [of _ t]) (simp only: simp_thms)
qed


text \<open>On an idle device the request is started at once.\<close>

lemma schedule_idle:
  assumes idle: "idle_device s d" and dev: "serial_devno dev = Some d" and heap: "heap_ok s" "heap_room SZ_IOCB s"
    and args: "buf \<noteq> NULL" "sz \<noteq> 0"
  shows "\<exists>p t. serial_schedule_io dev buf sz op s = Some (0, t) \<and> ioq_rel t d [p] \<and>
    p \<notin> live_ptrs s \<and> live_ptrs t = insert p (live_ptrs s) \<and> heap_ok t \<and>
    pcb_rq (iocbs t p) = pcb_running s \<and> (\<forall>y. y \<noteq> p \<longrightarrow> iocbs t y = iocbs s y) \<and>
    serial_dcb_list t = (serial_dcb_list s)[d :=
      (dcb_at s d)\<lparr>iocb_queue_head := p, iocb_queue_tail := p, buffer_idx := 0\<rparr>] \<and> procs_same s t \<and>
    (\<exists>v. sys_alloc_mem SZ_IOCB s = Some (p, v) \<and> (\<forall>bs. heap_rel t bs = heap_rel v bs))"
proof -
  have i: "dcbs_ok s" "d < 4" "dopen (dcb_at s d)" "iocb_queue_head (dcb_at s d) = NULL" "\<not> event (dcb_at s d)"
    "rbuffer_idx_begin (dcb_at s d) = rbuffer_idx_end (dcb_at s d)"
    using idle by (auto simp: idle_device_def ring_empty_def)
  obtain p u where p: "sys_alloc_mem SZ_IOCB s = Some (p, u)" "p \<noteq> NULL" "p \<notin> live_ptrs s"
    "live_ptrs u = insert p (live_ptrs s)" "heap_ok u"
    using heap.malloc_fresh [OF heap] by blast
  note touch = sys_alloc_touch [OF heap(1) p(1)]
  have e: "serial_dcb_list u = serial_dcb_list s" "iocbs u = iocbs s" "pcb_running u = pcb_running s"
    using touch_serial [OF touch] by auto
  have len: "d < length (serial_dcb_list s)" using dcbs_ok_length [OF i(1)] i(2) by simp
  let ?a = "upd_dcb d (\<lambda>d. d\<lparr>iocb_queue_head := p, iocb_queue_tail := p\<rparr>) u"
  define c where "c = upd_dcb d (\<lambda>d. d\<lparr>buffer_idx := 0\<rparr>) (new_request p buf sz op ?a)"
  have c: "heap_ok c" "live_ptrs c = insert p (live_ptrs s)" "procs_same s c"
    "iocbs c = (iocbs s)(p := \<lparr>i_next = NULL, pcb_rq = pcb_running s, i_buffer = buf, buffer_sz = sz, io_op = op\<rparr>)"
    "serial_dcb_list c = (serial_dcb_list s)[d :=
      (dcb_at s d)\<lparr>iocb_queue_head := p, iocb_queue_tail := p, buffer_idx := 0\<rparr>]"
    using p e len touch_same [OF touch]
    by (simp_all add: c_def upd_dcb_def new_request_def heap_ok_def heap_rel_def live_ptrs_def procs_same_def)
  have hc: "heap_rel c bs = heap_rel u bs" for bs by (simp add: c_def upd_dcb_def new_request_def heap_rel_def)
  have "\<exists>t. serial_schedule_io dev buf sz op s = Some (0, t) \<and> io_only c t"
  proof (cases "op = IO_OP_READ")
    case True
    let ?b = "new_request p buf sz IO_OP_READ ?a"
    have "start_read d buf sz ?b = Some (upd_dcb d (\<lambda>_. (dcb_at ?b d)\<lparr>buffer_idx := 0\<rparr>) (?b\<lparr>ram := ram ?b\<rparr>))"
      using i len e by (simp add: start_read_def ring_copy_empty)
    then have "start_read d buf sz ?b = Some c" using True by (simp add: c_def upd_dcb_def)
    then have "serial_read dev buf sz s = Some (0, c)"
      using args dev i p by (simp add: serial_read_def Let_def)
    then show ?thesis using args dev i True by (simp add: serial_schedule_io_def)
  next
    case False
    let ?o = "outb (port (dcb_dev (dcb_at c d)) RBR) (ram c buf) c"
    obtain ier x where x: "inb (port dev IER) ?o = (ier, x)" by (rule prod.exhaust)
    have "io_only ?o x" using io_only_inb [of ?o "port dev IER"] unfolding x by simp
    then have "io_only c (outb (port dev IER) (ier OR push_bit 1 1) x)"
      using io_only_outb [OF io_only_refl] by (blast intro: io_only_outb io_only_trans)
    moreover have "serial_write dev buf sz s = Some (0, outb (port dev IER) (ier OR push_bit 1 1) x)"
      using args dev i p x [unfolded c_def] False one_bit [of op] by (simp add: serial_write_def Let_def)
    ultimately show ?thesis using args dev i False by (simp add: serial_schedule_io_def)
  qed
  then obtain t where t: "serial_schedule_io dev buf sz op s = Some (0, t)" "io_only c t" by blast
  have ct: "serial_dcb_list t = serial_dcb_list c" "iocbs t = iocbs c" "procs_same c t"
    "heap_ok t = heap_ok c" "live_ptrs t = live_ptrs c"
    using t(2) by (cases c; cases t; simp add: io_only_def procs_same_def heap_ok_def heap_rel_def live_ptrs_def)+
  have "heap_rel t bs = heap_rel u bs" for bs
    using t(2) unfolding hc [symmetric] by (cases c; cases t) (simp add: io_only_def heap_rel_def)
  moreover have "ioq_rel t d [p]" using p(2) len by (simp add: ioq_rel_def ct c)
  ultimately show ?thesis using t(1) p(1,3) c ct procs_same_trans [OF c(3) ct(3)]
    by (intro exI [of _ p] exI [of _ t]) simp
qed

section \<open>Waking a process\<close>

definition procs_only :: "'a procs_scheme \<Rightarrow> 'a procs_scheme \<Rightarrow> bool" where
  "procs_only s t \<longleftrightarrow> t = s\<lparr>pcbs := pcbs t, pcb_queues := pcb_queues t, ctxts := ctxts t\<rparr>"

lemma procs_only_trans: "procs_only s t \<Longrightarrow> procs_only t u \<Longrightarrow> procs_only s u"
  by (cases s; cases t; cases u) (simp add: procs_only_def)

lemma links_procs_only: "links_only s t \<Longrightarrow> procs_only s t"
  by (cases s; cases t) (simp add: procs_only_def links_only_def)

lemma links_only_ctxts: "links_only s t \<Longrightarrow> ctxts t = ctxts s"
  by (cases s; cases t) (simp add: links_only_def)

lemma procs_only_upd [simp]:
  "procs_only s (set_p_state p v s)" "procs_only s (s\<lparr>ctxts := c\<rparr>)" "procs_only s (set_pctxt p a s)"
  by (simp_all add: procs_only_def set_p_state_def set_pctxt_def)

lemma procs_only_serial:
  "procs_only s t \<Longrightarrow> serial_dcb_list t = serial_dcb_list s \<and> iocbs t = iocbs s \<and> m_env t = m_env s \<and>
     m_count t = m_count s \<and> m_trace t = m_trace s \<and> ram t = ram s \<and> pcb_running t = pcb_running s"
  by (cases s; cases t) (simp add: procs_only_def)

lemma procs_only_heap:
  "procs_only s t \<Longrightarrow> heap_ok t = heap_ok s \<and> live_ptrs t = live_ptrs s \<and> heap_rel t = heap_rel s"
proof -
  assume "procs_only s t"
  then have "mcbs t = mcbs s" "free_head t = free_head s" "alloc_head t = alloc_head s"
    "heap_isinit t = heap_isinit s" "malloc_function t = malloc_function s" "free_function t = free_function s"
    by (cases s; cases t; simp add: procs_only_def)+
  then have "heap_rel t bs = heap_rel s bs" "live_ptrs t = live_ptrs s"
    "heap_ok t = heap_ok s" for bs
    by (simp_all add: heap_rel_def live_ptrs_def heap_ok_def)
  then show ?thesis by (simp add: ext)
qed

definition readied :: "pcb_state \<Rightarrow> pcb_state" where
  "readied st = st\<lparr>exec := PCB_EXEC_READY\<rparr>"

definition woken :: "'a procs_scheme \<Rightarrow> addr \<Rightarrow> (nat \<Rightarrow> addr list) \<Rightarrow> (nat \<Rightarrow> addr list)" where
  "woken s p Q =
     (let Q = unplaced s p Q; i = PSTATE_QUEUE_SELECTOR (readied (p_state (pcbs s p)))
      in Q(i := place (pcbs s) True p (Q i)))"

lemma place_cong: "(\<And>x. prio h x = prio h' x) \<Longrightarrow> place h b p xs = place h' b p xs"
  by (simp add: place_def)

lemma readied_even: "even (PSTATE_QUEUE_SELECTOR (readied st))"
  by (simp add: PSTATE_QUEUE_SELECTOR_def readied_def)

lemma set_queue_sub: "i < 4 \<Longrightarrow> set (Q i) \<subseteq> set (all_queued Q)"
  by (auto simp: set_all_queued)

lemma set_unplaced_sub: "set (all_queued (unplaced s p Q)) \<subseteq> set (all_queued Q)"
  unfolding set_all_queued by (rule UN_mono) (auto simp: unplaced_def dest: set_remove1_subset [THEN subsetD])

lemma wake_rel:
  assumes rel: "queues_rel s Q" and p: "p \<in> set (Q (sel s p))" and ctx: "pctxt (pcbs s p) \<noteq> NULL"
  shows "\<exists>t. wake p n s = Some t \<and> queues_rel t (woken s p Q) \<and> procs_only s t \<and>
    p_state (pcbs t p) = readied (p_state (pcbs s p)) \<and>
    ctxts t = (ctxts s)(pctxt (pcbs s p) := (ctxts s (pctxt (pcbs s p)))\<lparr>c_eax := n\<rparr>) \<and>
    (\<forall>x. x \<noteq> p \<longrightarrow> p_state (pcbs t x) = p_state (pcbs s x)) \<and>
    (\<forall>x. pctxt (pcbs t x) = pctxt (pcbs s x) \<and> p_name (pcbs t x) = p_name (pcbs s x) \<and>
       pstackseg (pcbs t x) = pstackseg (pcbs s x)) \<and>
    (\<forall>x. x \<notin> set (all_queued Q) \<longrightarrow> p_next (pcbs t x) = p_next (pcbs s x))"
proof -
  let ?Q = "unplaced s p Q"
  obtain a where a: "pcb_remove p s = Some (0, a)" "queues_rel a ?Q" "loose a ?Q p" "links_only s a"
    "\<forall>x. x \<notin> set (Q (sel s p)) \<longrightarrow> p_next (pcbs a x) = p_next (pcbs s x)"
    using pcb_remove_rel_next [OF rel p] by blast
  note fa = links_only_frame [OF a(4)] links_only_state [OF a(4)]
  let ?b = "set_p_state p (readied (p_state (pcbs s p))) a"
  let ?ctx = "(ctxts s)(pctxt (pcbs s p) := (ctxts s (pctxt (pcbs s p)))\<lparr>c_eax := n\<rparr>)"
  let ?c = "?b\<lparr>ctxts := ?ctx\<rparr>"
  have ca: "ctxts a = ctxts s" by (rule links_only_ctxts [OF a(4)])
  have nQ: "p \<notin> set (all_queued ?Q)" using a(3) by (auto simp: loose_def set_all_queued)
  have "queues_rel ?c ?Q"
    by (rule queues_rel_cong [THEN iffD2, OF _ _ a(2)]) (use nQ in \<open>auto simp: set_p_state_def\<close>)
  moreover have "loose ?c ?Q p" using a(3) by (simp add: loose_def set_p_state_def)
  ultimately obtain t where t: "pcb_insert p ?c = Some t" "queues_rel t (placed ?c p ?Q)" "links_only ?c t"
    "\<forall>x. x \<notin> insert p (set (?Q (sel ?c p))) \<longrightarrow> p_next (pcbs t x) = p_next (pcbs ?c x)"
    using pcb_insert_rel_next by blast
  note ft = links_only_frame [OF t(3)] links_only_state [OF t(3)]
  have run: "wake p n s = Some t"
    using a(1) t(1) ctx by (simp add: wake_def fa set_p_state_def ca readied_def)
  have "sel ?c p = PSTATE_QUEUE_SELECTOR (readied (p_state (pcbs s p)))" by (simp add: set_p_state_def)
  moreover have "place (pcbs ?c) True p xs = place (pcbs s) True p xs" for xs
    by (rule place_cong) (simp add: set_p_state_def fa readied_def)
  ultimately have "placed ?c p ?Q = woken s p Q" by (simp add: placed_def woken_def readied_even Let_def)
  with t(2) have q: "queues_rel t (woken s p Q)" by simp
  have po: "procs_only s t"
    by (rule procs_only_trans [OF links_procs_only [OF a(4)]], rule procs_only_trans [OF procs_only_upd(1)],
        rule procs_only_trans [OF procs_only_upd(2)], rule links_procs_only [OF t(3)])
  have sub: "set (Q (sel s p)) \<subseteq> set (all_queued Q)" "set (?Q (sel ?c p)) \<subseteq> set (all_queued Q)"
    using set_queue_sub [of "sel s p" Q] set_queue_sub [of "sel ?c p" ?Q] set_unplaced_sub [of s p Q] by auto
  have nxt: "\<forall>x. x \<notin> set (all_queued Q) \<longrightarrow> p_next (pcbs t x) = p_next (pcbs s x)"
  proof (intro allI impI)
    fix x
    assume x: "x \<notin> set (all_queued Q)"
    then have xp: "x \<noteq> p" using sub(1) p by blast
    moreover have "p_next (pcbs t x) = p_next (pcbs ?c x)"
      by (rule t(4) [rule_format]) (use x xp sub(2) in blast)
    moreover have "p_next (pcbs a x) = p_next (pcbs s x)" using x sub a(5) by blast
    ultimately show "p_next (pcbs t x) = p_next (pcbs s x)" by (simp add: set_p_state_def)
  qed
  have ctx: "ctxts t = ?ctx" using links_only_ctxts [OF t(3)] by simp
  show ?thesis
    by (intro exI [of _ t] conjI run q po ctx nxt) (auto simp: ft set_p_state_def fa)
qed

end
