(* ===== verification/Serial_Complete.thy ===== *)
theory Serial_Complete
  imports Serial_Queue
begin

text \<open>
  Completion of a request by \<^verbatim>\<open>serial_check_io\<close>, with the process woken and
  the next request started.
\<close>

section \<open>Starting the next request\<close>

text \<open>What the devices change: everything but the processes and the heap.\<close>

definition dev_only :: "'a serial_scheme \<Rightarrow> 'a serial_scheme \<Rightarrow> bool" where
  "dev_only s t \<longleftrightarrow> t = s\<lparr>m_trace := m_trace t, m_count := m_count t, ram := ram t,
     serial_dcb_list := serial_dcb_list t, iocbs := iocbs t\<rparr>"

lemma dev_only_trans: "dev_only s t \<Longrightarrow> dev_only t u \<Longrightarrow> dev_only s u"
  by (cases s; cases t; cases u) (simp add: dev_only_def)

lemma dev_only_refl [simp]: "dev_only s s"
  by (simp add: dev_only_def)

lemma dev_only_upd:
  "dev_only s (upd_dcb d f s)" "dev_only s (outb p b s)" "dev_only s (s\<lparr>ram := m\<rparr>)" "dev_only s (s\<lparr>iocbs := h\<rparr>)"
  by (simp_all add: dev_only_def upd_dcb_def outb_def)

lemma io_dev_only: "io_only s t \<Longrightarrow> dev_only s t"
  by (cases s; cases t) (simp add: io_only_def dev_only_def)

lemma dev_only_eqs:
  "dev_only s t \<Longrightarrow> pcbs t = pcbs s \<and> pcb_queues t = pcb_queues s \<and> ctxts t = ctxts s \<and>
     pcb_running t = pcb_running s \<and> heap_ok t = heap_ok s \<and> live_ptrs t = live_ptrs s"
  by (cases s; cases t) (simp add: dev_only_def heap_ok_def heap_rel_def live_ptrs_def)

lemma ioq_cong:
  assumes "iocbs t = iocbs s" and "iocb_queue_head (dcb_at t d) = iocb_queue_head (dcb_at s d)"
    and "iocb_queue_tail (dcb_at t d) = iocb_queue_tail (dcb_at s d)"
  shows "ioq_rel t d xs = ioq_rel s d xs"
  by (simp add: ioq_rel_def assms)

text \<open>The device control block after the first step of the next request.\<close>

definition restarted :: "dcb \<Rightarrow> dcb" where
  "restarted d = d\<lparr>buffer_idx := 0\<rparr>"

lemma start_next_io:
  assumes d: "dcbs_ok s" "d < 4" and ring: "ring_empty (dcb_at s d)"
  shows "\<exists>t. start_next dev d y op s = Some t \<and> dev_only s t \<and> ram t = ram s \<and> iocbs t = iocbs s \<and>
    m_env t = m_env s \<and> serial_dcb_list t = (serial_dcb_list s)[d := restarted (dcb_at s d)]"
proof -
  define a where "a = (if io_op (iocbs s y) \<noteq> op \<and> op = IO_OP_WRITE
    then (let (ier, s) = inb (port dev IER) s in outb (port dev IER) (ier AND NOT (push_bit 1 1)) s) else s)"
  have io: "io_only s a"
    by (auto simp: a_def case_prod_unfold Let_def intro!: io_only_outb io_only_inb)
  note e = io_only_eqs [OF io]
  have next_a: "start_next dev d y op s =
     (let s = a
      in if io_op (iocbs s y) = IO_OP_READ
         then start_read d (i_buffer (iocbs s y)) (buffer_sz (iocbs s y)) s
         else
           (let s = upd_dcb d (\<lambda>d. d\<lparr>buffer_idx := 0\<rparr>) s;
                s = outb (port (dcb_dev (dcb_at s d)) RBR) (ram s (i_buffer (iocbs s y))) s;
                (ier, s) = inb (port dev IER) s
            in Some (outb (port dev IER) (ier OR push_bit 1 1) s)))"
    unfolding start_next_def a_def by (rule refl)
  show ?thesis
  proof (cases "io_op (iocbs s y) = IO_OP_READ")
    case True
    have "ring_copy n 0 buf (dcb_at a d) m = Some (0, dcb_at a d, m)" for n buf m
      using ring e by (intro ring_copy_empty) (simp add: ring_empty_def)
    then have "start_next dev d y op s = Some (upd_dcb d restarted a)"
      unfolding next_a using True e by (simp add: start_read_def restarted_def upd_dcb_def Let_def)
    moreover have "dev_only s (upd_dcb d restarted a)"
      using io_dev_only [OF io] dev_only_upd(1) dev_only_trans by blast
    ultimately show ?thesis using e by (auto simp: upd_dcb_def)
  next
    case False
    let ?b = "upd_dcb d (\<lambda>d. d\<lparr>buffer_idx := 0\<rparr>) a"
    let ?c = "outb (port (dcb_dev (dcb_at ?b d)) RBR) (ram ?b (i_buffer (iocbs ?b y))) ?b"
    obtain ier u where u: "inb (port dev IER) ?c = (ier, u)" by (rule prod.exhaust)
    let ?t = "outb (port dev IER) (ier OR push_bit 1 1) u"
    have "io_only ?c u" using io_only_inb [of ?c "port dev IER"] unfolding u by simp
    from io_only_outb [OF io_only_trans [OF io_only_outb [OF io_only_refl] this]]
    have iou: "io_only ?b ?t" .
    have "start_next dev d y op s = Some ?t"
      unfolding next_a using False e u by (simp add: Let_def)
    moreover have "dev_only s ?t"
      using io_dev_only [OF io] io_dev_only [OF iou] dev_only_upd(1) dev_only_trans by blast
    moreover have "serial_dcb_list ?t = (serial_dcb_list s)[d := restarted (dcb_at s d)]"
      using io_only_eqs [OF iou] e by (simp add: upd_dcb_def restarted_def)
    ultimately show ?thesis using io_only_eqs [OF iou] e by auto
  qed
qed


section \<open>Completion\<close>

lemma ioq_restarted:
  assumes "serial_dcb_list t = (serial_dcb_list s)[d := restarted (dcb_at s d)]" and "iocbs t = iocbs s"
    and "d < length (serial_dcb_list s)"
  shows "ioq_rel t d xs = ioq_rel s d xs"
  using assms by (intro ioq_cong) (simp_all add: restarted_def)

lemma ioq_tail:
  assumes "ioq_rel s d (x # xs)"
  shows "i_next (iocbs s x) = (case xs of [] \<Rightarrow> NULL | y # _ \<Rightarrow> y)"
    and "x = iocb_queue_tail (dcb_at s d) \<longleftrightarrow> xs = []"
proof -
  have p: "path (\<lambda>a. i_next (iocbs s a)) x (x # xs) NULL" and t: "iocb_queue_tail (dcb_at s d) = last (x # xs)"
    using assms by (auto simp: ioq_rel_def)
  then show "i_next (iocbs s x) = (case xs of [] \<Rightarrow> NULL | y # _ \<Rightarrow> y)"
    using path_start [of "\<lambda>a. i_next (iocbs s a)" "i_next (iocbs s x)" xs] by simp
  show "x = iocb_queue_tail (dcb_at s d) \<longleftrightarrow> xs = []"
    using path_distinct [OF p] t by (auto split: if_splits)
qed

text \<open>
  A finished request at the head of the queue: its process is made ready with the byte count as
  the result, the request is released, and the next one is started.
\<close>

definition dequeued :: "addr \<Rightarrow> addr \<Rightarrow> dcb \<Rightarrow> dcb" where
  "dequeued x nxt d =
     (if x = iocb_queue_tail d then d\<lparr>iocb_queue_tail := nxt, iocb_queue_head := nxt\<rparr>
      else d\<lparr>iocb_queue_head := nxt\<rparr>)"

lemma dequeue_dcb:
  "d < length (serial_dcb_list s) \<Longrightarrow>
   upd_dcb d (\<lambda>d. d\<lparr>iocb_queue_head := n\<rparr>)
     (if x = iocb_queue_tail (dcb_at s d) then upd_dcb d (\<lambda>d. d\<lparr>iocb_queue_tail := n\<rparr>) s else s) =
   upd_dcb d (dequeued x n) s"
  by (simp add: upd_dcb_def dequeued_def)

lemma check_io_run:
  assumes "serial_devno dev = Some d" and "dopen (dcb_at s d)" and "event (dcb_at s d)"
    and "iocb_queue_head (dcb_at s d) = x" and "x \<noteq> NULL"
    and "wake (pcb_rq (iocbs s x)) (buffer_idx (dcb_at s d)) s = Some a"
    and "i_next (iocbs a x) = n" and "io_op (iocbs a x) = op"
    and "sys_free_mem x (upd_dcb d (\<lambda>d. d\<lparr>event := False\<rparr>) a) = Some (r, c)"
    and "d < length (serial_dcb_list c)"
  shows "serial_check_io dev s =
    Option.bind (if n \<noteq> NULL then start_next dev d n op (upd_dcb d (dequeued x n) c)
                 else Some (upd_dcb d (dequeued x n) c)) (\<lambda>s. Some (1, s))"
proof -
  have n: "i_next (iocbs (upd_dcb d (\<lambda>d. d\<lparr>event := False\<rparr>) a) x) = n"
    "io_op (iocbs (upd_dcb d (\<lambda>d. d\<lparr>event := False\<rparr>) a) x) = op" using assms(7,8) by simp_all
  show ?thesis
    by (simp only: serial_check_io_def option.case assms(1-4) if_True if_False not_True_eq_False Let_def
        ensure_bind [OF assms(5)] assms(6) bind.bind_lunit n assms(9) prod.case dequeue_dcb [OF assms(10)])
qed

lemma check_io_completes:
  assumes ok: "dcbs_ok s" "serial_devno dev = Some d" "dopen (dcb_at s d)" "event (dcb_at s d)"
      "ring_empty (dcb_at s d)"
    and q: "ioq_rel s d (x # xs)" and rel: "queues_rel s Q"
    and p: "pcb_rq (iocbs s x) = p" "p \<in> set (Q (sel s p))" "pctxt (pcbs s p) \<noteq> NULL"
    and heap: "heap_ok s" "x \<in> live_ptrs s" "heap_releasable x s"
  shows "\<exists>t. serial_check_io dev s = Some (1, t) \<and> queues_rel t (woken s p Q) \<and>
    p_state (pcbs t p) = readied (p_state (pcbs s p)) \<and>
    ctxts t = (ctxts s)(pctxt (pcbs s p) := (ctxts s (pctxt (pcbs s p)))\<lparr>c_eax := buffer_idx (dcb_at s d)\<rparr>) \<and>
    (\<forall>y. y \<noteq> p \<longrightarrow> p_state (pcbs t y) = p_state (pcbs s y)) \<and>
    (\<forall>y. pctxt (pcbs t y) = pctxt (pcbs s y)) \<and>
    (\<forall>y. y \<notin> set (all_queued Q) \<longrightarrow> p_next (pcbs t y) = p_next (pcbs s y)) \<and>
    ioq_rel t d xs \<and> live_ptrs t = live_ptrs s - {x} \<and> heap_ok t \<and> ram t = ram s \<and>
    pcb_running t = pcb_running s \<and> iocbs t = iocbs s \<and> dcbs_ok t \<and>
    serial_dcb_list t = (serial_dcb_list s)[d := (if xs = [] then id else restarted)
      (dequeued x (case xs of [] \<Rightarrow> NULL | y # _ \<Rightarrow> y) ((dcb_at s d)\<lparr>event := False\<rparr>))]"
proof -
  let ?nxt = "case xs of [] \<Rightarrow> NULL | y # _ \<Rightarrow> y"
  have d: "d < 4" and len: "d < length (serial_dcb_list s)"
    using serial_devno_dcb [OF ok(1,2)] dcbs_ok_length [OF ok(1)] by auto
  note hd = ioq_head [OF q] and tl = ioq_tail [OF q]
  obtain a where a: "wake p (buffer_idx (dcb_at s d)) s = Some a" "queues_rel a (woken s p Q)" "procs_only s a"
    "p_state (pcbs a p) = readied (p_state (pcbs s p))"
    "ctxts a = (ctxts s)(pctxt (pcbs s p) := (ctxts s (pctxt (pcbs s p)))\<lparr>c_eax := buffer_idx (dcb_at s d)\<rparr>)"
    "\<forall>y. y \<noteq> p \<longrightarrow> p_state (pcbs a y) = p_state (pcbs s y)" "\<forall>y. pctxt (pcbs a y) = pctxt (pcbs s y)"
    "\<forall>y. y \<notin> set (all_queued Q) \<longrightarrow> p_next (pcbs a y) = p_next (pcbs s y)"
    using wake_rel [OF rel p(2,3), of "buffer_idx (dcb_at s d)"] by blast
  note ea = procs_only_serial [OF a(3)] procs_only_heap [OF a(3)]
  let ?b = "upd_dcb d (\<lambda>d. d\<lparr>event := False\<rparr>) a"
  note eb = dev_only_eqs [OF dev_only_upd(1) [of a d "\<lambda>d. d\<lparr>event := False\<rparr>"]]
  have mb: "mcbs ?b = mcbs s" "free_head ?b = free_head s" "alloc_head ?b = alloc_head s"
    "heap_isinit ?b = heap_isinit s"
    using a(3) by (cases s; cases a; simp add: procs_only_def upd_dcb_def)+
  have "heap_releasable x ?b = heap_releasable x s"
    by (simp add: heap_releasable_def heap_rel_def mb)
  then obtain c where c: "sys_free_mem x ?b = Some (0, c)" "live_ptrs c = live_ptrs s - {x}" "heap_ok c"
    using heap.mfree_live [of ?b x] heap ea eb by auto
  have touch: "heap_touch ?b c" using sys_free_touch [OF _ c(1)] heap(1) ea eb by auto
  note ec = touch_serial [OF touch] touch_procs [OF touch]
  let ?e = "upd_dcb d (dequeued x ?nxt) c"
  have lc: "d < length (serial_dcb_list c)" using ec ea len by simp
  have de: "serial_dcb_list ?e = (serial_dcb_list s)[d := dequeued x ?nxt ((dcb_at s d)\<lparr>event := False\<rparr>)]"
    using ec ea len by (simp add: upd_dcb_def)
  have ioc: "iocbs c = iocbs s" "iocbs a = iocbs s" using ec ea by simp_all
  have run_io: "serial_check_io dev s =
      Option.bind (if ?nxt \<noteq> NULL then start_next dev d ?nxt (io_op (iocbs s x)) ?e else Some ?e) (\<lambda>s. Some (1, s))"
    using ok(2-4) hd a(1) c(1) lc by (intro check_io_run [of _ _ _ x a]) (simp_all add: p(1) ioc tl(1))
  have ram: "ram ?e = ram s" and run: "pcb_running ?e = pcb_running s" and io: "iocbs ?e = iocbs s"
    using ec ea by (simp_all add: upd_dcb_def)
  have h: "heap_ok ?e" "live_ptrs ?e = live_ptrs s - {x}" using dev_only_eqs [OF dev_only_upd(1) [of c d "dequeued x ?nxt"]] c by auto
  have pe: "pcbs ?e = pcbs a" "pcb_queues ?e = pcb_queues a" "ctxts ?e = ctxts a"
    using ec by (simp_all add: upd_dcb_def)
  have "queues_rel ?e (woken s p Q)"
    using a(2) pe by (subst queues_rel_cong [of ?e a]) auto
  moreover have "ioq_rel ?e d xs"
  proof -
    have "path (\<lambda>a. i_next (iocbs s a)) ?nxt xs NULL" "iocb_queue_tail (dcb_at s d) = last (x # xs)"
      using q tl(1) by (auto simp: ioq_rel_def)
    moreover have "dcb_at ?e d = dequeued x ?nxt ((dcb_at s d)\<lparr>event := False\<rparr>)" unfolding de using len by simp
    moreover have "iocbs c = iocbs s" using ec ea by simp
    ultimately show ?thesis using tl(2) by (auto simp: ioq_rel_def dequeued_def)
  qed
  moreover have "dcbs_ok ?e"
  proof -
    have "dcbs_ok ?b" using ok(1) ea by (subst upd_dcb_ok) (simp_all add: dcbs_ok_def)
    then have "dcbs_ok c" using ec by (simp add: dcbs_ok_def)
    then show ?thesis by (subst upd_dcb_ok) (simp_all add: dequeued_def)
  qed
  ultimately have E: "queues_rel ?e (woken s p Q)" "ioq_rel ?e d xs" "dcbs_ok ?e" .
  show ?thesis
  proof (cases xs)
    case Nil
    have "serial_check_io dev s = Some (1, ?e)"
      using run_io Nil by simp
    then show ?thesis using E h ram run io pe a de Nil by (intro exI [of _ ?e]) simp
  next
    case (Cons y ys)
    have y: "?nxt = y" "y \<noteq> NULL" using ioq_head [OF E(2) [unfolded Cons]] Cons by auto
    have "ring_empty (dcb_at ?e d)" using ok(5) len unfolding de by (simp add: ring_empty_def dequeued_def)
    from start_next_io [OF E(3) d this, of dev y "io_op (iocbs s x)"] obtain t where
      t: "start_next dev d y (io_op (iocbs s x)) ?e = Some t" "dev_only ?e t" "ram t = ram ?e" "iocbs t = iocbs ?e"
        "serial_dcb_list t = (serial_dcb_list ?e)[d := restarted (dcb_at ?e d)]" by blast
    note et = dev_only_eqs [OF t(2)]
    have "serial_check_io dev s = Some (1, t)"
      unfolding run_io using y t(1) by simp
    moreover have "ioq_rel t d xs" using E(2) ioq_restarted [OF t(5,4)] lc by simp
    moreover have "queues_rel t (woken s p Q)" using E(1) et by (subst queues_rel_cong [of t ?e]) auto
    moreover have "dcbs_ok t"
      using E(3) t(5) upd_dcb_ok [of restarted d ?e] by (simp add: dcbs_ok_def restarted_def upd_dcb_def)
    moreover have "serial_dcb_list t = (serial_dcb_list s)[d := restarted (dequeued x ?nxt ((dcb_at s d)\<lparr>event := False\<rparr>))]"
      using t(5) len unfolding de by simp
    ultimately show ?thesis using h ram run io pe a Cons et t(3,4) by (intro exI [of _ t]) simp
  qed
qed

lemma check_io_nothing:
  "serial_devno dev = Some d \<Longrightarrow> \<not> (dopen (dcb_at s d) \<and> event (dcb_at s d)) \<Longrightarrow> serial_check_io dev s = Some (0, s)"
  by (simp add: serial_check_io_def)

end
