(* ===== verification/Syscall.thy ===== *)
theory Syscall
  imports Serial_Complete
begin

text \<open>
  The system call handler of \<^verbatim>\<open>kernel/sys_call.c\<close>: the completion of requests on all
  devices, blocking reads and writes, yielding, termination, and the dispatching of the next
  process. Contexts are objects of the typed heap \<open>ctxts\<close> at their addresses.
\<close>

section \<open>State\<close>

record os = serial +
  context_original :: addr

definition EXIT :: u32 where "EXIT = 0"
definition IDLE :: u32 where "IDLE = 1"
definition READ :: u32 where "READ = 2"
definition WRITE :: u32 where "WRITE = 3"

lemmas op_codes = EXIT_def IDLE_def READ_def WRITE_def

definition set_eax :: "addr \<Rightarrow> u32 \<Rightarrow> 'a procs_scheme \<Rightarrow> 'a procs_scheme" where
  "set_eax c v s = s\<lparr>ctxts := (ctxts s)(c := (ctxts s c)\<lparr>c_eax := v\<rparr>)\<rparr>"

definition set_exec :: "addr \<Rightarrow> 2 word \<Rightarrow> 'a procs_scheme \<Rightarrow> 'a procs_scheme" where
  "set_exec p v s = set_p_state p ((p_state (pcbs s p))\<lparr>exec := v\<rparr>) s"

section \<open>Completion on all devices\<close>

fun check_devices :: "nat list \<Rightarrow> bool \<Rightarrow> 'a serial_scheme \<Rightarrow> (bool \<times> 'a serial_scheme) option" where
  "check_devices [] procs_ready s = Some (procs_ready, s)"
| "check_devices (i # is) procs_ready s = do {
     (r, s) \<leftarrow> serial_check_io (dcb_dev (dcb_at s i)) s;
     check_devices is (if r \<noteq> 0 then True else procs_ready) s
   }"

definition sys_check_io :: "'a serial_scheme \<Rightarrow> (bool \<times> 'a serial_scheme) option" where
  "sys_check_io s = check_devices [0, 1, 2, 3] False s"

section \<open>Dispatching\<close>

text \<open>Taking a ready process out of its queue and switching to its context.\<close>

definition switch_to :: "addr \<Rightarrow> 'a procs_scheme \<Rightarrow> addr \<times> 'a procs_scheme" where
  "switch_to runnext s =
     (let s = s\<lparr>pcb_running := runnext\<rparr>;
          s = set_exec runnext PCB_EXEC_RUNNING s
      in (pctxt (pcbs s runnext), s))"

definition run_ready :: "'a procs_scheme \<Rightarrow> (addr \<times> 'a procs_scheme) option" where
  "run_ready s = do {
     let runnext = pcb_head (pcb_queues s 0);
     (_, s) \<leftarrow> pcb_remove runnext s;
     Some (switch_to runnext s)
   }"

text \<open>
  The loop that halts until a request completes. Each element of the list is one turn: the
  number of serial interrupts that are serviced between \<^verbatim>\<open>sti\<close> and
  \<^verbatim>\<open>cli\<close>. When the list is used up the processor stays halted, so that the call
  does not return.
\<close>

fun wait_io :: "nat list \<Rightarrow> 'a serial_scheme \<Rightarrow> 'a serial_scheme option" where
  "wait_io [] s = None"
| "wait_io (k # ks) s = do {
     s \<leftarrow> interrupts k (hlt (sti s));
     (procs_ready, s) \<leftarrow> sys_check_io (cli s);
     if procs_ready then Some s else wait_io ks s
   }"

section \<open>The operations\<close>

definition sys_io :: "1 word \<Rightarrow> nat list \<Rightarrow> addr \<Rightarrow> 'a serial_scheme \<Rightarrow> (addr \<times> 'a serial_scheme) option" where
  "sys_io op ks context_in s =
     (if pcb_running s \<noteq> NULL then do {
        let c = ctxts s context_in;
        (r, s) \<leftarrow> serial_schedule_io (c_ebx c) (c_ecx c) (c_edx c) op s;
        if r \<noteq> 0 then Some (NULL, s)
        else do {
          let p = pcb_running s;
          let s = set_exec p PCB_EXEC_BLOCKED s;
          let s = set_pctxt p context_in s;
          s \<leftarrow> pcb_insert p s;
          if pcb_head (pcb_queues s 0) \<noteq> NULL then run_ready s
          else do {
            s \<leftarrow> wait_io ks (s\<lparr>pcb_running := NULL\<rparr>);
            run_ready s
          }
        }
      }
      else Some (NULL, set_eax context_in (- 1) s))"

definition sys_read :: "nat list \<Rightarrow> addr \<Rightarrow> 'a serial_scheme \<Rightarrow> (addr \<times> 'a serial_scheme) option" where
  "sys_read = sys_io IO_OP_READ"

definition sys_write :: "nat list \<Rightarrow> addr \<Rightarrow> 'a serial_scheme \<Rightarrow> (addr \<times> 'a serial_scheme) option" where
  "sys_write = sys_io IO_OP_WRITE"

definition sys_idle :: "addr \<Rightarrow> 'a os_scheme \<Rightarrow> (addr \<times> 'a os_scheme) option" where
  "sys_idle context_in s = do {
     let s = (if context_original s = NULL then s\<lparr>context_original := context_in\<rparr> else s);
     let runnext = pcb_head (pcb_queues s 0);
     if runnext \<noteq> NULL then do {
       (_, s) \<leftarrow> pcb_remove runnext s;
       let p = pcb_running s;
       s \<leftarrow> (if p \<noteq> NULL then pcb_insert p (set_exec p PCB_EXEC_READY (set_pctxt p context_in s))
             else Some s);
       Some (switch_to runnext s)
     }
     else Some (NULL, s)
   }"

definition sys_exit :: "'a os_scheme \<Rightarrow> (addr \<times> 'a os_scheme) option" where
  "sys_exit s = do {
     (_, s) \<leftarrow> pcb_free (pcb_running s) s;
     if pcb_head (pcb_queues s 0) \<noteq> NULL then run_ready s
     else if context_original s \<noteq> NULL then
       Some (context_original s, s\<lparr>pcb_running := NULL, context_original := NULL\<rparr>)
     else Some (NULL, s)
   }"

text \<open>
  \<open>ks\<close> is the environment of the waiting loop. The result is the context to switch to, or NULL
  to return to the caller's.
\<close>

definition sys_call :: "nat list \<Rightarrow> addr \<Rightarrow> 'a os_scheme \<Rightarrow> (addr \<times> 'a os_scheme) option" where
  "sys_call ks context_in s = do {
     let opc = c_eax (ctxts s context_in);
     (_, s) \<leftarrow> sys_check_io s;
     let s = set_eax context_in 0 s;
     if opc = READ then sys_read ks context_in s
     else if opc = WRITE then sys_write ks context_in s
     else if opc = IDLE then sys_idle context_in s
     else if opc = EXIT then sys_exit s
     else Some (NULL, s)
   }"

section \<open>Completion, again\<close>

lemma set_eax_simps [simp]:
  "pcbs (set_eax c v s) = pcbs s" "pcb_queues (set_eax c v s) = pcb_queues s"
  "pcb_running (set_eax c v s) = pcb_running s" "ram (set_eax c v s) = ram s"
  "c_eax (ctxts (set_eax c v s) c) = v" "queues_rel (set_eax c v s) Q = queues_rel s Q"
  by (simp_all add: set_eax_def queues_rel_def)

text \<open>No device has a finished request.\<close>

definition quiet :: "'a serial_scheme \<Rightarrow> nat \<Rightarrow> bool" where
  "quiet s d \<longleftrightarrow> \<not> (dopen (dcb_at s d) \<and> event (dcb_at s d))"

lemma check_io_quiet: "dcbs_ok s \<Longrightarrow> d < 4 \<Longrightarrow> quiet s d \<Longrightarrow> serial_check_io (dcb_dev (dcb_at s d)) s = Some (0, s)"
  using check_io_nothing [OF dcbs_ok_devno] by (simp add: quiet_def)

lemma check_devices_quiet:
  "dcbs_ok s \<Longrightarrow> \<forall>d \<in> set ds. d < 4 \<and> quiet s d \<Longrightarrow> check_devices ds r s = Some (r, s)"
  by (induction ds) (simp_all add: check_io_quiet)

lemma sys_check_io_quiet: "dcbs_ok s \<Longrightarrow> \<forall>d < 4. quiet s d \<Longrightarrow> sys_check_io s = Some (False, s)"
  unfolding sys_check_io_def by (rule check_devices_quiet) simp_all

lemma check_devices_append:
  "check_devices (ds @ es) r s = Option.bind (check_devices ds r s) (\<lambda>(r, s). check_devices es r s)"
  by (induction ds arbitrary: r s) (auto simp: bind_eq_Some_conv split: Option.bind_split)

text \<open>When one device has one, its completion is all that happens.\<close>

lemma sys_check_io_one:
  assumes ok: "dcbs_ok s" "d < 4" and others: "\<forall>e < 4. e \<noteq> d \<longrightarrow> quiet s e"
    and run: "serial_check_io (dcb_dev (dcb_at s d)) s = Some (1, t)"
    and t: "dcbs_ok t" "\<forall>e < 4. e \<noteq> d \<longrightarrow> dcb_at t e = dcb_at s e"
  shows "sys_check_io s = Some (True, t)"
proof -
  define ds es where "ds = [0 ..< d]" and "es = [Suc d ..< 4]"
  have "[0 ..< 4] = ds @ [d ..< 4]" unfolding ds_def using ok(2) upt_add_eq_append [of 0 d "4 - d"] by simp
  also have "[d ..< 4] = d # es" unfolding es_def using ok(2) by (simp add: upt_conv_Cons)
  finally have "[0, 1, 2, 3] = ds @ d # es" by (simp add: upt_rec numeral_2_eq_2 numeral_3_eq_3)
  moreover have "check_devices ds False s = Some (False, s)"
    using ok others by (intro check_devices_quiet) (auto simp: ds_def)
  moreover have "check_devices es True t = Some (True, t)"
    using t others by (intro check_devices_quiet) (auto simp: es_def quiet_def)
  ultimately show ?thesis by (simp add: sys_check_io_def check_devices_append run)
qed

end
