(* ===== verification/Proc_Start.thy ===== *)
theory Proc_Start
  imports Pcb_Claims
begin

text \<open>
  Starting a process, as every creator in the kernel does it: \<^verbatim>\<open>pcb_setup\<close>, then
  \<^verbatim>\<open>pcb_context_init\<close>, then \<^verbatim>\<open>pcb_insert\<close>, on a heap whose free space
  is one block at the end, as it is after start-up.
\<close>

section \<open>The heap\<close>

definition room_left :: "block list \<Rightarrow> nat" where
  "room_left bs = unat (fst (snd (last bs)))"

lemma a_alloc_stack:
  assumes st: "stack_like bs" and room: "unat sz + 12 < room_left bs"
  shows "stack_like (snd (a_alloc sz bs))" "room_left (snd (a_alloc sz bs)) = room_left bs - (unat sz + 12)"
    "fit_at sz bs \<noteq> None" "alloc_safe sz bs" "unat sz + 12 < 2 ^ 32"
    "fst (a_alloc sz bs) = fst (last bs) + 12" "fst (last (snd (a_alloc sz bs))) = fst (last bs) + 12 + sz"
proof -
  from st obtain P a n where bs: "bs = P @ [(a, n, True)]" and fP: "frees P = []" by (rule stack_likeE)
  have room': "unat sz + 12 < unat n" using room by (simp add: bs room_left_def)
  show small: "unat sz + 12 < 2 ^ 32" using room' u32_lt_4G [of n] by simp
  have "sz \<le> n" using room' by (simp add: word_le_nat_alt)
  then have fit: "fit_at sz bs = Some (P, a, n, [])" by (simp add: bs fit_at_no_free fP)
  let ?bs = "P @ [(a, sz, False), (a + 12 + sz, n - (sz + 12), True)]"
  have res: "a_alloc sz bs = (a + 12, ?bs)" using room' by (simp add: a_alloc_def fit)
  show "fit_at sz bs \<noteq> None" "alloc_safe sz bs" using fit room' by (simp_all add: alloc_safe_def)
  show "fst (a_alloc sz bs) = fst (last bs) + 12" "fst (last (snd (a_alloc sz bs))) = fst (last bs) + 12 + sz"
    unfolding res by (simp_all add: bs)
  show "stack_like (snd (a_alloc sz bs))" by (simp add: res stack_like_def butlast_append fP)
  have "unat (sz + 12) = unat sz + 12" using small by (simp add: unat_simps)
  then have "unat (n - (sz + 12)) = unat n - (unat sz + 12)" using room' by (simp add: unat_simps)
  then show "room_left (snd (a_alloc sz bs)) = room_left bs - (unat sz + 12)" unfolding room_left_def res by (simp add: bs)
qed

lemma sys_alloc_rel:
  assumes "heap_ok s" and "heap_rel s bs" and "stack_like bs" and "unat sz + 12 < room_left bs"
    and "sys_alloc_mem sz s = Some (p, t)"
  shows "heap_rel t (snd (a_alloc sz bs))" "heap_ok t" "heap_touch s t" "unat p + unat sz < 2 ^ 32"
    "unat p = unat (fst (last bs)) + 12" "unat (fst (last (snd (a_alloc sz bs)))) = unat p + unat sz"
proof -
  note a = a_alloc_stack [OF assms(3,4)]
  have al: "allocate_memory sz s = Some (p, t)" using assms(1,5) by (simp add: heap_ok_def sys_alloc_mem_def)
  then show r: "heap_rel t (snd (a_alloc sz bs))" using allocate_rel [OF assms(2) a(5,4)] by simp
  show "heap_touch s t" by (rule allocate_frame [OF al])
  from fns_touch [OF this] show "heap_ok t" using assms(1) r by (auto simp: heap_ok_def)
  from assms(3) obtain P b n where bs: "bs = P @ [(b, n, True)]" and fP: "frees P = []" by (rule stack_likeE)
  have n: "unat sz + 12 < unat n" using assms(4) by (simp add: bs room_left_def)
  have p: "p = b + 12" using allocate_rel [OF assms(2) a(5,4)] al a(6) by (simp add: bs)
  obtain lo hi where lh: "0 < lo" "hi < 2 ^ 32" and tl: "tiles lo bs hi" using assms(2) by (rule heap_rel_tiles)
  have le: "unat b + 12 + unat n \<le> hi" using tiles_range [OF tl, of b n True] by (simp add: bs)
  with n lh(2) show u: "unat p + unat sz < 2 ^ 32" unfolding p by (simp add: unat_simps)
  show "unat p = unat (fst (last bs)) + 12" unfolding p using le n lh(2) by (simp add: bs unat_simps)
  show "unat (fst (last (snd (a_alloc sz bs)))) = unat p + unat sz" using u unfolding a(7) p by (simp add: bs unat_simps)
qed

section \<open>What changes\<close>

text \<open>Only heap blocks, PCBs, queues, contexts and stacks are touched.\<close>

definition start_only :: "'a procs_scheme \<Rightarrow> 'a procs_scheme \<Rightarrow> bool" where
  "start_only s t \<longleftrightarrow> t = s\<lparr>mcbs := mcbs t, free_head := free_head t, alloc_head := alloc_head t,
     pcbs := pcbs t, pcb_queues := pcb_queues t, ctxts := ctxts t, ram := ram t\<rparr>"

lemma start_only_trans: "start_only s t \<Longrightarrow> start_only t u \<Longrightarrow> start_only s u"
  by (cases s; cases t; cases u) (simp add: start_only_def)

lemma touch_start: "heap_touch s t \<Longrightarrow> start_only s t"
  by (cases s; cases t) (simp add: start_only_def heap_touch_def)

lemma links_start: "links_only s t \<Longrightarrow> start_only s t"
  by (cases s; cases t) (simp add: start_only_def links_only_def)

lemma start_only_upd [simp]:
  "start_only s (s\<lparr>pcbs := h\<rparr>)" "start_only s (s\<lparr>pcbs := h, ctxts := c\<rparr>)" "start_only s (s\<lparr>pcbs := h, ram := m\<rparr>)"
  "start_only s (s\<lparr>pcbs := h, ram := m, ctxts := c\<rparr>)"
  by (simp_all add: start_only_def)

lemma start_only_eqs:
  "start_only s t \<Longrightarrow> pcb_running t = pcb_running s \<and> m_env t = m_env s \<and> m_count t = m_count s \<and>
     m_trace t = m_trace s \<and> malloc_function t = malloc_function s \<and> free_function t = free_function s"
  by (cases s; cases t) (simp add: start_only_def)

lemma pcb_setup_inv:
  assumes "pcb_setup nm cl pr s = Some (p, t)" and "p \<noteq> NULL"
  shows "\<exists>u q v r m. sys_alloc_mem SZ_PCB s = Some (p, u) \<and> sys_alloc_mem MPX_PCB_STACK_SZ u = Some (q, v) \<and>
    t = v\<lparr>pcbs := (pcbs v)(p := r), ram := m\<rparr> \<and> pstackseg r = q \<and> m = store_bytes q (replicate 4096 0) (ram v)"
proof -
  obtain u nm' st c where u: "pcb_allocate s = Some (p, u)"
    and t: "t = u\<lparr>pcbs := (pcbs u)(p := (pcbs u p)\<lparr>p_next := NULL, p_name := nm', p_state := st, pctxt := c\<rparr>)\<rparr>"
    using assms by (auto simp: pcb_setup_def bind_eq_Some_conv Let_def split: if_splits)
  obtain a q b m where b: "sys_alloc_mem SZ_PCB s = Some (p, a)" "sys_alloc_mem MPX_PCB_STACK_SZ a = Some (q, b)"
    "u = b\<lparr>pcbs := (pcbs b)(p := (pcbs b p)\<lparr>pstackseg := q\<rparr>), ram := m\<rparr>" "m = store_bytes q (replicate 4096 0) (ram b)"
    using u assms(2) by (auto simp: pcb_allocate_def bind_eq_Some_conv Let_def split: if_splits)
  let ?r = "(pcbs u p)\<lparr>p_next := NULL, p_name := nm', p_state := st, pctxt := c\<rparr>"
  have "t = b\<lparr>pcbs := (pcbs b)(p := ?r), ram := m\<rparr>" "pstackseg ?r = q" by (simp_all add: t b(3))
  with b(1,2,4) show ?thesis by blast
qed

section \<open>Starting a process\<close>

text \<open>
  A process that has not run yet: active and ready, with a context that starts its function
  on an empty stack, the return address of the function 64 bytes above the context.
\<close>

definition started_at :: "u32 \<Rightarrow> 'a procs_scheme \<Rightarrow> addr \<Rightarrow> u8 list \<Rightarrow> u32 \<Rightarrow> u8 \<Rightarrow> u32 \<Rightarrow> bool" where
  "started_at off s p nm cl pr func \<longleftrightarrow> pname (pcbs s) p = nm \<and>
     p_state (pcbs s p) = \<lparr>exec = PCB_EXEC_READY, dpatch = PCB_DPATCH_ACTIVE, cls = ucast cl, pri = ucast pr\<rparr> \<and>
     pstackseg (pcbs s p) \<in> live_ptrs s \<and> pctxt (pcbs s p) = pstackseg (pcbs s p) + off \<and>
     pctxt (pcbs s p) \<noteq> NULL \<and>
     c_eip (ctxts s (pctxt (pcbs s p))) = func \<and> c_esp (ctxts s (pctxt (pcbs s p))) = pctxt (pcbs s p) + 64"

abbreviation started :: "'a procs_scheme \<Rightarrow> addr \<Rightarrow> u8 list \<Rightarrow> u32 \<Rightarrow> u8 \<Rightarrow> u32 \<Rightarrow> bool" where
  "started \<equiv> started_at 4027"

lemmas started_def = started_at_def

text \<open>
  The processes of \<open>P\<close> have their own live heap blocks: one for the control block, one for the stack.
\<close>

definition own_memory :: "'a procs_scheme \<Rightarrow> addr set \<Rightarrow> bool" where
  "own_memory s P \<longleftrightarrow> inj_on (\<lambda>p. pstackseg (pcbs s p)) P \<and> P \<inter> (\<lambda>p. pstackseg (pcbs s p)) ` P = {} \<and>
     P \<union> (\<lambda>p. pstackseg (pcbs s p)) ` P \<subseteq> live_ptrs s"

lemma own_memory_new:
  assumes "own_memory s P" and "p \<notin> live_ptrs s" "q \<notin> live_ptrs s" "p \<noteq> q"
    and "live_ptrs t = insert q (insert p (live_ptrs s))" and "pstackseg (pcbs t p) = q"
    and "\<forall>x. x \<noteq> p \<longrightarrow> pstackseg (pcbs t x) = pstackseg (pcbs s x)"
  shows "own_memory t (insert p P)"
proof -
  have P: "P \<subseteq> live_ptrs s" "(\<lambda>p. pstackseg (pcbs s p)) ` P \<subseteq> live_ptrs s" using assms(1) by (auto simp: own_memory_def)
  then have pP: "p \<notin> P" using assms(2) by blast
  then have img: "(\<lambda>p. pstackseg (pcbs t p)) ` P = (\<lambda>p. pstackseg (pcbs s p)) ` P"
    using assms(7) by (intro image_cong) auto
  have "inj_on (\<lambda>p. pstackseg (pcbs t p)) P"
    using assms(1,7) pP by (subst inj_on_cong [of _ _ "\<lambda>p. pstackseg (pcbs s p)"]) (auto simp: own_memory_def)
  moreover have "q \<notin> (\<lambda>p. pstackseg (pcbs s p)) ` P" "q \<notin> P" "p \<notin> (\<lambda>p. pstackseg (pcbs s p)) ` P"
    using P assms(2,3) by blast+
  ultimately show ?thesis
    using assms(1,4) P pP unfolding own_memory_def assms(5) by (simp add: img assms(6)) blast
qed

text \<open>
  Writing the initial context: below the top of the stack, with the stack pointer 64 bytes
  above it, and with \<open>put\<close> as the change of the memory.
\<close>

definition context_written ::
  "u32 \<Rightarrow> (addr \<Rightarrow> (addr \<Rightarrow> u8) \<Rightarrow> addr \<Rightarrow> u8) \<Rightarrow> addr \<Rightarrow> addr \<Rightarrow> u32 \<Rightarrow> 'a procs_scheme \<Rightarrow> 'a procs_scheme \<Rightarrow> bool" where
  "context_written off put stack p func s t \<longleftrightarrow> start_only s t \<and>
    pcbs t = (pcbs s)(p := (pcbs s p)\<lparr>pctxt := stack + off\<rparr>) \<and> pcb_queues t = pcb_queues s \<and>
    mcbs t = mcbs s \<and> free_head t = free_head s \<and> alloc_head t = alloc_head s \<and> heap_isinit t = heap_isinit s \<and>
    ctxts t = (ctxts s)(stack + off := ctxts t (stack + off)) \<and> c_eip (ctxts t (stack + off)) = func \<and>
    c_esp (ctxts t (stack + off)) = stack + off + 64 \<and> ram t = put stack (ram s)"

lemma context_init_none:
  assumes "p \<noteq> NULL" and "pctxt (pcbs s p) = stack + 4095"
  shows "\<exists>t. pcb_context_init p func None 0 s = Some t \<and> context_written 4027 (\<lambda>q m. m) stack p func s t"
  using assms
  by (simp add: context_written_def pcb_context_init_def set_pctxt_def Let_def SZ_CONTEXT_def algebra_simps start_only_def)

lemma context_init_args:
  assumes "p \<noteq> NULL" and "pctxt (pcbs s p) = stack + 4095" and "length args \<le> 32"
  shows "\<exists>t. pcb_context_init p func (Some args) (length args) s = Some t \<and>
    context_written (4028 - of_nat (length args)) (\<lambda>q. store_bytes (q + 4096 - of_nat (length args)) args) stack p func s t"
  using assms
  by (simp add: context_written_def pcb_context_init_def set_pctxt_def Let_def SZ_CONTEXT_def algebra_simps start_only_def)

text \<open>
  The result of the three calls: one more such process, in the ready queue behind those of
  its priority. The others are as before.
\<close>

lemma start_process_with:
  assumes init: "\<And>p t stack. p \<noteq> NULL \<Longrightarrow> pctxt (pcbs t p) = stack + 4095 \<Longrightarrow>
      \<exists>u. init p t = Some u \<and> context_written off put stack p func t u" and off: "unat off < 4096"
    and ok: "procs_ok s Q" and hr: "heap_rel s bs" "stack_like bs" "4300 < room_left bs"
    and nm: "0 \<in> set nm" "length (cchars nm) < 64" "\<forall>x \<in> set (all_queued Q). pname (pcbs s) x \<noteq> cchars nm"
    and cp: "cl = PCB_CLASS_USER \<or> cl = PCB_CLASS_SYSTEM" "pr \<le> 9"
  shows "\<exists>p t u v bs'. pcb_setup nm cl pr s = Some (p, t) \<and> init p t = Some u \<and>
    pcb_insert p u = Some v \<and> procs_ok v (placed v p Q) \<and> heap_rel v bs' \<and> stack_like bs' \<and>
    room_left bs' = room_left bs - 4200 \<and> start_only s v \<and> p \<noteq> NULL \<and> p \<notin> live_ptrs s \<and>
    started_at off v p (cchars nm) cl pr func \<and>
    (\<forall>x \<in> set (all_queued Q). p_state (pcbs v x) = p_state (pcbs s x) \<and> pname (pcbs v) x = pname (pcbs s) x \<and>
       (\<forall>nm' cl' pr' f. started_at off s x nm' cl' pr' f \<longrightarrow> started_at off v x nm' cl' pr' f)) \<and>
    live_ptrs v = insert (pstackseg (pcbs v p)) (insert p (live_ptrs s)) \<and>
    ram v = put (pstackseg (pcbs v p)) (store_bytes (pstackseg (pcbs v p)) (replicate 4096 0) (ram s)) \<and>
    unat (fst (last bs)) < unat (pstackseg (pcbs v p)) \<and> unat (pstackseg (pcbs v p)) + 4096 < 2 ^ 32 \<and>
    (\<forall>P. own_memory s P \<longrightarrow> own_memory v (insert p P))"
proof -
  have hk: "heap_ok s" using ok by (simp add: procs_ok_def)
  have r1: "unat SZ_PCB + 12 < room_left bs" using hr(3) by (simp add: SZ_PCB_def)
  note a1 = a_alloc_stack [OF hr(2) r1]
  let ?b1 = "snd (a_alloc SZ_PCB bs)"
  have r2: "unat MPX_PCB_STACK_SZ + 12 < room_left ?b1" using hr(3) a1(2) by (simp add: SZ_PCB_def)
  note a2 = a_alloc_stack [OF a1(1) r2]
  let ?b2 = "snd (a_alloc MPX_PCB_STACK_SZ ?b1)"
  have room: "heap_room2 SZ_PCB MPX_PCB_STACK_SZ s"
    unfolding heap_room2_def using hr(1) a1(3-5) a2(3-5) by blast
  obtain p t where t: "pcb_setup nm cl pr s = Some (p, t)" "procs_ok t Q" "loose t Q p"
    "p \<notin> live_ptrs s" "pstackseg (pcbs t p) \<notin> live_ptrs s" "live_ptrs t = insert (pstackseg (pcbs t p)) (insert p (live_ptrs s))"
    "pname (pcbs t) p = cchars nm" "0 \<in> set (p_name (pcbs t p))"
    "p_state (pcbs t p) = \<lparr>exec = PCB_EXEC_READY, dpatch = PCB_DPATCH_ACTIVE, cls = ucast cl, pri = ucast pr\<rparr>"
    "pctxt (pcbs t p) = pstackseg (pcbs t p) + 4095"
    "\<forall>x \<in> set (all_queued Q). pname (pcbs t) x = pname (pcbs s) x" "p \<noteq> pstackseg (pcbs t p)"
    using pcb_setup_ok [OF ok room nm cp] by blast
  have pn: "p \<noteq> NULL" and pQ: "p \<notin> set (all_queued Q)" using t(3) by (auto simp: loose_def set_all_queued)
  obtain a q v r m where v: "sys_alloc_mem SZ_PCB s = Some (p, a)" "sys_alloc_mem MPX_PCB_STACK_SZ a = Some (q, v)"
    "t = v\<lparr>pcbs := (pcbs v)(p := r), ram := m\<rparr>" "pstackseg r = q" "m = store_bytes q (replicate 4096 0) (ram v)"
    using pcb_setup_inv [OF t(1) pn] by blast
  note al1 = sys_alloc_rel [OF hk hr(1,2) r1 v(1)]
  note al2 = sys_alloc_rel [OF al1(2,1) a1(1) r2 v(2)]
  have stk: "pstackseg (pcbs t p) = q" using v(3,4) by simp
  have "unat (q + off) = unat q + unat off" using al2(4) off by (simp add: unat_simps)
  then have cn: "pstackseg (pcbs t p) + off \<noteq> NULL" using al2(5) unfolding stk by (metis add_is_0 unat_0 zero_neq_numeral)
  have ht: "heap_rel t ?b2" using al2(1) by (simp add: v(3))
  have st: "start_only s t"
    using start_only_trans [OF start_only_trans [OF touch_start [OF al1(3)] touch_start [OF al2(3)]]]
    unfolding v(3) by simp
  let ?c = "pstackseg (pcbs t p) + off"
  obtain u where u: "init p t = Some u" "start_only t u"
    "pcbs u = (pcbs t)(p := (pcbs t p)\<lparr>pctxt := ?c\<rparr>)" "pcb_queues u = pcb_queues t"
    "mcbs u = mcbs t" "free_head u = free_head t" "alloc_head u = alloc_head t" "heap_isinit u = heap_isinit t"
    "ctxts u = (ctxts t)(?c := ctxts u ?c)" "c_eip (ctxts u ?c) = func" "c_esp (ctxts u ?c) = ?c + 64"
    "ram u = put (pstackseg (pcbs t p)) (ram t)"
    using init [OF pn t(10)] unfolding context_written_def by blast
  have heap: "heap_rel u b = heap_rel t b" "live_ptrs u = live_ptrs t" "heap_ok u = heap_ok t" for b
    using u(5-8) start_only_eqs [OF u(2)] by (simp_all add: heap_rel_def live_ptrs_def heap_ok_def)
  have qs: "queues_rel u Q \<longleftrightarrow> queues_rel t Q"
    using pQ u(3,4) by (intro queues_rel_cong) auto
  have names: "p_name (pcbs u x) = p_name (pcbs t x)" for x by (simp add: u(3))
  have "procs_ok u Q"
    using t(2) by (simp add: procs_ok_def qs named_iff heap names)
  moreover have "loose u Q p" using t(3) by (simp add: loose_def u(3))
  moreover have "p \<in> live_ptrs u" using t(6) by (simp add: heap)
  moreover have "0 \<in> set (p_name (pcbs u p))" using t(8) names by simp
  moreover have "\<forall>x \<in> set (all_queued Q). pname (pcbs u) x \<noteq> pname (pcbs u) p"
    using t(7,11) nm(3) names by simp
  ultimately obtain w where w: "pcb_insert p u = Some w" "procs_ok w (placed u p Q)" "links_only u w"
    using pcb_insert_ok [of u Q p] by blast
  note fr = links_only_frame [OF w(3)] links_only_state [OF w(3)]
  have pu: "pcbs u p = (pcbs t p)\<lparr>pctxt := ?c\<rparr>" by (simp add: u(3))
  have "pcbs v = pcbs s" "ctxts v = ctxts s" using touch_procs [OF al1(3)] touch_procs [OF al2(3)] by simp_all
  then have other: "pcbs u x = pcbs s x" "ctxts t = ctxts s" if "x \<in> set (all_queued Q)" for x
    using that pQ by (auto simp: u(3) v(3))
  have cs: "ctxts t = ctxts s" using \<open>ctxts v = ctxts s\<close> by (simp add: v(3))
  have cw: "ctxts w = ctxts u" using w(3) by (cases u; cases w) (simp add: links_only_def)
  have live: "live_ptrs u = insert (pstackseg (pcbs t p)) (insert p (live_ptrs s))" using t(6) by (simp add: heap)
  have new: "started_at off w p (cchars nm) cl pr func"
    using t(7,9) u(10,11) cn by (simp add: started_at_def fr pu cw live)
  have old: "\<forall>x \<in> set (all_queued Q). p_state (pcbs w x) = p_state (pcbs s x) \<and> pname (pcbs w) x = pname (pcbs s) x \<and>
       (\<forall>nm' cl' pr' f. started_at off s x nm' cl' pr' f \<longrightarrow> started_at off w x nm' cl' pr' f)"
  proof (intro ballI conjI allI impI)
    fix x
    assume x: "x \<in> set (all_queued Q)"
    note ox = other [OF x]
    show "p_state (pcbs w x) = p_state (pcbs s x)" "pname (pcbs w) x = pname (pcbs s) x" using ox by (simp_all add: fr)
    fix nm' cl' pr' f
    assume st: "started_at off s x nm' cl' pr' f"
    then have "pctxt (pcbs s x) \<noteq> ?c" using t(5) by (auto simp: started_def)
    then have "ctxts w (pctxt (pcbs s x)) = ctxts s (pctxt (pcbs s x))"
      using u(9) cs unfolding cw by (metis fun_upd_other)
    with st ox show "started_at off w x nm' cl' pr' f" by (auto simp: started_def fr live)
  qed
  have "placed u p Q = placed w p Q"
    by (simp add: placed_def place_def fr links_only_state [OF w(3)])
  moreover have "heap_rel w ?b2" using ht links_only_heap [OF w(3)] heap by simp
  moreover have "room_left ?b2 = room_left bs - 4200" using a1(2) a2(2) by (simp add: SZ_PCB_def)
  moreover have "start_only s w" using start_only_trans [OF start_only_trans [OF st u(2)] links_start [OF w(3)]] .
  moreover have "ram w = put (pstackseg (pcbs w p)) (store_bytes (pstackseg (pcbs w p)) (replicate 4096 0) (ram s))"
  proof -
    have "ram w = ram u" using w(3) by (cases u; cases w) (simp add: links_only_def)
    moreover have "ram v = ram s" using al1(3) al2(3) by (cases s; cases a; cases v) (simp add: heap_touch_def)
    ultimately show ?thesis using u(12) v(3,5) stk by (simp add: fr pu)
  qed
  moreover have "live_ptrs w = insert (pstackseg (pcbs w p)) (insert p (live_ptrs s))" using live by (simp add: fr pu)
  moreover have "unat (fst (last bs)) < unat (pstackseg (pcbs w p))" "unat (pstackseg (pcbs w p)) + 4096 < 2 ^ 32"
    using al1(5,6) al2(4,5) stk by (simp_all add: fr pu)
  moreover have "\<forall>P. own_memory s P \<longrightarrow> own_memory w (insert p P)"
  proof (intro allI impI)
    fix P
    assume P: "own_memory s P"
    have "pstackseg (pcbs w x) = pstackseg (pcbs s x)" if "x \<noteq> p" for x
      using that \<open>pcbs v = pcbs s\<close> by (simp add: fr u(3) v(3))
    then have "\<forall>x. x \<noteq> p \<longrightarrow> pstackseg (pcbs w x) = pstackseg (pcbs s x)" by blast
    moreover have "live_ptrs w = insert (pstackseg (pcbs t p)) (insert p (live_ptrs s))"
      "pstackseg (pcbs w p) = pstackseg (pcbs t p)" using live by (simp_all add: fr pu)
    ultimately show "own_memory w (insert p P)" using own_memory_new [OF P t(4,5,12)] by blast
  qed
  ultimately show ?thesis
    using t(1,4) u(1) w(1,2) a2(1) pn old new by metis
qed

lemma start_process:
  assumes ok: "procs_ok s Q" and hr: "heap_rel s bs" "stack_like bs" "4300 < room_left bs"
    and nm: "0 \<in> set nm" "length (cchars nm) < 64" "\<forall>x \<in> set (all_queued Q). pname (pcbs s) x \<noteq> cchars nm"
    and cp: "cl = PCB_CLASS_USER \<or> cl = PCB_CLASS_SYSTEM" "pr \<le> 9"
  shows "\<exists>p t u v bs'. pcb_setup nm cl pr s = Some (p, t) \<and> pcb_context_init p func None 0 t = Some u \<and>
    pcb_insert p u = Some v \<and> procs_ok v (placed v p Q) \<and> heap_rel v bs' \<and> stack_like bs' \<and>
    room_left bs' = room_left bs - 4200 \<and> start_only s v \<and> p \<noteq> NULL \<and> p \<notin> live_ptrs s \<and>
    started v p (cchars nm) cl pr func \<and>
    (\<forall>x \<in> set (all_queued Q). p_state (pcbs v x) = p_state (pcbs s x) \<and> pname (pcbs v) x = pname (pcbs s) x \<and>
       (\<forall>nm' cl' pr' f. started s x nm' cl' pr' f \<longrightarrow> started v x nm' cl' pr' f)) \<and>
    (\<forall>P. own_memory s P \<longrightarrow> own_memory v (insert p P))"
  using start_process_with [where init = "\<lambda>p. pcb_context_init p func None 0" and off = 4027 and put = "\<lambda>q m. m",
      OF context_init_none _ assms] by simp blast

end
