(* ===== verification/Console.thy ===== *)
theory Console
  imports Pcb_Props
begin

text \<open>
  A process at its terminal: the system requests of \<^verbatim>\<open>kernel/syscalls.c\<close>, the
  helpers of \<^verbatim>\<open>kernel/term_util.c\<close> and \<^verbatim>\<open>bufhelpers.h\<close>,
  and the input line of the command handler (\<^verbatim>\<open>kernel/comhand.c\<close>).

  The state is seen from the process. \<open>con_in\<close> lists the outcomes of its future READ
  requests, each the returned value with the bytes stored in the buffer; a READ that
  never completes is the end of the list, so that it yields \<open>None\<close>. \<open>con_out\<close> is what
  the process has handed to WRITE requests, in order. During every request other
  processes may run; what they do to the state is the parameter \<open>env\<close>.
\<close>

section \<open>State\<close>

record con = procs +
  con_in :: "(int \<times> u8 list) list"
  con_out :: "u8 list"
  user_input :: "u8 list"
  user_input_len :: int

type_synonym 'a others = "'a con_scheme \<Rightarrow> 'a con_scheme"

text \<open>How a process comes back from a function: by a \<^verbatim>\<open>return\<close>, or not at all because it has exited.\<close>

datatype outcome = Returned int | Exited

section \<open>Requests\<close>

definition con_write :: "'a others \<Rightarrow> u8 list \<Rightarrow> nat \<Rightarrow> 'a con_scheme \<Rightarrow> 'a con_scheme option" where
  "con_write env buffer_in buffer_in_sz s = do {
     ensure (buffer_in_sz \<le> length buffer_in);
     Some (env (s\<lparr>con_out := con_out s @ take buffer_in_sz buffer_in\<rparr>))
   }"

definition con_read ::
  "'a others \<Rightarrow> u8 list \<Rightarrow> nat \<Rightarrow> 'a con_scheme \<Rightarrow> (int \<times> u8 list \<times> 'a con_scheme) option" where
  "con_read env buffer_inout buffer_inout_sz s =
     (case con_in s of
        [] \<Rightarrow> None
      | (r, bs) # rest \<Rightarrow> do {
          ensure (length bs \<le> buffer_inout_sz \<and> buffer_inout_sz \<le> length buffer_inout);
          Some (r, bs @ drop (length bs) buffer_inout, env (s\<lparr>con_in := rest\<rparr>))
        })"

definition idle :: "'a others \<Rightarrow> 'a con_scheme \<Rightarrow> 'a con_scheme" where
  "idle env s = env s"

definition exitret :: "'a con_scheme \<Rightarrow> outcome \<times> 'a con_scheme" where
  "exitret s = (Exited, s)"

section \<open>Writing strings\<close>

text \<open>\<^verbatim>\<open>STR_BUF\<close> of a literal or a constant array, \<^verbatim>\<open>DSTR_BUF\<close> of a pointer.\<close>

definition put :: "'a others \<Rightarrow> u8 list \<Rightarrow> 'a con_scheme \<Rightarrow> 'a con_scheme option" where
  "put env str s = con_write env str (length str - 1) s"

definition dput :: "'a others \<Rightarrow> u8 list \<Rightarrow> 'a con_scheme \<Rightarrow> 'a con_scheme option" where
  "dput env str s = do { n \<leftarrow> strlen str; con_write env str n s }"

definition crlf :: "u8 list" where
  "crlf = [0x0D, 0x0A]"

text \<open>A literal that ends a line: the characters, CR, LF and the terminator.\<close>

definition line :: "string \<Rightarrow> u8 list" where
  "line t = bytes t @ crlf @ [0]"

datatype Color = Reset | Yellow | White | Red | Purple | Blue

fun color_no :: "Color \<Rightarrow> nat" where
  "color_no Reset = 0"
| "color_no Yellow = 1"
| "color_no White = 2"
| "color_no Red = 3"
| "color_no Purple = 4"
| "color_no Blue = 5"

definition serial_text_colors :: "u8 list list" where
  "serial_text_colors =
     [0x1B # cstr ''[0m'', 0x1B # cstr ''[0;33m'', 0x1B # cstr ''[0;37m'', 0x1B # cstr ''[0;31m'',
      0x1B # cstr ''[0;36m'', 0x1B # cstr ''[0;34m'']"

definition setTerminalColor :: "'a others \<Rightarrow> Color \<Rightarrow> 'a con_scheme \<Rightarrow> 'a con_scheme option" where
  "setTerminalColor env color s = do {
     c \<leftarrow> rd serial_text_colors (color_no color);
     put env c s
   }"

fun intParsable_from :: "nat \<Rightarrow> nat \<Rightarrow> u8 list \<Rightarrow> bool option" where
  "intParsable_from 0 i string = Some True"
| "intParsable_from (Suc k) i string = do {
     c \<leftarrow> rd string i;
     if c > 0x39 \<or> c < 0x30 then Some False else intParsable_from k (Suc i) string
   }"

definition intParsable :: "u8 list \<Rightarrow> nat \<Rightarrow> bool option" where
  "intParsable string sz = intParsable_from sz 0 string"

section \<open>The input line\<close>

definition USER_INPUT_SZ :: nat where "USER_INPUT_SZ = 128"

definition user_input_clear :: "'a con_scheme \<Rightarrow> 'a con_scheme option" where
  "user_input_clear s = do {
     ensure (0 \<le> user_input_len s);
     ui \<leftarrow> memset (user_input s) 0 (nat (user_input_len s));
     Some (s\<lparr>user_input := ui\<rparr>)
   }"

definition user_input_promptread :: "'a others \<Rightarrow> 'a con_scheme \<Rightarrow> 'a con_scheme option" where
  "user_input_promptread env s = do {
     (r, ui, s) \<leftarrow> con_read env (user_input s) USER_INPUT_SZ s;
     let s = s\<lparr>user_input_len := r - 1\<rparr>;
     ensure (0 \<le> user_input_len s);
     ui \<leftarrow> wr ui (nat (user_input_len s)) 0;
     let s = s\<lparr>user_input := ui\<rparr>;
     put env (line '''') s
   }"

section \<open>Facts\<close>

lemma bytes_Nil [simp]: "bytes [] = []"
  by (simp add: bytes_def)

text \<open>What the process writes, and what others leave alone.\<close>

definition emit :: "u8 list \<Rightarrow> 'a con_scheme \<Rightarrow> 'a con_scheme" where
  "emit bs s = s\<lparr>con_out := con_out s @ bs\<rparr>"

lemma put_eq [simp]: "put env (bs @ [0]) s = Some (env (emit bs s))"
  by (simp add: put_def con_write_def emit_def)

lemma con_write_all [simp]: "con_write env bs (length bs) s = Some (env (emit bs s))"
  by (simp add: con_write_def emit_def)

lemma put_cstr [simp]: "put env (cstr t) s = Some (env (emit (bytes t) s))"
  by (simp add: cstr_def)

lemma put_line [simp]: "put env (line t) s = Some (env (emit (bytes t @ crlf) s))"
  using put_eq [of env "bytes t @ crlf" s] by (simp add: line_def del: put_eq)

lemma dput_eq: "0 \<in> set str \<Longrightarrow> dput env str s = Some (env (emit (cchars str) s))"
  using takeWhile_eq_take [of "\<lambda>c. c \<noteq> 0" str]
  by (simp add: dput_def con_write_def emit_def strlen_eq cchars_def length_takeWhile_le)

definition color_bytes :: "Color \<Rightarrow> u8 list" where
  "color_bytes c = butlast (serial_text_colors ! color_no c)"

lemma setTerminalColor_eq [simp]:
  "setTerminalColor env c s = Some (env (emit (color_bytes c) s))"
proof -
  have "serial_text_colors ! color_no c = color_bytes c @ [0]" "color_no c < length serial_text_colors"
    by (cases c; simp add: serial_text_colors_def cstr_def color_bytes_def)+
  then show ?thesis by (simp only: setTerminalColor_def rd_in bind.bind_lunit put_eq)
qed

definition digit :: "u8 \<Rightarrow> bool" where
  "digit c = (0x30 \<le> c \<and> c \<le> 0x39)"

lemma intParsable_eq:
  assumes "n \<le> length str"
  shows "intParsable str n = Some (\<forall>c \<in> set (take n str). digit c)"
proof -
  have "intParsable_from k i str = Some (\<forall>c \<in> set (take k (drop i str)). digit c)"
    if "i + k \<le> length str" for i k
    using that
  proof (induction k i str rule: intParsable_from.induct)
    case (2 k i str)
    then have "take (Suc k) (drop i str) = str ! i # take k (drop (Suc i) str)"
      by (simp add: Cons_nth_drop_Suc [symmetric])
    with 2 show ?case by (auto simp: digit_def not_le)
  qed simp
  from this [of 0 n] assms show ?thesis by (simp add: intParsable_def)
qed

text \<open>
  An answer is the bytes of a READ that completed: at most 128, the last one the carriage
  return (or the last byte of the full buffer), which the handler cuts off.
\<close>

definition answered :: "u8 list \<Rightarrow> int \<times> u8 list" where
  "answered ts = (int (length ts) + 1, ts @ [0x0D])"

text \<open>The variables of the handler while it is at the prompt: a buffer of zeros.\<close>

definition at_prompt :: "'a con_scheme \<Rightarrow> bool" where
  "at_prompt s = (user_input s = replicate USER_INPUT_SZ 0)"

text \<open>Other processes use neither the console nor the variables of this one.\<close>

definition bystanders :: "'a others \<Rightarrow> bool" where
  "bystanders env =
     (\<forall>s. con_in (env s) = con_in s \<and> con_out (env s) = con_out s \<and>
          user_input (env s) = user_input s \<and> user_input_len (env s) = user_input_len s)"

lemma bystandersD [simp]:
  assumes "bystanders env"
  shows "con_in (env s) = con_in s" "con_out (env s) = con_out s"
    "user_input (env s) = user_input s" "user_input_len (env s) = user_input_len s"
  using assms by (simp_all add: bystanders_def)

lemma bystanders_id [simp]: "bystanders id" "bystanders (\<lambda>s. s)"
  by (simp_all add: bystanders_def)

lemma emit_simps [simp]:
  "con_in (emit bs s) = con_in s" "con_out (emit bs s) = con_out s @ bs"
  "user_input (emit bs s) = user_input s" "user_input_len (emit bs s) = user_input_len s"
  by (simp_all add: emit_def)


section \<open>The kernel behind the console\<close>

text \<open>Two states with the same processes and the same heap.\<close>

definition kernel_same :: "'a procs_scheme \<Rightarrow> 'a procs_scheme \<Rightarrow> bool" where
  "kernel_same s t \<longleftrightarrow>
     pcbs t = pcbs s \<and> pcb_queues t = pcb_queues s \<and> pcb_running t = pcb_running s \<and>
     ctxts t = ctxts s \<and> ram t = ram s \<and> mcbs t = mcbs s \<and> free_head t = free_head s \<and>
     alloc_head t = alloc_head s \<and> heap_isinit t = heap_isinit s \<and>
     malloc_function t = malloc_function s \<and> free_function t = free_function s"

lemma kernel_same_trans: "kernel_same s t \<Longrightarrow> kernel_same t u \<Longrightarrow> kernel_same s u"
  by (simp add: kernel_same_def)

lemma kernel_same_refl [simp]: "kernel_same s s"
  by (simp add: kernel_same_def)

lemma kernel_same_upd [simp]:
  "kernel_same s (s\<lparr>m_trace := es\<rparr>)" "kernel_same s (s\<lparr>m_count := n\<rparr>)"
  by (simp_all add: kernel_same_def)

lemma kernel_same_con [simp]:
  "kernel_same s (emit bs t) = kernel_same s t" "kernel_same s (t\<lparr>con_in := i\<rparr>) = kernel_same s t"
  "kernel_same s (t\<lparr>user_input := u\<rparr>) = kernel_same s t"
  "kernel_same s (t\<lparr>user_input_len := l\<rparr>) = kernel_same s t"
  by (simp_all add: kernel_same_def emit_def)

text \<open>Other processes stay away from the console and from the kernel's data.\<close>

definition quiescent :: "'a others \<Rightarrow> bool" where
  "quiescent env \<longleftrightarrow> bystanders env \<and> (\<forall>s. kernel_same s (env s))"

lemma quiescent_id [simp]: "quiescent id" "quiescent (\<lambda>s. s)"
  by (simp_all add: quiescent_def)

lemma quiescent_bystanders [simp]: "quiescent env \<Longrightarrow> bystanders env"
  by (simp add: quiescent_def)

lemma quiescent_same: "quiescent env \<Longrightarrow> kernel_same s (env t) = kernel_same s t"
proof -
  assume "quiescent env"
  then have "kernel_same t (env t)" by (simp add: quiescent_def)
  then show ?thesis by (simp add: kernel_same_def)
qed

lemma quiescent_emit [simp]: "quiescent env \<Longrightarrow> kernel_same s (env (emit bs t)) = kernel_same s t"
  by (simp add: quiescent_same)

lemma kernel_same_heap:
  assumes "kernel_same s t"
  shows "heap_rel t bs = heap_rel s bs" "heap_ok t = heap_ok s" "live_ptrs t = live_ptrs s"
    "heap_releasable p t = heap_releasable p s" "heap_room n t = heap_room n s"
    "heap_releasable2 p q t = heap_releasable2 p q s"
  using assms
  by (simp_all add: kernel_same_def heap_rel_def heap_ok_def live_ptrs_def heap_releasable_def
      heap_releasable2_def heap_room_def)

lemma kernel_same_procs:
  assumes "kernel_same s t"
  shows "queues_rel t Q = queues_rel s Q" "named t Q = named s Q" "procs_ok t Q = procs_ok s Q"
    "pcb_find nm t = pcb_find nm s"
proof -
  have e: "pcbs t = pcbs s" "pcb_queues t = pcb_queues s" using assms by (simp_all add: kernel_same_def)
  show q: "queues_rel t Q = queues_rel s Q" and n: "named t Q = named s Q"
    by (simp_all add: queues_rel_def named_def e)
  show "procs_ok t Q = procs_ok s Q"
    by (simp add: procs_ok_def q n e kernel_same_heap [OF assms])
  have "find_queues t nm is = find_queues s nm is" for "is"
    by (induction "is") (simp_all add: e cong: if_cong)
  then show "pcb_find nm t = pcb_find nm s" by (simp only: pcb_find_def)
qed

lemma touch_con:
  "heap_touch s t \<Longrightarrow> con_in t = con_in s \<and> con_out t = con_out s \<and>
     user_input t = user_input s \<and> user_input_len t = user_input_len s"
  by (cases s; cases t) (simp add: heap_touch_def)

end
