(* ===== verification/Load_R3.thy ===== *)
theory Load_R3
  imports Proc_Start Console
begin

text \<open>
  Loading the test processes of R3 (\<^verbatim>\<open>kernel/loadR3.c\<close>). It is a command of the
  handler and makes no system request, so that nothing runs in between.
\<close>

section \<open>The image\<close>

text \<open>The program image: where the linker has put the functions that processes start in.\<close>

datatype code = Proc1 | Proc2 | Proc3 | Proc4 | Proc5 | Alarm_Process | Comhand_Process | Idle_Process

record image =
  code_addr :: "code \<Rightarrow> u32"
  build_date :: "u8 list"

section \<open>The loader\<close>

definition load_proc :: "string \<Rightarrow> u32 \<Rightarrow> 'a procs_scheme \<Rightarrow> 'a procs_scheme option" where
  "load_proc nm func s = do {
     (pro, s) \<leftarrow> pcb_setup (cstr nm) PCB_CLASS_USER 1 s;
     s \<leftarrow> pcb_context_init pro func None 0 s;
     pcb_insert pro s
   }"

definition loadR3 :: "image \<Rightarrow> 'a procs_scheme \<Rightarrow> (outcome \<times> 'a procs_scheme) option" where
  "loadR3 img s = do {
     s \<leftarrow> load_proc ''proc1'' (code_addr img Proc1) s;
     s \<leftarrow> load_proc ''proc2'' (code_addr img Proc2) s;
     s \<leftarrow> load_proc ''proc3'' (code_addr img Proc3) s;
     s \<leftarrow> load_proc ''proc4'' (code_addr img Proc4) s;
     s \<leftarrow> load_proc ''proc5'' (code_addr img Proc5) s;
     Some (Returned 0, s)
   }"

section \<open>What it leaves behind\<close>

fun load_list :: "(string \<times> u32) list \<Rightarrow> 'a procs_scheme \<Rightarrow> 'a procs_scheme option" where
  "load_list [] s = Some s"
| "load_list ((nm, func) # xs) s = do { s \<leftarrow> load_proc nm func s; load_list xs s }"

definition r3_list :: "image \<Rightarrow> (string \<times> u32) list" where
  "r3_list img =
     [(''proc1'', code_addr img Proc1), (''proc2'', code_addr img Proc2), (''proc3'', code_addr img Proc3),
      (''proc4'', code_addr img Proc4), (''proc5'', code_addr img Proc5)]"

lemma loadR3_list: "loadR3 img s = map_option (Pair (Returned 0)) (load_list (r3_list img) s)"
  by (simp add: loadR3_def r3_list_def map_option_bind comp_def map_conv_bind_option split: bind_splits)

text \<open>Names that fit: no NUL, less than 64 characters.\<close>

definition good_name :: "string \<Rightarrow> bool" where
  "good_name nm \<longleftrightarrow> 0 \<notin> set (bytes nm) \<and> length nm < 64"

lemma good_nameD: "good_name nm \<Longrightarrow> cchars (cstr nm) = bytes nm" "good_name nm \<Longrightarrow> 0 \<in> set (cstr nm)"
  by (simp_all add: good_name_def cstr_def cchars_prefix)

abbreviation most_urgent :: "(addr \<Rightarrow> pcb) \<Rightarrow> addr list \<Rightarrow> addr list" where
  "most_urgent h xs \<equiv> takeWhile (\<lambda>y. prio h y \<le> 1) xs"

abbreviation less_urgent :: "(addr \<Rightarrow> pcb) \<Rightarrow> addr list \<Rightarrow> addr list" where
  "less_urgent h xs \<equiv> dropWhile (\<lambda>y. prio h y \<le> 1) xs"

lemma takeWhile_insert:
  assumes "\<forall>x \<in> set A. P x" and "P p" and "B = [] \<or> \<not> P (hd B)"
  shows "takeWhile P (A @ p # B) = A @ [p]" "dropWhile P (A @ p # B) = B"
proof -
  have "takeWhile P B = []" "dropWhile P B = B" using assms(3) by (cases B; simp)+
  then show "takeWhile P (A @ p # B) = A @ [p]" "dropWhile P (A @ p # B) = B"
    using assms(1,2) by (induction A) simp_all
qed

lemma load_list_ok:
  "procs_ok s Q \<Longrightarrow> heap_rel s bs \<Longrightarrow> stack_like bs \<Longrightarrow> 4200 * length xs + 100 < room_left bs \<Longrightarrow>
   distinct (map (bytes \<circ> fst) xs) \<Longrightarrow>
   \<forall>(nm, f) \<in> set xs. good_name nm \<and> (\<forall>x \<in> set (all_queued Q). pname (pcbs s) x \<noteq> bytes nm) \<Longrightarrow>
   \<exists>t ps. load_list xs s = Some t \<and>
     procs_ok t (Q(0 := most_urgent (pcbs s) (Q 0) @ ps @ less_urgent (pcbs s) (Q 0))) \<and> start_only s t \<and>
     (\<forall>x \<in> set (all_queued Q). p_state (pcbs t x) = p_state (pcbs s x)) \<and>
     (\<forall>x nm cl pr f. x \<in> set (all_queued Q) \<longrightarrow> started s x nm cl pr f \<longrightarrow> started t x nm cl pr f) \<and>
     list_all2 (\<lambda>(nm, f) p. started t p (bytes nm) PCB_CLASS_USER 1 f) xs ps"
proof (induction xs arbitrary: s Q bs)
  case Nil
  have "Q(0 := most_urgent (pcbs s) (Q 0) @ [] @ less_urgent (pcbs s) (Q 0)) = Q" by simp
  with Nil.prems(1) have "procs_ok s (Q(0 := most_urgent (pcbs s) (Q 0) @ [] @ less_urgent (pcbs s) (Q 0)))"
    by (simp only:)
  moreover have "start_only s s" by (simp add: start_only_def)
  ultimately show ?case by (intro exI [of _ s] exI [of _ "[]"]) simp
next
  case (Cons y xs)
  obtain nm f where y: "y = (nm, f)" by (cases y)
  have g: "good_name nm" and fresh: "\<forall>x \<in> set (all_queued Q). pname (pcbs s) x \<noteq> cchars (cstr nm)"
    using Cons.prems(6) by (auto simp: y good_nameD)
  have len: "length (cchars (cstr nm)) < 64" using g by (simp add: good_nameD) (simp add: good_name_def)
  have room: "4300 < room_left bs" using Cons.prems(4) by simp
  have pr: "(1 :: u8) \<le> 9" by simp
  obtain p t u v bs' where v: "pcb_setup (cstr nm) PCB_CLASS_USER 1 s = Some (p, t)" "pcb_context_init p f None 0 t = Some u"
    "pcb_insert p u = Some v" "procs_ok v (placed v p Q)" "heap_rel v bs'" "stack_like bs'"
    "room_left bs' = room_left bs - 4200" "start_only s v" "started v p (bytes nm) PCB_CLASS_USER 1 f"
    "\<forall>x \<in> set (all_queued Q). p_state (pcbs v x) = p_state (pcbs s x) \<and> pname (pcbs v) x = pname (pcbs s) x \<and>
       (\<forall>nm' cl' pr' f. started s x nm' cl' pr' f \<longrightarrow> started v x nm' cl' pr' f)"
    using start_process [where func = f and cl = PCB_CLASS_USER and pr = 1,
        OF Cons.prems(1-3) room good_nameD(2) [OF g] len fresh _ pr] good_nameD(1) [OF g] by auto
  have run: "load_list (y # xs) s = load_list xs v" by (simp add: y load_proc_def v)
  have st: "p_state (pcbs v p) = \<lparr>exec = PCB_EXEC_READY, dpatch = PCB_DPATCH_ACTIVE, cls = 1, pri = 1\<rparr>"
    using v(9) by (simp add: started_def)
  then have sel: "sel v p = 0" and prp: "prio (pcbs v) p = 1" by (simp_all add: PSTATE_QUEUE_SELECTOR_def)
  let ?A = "most_urgent (pcbs s) (Q 0)" and ?B = "less_urgent (pcbs s) (Q 0)"
  have same: "prio (pcbs v) x = prio (pcbs s) x" if "x \<in> set (Q 0)" for x
    using v(10) that by (auto simp: all_queued_def)
  have pl: "placed v p Q = Q(0 := ?A @ p # ?B)"
    using same takeWhile_cong [of "Q 0" "Q 0" "\<lambda>y. prio (pcbs v) y \<le> 1" "\<lambda>y. prio (pcbs s) y \<le> 1"]
      dropWhile_cong [of "Q 0" "Q 0" "\<lambda>y. prio (pcbs v) y \<le> 1" "\<lambda>y. prio (pcbs s) y \<le> 1"]
    by (simp add: placed_def sel place_def prp)
  let ?Q = "Q(0 := ?A @ p # ?B)"
  have ok: "procs_ok v ?Q" using v(4) pl by simp
  have mem: "set (all_queued ?Q) = insert p (set (all_queued Q))"
    using set_placed [of v p Q] pl by simp
  have A: "\<forall>x \<in> set ?A. prio (pcbs v) x \<le> 1" using same by (metis (mono_tags) set_takeWhileD)
  have B: "?B = [] \<or> \<not> prio (pcbs v) (hd ?B) \<le> 1"
    using hd_dropWhile [of "\<lambda>y. prio (pcbs s) y \<le> 1" "Q 0"] same set_dropWhileD
    by (metis hd_in_set)
  have AB: "most_urgent (pcbs v) (?Q 0) = ?A @ [p]" "less_urgent (pcbs v) (?Q 0) = ?B"
    using takeWhile_insert [of ?A "\<lambda>y. prio (pcbs v) y \<le> 1" p ?B] A B prp by simp_all
  have nm': "pname (pcbs v) p = bytes nm" using v(9) by (simp add: started_def)
  have "\<forall>(n, g) \<in> set xs. good_name n \<and> (\<forall>x \<in> set (all_queued ?Q). pname (pcbs v) x \<noteq> bytes n)"
  proof (intro ballI, clarify)
    fix n g
    assume m: "(n, g) \<in> set xs"
    have "good_name n" and old: "\<forall>x \<in> set (all_queued Q). pname (pcbs s) x \<noteq> bytes n"
      using Cons.prems(6) m by auto
    moreover have "bytes nm \<noteq> bytes n" using Cons.prems(5) m by (force simp: y)
    ultimately show "good_name n \<and> (\<forall>x \<in> set (all_queued ?Q). pname (pcbs v) x \<noteq> bytes n)"
      unfolding mem using v(10) nm' by simp
  qed
  moreover have "4200 * length xs + 100 < room_left bs'" using Cons.prems(4) v(7) by simp
  moreover have "distinct (map (bytes \<circ> fst) xs)" using Cons.prems(5) by (simp add: comp_def)
  ultimately obtain w ps where w: "load_list xs v = Some w"
    "procs_ok w (?Q(0 := most_urgent (pcbs v) (?Q 0) @ ps @ less_urgent (pcbs v) (?Q 0)))" "start_only v w"
    "\<forall>x \<in> set (all_queued ?Q). p_state (pcbs w x) = p_state (pcbs v x)"
    "\<forall>x nm cl pr f. x \<in> set (all_queued ?Q) \<longrightarrow> started v x nm cl pr f \<longrightarrow> started w x nm cl pr f"
    "list_all2 (\<lambda>(nm, f) p. started w p (bytes nm) PCB_CLASS_USER 1 f) xs ps"
    using Cons.IH [OF ok v(5,6)] by blast
  have "procs_ok w (Q(0 := ?A @ (p # ps) @ ?B))" using w(2) unfolding AB by simp
  moreover have "list_all2 (\<lambda>(nm, f) p. started w p (bytes nm) PCB_CLASS_USER 1 f) (y # xs) (p # ps)"
    using w(5,6) v(9) mem by (simp add: y)
  moreover have "\<forall>x \<in> set (all_queued Q). p_state (pcbs w x) = p_state (pcbs s x)"
    using w(4) v(10) mem by simp
  moreover have "\<forall>x nm cl pr f. x \<in> set (all_queued Q) \<longrightarrow> started s x nm cl pr f \<longrightarrow> started w x nm cl pr f"
    using w(5) v(10) mem by auto
  moreover have "load_list (y # xs) s = Some w" using run w(1) by simp
  moreover have "start_only s w" by (rule start_only_trans [OF v(8) w(3)])
  ultimately show ?case by blast
qed

end
