(* ===== verification/Boot.thy ===== *)
theory Boot
  imports Syscall Load_R3
begin

text \<open>
  Start-up and shutdown (\<^verbatim>\<open>kernel/kmain.c\<close>) and the kernel panic
  (\<^verbatim>\<open>kernel/core.c\<close>). \<^verbatim>\<open>kmain\<close> runs in the original context:
  the stages up to the system call that leaves it, and the one after it are definitions of
  their own.
\<close>

section \<open>Kernel messages\<close>

text \<open>\<^verbatim>\<open>sizeof(prefix)\<close> counts the terminator, which is sent as well.\<close>

definition klogv :: "u32 \<Rightarrow> string \<Rightarrow> 'a kern_scheme \<Rightarrow> 'a kern_scheme option" where
  "klogv dev msg s = do {
     let prefix = cstr ''klogv: '';
     (_, s) \<leftarrow> serial_out dev prefix (length prefix) s;
     n \<leftarrow> strlen (cstr msg);
     (_, s) \<leftarrow> serial_out dev (cstr msg) n s;
     (_, s) \<leftarrow> serial_out dev (crlf @ [0]) 2 s;
     Some s
   }"

text \<open>The state after the first \<^verbatim>\<open>hlt\<close> of the endless loop; interrupts are off.\<close>

definition kpanic :: "string \<Rightarrow> 'a kern_scheme \<Rightarrow> 'a kern_scheme option" where
  "kpanic msg s = do {
     let s = cli s;
     let prefix = cstr ''Panic: '';
     let suffix = crlf @ line ''Press Ctrl-A, then X to quit QEMU.'';
     (_, s) \<leftarrow> serial_out COM1 prefix (length prefix) s;
     n \<leftarrow> strlen (cstr msg);
     (_, s) \<leftarrow> serial_out COM1 (cstr msg) n s;
     (_, s) \<leftarrow> serial_out COM1 suffix (length suffix) s;
     Some (hlt s)
   }"

section \<open>Start-up\<close>

definition kmain_hardware :: "'a kern_scheme \<Rightarrow> 'a kern_scheme option" where
  "kmain_hardware s = do {
     (_, s) \<leftarrow> serial_init COM1 s;
     s \<leftarrow> klogv COM1 ''Initialized serial I/O on COM1 device...'' s;
     s \<leftarrow> klogv COM1 ''Initializing Global Descriptor Table...'' s;
     let s = gdt_init s;
     s \<leftarrow> klogv COM1 ''Initializing Interrupt Descriptor Table...'' s;
     let s = idt_init s;
     s \<leftarrow> klogv COM1 ''Disabling interrupts...'' s;
     let s = cli s;
     s \<leftarrow> klogv COM1 ''Initializing Interrupt Vectors...'' s;
     s \<leftarrow> irq_init s;
     s \<leftarrow> klogv COM1 ''Initializing Programmble Interrupt Controller...'' s;
     let s = pic_init s;
     s \<leftarrow> klogv COM1 ''Enabling Interrupts...'' s;
     let s = sti s;
     s \<leftarrow> klogv COM1 ''Initializing virtual memory...'' s;
     vm_init s
   }"

definition kmain_modules :: "image \<Rightarrow> 'a serial_scheme \<Rightarrow> 'a serial_scheme option" where
  "kmain_modules img s = do {
     (_, s) \<leftarrow> serial_open COM1 19200 s;
     s \<leftarrow> klogv COM1 ''Opened COM1 for full interrupt driven I/O...'' s;
     s \<leftarrow> klogv COM1 ''Initializing MPX modules...'' s;
     s \<leftarrow> initialize_heap 50000 s;
     let s = sys_set_heap_functions Allocate_Memory Free_Memory s;
     (comhandpcb, s) \<leftarrow> pcb_setup (cstr ''comhand'') PCB_CLASS_SYSTEM 0 s;
     s \<leftarrow> pcb_context_init comhandpcb (code_addr img Comhand_Process) None 0 s;
     s \<leftarrow> pcb_insert comhandpcb s;
     (idlepcb, s) \<leftarrow> pcb_setup (cstr ''idle'') PCB_CLASS_SYSTEM 9 s;
     s \<leftarrow> pcb_context_init idlepcb (code_addr img Idle_Process) None 0 s;
     s \<leftarrow> pcb_insert idlepcb s;
     klogv COM1 ''Transferring control to comhand...'' s
   }"

definition kmain_shutdown :: "'a serial_scheme \<Rightarrow> 'a serial_scheme option" where
  "kmain_shutdown s = do {
     s \<leftarrow> klogv COM1 ''Starting system shutdown procedure...'' s;
     s \<leftarrow> klogv COM1 ''Shutdown complete.'' s;
     Some (snd (serial_close COM1 s))
   }"

text \<open>
  \<open>system\<close> is what runs from the interrupt with \<^verbatim>\<open>IDLE\<close> until the
  original context is resumed: the system calls and the processes.
\<close>

definition kmain :: "image \<Rightarrow> ('a os_scheme \<Rightarrow> 'a os_scheme option) \<Rightarrow> 'a os_scheme \<Rightarrow> 'a os_scheme option" where
  "kmain img system s = do {
     s \<leftarrow> kmain_hardware s;
     s \<leftarrow> kmain_modules img s;
     s \<leftarrow> system s;
     kmain_shutdown s
   }"

end
