(* ===== verification/Vm_Props.thy ===== *)
theory Vm_Props
  imports Vm
begin

unbundle bit_operations_syntax

text \<open>
  What \<^verbatim>\<open>kernel/core.c\<close> does with physical memory: \<^verbatim>\<open>find_free\<close>
  against its specification, the frames that \<^verbatim>\<open>new_frame\<close> hands out, and the
  address space after \<^verbatim>\<open>vm_init\<close>.
\<close>

section \<open>The frame bitmap\<close>

definition frame_used :: "'a vm_scheme \<Rightarrow> nat \<Rightarrow> bool" where
  "frame_used s k = bit (frames s ! (k div 32)) (k mod 32)"

text \<open>The specification of \<^verbatim>\<open>find_free\<close>: the first unused one of the 16384 frames.\<close>

definition first_unused :: "'a vm_scheme \<Rightarrow> nat option" where
  "first_unused s = find (\<lambda>k. \<not> frame_used s k) [0..<16384]"

lemma test_bit: "(w :: u32) AND push_bit j 1 = 0 \<longleftrightarrow> \<not> bit w j"
  by (simp add: and_exp_eq_0_iff_not_bit)

lemma find_free_bit_eq:
  "find_free_bit w js = find (\<lambda>j. \<not> bit w j) js"
  by (induction js) (simp_all only: find_free_bit.simps find.simps test_bit)

lemma full_word: "(w :: u32) = 0xFFFFFFFF \<longleftrightarrow> (\<forall>j < 32. bit w j)"
proof -
  have "(0xFFFFFFFF :: u32) = - 1" by simp
  then show ?thesis by (auto simp: bit_eq_iff)
qed

lemma find_block:
  "find P (map (\<lambda>j. i * 32 + j) js) = map_option (\<lambda>j. i * 32 + j) (find (\<lambda>j. P (i * 32 + j)) js)"
  by (induction js) auto

lemma find_free_word_eq:
  "find_free_word fs is =
     (case find (\<lambda>k. \<not> bit (fs ! (k div 32)) (k mod 32)) (concat (map (\<lambda>i. map (\<lambda>j. i * 32 + j) [0..<32]) is)) of
        Some k \<Rightarrow> of_nat k
      | None \<Rightarrow> - 1)"
proof (induction "is")
  case (Cons i js)
  let ?P = "\<lambda>k. \<not> bit (fs ! (k div 32)) (k mod 32)"
  have cong: "find (\<lambda>j. ?P (i * 32 + j)) [0..<32] = find (\<lambda>j. \<not> bit (fs ! i) j) [0..<32]"
    by (rule find_cong) auto
  have full: "fs ! i = 0xFFFFFFFF \<longleftrightarrow> find (\<lambda>j. \<not> bit (fs ! i) j) [0..<32] = None"
    by (subst full_word) (auto simp: find_None_iff)
  show ?case
    unfolding find_free_word.simps list.map concat.simps find_append find_block cong Cons.IH full
    by (simp add: find_free_bit_eq FRAME_BIT_def split: option.splits)
qed simp

lemma upt_blocks: "concat (map (\<lambda>i. map (\<lambda>j. i * 32 + j) [0..<32]) [0..<n]) = [0..<n * 32]"
proof (induction n)
  case (Suc n)
  have "map (\<lambda>j. n * 32 + j) [0..<32] = [n * 32..<n * 32 + 32]"
    using map_add_upt [of "n * 32" 32] by (simp add: add.commute)
  moreover have "[0..<Suc n * 32] = [0..<n * 32] @ [n * 32..<n * 32 + 32]"
    using upt_add_eq_append [of 0 "n * 32" 32] by (simp add: add.commute)
  ultimately show ?case using Suc by (simp only: upt_Suc_append map_append concat_append list.map concat.simps append_Nil2 le0)
qed simp

lemma frames_number: "unat NFRAMES div FRAME_BIT = 512"
  by (simp add: vm_consts)

lemma find_free_spec: "find_free s = (case first_unused s of Some k \<Rightarrow> of_nat k | None \<Rightarrow> - 1)"
  using upt_blocks [of 512]
  by (simp add: find_free_def find_free_word_eq frames_number first_unused_def frame_used_def)

section \<open>Handing out frames\<close>

text \<open>The frames below \<open>n\<close> are in use, the others are not.\<close>

definition frames_below :: "'a vm_scheme \<Rightarrow> nat \<Rightarrow> bool" where
  "frames_below s n \<longleftrightarrow> length (frames s) = 512 \<and> (\<forall>k < 16384. frame_used s k \<longleftrightarrow> k < n)"

lemma find_first: "n < m \<Longrightarrow> find (\<lambda>k. \<not> k < n) [0..<m] = Some n"
proof -
  assume "n < m"
  then have "[0..<m] = [0..<n] @ n # [Suc n..<m]"
    using upt_add_eq_append [of 0 n "m - n"] upt_conv_Cons [of n m] by simp
  moreover have "find (\<lambda>k. \<not> k < n) [0..<n] = None" by (auto simp: find_None_iff)
  ultimately show ?thesis by (simp add: find_append)
qed

lemma find_free_below: "frames_below s n \<Longrightarrow> n < 16384 \<Longrightarrow> find_free s = of_nat n"
proof -
  assume a: "frames_below s n" "n < 16384"
  have "first_unused s = find (\<lambda>k. \<not> k < n) [0..<16384]"
    unfolding first_unused_def using a(1) by (intro find_cong) (auto simp: frames_below_def)
  with a(2) show ?thesis by (simp only: find_free_spec find_first option.case)
qed

lemma set_frame_bit_used:
  assumes "length (frames s) = 512" and "n < 16384"
  shows "\<exists>fs. set_frame_bit (of_nat n * PAGE_SIZE) s = Some (s\<lparr>frames := fs\<rparr>) \<and> length fs = 512 \<and>
    (\<forall>k. k < 16384 \<longrightarrow> frame_used (s\<lparr>frames := fs\<rparr>) k = (frame_used s k \<or> k = n))"
proof -
  let ?i = "n div 32" and ?w = "frames s ! (n div 32) OR push_bit (n mod 32) 1"
  have "unat (of_nat n * PAGE_SIZE) = n * 4096"
    using assms(2) by (simp add: PAGE_SIZE_def unat_word_ariths unsigned_of_nat take_bit_nat_eq_self)
  then have u: "unat (of_nat n * PAGE_SIZE div PAGE_SIZE) = n" by (simp add: unat_div PAGE_SIZE_def)
  have i: "?i < 512" using assms(2) by simp
  have r: "set_frame_bit (of_nat n * PAGE_SIZE) s = Some (s\<lparr>frames := (frames s)[?i := ?w]\<rparr>)"
    using i assms(1) by (simp add: set_frame_bit_def Let_def u FRAME_BIT_def)
  have "frame_used (s\<lparr>frames := (frames s)[?i := ?w]\<rparr>) k = (frame_used s k \<or> k = n)" if "k < 16384" for k
  proof (cases "k div 32 = ?i")
    case True
    then have "k mod 32 = n mod 32 \<longleftrightarrow> k = n" by (metis div_mult_mod_eq)
    moreover have "k mod 32 < 32" by simp
    ultimately show ?thesis
      using True i assms(1) by (auto simp: frame_used_def bit_or_iff bit_exp_iff)
  next
    case False
    then show ?thesis by (auto simp: frame_used_def)
  qed
  with r assms(1) show ?thesis by (intro exI [of _ "(frames s)[?i := ?w]"]) simp
qed

lemma set_frame_bit_below:
  assumes "frames_below s n" and "n < 16384"
  shows "\<exists>fs. set_frame_bit (of_nat n * PAGE_SIZE) s = Some (s\<lparr>frames := fs\<rparr>) \<and> frames_below (s\<lparr>frames := fs\<rparr>) (Suc n)"
  using set_frame_bit_used [of s n] assms by (auto simp: frames_below_def less_Suc_eq)

text \<open>The entry that \<^verbatim>\<open>new_frame\<close> writes.\<close>

definition mapped :: "page_entry \<Rightarrow> nat \<Rightarrow> page_entry" where
  "mapped e n = e\<lparr>present := 1, frameaddr := of_nat n, writeable := 1, usermode := 0\<rparr>"

lemma new_frame_below:
  assumes "frames_below s n" and "n < 16384" and "frameaddr (ptabs s t i) = 0"
  shows "\<exists>fs. new_frame (Some (t, i)) s
      = Some (s\<lparr>frames := fs, ptabs := (ptabs s)(t := (ptabs s t)(i := mapped (ptabs s t i) n))\<rparr>) \<and>
    frames_below (s\<lparr>frames := fs\<rparr>) (Suc n)"
proof -
  obtain fs where fs: "set_frame_bit (of_nat n * PAGE_SIZE) s = Some (s\<lparr>frames := fs\<rparr>)"
    "frames_below (s\<lparr>frames := fs\<rparr>) (Suc n)"
    using set_frame_bit_below [OF assms(1,2)] by blast
  have "of_nat n \<noteq> (- 1 :: u32)"
  proof
    assume "of_nat n = (- 1 :: u32)"
    then have "unat (of_nat n :: u32) = 2 ^ 32 - 1" by (simp add: unsigned_minus_1_eq_mask mask_eq_exp_minus_1)
    with assms(2) show False by (simp add: unsigned_of_nat take_bit_nat_eq_self)
  qed
  moreover have "ucast (of_nat n :: u32) = (of_nat n :: 20 word)"
    using assms(2) by (simp add: word_unat_eq_iff unsigned_ucast_eq unsigned_of_nat take_bit_nat_eq_self)
  ultimately show ?thesis
    using fs assms(3)
    by (intro exI [of _ fs]) (simp add: new_frame_def find_free_below [OF assms(1,2)] upd_page_def mapped_def)
qed

section \<open>The loops of start-up\<close>

definition mapping_only :: "'a vm_scheme \<Rightarrow> 'a vm_scheme \<Rightarrow> bool" where
  "mapping_only s t \<longleftrightarrow> t = s\<lparr>frames := frames t, ptabs := ptabs t\<rparr>"

lemma mapping_only_trans: "mapping_only s t \<Longrightarrow> mapping_only t u \<Longrightarrow> mapping_only s u"
  by (cases s; cases t; cases u) (simp add: mapping_only_def)

lemma mapping_onlyD:
  "mapping_only s t \<Longrightarrow> tables t = tables s \<and> phys_alloc_addr t = phys_alloc_addr s"
  by (cases s; cases t) (simp add: mapping_only_def)

text \<open>The page number \<open>p\<close> in its table, and the virtual address of a page.\<close>

lemma page_at:
  assumes "p < 0x100000"
  shows "page_index (of_nat p * PAGE_SIZE) = p div 1024" "page_offset (of_nat p * PAGE_SIZE) = p mod 1024"
proof -
  have "unat (of_nat p * PAGE_SIZE) = p * 4096"
    using assms by (simp add: PAGE_SIZE_def unat_word_ariths unsigned_of_nat take_bit_nat_eq_self)
  then have "unat (of_nat p * PAGE_SIZE div PAGE_SIZE) = p" by (simp add: unat_div PAGE_SIZE_def)
  then show "page_index (of_nat p * PAGE_SIZE) = p div 1024" "page_offset (of_nat p * PAGE_SIZE) = p mod 1024"
    by (simp_all add: page_index_def page_offset_def unat_div unat_mod)
qed

lemma page_less: "p < 0x100000 \<Longrightarrow> q < 0x100000 \<Longrightarrow> of_nat p * PAGE_SIZE < of_nat q * PAGE_SIZE \<longleftrightarrow> p < q"
  by (simp add: PAGE_SIZE_def word_less_nat_alt unat_word_ariths unsigned_of_nat take_bit_nat_eq_self)

lemma page_next: "of_nat p * PAGE_SIZE + PAGE_SIZE = of_nat (Suc p) * PAGE_SIZE"
  by (simp add: algebra_simps)

text \<open>One round of a loop that gives frames to pages with a table.\<close>

lemma map_page:
  assumes "p < 0x100000" and "tables s (p div 1024) = t" and "t \<noteq> NULL"
    and "frames_below s n" and "n < 16384" and "frameaddr (ptabs s t (p mod 1024)) = 0"
  shows "\<exists>u. get_page (of_nat p * PAGE_SIZE) True s = Some (Some (t, p mod 1024), s) \<and>
    new_frame (Some (t, p mod 1024)) s = Some u \<and> mapping_only s u \<and> frames_below u (Suc n) \<and>
    ptabs u = (ptabs s)(t := (ptabs s t)(p mod 1024 := mapped (ptabs s t (p mod 1024)) n))"
proof -
  let ?h = "(ptabs s)(t := (ptabs s t)(p mod 1024 := mapped (ptabs s t (p mod 1024)) n))"
  obtain fs where "new_frame (Some (t, p mod 1024)) s = Some (s\<lparr>frames := fs, ptabs := ?h\<rparr>)"
    "frames_below (s\<lparr>frames := fs\<rparr>) (Suc n)"
    using new_frame_below [OF assms(4-6)] by blast
  moreover have "get_page (of_nat p * PAGE_SIZE) True s = Some (Some (t, p mod 1024), s)"
    using assms(1-3) by (simp add: get_page_def page_at)
  ultimately show ?thesis
    by (intro exI [of _ "s\<lparr>frames := fs, ptabs := ?h\<rparr>"]) (simp add: mapping_only_def frames_below_def frame_used_def)
qed

text \<open>Both loops: entry \<open>k\<close> of the table gets frame \<open>f + k\<close>, from \<open>k = a\<close> up to \<open>b\<close>.\<close>

definition filled :: "(nat \<Rightarrow> page_entry) \<Rightarrow> nat \<Rightarrow> nat \<Rightarrow> nat \<Rightarrow> nat \<Rightarrow> page_entry" where
  "filled e f a b k = (if a \<le> k \<and> k < b then mapped (e k) (f + k) else e k)"

lemma filled_step: "a < b \<Longrightarrow> filled (e(a := mapped (e a) (f + a))) f (Suc a) b = filled e f a b"
  by (auto simp: filled_def fun_eq_iff mapped_def)

lemma identity_map_ok:
  "tables s 0 = t \<Longrightarrow> t \<noteq> NULL \<Longrightarrow> phys_alloc_addr s + 0x10000 = of_nat N * PAGE_SIZE \<Longrightarrow> N \<le> 1024 \<Longrightarrow>
   frames_below s n \<Longrightarrow> n + m = N \<Longrightarrow> \<forall>k. n \<le> k \<longrightarrow> frameaddr (ptabs s t k) = 0 \<Longrightarrow>
   \<exists>u. identity_map_loop (of_nat n * PAGE_SIZE) s = Some u \<and> mapping_only s u \<and> frames_below u N \<and>
     ptabs u = (ptabs s)(t := filled (ptabs s t) 0 n N)"
proof (induction m arbitrary: n s)
  case 0
  then have "identity_map_loop (of_nat n * PAGE_SIZE) s = Some s" by (subst identity_map_loop.simps) simp
  moreover have "filled (ptabs s t) 0 n N = ptabs s t" using 0 by (auto simp: filled_def fun_eq_iff)
  ultimately show ?case using 0 by (simp add: mapping_only_def)
next
  case (Suc m)
  have n: "n < 1024" "n < N" using Suc.prems by simp_all
  have z: "frameaddr (ptabs s t (n mod 1024)) = 0" "tables s (n div 1024) = t" "n < 0x100000" "n < 16384"
    using Suc.prems(1,7) n by simp_all
  obtain u where u: "get_page (of_nat n * PAGE_SIZE) True s = Some (Some (t, n mod 1024), s)"
    "new_frame (Some (t, n mod 1024)) s = Some u" "mapping_only s u" "frames_below u (Suc n)"
    "ptabs u = (ptabs s)(t := (ptabs s t)(n mod 1024 := mapped (ptabs s t (n mod 1024)) n))"
    using map_page [OF z(3,2) Suc.prems(2,5) z(4,1)] by blast
  note k = mapping_onlyD [OF u(3)]
  have e: "ptabs u t = (ptabs s t)(n := mapped (ptabs s t n) (0 + n))" using u(5) n by simp
  have "of_nat n * PAGE_SIZE < phys_alloc_addr s + 0x10000"
    unfolding Suc.prems(3) using n Suc.prems(4) by (subst page_less) simp_all
  then have run: "identity_map_loop (of_nat n * PAGE_SIZE) s = identity_map_loop (of_nat (Suc n) * PAGE_SIZE) u"
    by (subst identity_map_loop.simps) (simp only: if_True u(1,2) bind.bind_lunit prod.case page_next)
  have "tables u 0 = t" "phys_alloc_addr u + 0x10000 = of_nat N * PAGE_SIZE" "Suc n + m = N"
    "\<forall>k. Suc n \<le> k \<longrightarrow> frameaddr (ptabs u t k) = 0"
    using k e Suc.prems by simp_all
  from Suc.IH [OF this(1) Suc.prems(2) this(2) Suc.prems(4) u(4) this(3,4)] obtain v where v:
    "identity_map_loop (of_nat (Suc n) * PAGE_SIZE) u = Some v" "mapping_only u v" "frames_below v N"
    "ptabs v = (ptabs u)(t := filled (ptabs u t) 0 (Suc n) N)" by blast
  have "ptabs v = (ptabs s)(t := filled (ptabs s t) 0 n N)"
    unfolding v(4) e filled_step [OF n(2)] using u(5) by simp
  with run v(1,3) mapping_only_trans [OF u(3) v(2)] show ?case by (simp only: ex_simps) blast
qed

lemma heap_page: "KHEAP_BASE = of_nat 0xD000 * PAGE_SIZE" "KHEAP_BASE + KHEAP_SIZE = of_nat 0xD010 * PAGE_SIZE"
  by (simp_all add: vm_consts)

lemma heap_frames_ok:
  "tables s 52 = t \<Longrightarrow> t \<noteq> NULL \<Longrightarrow> f + 16 \<le> 16384 \<Longrightarrow>
   frames_below s (f + n) \<Longrightarrow> n + m = 16 \<Longrightarrow> \<forall>k. n \<le> k \<longrightarrow> frameaddr (ptabs s t k) = 0 \<Longrightarrow>
   \<exists>u. heap_frames_loop (of_nat (0xD000 + n) * PAGE_SIZE) (of_nat 0xD010 * PAGE_SIZE) s = Some u \<and>
     mapping_only s u \<and> frames_below u (f + 16) \<and> ptabs u = (ptabs s)(t := filled (ptabs s t) f n 16)"
proof (induction m arbitrary: n s)
  case 0
  then have "heap_frames_loop (of_nat (0xD000 + n) * PAGE_SIZE) (of_nat 0xD010 * PAGE_SIZE) s = Some s"
    by (subst heap_frames_loop.simps) (simp add: vm_consts)
  moreover have "filled (ptabs s t) f n 16 = ptabs s t" using 0 by (auto simp: filled_def fun_eq_iff)
  ultimately show ?case using 0 by (simp add: mapping_only_def)
next
  case (Suc m)
  have n: "n < 16" using Suc.prems by simp
  have "0xD000 + n = n + 52 * 1024" by simp
  then have md: "(0xD000 + n) div 1024 = 52" "(0xD000 + n) mod 1024 = n"
    using n by (simp_all only: mod_mult_self1 div_mult_self1 mod_less div_less)
  have z: "frameaddr (ptabs s t ((0xD000 + n) mod 1024)) = 0" "tables s ((0xD000 + n) div 1024) = t"
    "0xD000 + n < 0x100000" "f + n < 16384"
    using Suc.prems(1,3,6) n unfolding md by simp_all
  obtain u where u: "get_page (of_nat (0xD000 + n) * PAGE_SIZE) True s = Some (Some (t, n), s)"
    "new_frame (Some (t, n)) s = Some u" "mapping_only s u" "frames_below u (f + Suc n)"
    "ptabs u = (ptabs s)(t := (ptabs s t)(n := mapped (ptabs s t n) (f + n)))"
    using map_page [OF z(3,2) Suc.prems(2,4) z(4,1)] unfolding md by auto
  note k = mapping_onlyD [OF u(3)]
  have e: "ptabs u t = (ptabs s t)(n := mapped (ptabs s t n) (f + n))" using u(5) by simp
  have "of_nat (0xD000 + n) * PAGE_SIZE < of_nat 0xD010 * PAGE_SIZE"
    using n by (subst page_less) simp_all
  then have run: "heap_frames_loop (of_nat (0xD000 + n) * PAGE_SIZE) (of_nat 0xD010 * PAGE_SIZE) s
      = heap_frames_loop (of_nat (0xD000 + Suc n) * PAGE_SIZE) (of_nat 0xD010 * PAGE_SIZE) u"
    by (subst heap_frames_loop.simps) (simp only: if_True u(1,2) bind.bind_lunit prod.case page_next add_Suc_right)
  have "tables u 52 = t" "Suc n + m = 16" "\<forall>k. Suc n \<le> k \<longrightarrow> frameaddr (ptabs u t k) = 0"
    using k e Suc.prems by simp_all
  from Suc.IH [OF this(1) Suc.prems(2,3) u(4) this(2,3)] obtain v where v:
    "heap_frames_loop (of_nat (0xD000 + Suc n) * PAGE_SIZE) (of_nat 0xD010 * PAGE_SIZE) u = Some v"
    "mapping_only u v" "frames_below v (f + 16)" "ptabs v = (ptabs u)(t := filled (ptabs u t) f (Suc n) 16)" by blast
  have "ptabs v = (ptabs s)(t := filled (ptabs s t) f n 16)"
    unfolding v(4) e filled_step [OF n] using u(5) by simp
  with run v(1,3) mapping_only_trans [OF u(3) v(2)] show ?case by (simp only: ex_simps) blast
qed

section \<open>Start-up\<close>

lemma make_tables_done:
  "tables s 52 \<noteq> NULL \<Longrightarrow> k + m = 0x10000 \<Longrightarrow>
   make_tables_loop (KHEAP_BASE + of_nat k) (KHEAP_BASE + KHEAP_SIZE) 1 s = Some s"
proof (induction m arbitrary: k)
  case 0
  then have "k = 0x10000" by simp
  then show ?case by (subst make_tables_loop.simps) (simp add: vm_consts)
next
  case (Suc m)
  then have k: "k < 0x10000" by simp
  then have u: "unat (KHEAP_BASE + of_nat k) = 0xD000000 + k"
    by (simp add: vm_consts unat_word_ariths unsigned_of_nat take_bit_nat_eq_self)
  have "KHEAP_BASE + of_nat k < KHEAP_BASE + KHEAP_SIZE"
    using k by (simp add: word_less_nat_alt u) (simp add: vm_consts)
  moreover have "page_index (KHEAP_BASE + of_nat k) = 52"
    using k by (simp add: page_index_def unat_div u PAGE_SIZE_def)
  moreover have "make_tables_loop (KHEAP_BASE + of_nat (Suc k)) (KHEAP_BASE + KHEAP_SIZE) 1 s = Some s"
    using Suc.IH [of "Suc k"] Suc.prems by simp
  ultimately show ?case
    using Suc.prems(1) by (subst make_tables_loop.simps) (simp add: get_page_def algebra_simps)
qed

lemma page_mask: "(0xFFFFF000 :: u32) = NOT (mask 12)"
  by (simp add: mask_eq_exp_minus_1)

lemma page_push: "of_nat p * PAGE_SIZE = (push_bit 12 (of_nat p) :: u32)"
  by (simp add: push_bit_eq_mult PAGE_SIZE_def)

lemma page_of: "(a :: u32) AND 0xFFFFF000 = of_nat (unat a div 4096) * PAGE_SIZE"
proof -
  have "of_nat (unat a div 4096) = drop_bit 12 a"
    using u32_lt_4G [of a] by (simp add: drop_bit_eq_div word_unat_eq_iff unat_div unsigned_of_nat take_bit_nat_eq_self)
  then show ?thesis unfolding page_push page_mask
    by (auto simp: bit_eq_iff bit_and_iff bit_not_iff bit_mask_iff bit_push_bit_iff bit_drop_bit_eq)
qed

lemma page_flags: "(of_nat p * PAGE_SIZE OR 7) AND 0xFFFFF000 = of_nat p * PAGE_SIZE"
proof -
  have "(7 :: u32) = mask 3" by (simp add: mask_eq_exp_minus_1)
  then show ?thesis unfolding page_push page_mask
    by (auto simp: bit_eq_iff bit_and_iff bit_or_iff bit_not_iff bit_mask_iff bit_push_bit_iff)
qed

lemma page_flags_present: "(w OR 7) AND 1 \<noteq> (0 :: u32)"
proof -
  have "bit ((w OR 7) AND 1) 0" by (simp add: bit_and_iff bit_or_iff)
  then show ?thesis by (metis bit_0_eq bot_apply bot_bool_def)
qed

lemma page_offset_mask: "(a :: u32) = of_nat (unat a div 4096) * PAGE_SIZE + (a AND 0xFFF)"
proof -
  have "(0xFFF :: u32) = mask 12" by (simp add: mask_eq_exp_minus_1)
  then have "a AND 0xFFF = take_bit 12 a" by (simp only: take_bit_eq_mask)
  also have "\<dots> = of_nat (unat a mod 4096)"
    by (simp add: word_unat_eq_iff unsigned_take_bit_eq take_bit_eq_mod unsigned_of_nat unat_mod)
  finally have "a AND 0xFFF = of_nat (unat a mod 4096)" .
  then have "of_nat (unat a div 4096) * PAGE_SIZE + (a AND 0xFFF) = of_nat (unat a div 4096 * 4096 + unat a mod 4096)"
    by (simp only: PAGE_SIZE_def of_nat_add of_nat_mult of_nat_numeral)
  then show ?thesis by (simp only: div_mult_mod_eq of_nat_unat ucast_id)
qed

text \<open>
  Address translation as the processor does it with paging on: the directory entry, present
  and with the physical address of a table, then the entry in the table.
\<close>

definition translate :: "'a vm_scheme \<Rightarrow> u32 \<Rightarrow> u32 option" where
  "translate s a =
     (let pde = tables_phys s (page_index a);
          e = ptabs s (pde AND 0xFFFFF000) (page_offset a)
      in if pde AND 1 = 0 \<or> present e = 0 then None
         else Some (ucast (frameaddr e) * 0x1000 + (a AND 0xFFF)))"

definition vm_only :: "'a vm_scheme \<Rightarrow> 'a vm_scheme \<Rightarrow> bool" where
  "vm_only s t \<longleftrightarrow> t = s\<lparr>frames := frames t, kdir := kdir t, tables := tables t, tables_phys := tables_phys t,
     ptabs := ptabs t, phys_alloc_addr := phys_alloc_addr t, heap_is_initialized := heap_is_initialized t,
     cr0 := cr0 t, cr3 := cr3 t\<rparr>"

text \<open>A table is taken from the memory behind the last one, one page further up.\<close>

lemma page_plus: "of_nat p * PAGE_SIZE + of_nat q * PAGE_SIZE = of_nat (p + q) * PAGE_SIZE"
  by (simp add: algebra_simps)

lemma page_nonzero: "0 < p \<Longrightarrow> p < 0x100000 \<Longrightarrow> of_nat p * PAGE_SIZE \<noteq> 0"
  using page_less [of 0 p] by (auto simp del: page_less)

lemma page_inj: "p < 0x100000 \<Longrightarrow> q < 0x100000 \<Longrightarrow> of_nat p * PAGE_SIZE = of_nat q * PAGE_SIZE \<longleftrightarrow> p = q"
  using page_less [of p q] page_less [of q p] by (metis less_irrefl linorder_neqE_nat)

lemma kmalloc_aligned:
  assumes "\<not> heap_is_initialized s" and "unat (phys_alloc_addr s) div 4096 = p" and "0 < p" and "p < 0xFFFFF"
    and "sz = of_nat r * PAGE_SIZE" and "q = Suc p" and "n = q + r"
  shows "kmalloc sz True w s = Some (of_nat q * PAGE_SIZE, of_nat q * PAGE_SIZE,
    s\<lparr>phys_alloc_addr := of_nat n * PAGE_SIZE\<rparr>)"
proof -
  have "phys_alloc_addr s AND 0xFFFFF000 = of_nat p * PAGE_SIZE" using page_of assms(2) by simp
  moreover have "of_nat p * PAGE_SIZE \<noteq> 0" using assms(3,4) by (intro page_nonzero) simp_all
  moreover have "of_nat p * PAGE_SIZE + 0x1000 = of_nat q * PAGE_SIZE"
    unfolding assms(6) using page_next [of p] by (simp only: PAGE_SIZE_def)
  moreover have "of_nat q * PAGE_SIZE + sz = of_nat n * PAGE_SIZE" unfolding assms(5,7) by (rule page_plus)
  ultimately show ?thesis using assms(1) by (simp add: kmalloc_def Let_def)
qed

lemma page_number: "p < 0x100000 \<Longrightarrow> unat (of_nat p * PAGE_SIZE) div 4096 = p"
  by (simp add: PAGE_SIZE_def unat_word_ariths unsigned_of_nat take_bit_nat_eq_self)

text \<open>The last steps of \<^verbatim>\<open>vm_init\<close>, and the tables behind the image of \<open>e\<close> pages.\<close>

definition with_tables :: "nat \<Rightarrow> 'a vm_scheme \<Rightarrow> 'a vm_scheme" where
  "with_tables e s = s\<lparr>kdir := of_nat (e + 1) * PAGE_SIZE,
     tables := (\<lambda>_. NULL)(52 := of_nat (e + 4) * PAGE_SIZE, 0 := of_nat (e + 6) * PAGE_SIZE),
     tables_phys := (\<lambda>_. 0)(52 := of_nat (e + 4) * PAGE_SIZE OR 7, 0 := of_nat (e + 6) * PAGE_SIZE OR 7),
     phys_alloc_addr := of_nat (e + 7) * PAGE_SIZE\<rparr>"

lemma tables_made:
  assumes "\<not> heap_is_initialized s" and "unat (phys_alloc_addr s) div 4096 = e" and "0 < e" and "e < 1000"
  shows "\<exists>d p a b. kmalloc SZ_PAGE_DIR True False s = Some (d, p, a) \<and>
    make_tables_loop KHEAP_BASE (KHEAP_BASE + KHEAP_SIZE) 1
      (a\<lparr>kdir := d, tables := (\<lambda>_. NULL), tables_phys := (\<lambda>_. 0)\<rparr>) = Some b \<and>
    identity_map_loop 0 b = identity_map_loop 0 (with_tables e s)"
proof -
  have sz: "SZ_PAGE_DIR = of_nat 2 * PAGE_SIZE" "SZ_PAGE_TABLE = of_nat 1 * PAGE_SIZE" "(0x10000 :: u32) = of_nat 16 * PAGE_SIZE"
    by (simp_all add: SZ_PAGE_DIR_def SZ_PAGE_TABLE_def PAGE_SIZE_def)
  let ?d = "of_nat (e + 1) * PAGE_SIZE" and ?a = "s\<lparr>phys_alloc_addr := of_nat (e + 3) * PAGE_SIZE\<rparr>"
  have d: "kmalloc SZ_PAGE_DIR True False s = Some (?d, ?d, ?a)"
    by (rule kmalloc_aligned [OF assms(1-3) _ sz(1)]) (use assms(4) in simp_all)
  let ?t = "of_nat (e + 4) * PAGE_SIZE"
  let ?s = "?a\<lparr>kdir := ?d, tables := (\<lambda>_. NULL), tables_phys := (\<lambda>_. 0)\<rparr>"
  let ?b = "?s\<lparr>phys_alloc_addr := of_nat (e + 5) * PAGE_SIZE, tables := (\<lambda>_. NULL)(52 := ?t),
    tables_phys := (\<lambda>_. 0)(52 := ?t OR 7)\<rparr>"
  have h3: "unat (phys_alloc_addr ?s) div 4096 = e + 3" using assms(4) page_number [of "e + 3"] by simp
  have ks: "kmalloc SZ_PAGE_TABLE True True ?s
      = Some (?t, ?t, ?s\<lparr>phys_alloc_addr := of_nat (e + 5) * PAGE_SIZE\<rparr>)"
    by (rule kmalloc_aligned [OF _ h3 _ _ sz(2)]) (use assms(1,4) in simp_all)
  have g: "get_page KHEAP_BASE True ?s = Some (Some (?t, 0), ?b)"
    using ks by (simp add: get_page_def page_index_def page_offset_def vm_consts Let_def)
  have nn: "?t \<noteq> NULL" using assms(4) by (intro page_nonzero) simp_all
  have m1: "make_tables_loop (KHEAP_BASE + 1) (KHEAP_BASE + KHEAP_SIZE) 1 ?b = Some ?b"
    using make_tables_done [of ?b 1 "0xFFFF"] nn by simp
  have lt: "KHEAP_BASE < KHEAP_BASE + KHEAP_SIZE" by (simp add: vm_consts)
  have m: "make_tables_loop KHEAP_BASE (KHEAP_BASE + KHEAP_SIZE) 1 ?s = Some ?b"
    by (subst make_tables_loop.simps) (simp only: lt if_True g bind.bind_lunit prod.case m1)
  let ?z = "of_nat (e + 6) * PAGE_SIZE"
  have h5: "unat (phys_alloc_addr ?b) div 4096 = e + 5" using assms(4) page_number [of "e + 5"] by simp
  have kb: "kmalloc SZ_PAGE_TABLE True True ?b
      = Some (?z, ?z, ?b\<lparr>phys_alloc_addr := of_nat (e + 7) * PAGE_SIZE\<rparr>)"
    by (rule kmalloc_aligned [OF _ h5 _ _ sz(2)]) (use assms(1,4) in simp_all)
  have g0: "get_page 0 True ?b = Some (Some (?z, 0), with_tables e s)"
    using kb by (simp add: get_page_def page_index_def page_offset_def with_tables_def)
  have zn: "?z \<noteq> NULL" using assms(4) by (intro page_nonzero) simp_all
  then have g1: "get_page 0 True (with_tables e s) = Some (Some (?z, 0), with_tables e s)"
    by (simp add: get_page_def page_index_def page_offset_def with_tables_def)
  have pos: "0 < of_nat p * PAGE_SIZE + 0x10000" if "p < 0xFFF00" for p
    unfolding sz(3) page_plus using that page_less [of 0 "p + 16"] by simp
  have "0 < phys_alloc_addr ?b + 0x10000" "0 < phys_alloc_addr (with_tables e s) + 0x10000"
    using assms(4) pos [of "e + 5"] pos [of "e + 7"] by (simp_all add: with_tables_def)
  then have "identity_map_loop 0 ?b = identity_map_loop 0 (with_tables e s)"
    by (subst (1 2) identity_map_loop.simps) (simp only: if_True g0 g1)
  with d m show ?thesis by blast
qed

lemma vm_init_run:
  assumes "\<not> heap_is_initialized s" and "unat (phys_alloc_addr s) div 4096 = e" and "0 < e" and "e < 1000"
    and "frames_below s 0" and "\<forall>t i. ptabs s t i = zero_page"
  shows "\<exists>u. vm_init s = Some u \<and> vm_only s u \<and> heap_is_initialized u \<and> cr3 u = kdir u + 4096 \<and>
    cr0 u = cr0 s OR 0x80000000 \<and> frames_below u (e + 39) \<and> phys_alloc_addr u = of_nat (e + 7) * PAGE_SIZE \<and>
    tables_phys u = (\<lambda>_. 0)(52 := of_nat (e + 4) * PAGE_SIZE OR 7, 0 := of_nat (e + 6) * PAGE_SIZE OR 7) \<and>
    ptabs u = (\<lambda>_ _. zero_page)(of_nat (e + 6) * PAGE_SIZE := filled (\<lambda>_. zero_page) 0 1 (e + 23),
      of_nat (e + 4) * PAGE_SIZE := filled (\<lambda>_. zero_page) (e + 23) 0 16)"
proof -
  let ?t = "of_nat (e + 6) * PAGE_SIZE" and ?h = "of_nat (e + 4) * PAGE_SIZE" and ?w = "with_tables e s"
  obtain d p a b where k: "kmalloc SZ_PAGE_DIR True False s = Some (d, p, a)"
    "make_tables_loop KHEAP_BASE (KHEAP_BASE + KHEAP_SIZE) 1
      (a\<lparr>kdir := d, tables := (\<lambda>_. NULL), tables_phys := (\<lambda>_. 0)\<rparr>) = Some b"
    "identity_map_loop 0 b = identity_map_loop 0 ?w"
    using tables_made [OF assms(1-4)] by blast
  have z: "ptabs ?w = (\<lambda>_ _. zero_page)" using assms(6) by (simp add: with_tables_def fun_eq_iff)
  have f0: "frameaddr zero_page = 0" by (simp add: zero_page_def)
  have nn: "?t \<noteq> NULL" "?h \<noteq> NULL" using assms(4) by (intro page_nonzero; simp)+
  have th: "?t \<noteq> ?h" using assms(4) by (subst page_inj) simp_all
  have fb: "frames_below ?w 0" using assms(5) by (simp add: with_tables_def frames_below_def frame_used_def)
  have "(0x10000 :: u32) = of_nat 16 * PAGE_SIZE" by (simp add: PAGE_SIZE_def)
  then have "phys_alloc_addr ?w + 0x10000 = of_nat (e + 23) * PAGE_SIZE"
    using page_plus [of "e + 7" 16] by (simp add: with_tables_def algebra_simps)
  moreover have "tables ?w 0 = ?t" "tables ?w 52 = ?h" by (simp_all add: with_tables_def)
  ultimately obtain u where u: "identity_map_loop 0 ?w = Some u" "mapping_only ?w u" "frames_below u (e + 23)"
    "ptabs u = (\<lambda>_ _. zero_page)(?t := filled (\<lambda>_. zero_page) 0 0 (e + 23))"
    using identity_map_ok [of ?w ?t "e + 23" 0 "e + 23"] nn fb z f0 assms(4) by auto
  have "tables u 52 = ?h" "ptabs u ?h = (\<lambda>_. zero_page)"
    using mapping_onlyD [OF u(2)] u(4) th by (simp_all add: with_tables_def)
  then obtain v where v: "heap_frames_loop KHEAP_BASE (KHEAP_BASE + KHEAP_SIZE) u = Some v" "mapping_only u v"
    "frames_below v (e + 39)" "ptabs v = (ptabs u)(?h := filled (\<lambda>_. zero_page) (e + 23) 0 16)"
    using heap_frames_ok [of u ?h "e + 23" 0 16] nn(2) u(3) f0 assms(4) unfolding heap_page(2) unfolding heap_page(1) by (auto simp: add.commute [of 39 e])
  note m = mapping_only_trans [OF u(2) v(2)]
  have tv: "tables v 0 = ?t" using mapping_onlyD [OF m] by (simp add: with_tables_def)
  let ?u = "upd_page (?t, 0) (\<lambda>_. zero_page) v"
  let ?r = "?u\<lparr>cr3 := kdir ?u + 4096, cr0 := cr0 ?u OR 0x80000000, heap_is_initialized := True\<rparr>"
  have run: "vm_init s = Some ?r"
    unfolding vm_init_def k(1) bind.bind_lunit prod.case Let_def k(2,3) u(1) v(1) tv ensure_bind
    using nn(1) by simp
  have eqs: "tables_phys v = tables_phys ?w" "kdir v = kdir ?w" "cr0 v = cr0 s" "phys_alloc_addr v = phys_alloc_addr ?w"
    using m by (cases s; cases v; simp add: mapping_only_def with_tables_def)+
  have only: "vm_only s ?r"
    using m by (cases s; cases v) (simp add: mapping_only_def vm_only_def with_tables_def upd_page_def)
  have "(filled (\<lambda>_. zero_page) 0 0 (e + 23))(0 := zero_page) = filled (\<lambda>_. zero_page) 0 1 (e + 23)"
    by (auto simp: filled_def fun_eq_iff)
  then have "ptabs ?r = (\<lambda>_ _. zero_page)(?t := filled (\<lambda>_. zero_page) 0 1 (e + 23), ?h := filled (\<lambda>_. zero_page) (e + 23) 0 16)"
    using th v(4) u(4) by (simp add: upd_page_def fun_upd_twist)
  moreover have "frames_below ?r (e + 39)" using v(3) by (simp add: frames_below_def frame_used_def upd_page_def)
  ultimately show ?thesis
    using run only eqs by (intro exI [of _ ?r]) (simp add: upd_page_def with_tables_def)
qed

section \<open>The address space\<close>

lemma page_address:
  assumes "n < 0x100000" and "unat a div 4096 = p"
  shows "ucast (of_nat n :: 20 word) * 0x1000 + (a AND 0xFFF) = of_nat n * PAGE_SIZE + (a - of_nat p * PAGE_SIZE)"
proof -
  have "a - of_nat p * PAGE_SIZE = a AND 0xFFF" using page_offset_mask [of a] assms(2) by (simp add: algebra_simps)
  moreover have "ucast (of_nat n :: 20 word) = (of_nat n :: u32)"
    using assms(1) by (simp add: word_unat_eq_iff unsigned_ucast_eq unsigned_of_nat take_bit_nat_eq_self)
  ultimately show ?thesis by (simp add: PAGE_SIZE_def)
qed

lemma vm_init_translates:
  assumes "\<not> heap_is_initialized s" and "unat (phys_alloc_addr s) div 4096 = e" and "0 < e" and "e < 1000"
    and "frames_below s 0" and "\<forall>t i. ptabs s t i = zero_page" and "vm_init s = Some u"
    and "unat a div 4096 = p"
  shows "translate u a =
    (if 1 \<le> p \<and> p < e + 23 then Some a
     else if 0xD000 \<le> p \<and> p < 0xD010 then Some (of_nat (e + 23) * PAGE_SIZE + (a - KHEAP_BASE))
     else None)"
proof -
  define t where "t = of_nat (e + 6) * PAGE_SIZE"
  define h where "h = of_nat (e + 4) * PAGE_SIZE"
  have th: "t \<noteq> h" unfolding t_def h_def using assms(4) by (subst page_inj) simp_all
  have fl: "(t OR 7) AND 0xFFFFF000 = t" "(h OR 7) AND 0xFFFFF000 = h"
    unfolding t_def h_def by (simp_all only: page_flags)
  have u: "tables_phys u = (\<lambda>_. 0)(52 := h OR 7, 0 := t OR 7)"
    "ptabs u = (\<lambda>_ _. zero_page)(t := filled (\<lambda>_. zero_page) 0 1 (e + 23), h := filled (\<lambda>_. zero_page) (e + 23) 0 16)"
    using vm_init_run [OF assms(1-6)] assms(7) unfolding t_def h_def by auto
  have p: "page_index a = p div 1024" "page_offset a = p mod 1024"
    using assms(8) by (auto simp: page_index_def page_offset_def unat_div unat_mod PAGE_SIZE_def)
  have z: "present zero_page = 0" by (simp add: zero_page_def)
  have m: "present (mapped x n) = 1" "frameaddr (mapped x n) = of_nat n" for x n by (simp_all add: mapped_def)
  consider "p div 1024 = 0" | "p div 1024 = 52" | "p div 1024 \<noteq> 0" "p div 1024 \<noteq> 52" by blast
  then show ?thesis
  proof cases
    case 1
    then have lt: "p < 1024" by simp
    then have "translate u a = (if 1 \<le> p \<and> p < e + 23 then Some (ucast (of_nat (0 + p) :: 20 word) * 0x1000 + (a AND 0xFFF)) else None)"
      unfolding translate_def p 1 u using th by (simp add: fl page_flags_present filled_def z m Let_def)
    with lt show ?thesis using page_address [of p a p] assms(8) by simp
  next
    case 2
    define k where "k = p mod 1024"
    have k: "p = 0xD000 + k" "k < 1024" using div_mult_mod_eq [of p 1024] unfolding k_def 2 by simp_all
    have "translate u a = (if k < 16 then Some (ucast (of_nat (e + 23 + k) :: 20 word) * 0x1000 + (a AND 0xFFF)) else None)"
      unfolding translate_def p 2 k_def [symmetric] u using th
      by (simp add: fl page_flags_present filled_def z m Let_def del: of_nat_add)
    moreover have "of_nat p * PAGE_SIZE = KHEAP_BASE + of_nat k * PAGE_SIZE"
      unfolding heap_page(1) page_plus k(1) ..
    moreover have "of_nat (e + 23 + k) * PAGE_SIZE = of_nat (e + 23) * PAGE_SIZE + of_nat k * PAGE_SIZE"
      by (simp only: page_plus)
    ultimately show ?thesis
      using page_address [of "e + 23 + k" a p] assms(4,8) k by (simp del: of_nat_add)
  next
    case 3
    then have "\<not> p < e + 23" "\<not> (0xD000 \<le> p \<and> p < 0xD010)" using assms(4) by auto
    with 3 show ?thesis unfolding translate_def p u by simp
  qed
qed

lemma vm_init_inj:
  assumes "\<not> heap_is_initialized s" and "unat (phys_alloc_addr s) div 4096 = e" and "0 < e" and "e < 1000"
    and "frames_below s 0" and "\<forall>t i. ptabs s t i = zero_page" and "vm_init s = Some u"
    and "translate u a = Some x" and "translate u b = Some x"
  shows "a = b"
proof -
  note tr = vm_init_translates [OF assms(1-7)]
  have apart: "\<not> (unat c div 4096 < e + 23 \<and> 0xD000 \<le> unat d div 4096 \<and> unat d div 4096 < 0xD010 \<and>
      c = of_nat (e + 23) * PAGE_SIZE + (d - KHEAP_BASE))" for c d
  proof
    assume h: "unat c div 4096 < e + 23 \<and> 0xD000 \<le> unat d div 4096 \<and> unat d div 4096 < 0xD010 \<and>
      c = of_nat (e + 23) * PAGE_SIZE + (d - KHEAP_BASE)"
    have kb: "unat KHEAP_BASE = 0xD000 * 4096" by (simp add: vm_consts)
    have d: "unat KHEAP_BASE \<le> unat d" "unat d < 0xD010 * 4096"
      unfolding kb using h by (simp_all add: less_eq_div_iff_mult_less_eq div_less_iff_less_mult)
    let ?A = "of_nat (e + 23) * PAGE_SIZE :: u32" and ?B = "d - KHEAP_BASE"
    have B: "unat ?B = unat d - unat KHEAP_BASE"
      using d(1) by (simp add: unat_sub_if_size split: if_splits)
    have A: "unat ?A = (e + 23) * 4096"
      using assms(4) by (simp add: PAGE_SIZE_def unat_word_ariths unsigned_of_nat take_bit_nat_eq_self)
    have "unat (?A + ?B) = unat ?A + unat ?B"
      by (rule unat_add_noflow) (use A B d assms(4) kb in simp)
    moreover have "c = ?A + ?B" using h by blast
    ultimately have "unat c = (e + 23) * 4096 + (unat d - unat KHEAP_BASE)" by (simp only: A B)
    then have "e + 23 \<le> unat c div 4096" by (simp add: less_eq_div_iff_mult_less_eq)
    with h show False by linarith
  qed
  show ?thesis
    using assms(8,9) apart [of a b] apart [of b a]
    unfolding tr [OF refl, of a] tr [OF refl, of b] by (auto split: if_splits)
qed

section \<open>Claims\<close>

text \<open>A machine whose memory reads as zero, with an image that ends at \<open>e\<close>.\<close>

definition reset_vm :: "u32 \<Rightarrow> vm" where
  "reset_vm e = \<lparr>m_env = (\<lambda>_ _ _. 0), m_count = 0, m_trace = [], frames = replicate 512 0, kdir = 0,
     tables = (\<lambda>_. 0), tables_phys = (\<lambda>_. 0), ptabs = (\<lambda>_ _. zero_page), phys_alloc_addr = e,
     heap_addr = KHEAP_BASE, heap_is_initialized = False, cr0 = 0x11, cr3 = 0\<rparr>"

lemma reset_frames: "frames_below (reset_vm e) 0"
  by (simp add: frames_below_def frame_used_def reset_vm_def)

text \<open>
  C28: \<^verbatim>\<open>find_free\<close>, which skips full words of the bitmap and then tests bits, returns
  the first unused frame of all 16384, and -1 exactly when every frame is in use.
\<close>

theorem find_free_first:
  "find_free (s :: 'a vm_scheme) = (case find (\<lambda>k. \<not> bit (frames s ! (k div 32)) (k mod 32)) [0..<16384] of
     Some k \<Rightarrow> of_nat k | None \<Rightarrow> - 1)"
  unfolding find_free_spec first_unused_def frame_used_def ..

text \<open>
  C27: The address space after \<^verbatim>\<open>vm_init\<close>. From a machine with an image of \<open>e\<close>
  pages, zeroed memory and an empty bitmap, initialisation succeeds, turns paging on and the kernel
  heap too. A processor that walks the tables then finds: page 0 faults; the image, the tables and
  64 KiB above them are mapped to themselves; the kernel heap has 16 frames of its own; every other
  address faults. No two addresses share a physical one, and exactly the frames in the tables are
  marked as used.
\<close>

theorem vm_init_address_space:
  assumes "\<not> heap_is_initialized s" and "unat (phys_alloc_addr s) div 4096 = e" and "0 < e" and "e < 1000"
    and "frames_below s 0" and "\<forall>t i. ptabs s t i = zero_page"
  shows "\<exists>u. vm_init s = Some u \<and> heap_is_initialized u \<and> heap_addr u = heap_addr s \<and>
    cr0 u = cr0 s OR 0x80000000 \<and> cr3 u = kdir u + 4096 \<and> frames_below u (e + 39) \<and>
    (\<forall>a. let p = unat a div 4096 in translate u a =
      (if 1 \<le> p \<and> p < e + 23 then Some a
       else if 0xD000 \<le> p \<and> p < 0xD010 then Some (of_nat (e + 23) * PAGE_SIZE + (a - KHEAP_BASE))
       else None)) \<and>
    (\<forall>a b x. translate u a = Some x \<longrightarrow> translate u b = Some x \<longrightarrow> a = b)"
proof -
  obtain u where u: "vm_init s = Some u" "vm_only s u" "heap_is_initialized u" "cr3 u = kdir u + 4096"
    "cr0 u = cr0 s OR 0x80000000" "frames_below u (e + 39)"
    using vm_init_run [OF assms] by blast
  moreover have "heap_addr u = heap_addr s" using u(2) by (cases s; cases u) (simp add: vm_only_def)
  ultimately show ?thesis
    using vm_init_translates [OF assms u(1) refl] vm_init_inj [OF assms u(1)] unfolding Let_def by blast
qed

theorem vm_init_address_space_witness:
  "\<exists>u. vm_init (reset_vm 0x123456) = Some u \<and> heap_is_initialized u \<and> translate u 0 = None \<and>
    translate u 0x100ABC = Some 0x100ABC \<and> translate u 0xD001234 = Some 0x13B234"
proof -
  obtain u where u: "vm_init (reset_vm 0x123456) = Some u" "heap_is_initialized u"
    "\<And>a. translate u a = (let p = unat a div 4096 in
      (if 1 \<le> p \<and> p < 0x123 + 23 then Some a
       else if 0xD000 \<le> p \<and> p < 0xD010 then Some (of_nat (0x123 + 23) * PAGE_SIZE + (a - KHEAP_BASE))
       else None))"
    using vm_init_address_space [where s = "reset_vm 0x123456" and e = "0x123"] reset_frames
    by (auto simp: reset_vm_def Let_def)
  then show ?thesis by (simp add: Let_def vm_consts)
qed

end
