(* ===== verification/Syscall_Inv.thy ===== *)
theory Syscall_Inv
  imports Syscall
begin

text \<open>
  The invariant of the running system: where processes and requests are. Every step of the
  kernel (a serial interrupt, the completion of a request, a yield, a blocking request, the
  dispatch after waiting) keeps it.
\<close>

section \<open>The invariant\<close>

text \<open>
  \<open>R d\<close> are the requests of device \<open>d\<close> in order. A request exists only on an open device, has
  its own heap block, and belongs to a blocked process, which has no other; every blocked
  process has one. The ring buffers are empty.
\<close>

definition device_ok :: "'a serial_scheme \<Rightarrow> nat \<Rightarrow> addr list \<Rightarrow> bool" where
  "device_ok s d xs \<longleftrightarrow> ioq_rel s d xs \<and> ring_empty (dcb_at s d) \<and>
     (event (dcb_at s d) \<longrightarrow> xs \<noteq> []) \<and> (xs \<noteq> [] \<longrightarrow> dopen (dcb_at s d))"

definition requests_ok :: "'a serial_scheme \<Rightarrow> (nat \<Rightarrow> addr list) \<Rightarrow> (nat \<Rightarrow> addr list) \<Rightarrow> bool" where
  "requests_ok s Q R \<longleftrightarrow> (\<forall>d < 4. device_ok s d (R d)) \<and> set (all_queued R) \<subseteq> live_ptrs s \<and>
     distinct (map (\<lambda>x. pcb_rq (iocbs s x)) (all_queued R)) \<and>
     set (map (\<lambda>x. pcb_rq (iocbs s x)) (all_queued R)) = set (Q 1) \<union> set (Q 3)"

text \<open>\<open>P\<close> is the set of processes of the system: those in a queue and the running one.\<close>

definition os_ok :: "'a serial_scheme \<Rightarrow> addr set \<Rightarrow> (nat \<Rightarrow> addr list) \<Rightarrow> (nat \<Rightarrow> addr list) \<Rightarrow> bool" where
  "os_ok s P Q R \<longleftrightarrow> dcbs_ok s \<and> heap_ok s \<and> queues_rel s Q \<and> requests_ok s Q R \<and>
     (\<forall>p \<in> set (all_queued Q). pctxt (pcbs s p) \<noteq> NULL) \<and>
     (pcb_running s \<noteq> NULL \<longrightarrow> loose s Q (pcb_running s)) \<and>
     P = set (all_queued Q) \<union> ({pcb_running s} - {NULL})"

lemma os_okD:
  assumes "os_ok s P Q R"
  shows "dcbs_ok s" "heap_ok s" "queues_rel s Q" "requests_ok s Q R"
    "\<And>p. p \<in> set (all_queued Q) \<Longrightarrow> pctxt (pcbs s p) \<noteq> NULL"
    "pcb_running s \<noteq> NULL \<Longrightarrow> loose s Q (pcb_running s)"
    "P = set (all_queued Q) \<union> ({pcb_running s} - {NULL})"
    "\<And>d. d < 4 \<Longrightarrow> device_ok s d (R d)"
  using assms by (auto simp: os_ok_def requests_ok_def)

lemma set_queues: "set (all_queued Q) = set (Q 0) \<union> set (Q 1) \<union> set (Q 2) \<union> set (Q 3)"
  by (auto simp: all_queued_def)

lemma loose_iff: "loose s Q p \<longleftrightarrow> p \<noteq> NULL \<and> p_next (pcbs s p) = NULL \<and> p \<notin> set (all_queued Q)"
  by (auto simp: loose_def set_all_queued)

lemma all_queued_upd:
  "d < 4 \<Longrightarrow> \<exists>A B. all_queued R = A @ R d @ B \<and> (\<forall>xs. all_queued (R(d := xs)) = A @ xs @ B)"
proof -
  assume "d < 4"
  then consider "d = 0" | "d = 1" | "d = 2" | "d = 3" by linarith
  then show ?thesis
  proof cases
    case 1
    then show ?thesis by (intro exI [of _ "[]"] exI [of _ "R 1 @ R 2 @ R 3"]) (simp add: all_queued_def)
  next
    case 2
    then show ?thesis by (intro exI [of _ "R 0"] exI [of _ "R 2 @ R 3"]) (simp add: all_queued_def)
  next
    case 3
    then show ?thesis by (intro exI [of _ "R 0 @ R 1"] exI [of _ "R 3"]) (simp add: all_queued_def)
  next
    case 4
    then show ?thesis by (intro exI [of _ "R 0 @ R 1 @ R 2"] exI [of _ "[]"]) (simp add: all_queued_def)
  qed
qed

section \<open>Completing a request\<close>

lemma queues_distinct:
  assumes "queues_rel s Q" "i < 4" "j < 4" "p \<in> set (Q i)" "p \<in> set (Q j)"
  shows "i = j"
  using queues_relD(2) [OF assms(1,2,4)] queues_relD(2) [OF assms(1,3,5)] by simp

lemma queued_at_sel: "queues_rel s Q \<Longrightarrow> i < 4 \<Longrightarrow> p \<in> set (Q i) \<Longrightarrow> p \<in> set (Q (sel s p))"
  using queues_relD(2) by metis

lemma blocked_at_sel: "queues_rel s Q \<Longrightarrow> p \<in> set (Q 1) \<union> set (Q 3) \<Longrightarrow> p \<in> set (Q (sel s p))"
  using queued_at_sel [of s Q 1 p] queued_at_sel [of s Q 3 p] by auto

lemma unplaced_sets:
  assumes rel: "queues_rel s Q" and p: "p \<in> set (Q (sel s p))" and i: "i < 4"
  shows "set (unplaced s p Q i) = set (Q i) - {p}"
proof (cases "i = sel s p")
  case True
  have "distinct (Q i)" using queue_rel_distinct [OF queues_relD(1) [OF rel i]] by simp
  then show ?thesis using True by (simp add: unplaced_def)
next
  case False
  have "p \<notin> set (Q i)" using queues_relD(2) [OF rel i, of p] False by auto
  then show ?thesis using False by (simp add: unplaced_def)
qed

lemma woken_sets:
  assumes rel: "queues_rel s Q" and p: "p \<in> set (Q 1) \<union> set (Q 3)"
  shows "set (woken s p Q 1) \<union> set (woken s p Q 3) = set (Q 1) \<union> set (Q 3) - {p}"
    and "set (all_queued (woken s p Q)) = set (all_queued Q)"
proof -
  let ?i = "PSTATE_QUEUE_SELECTOR (readied (p_state (pcbs s p)))"
  have q: "p \<in> set (Q (sel s p))" using p blocked_at_sel [OF rel] by blast
  have i: "?i = 0 \<or> ?i = 2" by (simp add: PSTATE_QUEUE_SELECTOR_def readied_def)
  have w: "set (woken s p Q j) = (if j = ?i then insert p (set (Q j) - {p}) else set (Q j) - {p})" if "j < 4" for j
    using unplaced_sets [OF rel q that] by (auto simp: woken_def Let_def)
  show "set (woken s p Q 1) \<union> set (woken s p Q 3) = set (Q 1) \<union> set (Q 3) - {p}"
    using i by (auto simp: w)
  show "set (all_queued (woken s p Q)) = set (all_queued Q)"
    using i p unfolding set_queues by (auto simp: w)
qed

lemma device_ok_cong:
  assumes "dcb_at t d = dcb_at s d" and "\<And>x. x \<in> set xs \<Longrightarrow> i_next (iocbs t x) = i_next (iocbs s x)"
  shows "device_ok t d xs = device_ok s d xs"
proof -
  have "path (\<lambda>a. i_next (iocbs t a)) h xs NULL = path (\<lambda>a. i_next (iocbs s a)) h xs NULL" for h
    using assms(2) by (rule path_cong)
  then show ?thesis by (simp add: device_ok_def ioq_rel_def assms(1))
qed

lemma complete_event:
  assumes ok: "os_ok s P Q R" and d: "d < 4" and ev: "event (dcb_at s d)" and R: "R d = x # xs"
    and hr: "heap_releasable x s"
  shows "\<exists>u. serial_check_io (dcb_dev (dcb_at s d)) s = Some (1, u) \<and>
    os_ok u P (woken s (pcb_rq (iocbs s x)) Q) (R(d := xs)) \<and>
    ctxts u = (ctxts s)(pctxt (pcbs s (pcb_rq (iocbs s x))) :=
      (ctxts s (pctxt (pcbs s (pcb_rq (iocbs s x)))))\<lparr>c_eax := buffer_idx (dcb_at s d)\<rparr>) \<and>
    live_ptrs u = live_ptrs s - {x} \<and> pcb_running u = pcb_running s \<and> ram u = ram s \<and>
    (\<forall>e. e \<noteq> d \<longrightarrow> dcb_at u e = dcb_at s e) \<and> \<not> event (dcb_at u d) \<and> (\<forall>y. pctxt (pcbs u y) = pctxt (pcbs s y))"
proof -
  note o = os_okD [OF ok]
  note dev = o(8) [OF d]
  have True: "dopen (dcb_at s d) \<and> event (dcb_at s d)" using dev R ev by (simp add: device_ok_def)
  have q: "ioq_rel s d (x # xs)" and ring: "ring_empty (dcb_at s d)" using dev R by (auto simp: device_ok_def)
  define p where "p = pcb_rq (iocbs s x)"
  have rq: "set (all_queued R) \<subseteq> live_ptrs s" "distinct (map (\<lambda>x. pcb_rq (iocbs s x)) (all_queued R))"
    "set (map (\<lambda>x. pcb_rq (iocbs s x)) (all_queued R)) = set (Q 1) \<union> set (Q 3)"
    using o(4) by (auto simp: requests_ok_def)
  obtain A B where AB: "all_queued R = A @ (x # xs) @ B" "all_queued (R(d := xs)) = A @ xs @ B"
    using all_queued_upd [OF d, of R] R by metis
  have x: "x \<in> live_ptrs s" "p \<in> set (Q 1) \<union> set (Q 3)" using rq(1,3) unfolding AB p_def by auto
  have p: "p \<in> set (Q (sel s p))" "pctxt (pcbs s p) \<noteq> NULL"
    using blocked_at_sel [OF o(3) x(2)] x(2) o(5) [of p] by (auto simp: set_queues)
  obtain u where u: "serial_check_io (dcb_dev (dcb_at s d)) s = Some (1, u)" "queues_rel u (woken s p Q)"
    "\<forall>y. pctxt (pcbs u y) = pctxt (pcbs s y)" "ioq_rel u d xs" "live_ptrs u = live_ptrs s - {x}" "heap_ok u"
    "pcb_running u = pcb_running s" "iocbs u = iocbs s" "dcbs_ok u"
    "serial_dcb_list u = (serial_dcb_list s)[d := (if xs = [] then id else restarted)
      (dequeued x (case xs of [] \<Rightarrow> NULL | y # _ \<Rightarrow> y) ((dcb_at s d)\<lparr>event := False\<rparr>))]"
    "\<forall>y. y \<notin> set (all_queued Q) \<longrightarrow> p_next (pcbs u y) = p_next (pcbs s y)" "ram u = ram s"
    "ctxts u = (ctxts s)(pctxt (pcbs s p) := (ctxts s (pctxt (pcbs s p)))\<lparr>c_eax := buffer_idx (dcb_at s d)\<rparr>)"
    using check_io_completes [OF o(1) dcbs_ok_devno [OF o(1) d] _ _ ring q o(3) p_def [symmetric] p o(2) x(1) hr] True
    by blast
  have len: "d < length (serial_dcb_list s)" using dcbs_ok_length [OF o(1)] d by simp
  have dd: "dopen (dcb_at u d) = dopen (dcb_at s d)" "event (dcb_at u d) = False" "ring_empty (dcb_at u d)"
    using ring len unfolding u(10) by (auto simp: dequeued_def restarted_def ring_empty_def)
  have "device_ok u e ((R(d := xs)) e)" if "e < 4" for e
  proof (cases "e = d")
    case True
    then show ?thesis using u(4) dd dev R by (simp add: device_ok_def)
  next
    case False
    then have "dcb_at u e = dcb_at s e" unfolding u(10) by simp
    then show ?thesis using o(8) [OF that] False device_ok_cong [of u e s "R e"] u(8) by simp
  qed
  moreover have "set (map (\<lambda>x. pcb_rq (iocbs u x)) (all_queued (R(d := xs)))) =
      set (woken s p Q 1) \<union> set (woken s p Q 3)"
  proof -
    have "set (woken s p Q 1) \<union> set (woken s p Q 3) = set (map (\<lambda>x. pcb_rq (iocbs s x)) (all_queued R)) - {p}"
      unfolding woken_sets(1) [OF o(3) x(2)] rq(3) ..
    moreover have "p \<notin> set (map (\<lambda>x. pcb_rq (iocbs s x)) (A @ xs @ B))" using rq(2) unfolding AB p_def by auto
    ultimately show ?thesis unfolding u(8) AB p_def by auto
  qed
  moreover have "set (all_queued (R(d := xs))) \<subseteq> live_ptrs u"
    using rq(1,2) unfolding u(5) AB by auto
  moreover have "distinct (map (\<lambda>x. pcb_rq (iocbs u x)) (all_queued (R(d := xs))))"
    using rq(2) unfolding u(8) AB by simp
  ultimately have "requests_ok u (woken s p Q) (R(d := xs))" by (simp add: requests_ok_def)
  moreover have "loose u (woken s p Q) (pcb_running s)" if "pcb_running s \<noteq> NULL"
    using o(6) [OF that] u(11) woken_sets(2) [OF o(3) x(2)] by (auto simp: loose_iff)
  ultimately have "os_ok u P (woken s p Q) (R(d := xs))"
    using o(5,7) u woken_sets(2) [OF o(3) x(2)] by (simp add: os_ok_def)
  moreover have "dcb_at u e = dcb_at s e" if "e \<noteq> d" for e using that unfolding u(10) by simp
  ultimately show ?thesis using u(1,3,5,7,12,13) dd(2) unfolding p_def by blast
qed

lemma complete_step:
  assumes ok: "os_ok s P Q R" and d: "d < 4" and run: "serial_check_io (dcb_dev (dcb_at s d)) s = Some (r, t)"
    and heap: "event (dcb_at s d) \<Longrightarrow> heap_releasable (hd (R d)) s"
  shows "\<exists>Q' R'. os_ok t P Q' R'"
proof (cases "event (dcb_at s d)")
  case False
  then have "serial_check_io (dcb_dev (dcb_at s d)) s = Some (0, s)"
    using check_io_nothing [OF dcbs_ok_devno [OF os_okD(1) [OF ok] d]] by blast
  with run ok show ?thesis by auto
next
  case True
  then obtain x xs where R: "R d = x # xs" using os_okD(8) [OF ok d] by (cases "R d") (auto simp: device_ok_def)
  then obtain u where "serial_check_io (dcb_dev (dcb_at s d)) s = Some (1, u)"
    "os_ok u P (woken s (pcb_rq (iocbs s x)) Q) (R(d := xs))"
    using complete_event [OF ok d True R] heap [OF True] by auto
  with run show ?thesis by auto
qed


section \<open>Interrupts\<close>

text \<open>What an interrupt does to a device: the queue stays, the event flag rises only for a request.\<close>

definition irq_dcb :: "dcb \<Rightarrow> dcb \<Rightarrow> bool" where
  "irq_dcb d d' \<longleftrightarrow> dcb_dev d' = dcb_dev d \<and> iocb_queue_head d' = iocb_queue_head d \<and>
     iocb_queue_tail d' = iocb_queue_tail d \<and> dopen d' = dopen d \<and> (ring_empty d \<longrightarrow> ring_empty d') \<and>
     (event d' \<longrightarrow> event d \<or> iocb_queue_head d \<noteq> NULL)"

definition irq_only :: "'a serial_scheme \<Rightarrow> 'a serial_scheme \<Rightarrow> bool" where
  "irq_only s t \<longleftrightarrow> procs_same s t \<and> (\<forall>bs. heap_rel t bs = heap_rel s bs) \<and> heap_ok t = heap_ok s \<and> live_ptrs t = live_ptrs s \<and> iocbs t = iocbs s \<and>
     length (serial_dcb_list t) = length (serial_dcb_list s) \<and>
     (\<forall>e < length (serial_dcb_list s). irq_dcb (dcb_at s e) (dcb_at t e))"

lemma irq_dcb_refl [simp]: "irq_dcb d d"
  by (simp add: irq_dcb_def)

lemma irq_dcb_trans: "irq_dcb a b \<Longrightarrow> irq_dcb b c \<Longrightarrow> irq_dcb a c"
  by (auto simp: irq_dcb_def)

lemma irq_only_trans: "irq_only s t \<Longrightarrow> irq_only t u \<Longrightarrow> irq_only s u"
  unfolding irq_only_def by (intro conjI allI impI) (auto intro: procs_same_trans irq_dcb_trans)

lemma io_irq_only: "io_only s t \<Longrightarrow> irq_only s t"
  by (cases s; cases t)
     (simp add: io_only_def irq_only_def procs_same_def heap_ok_def heap_rel_def live_ptrs_def)

lemma upd_irq_only: "irq_dcb (dcb_at s d) (f (dcb_at s d)) \<Longrightarrow> irq_only s (upd_dcb d f s)"
proof -
  assume f: "irq_dcb (dcb_at s d) (f (dcb_at s d))"
  have "irq_dcb (dcb_at s e) (dcb_at (upd_dcb d f s) e)" if "e < length (serial_dcb_list s)" for e
    using f that by (cases "e = d") simp_all
  moreover have "heap_rel (upd_dcb d f s) bs = heap_rel s bs" for bs by (simp add: upd_dcb_def heap_rel_def)
  ultimately show ?thesis using dev_only_eqs [OF dev_only_upd(1) [of s d f]] by (simp add: irq_only_def)
qed

lemma ram_irq_only: "irq_only s (s\<lparr>ram := m\<rparr>)"
  using dev_only_eqs [OF dev_only_upd(3) [of s m]] by (simp add: irq_only_def heap_rel_def)

lemma outb_irq_only: "irq_only s (outb p b s)"
  by (rule io_irq_only) (rule io_only_outb [OF io_only_refl])

lemma inb_irq_only: "inb p s = (b, t) \<Longrightarrow> irq_only s t"
  using io_only_inb [of s p] io_irq_only by (metis snd_conv)

lemma ring_put:
  assumes "ring_empty d \<longrightarrow> length rb = length (rbuffer d)" and "iocb_queue_head d \<noteq> NULL"
  shows "irq_dcb d (let d = d\<lparr>rbuffer := rb\<rparr>;
      d = (if rbuffer_idx_end d = rbuffer_idx_begin d
           then d\<lparr>rbuffer_idx_begin := (if rbuffer_idx_begin d + 1 = rbuffer_sz d then 0 else rbuffer_idx_begin d + 1)\<rparr>
           else d)
    in d\<lparr>rbuffer_idx_end := (if rbuffer_idx_end d + 1 = rbuffer_sz d then 0 else rbuffer_idx_end d + 1)\<rparr>)"
  using assms by (auto simp: irq_dcb_def ring_empty_def Let_def)

lemma bump_irq:
  "irq_only s (upd_dcb d (\<lambda>d. d\<lparr>buffer_idx := buffer_idx d + 1\<rparr>) s)"
  by (rule upd_irq_only) (simp add: irq_dcb_def ring_empty_def)

lemma event_irq:
  "iocb_queue_head (dcb_at s d) \<noteq> NULL \<Longrightarrow> irq_only s (upd_dcb d (\<lambda>d. d\<lparr>event := True\<rparr>) s)"
  by (rule upd_irq_only) (simp add: irq_dcb_def ring_empty_def)

lemma bump_head: "iocb_queue_head (dcb_at (upd_dcb d (\<lambda>d. d\<lparr>buffer_idx := buffer_idx d + 1\<rparr>) s) d) =
    iocb_queue_head (dcb_at s d)"
  by (cases "d < length (serial_dcb_list s)") (simp_all add: upd_dcb_def list_update_beyond)

lemma input_irq:
  assumes "serial_input_interrupt d s = Some t"
  shows "irq_only s t"
proof -
  obtain b a where a: "inb (port (dcb_dev (dcb_at s d)) RBR) s = (b, a)" by (rule prod.exhaust)
  let ?rq = "iocbs a (iocb_queue_head (dcb_at a d))"
  have hd: "iocb_queue_head (dcb_at a d) \<noteq> NULL" using assms by (simp add: serial_input_interrupt_def a)
  note run = assms [unfolded serial_input_interrupt_def a prod.case ensure_bind [OF hd]]
  have "irq_only a t"
  proof (cases "io_op ?rq \<noteq> IO_OP_READ")
    case True
    obtain rb where rb: "wr (rbuffer (dcb_at a d)) (rbuffer_idx_end (dcb_at a d)) b = Some rb"
      using run True by (cases "wr (rbuffer (dcb_at a d)) (rbuffer_idx_end (dcb_at a d)) b") (simp_all add: Let_def)
    have "length rb = length (rbuffer (dcb_at a d))" using rb by (simp add: wr_Some_iff)
    then show ?thesis using run True ring_put [OF _ hd, of rb] rb
      by (auto simp: Let_def intro!: upd_irq_only)
  next
    case False
    show ?thesis
    proof (cases "event (dcb_at a d)")
      case True
      then show ?thesis using run False io_irq_only [OF io_only_refl, of a] by (simp add: Let_def)
    next
      case ev: False
      let ?m = "a\<lparr>ram := (ram a)(i_buffer ?rq + buffer_idx (dcb_at a d) := b)\<rparr>"
      let ?u = "upd_dcb d (\<lambda>d. d\<lparr>buffer_idx := buffer_idx d + 1\<rparr>) ?m"
      have "t = ?u \<or> t = upd_dcb d (\<lambda>d. d\<lparr>event := True\<rparr>) ?u"
        using run False ev by (auto simp: Let_def split: if_splits)
      moreover have "irq_only a ?u" by (rule irq_only_trans [OF ram_irq_only bump_irq])
      moreover have "irq_only ?u (upd_dcb d (\<lambda>d. d\<lparr>event := True\<rparr>) ?u)"
        by (rule event_irq) (simp add: bump_head hd)
      ultimately show ?thesis using irq_only_trans by blast
    qed
  qed
  then show ?thesis using inb_irq_only [OF a] irq_only_trans by blast
qed

lemma output_irq:
  assumes "serial_output_interrupt d s = Some t"
  shows "irq_only s t"
proof (cases "event (dcb_at s d)")
  case True
  then show ?thesis using assms io_irq_only [OF io_only_refl, of s] by (simp add: serial_output_interrupt_def)
next
  case False
  have hd: "iocb_queue_head (dcb_at s d) \<noteq> NULL" using assms False by (simp add: serial_output_interrupt_def)
  let ?rq = "iocbs s (iocb_queue_head (dcb_at s d))"
  let ?u = "upd_dcb d (\<lambda>d. d\<lparr>buffer_idx := buffer_idx d + 1\<rparr>) s"
  show ?thesis
  proof (cases "io_op ?rq = IO_OP_WRITE \<and> buffer_idx (dcb_at ?u d) = buffer_sz ?rq")
    case True
    let ?v = "upd_dcb d (\<lambda>d. d\<lparr>event := True\<rparr>) ?u"
    obtain ier w where w: "inb (port (dcb_dev (dcb_at s d)) IER) ?v = (ier, w)" by (rule prod.exhaust)
    have "t = outb (port (dcb_dev (dcb_at s d)) IER) (ier AND NOT (push_bit 1 1)) w"
      using assms False True
      by (simp only: serial_output_interrupt_def Let_def ensure_bind [OF hd] w simp_thms if_True if_False
          bind.bind_lunit prod.case option.inject refl)
    moreover have "irq_only ?u ?v" by (rule event_irq) (simp add: bump_head hd)
    from irq_only_trans [OF irq_only_trans [OF irq_only_trans [OF bump_irq this] inb_irq_only [OF w]] outb_irq_only]
    have "irq_only s (outb (port (dcb_dev (dcb_at s d)) IER) (ier AND NOT (push_bit 1 1)) w)" .
    ultimately show ?thesis by simp
  next
    case other: False
    have "t = s \<or> (\<exists>p b. t = outb p b ?u)"
      using assms False hd other by (auto simp: serial_output_interrupt_def Let_def split: if_splits)
    then show ?thesis
      using irq_only_trans [OF bump_irq [of s d] outb_irq_only] io_irq_only [OF io_only_refl, of s] by blast
  qed
qed

lemma in_irq: "irq_only s (snd (inb p s))"
  by (rule io_irq_only) (rule io_only_inb)

lemma interrupting_irq:
  assumes "interrupting s = Some (d, iir, t)"
  shows "irq_only s t"
proof -
  define a where "a = snd (inb PIC_1_CMD (outb PIC_1_CMD PIC_READ_ISR s))"
  have a: "irq_only s a" unfolding a_def by (rule irq_only_trans [OF outb_irq_only in_irq])
  have "irq_only s t" if "inb p a = (x, t)" for p x
    using irq_only_trans [OF a inb_irq_only [OF that]] .
  moreover have "irq_only s t" if "inb q (snd (inb p a)) = (x, t)" for p q x
    using irq_only_trans [OF irq_only_trans [OF a in_irq] inb_irq_only [OF that]] .
  ultimately show ?thesis
    using assms by (auto simp: interrupting_def Let_def case_prod_unfold a_def split: if_splits)
qed

lemma serial_interrupt_irq:
  assumes "serial_interrupt s = Some t"
  shows "irq_only s t"
proof -
  obtain d iir a where a: "interrupting s = Some (d, iir, a)" using assms by (auto simp: serial_interrupt_def bind_eq_Some_conv)
  obtain b where b: "t = outb PIC_1_CMD PIC_EOI b" "(if \<not> dopen (dcb_at a d) then Some a
        else if iir AND 0x06 = 0 then Some (snd (inb (port (dcb_dev (dcb_at a d)) MSR) a))
        else if iir AND 0x06 = 2 then serial_output_interrupt d a
        else if iir AND 0x06 = 4 then serial_input_interrupt d a
        else Some (snd (inb (port (dcb_dev (dcb_at a d)) LSR) a))) = Some b"
    using assms by (simp add: serial_interrupt_def a bind_eq_Some_conv) blast
  have "irq_only a b"
    using b(2) input_irq output_irq io_irq_only [OF io_only_refl, of a] in_irq [of a]
    by (auto split: if_splits)
  then show ?thesis
    unfolding b(1) by (rule irq_only_trans [OF irq_only_trans [OF interrupting_irq [OF a]] outb_irq_only])
qed


lemma irq_step:
  assumes "irq_only s t" and ok: "os_ok s P Q R"
  shows "os_ok t P Q R"
proof -
  note o = os_okD [OF ok]
  have i: "pcbs t = pcbs s" "pcb_queues t = pcb_queues s" "pcb_running t = pcb_running s" "heap_ok t = heap_ok s"
    "live_ptrs t = live_ptrs s" "iocbs t = iocbs s" "length (serial_dcb_list t) = length (serial_dcb_list s)"
    "\<And>e. e < length (serial_dcb_list s) \<Longrightarrow> irq_dcb (dcb_at s e) (dcb_at t e)"
    using assms(1) by (auto simp: irq_only_def procs_same_def)
  have dev: "device_ok t d (R d)" if d: "d < 4" for d
  proof -
    have "d < length (serial_dcb_list s)" using d dcbs_ok_length [OF o(1)] by simp
    note irq = i(8) [OF this]
    have "iocb_queue_head (dcb_at s d) \<noteq> NULL \<longrightarrow> R d \<noteq> []"
      using o(8) [OF d] by (auto simp: device_ok_def ioq_rel_def)
    then show ?thesis using o(8) [OF d] irq by (auto simp: device_ok_def irq_dcb_def ioq_rel_def i(6))
  qed
  have "map dcb_dev (serial_dcb_list t) = map dcb_dev (serial_dcb_list s)"
    using i(7,8) by (intro nth_equalityI) (auto simp: irq_dcb_def)
  then have "dcbs_ok t" using o(1) by (simp add: dcbs_ok_def)
  moreover have "queues_rel t Q = queues_rel s Q" by (rule queues_rel_cong) (simp_all add: i)
  moreover have "requests_ok t Q R" using dev o(4) by (simp add: requests_ok_def i)
  ultimately show ?thesis using o by (simp add: os_ok_def i loose_def)
qed

section \<open>Dispatching\<close>

lemma links_only_running: "links_only s t \<Longrightarrow> pcb_running t = pcb_running s"
  by (cases s; cases t) (simp add: links_only_def)

text \<open>What the scheduler changes.\<close>

definition sched_only :: "'a procs_scheme \<Rightarrow> 'a procs_scheme \<Rightarrow> bool" where
  "sched_only s t \<longleftrightarrow> t = s\<lparr>pcbs := pcbs t, pcb_queues := pcb_queues t, pcb_running := pcb_running t, ctxts := ctxts t\<rparr>"

lemma sched_only_trans: "sched_only s t \<Longrightarrow> sched_only t u \<Longrightarrow> sched_only s u"
  by (cases s; cases t; cases u) (simp add: sched_only_def)

lemma links_sched: "links_only s t \<Longrightarrow> sched_only s t"
  by (cases s; cases t) (simp add: links_only_def sched_only_def)

lemma sched_only_upd [simp]:
  "sched_only s (set_p_state p v s)" "sched_only s (set_pctxt p a s)" "sched_only s (s\<lparr>pcb_running := q\<rparr>)"
  "sched_only s (set_exec p w s)" "sched_only s (set_eax c n s)" "sched_only s s"
  by (simp_all add: sched_only_def set_p_state_def set_pctxt_def set_exec_def set_eax_def)

lemma sched_only_eqs:
  "sched_only s t \<Longrightarrow> serial_dcb_list t = serial_dcb_list s \<and> iocbs t = iocbs s \<and> heap_ok t = heap_ok s \<and>
     live_ptrs t = live_ptrs s \<and> dcbs_ok t = dcbs_ok s"
  by (cases s; cases t) (simp add: sched_only_def heap_ok_def heap_rel_def live_ptrs_def dcbs_ok_def)

lemma requests_ok_frame:
  assumes "sched_only s t" and "set (Q' 1) \<union> set (Q' 3) = set (Q 1) \<union> set (Q 3)"
  shows "requests_ok t Q' R = requests_ok s Q R"
  using sched_only_eqs [OF assms(1)] assms(2) by (simp add: requests_ok_def device_ok_def ioq_rel_def)

lemma take_head:
  assumes rel: "queues_rel s Q" and Q: "Q 0 = n # ns"
  shows "\<exists>a. pcb_head (pcb_queues s 0) = n \<and> n \<noteq> NULL \<and> pcb_remove n s = Some (0, a) \<and>
    queues_rel a (Q(0 := ns)) \<and> loose a (Q(0 := ns)) n \<and> links_only s a \<and>
    (\<forall>x. x \<notin> set (all_queued Q) \<longrightarrow> p_next (pcbs a x) = p_next (pcbs s x))"
proof -
  have q: "queue_rel (pcbs s) (pcb_queues s 0) (n # ns)" "sel s n = 0"
    using queues_relD(1,2) [OF rel, of 0] Q by auto
  have "unplaced s n Q = Q(0 := ns)" by (simp add: unplaced_def q(2) Q)
  moreover have "n \<in> set (Q (sel s n))" using Q by (simp add: q(2))
  ultimately obtain a where a: "pcb_remove n s = Some (0, a)" "queues_rel a (Q(0 := ns))" "loose a (Q(0 := ns)) n"
    "links_only s a" "\<forall>x. x \<notin> set (Q 0) \<longrightarrow> p_next (pcbs a x) = p_next (pcbs s x)"
    using pcb_remove_rel_next [OF rel, of n] unfolding q(2) by auto
  have "set (Q 0) \<subseteq> set (all_queued Q)" by (rule set_queue_sub) simp
  with a show ?thesis
    using queue_rel_head [OF q(1)] queue_rel_distinct [OF q(1)] by (intro exI [of _ a]) auto
qed

text \<open>Putting a process that is in no queue into the queue of its new state.\<close>

definition put_at :: "(addr \<Rightarrow> pcb) \<Rightarrow> 2 word \<Rightarrow> addr \<Rightarrow> (nat \<Rightarrow> addr list) \<Rightarrow> (nat \<Rightarrow> addr list)" where
  "put_at h v p Q =
     (let i = PSTATE_QUEUE_SELECTOR ((p_state (h p))\<lparr>exec := v\<rparr>) in Q(i := place h (even i) p (Q i)))"

lemma put_at_sets:
  "set (put_at h v p Q j) =
     (if j = PSTATE_QUEUE_SELECTOR ((p_state (h p))\<lparr>exec := v\<rparr>) then insert p (set (Q j)) else set (Q j))"
  "set (all_queued (put_at h v p Q)) = insert p (set (all_queued Q))"
proof -
  define i where "i = PSTATE_QUEUE_SELECTOR ((p_state (h p))\<lparr>exec := v\<rparr>)"
  have "i = 0 \<or> i = 1 \<or> i = 2 \<or> i = 3" by (simp add: i_def PSTATE_QUEUE_SELECTOR_def)
  then show "set (all_queued (put_at h v p Q)) = insert p (set (all_queued Q))"
    by (auto simp: all_queued_def put_at_def Let_def simp flip: i_def)
qed (simp add: put_at_def Let_def)

lemma put_at_odd:
  "set (put_at h PCB_EXEC_READY p Q 1) \<union> set (put_at h PCB_EXEC_READY p Q 3) = set (Q 1) \<union> set (Q 3)"
  "set (put_at h PCB_EXEC_BLOCKED p Q 1) \<union> set (put_at h PCB_EXEC_BLOCKED p Q 3) = insert p (set (Q 1) \<union> set (Q 3))"
  unfolding put_at_sets by (auto simp: PSTATE_QUEUE_SELECTOR_def)

lemma put_at_blocked: "put_at h PCB_EXEC_BLOCKED p Q 0 = Q 0"
  by (simp add: put_at_def Let_def PSTATE_QUEUE_SELECTOR_def)

lemma insert_with:
  fixes v :: "2 word" and c :: addr
  assumes rel: "queues_rel s Q" and p: "loose s Q p"
  defines "b \<equiv> set_exec p v (set_pctxt p c s)"
  shows "\<exists>t. pcb_insert p b = Some t \<and> queues_rel t (put_at (pcbs s) v p Q) \<and> sched_only s t \<and>
    pcb_running t = pcb_running s \<and>
    (\<forall>x. pctxt (pcbs t x) = (if x = p then c else pctxt (pcbs s x))) \<and>
    (\<forall>x. p_state (pcbs t x) = (if x = p then (p_state (pcbs s p))\<lparr>exec := v\<rparr> else p_state (pcbs s x))) \<and>
    (\<forall>x. x \<notin> insert p (set (all_queued Q)) \<longrightarrow> p_next (pcbs t x) = p_next (pcbs s x))"
proof -
  have nQ: "p \<notin> set (all_queued Q)" using p by (simp add: loose_iff)
  have "queues_rel b Q"
    by (rule queues_rel_cong [THEN iffD2, OF _ _ rel])
       (use nQ in \<open>auto simp: b_def set_exec_def set_p_state_def set_pctxt_def\<close>)
  moreover have "loose b Q p" using p by (simp add: loose_def b_def set_exec_def set_p_state_def set_pctxt_def)
  ultimately obtain t where t: "pcb_insert p b = Some t" "queues_rel t (placed b p Q)" "links_only b t"
    "\<forall>x. x \<notin> insert p (set (Q (sel b p))) \<longrightarrow> p_next (pcbs t x) = p_next (pcbs b x)"
    using pcb_insert_rel_next by blast
  have b: "sel b p = PSTATE_QUEUE_SELECTOR ((p_state (pcbs s p))\<lparr>exec := v\<rparr>)"
    "pctxt (pcbs b x) = (if x = p then c else pctxt (pcbs s x))"
    "p_state (pcbs b x) = (if x = p then (p_state (pcbs s p))\<lparr>exec := v\<rparr> else p_state (pcbs s x))"
    "p_next (pcbs b x) = p_next (pcbs s x)" "pcb_running b = pcb_running s" "sched_only s b" for x
    by (simp_all add: b_def set_exec_def set_p_state_def set_pctxt_def sched_only_def)
  have "place (pcbs b) pr p xs = place (pcbs s) pr p xs" for pr xs
    by (rule place_cong) (simp add: b(3))
  then have "placed b p Q = put_at (pcbs s) v p Q" by (simp add: placed_def put_at_def b(1) Let_def)
  moreover have "pcb_running t = pcb_running b" using t(3) by (cases b; cases t) (simp add: links_only_def)
  moreover have "p_next (pcbs t x) = p_next (pcbs s x)" if "x \<notin> insert p (set (all_queued Q))" for x
    using that t(4) set_queue_sub [of "sel b p" Q] by (auto simp: b(4))
  ultimately show ?thesis
    using t(1,2) sched_only_trans [OF b(6) links_sched [OF t(3)]]
    by (intro exI [of _ t])
       (simp add: links_only_frame(3) [OF t(3)] links_only_state [OF t(3)] b)
qed

lemma switch_frame:
  "fst (switch_to n s) = pctxt (pcbs s n)" "pcb_running (snd (switch_to n s)) = n"
  "sched_only s (snd (switch_to n s))" "p_next (pcbs (snd (switch_to n s)) x) = p_next (pcbs s x)"
  "pctxt (pcbs (snd (switch_to n s)) x) = pctxt (pcbs s x)" "pcb_queues (snd (switch_to n s)) = pcb_queues s"
  "x \<noteq> n \<Longrightarrow> pcbs (snd (switch_to n s)) x = pcbs s x" "exec (p_state (pcbs (snd (switch_to n s)) n)) = PCB_EXEC_RUNNING"
  by (simp_all add: switch_to_def Let_def set_exec_def set_p_state_def sched_only_def)

text \<open>A process that is in no queue becomes the running one.\<close>

lemma switch_ok:
  assumes "dcbs_ok s" "heap_ok s" "queues_rel s Q" "requests_ok s Q R"
    and "\<And>p. p \<in> set (all_queued Q) \<Longrightarrow> pctxt (pcbs s p) \<noteq> NULL" and n: "loose s Q n"
  shows "os_ok (snd (switch_to n s)) (insert n (set (all_queued Q))) Q R"
proof -
  let ?t = "snd (switch_to n s)"
  have nQ: "n \<notin> set (all_queued Q)" "n \<noteq> NULL" using n by (auto simp: loose_iff)
  have "queues_rel ?t Q"
    by (rule queues_rel_cong [THEN iffD2, OF _ _ assms(3)]) (use nQ(1) switch_frame(6,7) in \<open>metis+\<close>)
  moreover have "requests_ok ?t Q R" using assms(4) requests_ok_frame [OF switch_frame(3)] by blast
  moreover have "loose ?t Q n" using n by (simp add: loose_def switch_frame)
  ultimately show ?thesis
    using assms sched_only_eqs [OF switch_frame(3) [of s n]] nQ by (auto simp: os_ok_def switch_frame)
qed


lemma os_ok_original [simp]: "os_ok (s\<lparr>context_original := c\<rparr>) P Q R = os_ok s P Q R"
  by (simp add: os_ok_def dcbs_ok_def heap_ok_def heap_rel_def queues_rel_def requests_ok_def device_ok_def
      ioq_rel_def live_ptrs_def loose_def)

section \<open>Yielding\<close>

text \<open>
  The first ready process runs next; the one that yields, if there is one, is inserted into the
  ready queue.
\<close>

definition yielded :: "'a procs_scheme \<Rightarrow> (nat \<Rightarrow> addr list) \<Rightarrow> (nat \<Rightarrow> addr list)" where
  "yielded s Q = (if pcb_running s = NULL then Q(0 := tl (Q 0))
     else put_at (pcbs s) PCB_EXEC_READY (pcb_running s) (Q(0 := tl (Q 0))))"

definition remembered :: "addr \<Rightarrow> 'a os_scheme \<Rightarrow> 'a os_scheme" where
  "remembered c s = (if context_original s = NULL then s\<lparr>context_original := c\<rparr> else s)"

lemma remembered_simps [simp]:
  "pcbs (remembered c s) = pcbs s" "pcb_queues (remembered c s) = pcb_queues s"
  "pcb_running (remembered c s) = pcb_running s" "os_ok (remembered c s) P Q R = os_ok s P Q R"
  "ctxts (remembered c s) = ctxts s" "live_ptrs (remembered c s) = live_ptrs s"
  by (simp_all add: remembered_def live_ptrs_def)

lemma idle_none:
  assumes "os_ok s P Q R" "Q 0 = []"
  shows "sys_idle c s = Some (NULL, remembered c s)"
proof -
  have "queue_rel (pcbs s) (pcb_queues s 0) []" using queues_relD(1) [OF os_okD(3) [OF assms(1)], of 0] assms(2) by simp
  then have "pcb_head (pcb_queues (remembered c s) 0) = NULL" using queue_rel_head by fastforce
  then show ?thesis by (simp add: sys_idle_def remembered_def Let_def)
qed

lemma idle_switch:
  assumes ok: "os_ok s P Q R" and Q: "Q 0 = n # ns" and c: "c \<noteq> NULL"
  shows "\<exists>t. sys_idle c s = Some (pctxt (pcbs s n), t) \<and> pcb_running t = n \<and>
    exec (p_state (pcbs t n)) = PCB_EXEC_RUNNING \<and> os_ok t P (yielded s Q) R \<and>
    (pcb_running s \<noteq> NULL \<longrightarrow> pctxt (pcbs t (pcb_running s)) = c) \<and> sched_only (remembered c s) t"
proof -
  let ?s = "remembered c s" and ?p = "pcb_running s" and ?Q = "Q(0 := ns)"
  have ok': "os_ok ?s P Q R" using ok by simp
  note o = os_okD [OF ok']
  obtain a where a: "pcb_head (pcb_queues ?s 0) = n" "n \<noteq> NULL" "pcb_remove n ?s = Some (0, a)"
    "queues_rel a ?Q" "loose a ?Q n" "links_only ?s a"
    "\<forall>x. x \<notin> set (all_queued Q) \<longrightarrow> p_next (pcbs a x) = p_next (pcbs ?s x)"
    using take_head [OF o(3) Q] by blast
  note la = links_only_frame [OF a(6)] links_only_state [OF a(6)] sched_only_eqs [OF links_sched [OF a(6)]]
  have run_a: "pcb_running a = ?p" using links_only_running [OF a(6)] by simp
  have sub: "set (all_queued Q) = insert n (set (all_queued ?Q))" using Q by (auto simp: set_queues)
  have reqs: "requests_ok a ?Q R"
    using o(4) requests_ok_frame [OF links_sched [OF a(6)], of ?Q Q] by simp
  show ?thesis
  proof (cases "?p = NULL")
    case True
    let ?t = "snd (switch_to n a)"
    have "sys_idle c s = Some (switch_to n a)"
      using a True run_a by (simp add: sys_idle_def remembered_def Let_def)
    moreover have "os_ok ?t (insert n (set (all_queued ?Q))) ?Q R"
      using o la a reqs sub by (intro switch_ok) auto
    ultimately show ?thesis
      using True Q o(7) sub la sched_only_trans [OF links_sched [OF a(6)] switch_frame(3)]
      by (intro exI [of _ ?t]) (simp add: prod_eq_iff switch_frame yielded_def)
  next
    case False
    have "loose a ?Q ?p" using o(6) False a(7) sub by (auto simp: loose_iff)
    from insert_with [OF a(4) this, of PCB_EXEC_READY c] obtain b where
      b: "pcb_insert ?p (set_exec ?p PCB_EXEC_READY (set_pctxt ?p c a)) = Some b"
        "queues_rel b (put_at (pcbs a) PCB_EXEC_READY ?p ?Q)" "sched_only a b"
        "\<forall>x. pctxt (pcbs b x) = (if x = ?p then c else pctxt (pcbs a x))"
        "\<forall>x. x \<notin> insert ?p (set (all_queued ?Q)) \<longrightarrow> p_next (pcbs b x) = p_next (pcbs a x)" by blast
    have put: "put_at (pcbs a) PCB_EXEC_READY ?p ?Q = yielded s Q"
    proof -
      have "place (pcbs a) pr ?p xs = place (pcbs s) pr ?p xs" for pr xs
        by (rule place_cong) (simp add: la)
      then show ?thesis using False by (simp add: yielded_def put_at_def la Q Let_def)
    qed
    have nb: "n \<noteq> ?p" using o(6) False sub by (auto simp: loose_iff)
    let ?t = "snd (switch_to n b)"
    have sets: "set (all_queued (yielded s Q)) = insert ?p (set (all_queued ?Q))"
      unfolding put [symmetric] by (rule put_at_sets(2))
    have "requests_ok b (yielded s Q) R"
      using reqs requests_ok_frame [OF b(3), of "yielded s Q" ?Q] put_at_odd(1) [of "pcbs a" ?p ?Q] unfolding put by blast
    moreover have "loose b (yielded s Q) n"
      using a(5) b(5) nb unfolding loose_iff sets by auto
    ultimately have "os_ok ?t (insert n (set (all_queued (yielded s Q)))) (yielded s Q) R"
      using o la a b(2,4) sub c sched_only_eqs [OF b(3)] unfolding put
      by (intro switch_ok) (auto simp: sets)
    moreover have "sys_idle c s = Some (switch_to n b)"
      using a False run_a b(1) by (simp add: sys_idle_def remembered_def Let_def)
    moreover have "insert n (set (all_queued (yielded s Q))) = P"
      using o(7) False sub unfolding sets by auto
    ultimately show ?thesis
      using b(4) nb la sched_only_trans [OF sched_only_trans [OF links_sched [OF a(6)] b(3)] switch_frame(3)]
      by (intro exI [of _ ?t]) (simp add: prod_eq_iff switch_frame)
  qed
qed

end
