(* ===== verification/Syscall_Run.thy ===== *)
theory Syscall_Run
  imports Syscall_Inv
begin

text \<open>
  Blocking requests, the dispatch after waiting, and the step relation of the running system.
\<close>

section \<open>A request of the running process\<close>

lemma schedule_zero:
  assumes "serial_schedule_io dev b z op s = Some (0, t)"
  shows "b \<noteq> NULL" "z \<noteq> 0" "\<exists>d. serial_devno dev = Some d \<and> dopen (dcb_at s d)"
  using assms by (auto simp: serial_schedule_io_def split: if_splits option.splits)

lemma requests_distinct: "requests_ok s Q R \<Longrightarrow> distinct (all_queued R)"
  by (auto simp: requests_ok_def distinct_map)

lemma requests_apart:
  "distinct (all_queued R) \<Longrightarrow> e < 4 \<Longrightarrow> d < 4 \<Longrightarrow> e \<noteq> d \<Longrightarrow> set (R e) \<inter> set (R d) = {}"
proof -
  assume a: "distinct (all_queued R)" "e < 4" "d < 4" "e \<noteq> d"
  then have "e \<in> {0, 1, 2, 3}" "d \<in> {0, 1, 2, 3}" by auto
  with a show ?thesis by (auto simp: all_queued_def)
qed

lemma schedule_ok:
  assumes ok: "os_ok s P Q R" and room: "heap_room SZ_IOCB s"
    and run: "serial_schedule_io dev b z op s = Some (0, t)"
  shows "\<exists>d x. serial_devno dev = Some d \<and> d < 4 \<and> x \<notin> set (all_queued R) \<and> x \<notin> live_ptrs s \<and> procs_same s t \<and>
    dcbs_ok t \<and> heap_ok t \<and> live_ptrs t = insert x (live_ptrs s) \<and> pcb_rq (iocbs t x) = pcb_running s \<and>
    (\<forall>e < 4. device_ok t e ((R(d := R d @ [x])) e)) \<and>
    (\<forall>y \<in> set (all_queued R). pcb_rq (iocbs t y) = pcb_rq (iocbs s y))"
proof -
  note o = os_okD [OF ok]
  have bz: "b \<noteq> NULL" "z \<noteq> 0" using schedule_zero [OF run] by auto
  obtain d where d: "serial_devno dev = Some d" "dopen (dcb_at s d)" "d < 4"
    using schedule_zero(3) [OF run] serial_devno_dcb [OF o(1)] by blast
  have len: "d < length (serial_dcb_list s)" using dcbs_ok_length [OF o(1)] d(3) by simp
  have live: "set (all_queued R) \<subseteq> live_ptrs s" using o(4) by (simp add: requests_ok_def)
  note dev = o(8) [OF d(3)]
  have same_dev: "map dcb_dev ((serial_dcb_list s)[d := v]) = map dcb_dev (serial_dcb_list s)"
    if "dcb_dev v = dcb_dev (dcb_at s d)" for v
    using that len by (intro nth_equalityI) (auto simp: nth_list_update)
  show ?thesis
  proof (cases "R d")
    case Nil
    have "idle_device s d"
      using dev Nil o(1) d by (auto simp: idle_device_def device_ok_def ioq_rel_def)
    from schedule_idle [OF this d(1) o(2) room bz, of op] run obtain x where
      x: "ioq_rel t d [x]" "x \<notin> live_ptrs s" "live_ptrs t = insert x (live_ptrs s)" "heap_ok t"
        "pcb_rq (iocbs t x) = pcb_running s" "\<forall>y. y \<noteq> x \<longrightarrow> iocbs t y = iocbs s y" "procs_same s t"
        "serial_dcb_list t = (serial_dcb_list s)[d :=
           (dcb_at s d)\<lparr>iocb_queue_head := x, iocb_queue_tail := x, buffer_idx := 0\<rparr>]" by auto
    have xR: "x \<notin> set (all_queued R)" using x(2) live by blast
    have "device_ok t e ((R(d := R d @ [x])) e)" if e: "e < 4" for e
    proof (cases "e = d")
      case True
      have "dcb_at t d = (dcb_at s d)\<lparr>iocb_queue_head := x, iocb_queue_tail := x, buffer_idx := 0\<rparr>"
        unfolding x(8) using len by simp
      then show ?thesis using True Nil x(1) dev d(2) by (simp add: device_ok_def ring_empty_def)
    next
      case False
      have "dcb_at t e = dcb_at s e" unfolding x(8) using False by simp
      moreover have "y \<noteq> x" if "y \<in> set (R e)" for y using xR that set_queue_sub [OF e, of R] by auto
      ultimately show ?thesis using o(8) [OF e] False x(6) by (subst fun_upd_other) (auto simp: device_ok_cong [of t e s])
    qed
    moreover have "dcbs_ok t" using o(1) same_dev unfolding dcbs_ok_def x(8) by simp
    moreover have "pcb_rq (iocbs t y) = pcb_rq (iocbs s y)" if "y \<in> set (all_queued R)" for y
      using x(6) xR that by auto
    ultimately show ?thesis using d x xR by blast
  next
    case (Cons h hs)
    have q: "ioq_rel s d (h # hs)" using dev Cons by (simp add: device_ok_def)
    have "set (h # hs) \<subseteq> live_ptrs s" using live set_queue_sub [OF d(3), of R] Cons by auto
    from schedule_queues [OF o(1) d(1,2) q o(2) room this bz, of op] run obtain x where
      x: "ioq_rel t d (h # hs @ [x])" "x \<notin> live_ptrs s" "live_ptrs t = insert x (live_ptrs s)" "heap_ok t"
        "pcb_rq (iocbs t x) = pcb_running s" "\<forall>y. y \<notin> {x, last (h # hs)} \<longrightarrow> iocbs t y = iocbs s y"
        "\<forall>y. y \<noteq> x \<longrightarrow> iocbs t y = (iocbs s y)\<lparr>i_next := i_next (iocbs t y)\<rparr>" "procs_same s t"
        "serial_dcb_list t = (serial_dcb_list s)[d := (dcb_at s d)\<lparr>iocb_queue_tail := x\<rparr>]" by auto
    have xR: "x \<notin> set (all_queued R)" using x(2) live by blast
    obtain A B where AB: "all_queued R = A @ R d @ B" using all_queued_upd [OF d(3), of R] by blast
    have last: "last (h # hs) \<in> set (R d)" unfolding Cons by (rule last_in_set) simp
    have "device_ok t e ((R(d := R d @ [x])) e)" if e: "e < 4" for e
    proof (cases "e = d")
      case True
      have "dcb_at t d = (dcb_at s d)\<lparr>iocb_queue_tail := x\<rparr>" unfolding x(9) using len by simp
      then show ?thesis using True Cons x(1) dev d(2) by (simp add: device_ok_def ring_empty_def)
    next
      case False
      have "dcb_at t e = dcb_at s e" unfolding x(9) using False by simp
      moreover have "y \<notin> {x, last (h # hs)}" if y: "y \<in> set (R e)" for y
        using xR y set_queue_sub [OF e, of R] last requests_apart [OF requests_distinct [OF o(4)] e d(3) False] by auto
      ultimately show ?thesis using o(8) [OF e] False x(6) by (subst fun_upd_other) (auto simp: device_ok_cong [of t e s])
    qed
    moreover have "dcbs_ok t" using o(1) same_dev unfolding dcbs_ok_def x(9) by simp
    moreover have "pcb_rq (iocbs t y) = pcb_rq (iocbs s y)" if "y \<in> set (all_queued R)" for y
    proof -
      have "iocbs t y = (iocbs s y)\<lparr>i_next := i_next (iocbs t y)\<rparr>" using x(7) xR that by auto
      then show ?thesis by (metis iocb.select_convs(2) iocb.surjective iocb.update_convs(1))
    qed
    ultimately show ?thesis using d x xR by blast
  qed
qed


section \<open>Dispatching after a request\<close>

lemma run_ready_ok:
  assumes s: "dcbs_ok s" "heap_ok s" "queues_rel s Q" "requests_ok s Q R"
    and ctx: "\<And>p. p \<in> set (all_queued Q) \<Longrightarrow> pctxt (pcbs s p) \<noteq> NULL" and Q: "Q 0 = n # ns"
  shows "\<exists>t. run_ready s = Some (pctxt (pcbs s n), t) \<and> pcb_running t = n \<and> sched_only s t \<and> ctxts t = ctxts s \<and>
    exec (p_state (pcbs t n)) = PCB_EXEC_RUNNING \<and> (\<forall>x. pctxt (pcbs t x) = pctxt (pcbs s x)) \<and>
    os_ok t (set (all_queued Q)) (Q(0 := ns)) R"
proof -
  let ?Q = "Q(0 := ns)"
  obtain a where a: "pcb_head (pcb_queues s 0) = n" "pcb_remove n s = Some (0, a)" "queues_rel a ?Q"
    "loose a ?Q n" "links_only s a" using take_head [OF s(3) Q] by blast
  note la = links_only_frame [OF a(5)] sched_only_eqs [OF links_sched [OF a(5)]] links_only_ctxts [OF a(5)]
  have sub: "set (all_queued Q) = insert n (set (all_queued ?Q))" using Q by (auto simp: set_queues)
  have "requests_ok a ?Q R" using s(4) requests_ok_frame [OF links_sched [OF a(5)], of ?Q Q] by simp
  then have "os_ok (snd (switch_to n a)) (set (all_queued Q)) ?Q R"
    unfolding sub using s la a ctx sub by (intro switch_ok) auto
  moreover have "run_ready s = Some (switch_to n a)" using a by (simp add: run_ready_def)
  moreover have "ctxts (snd (switch_to n a)) = ctxts s"
    using la by (simp add: switch_to_def Let_def set_exec_def set_p_state_def)
  ultimately show ?thesis
    using sched_only_trans [OF links_sched [OF a(5)] switch_frame(3)] la
    by (intro exI [of _ "snd (switch_to n a)"]) (simp add: prod_eq_iff switch_frame)
qed

lemma exec_pctxt: "set_pctxt p c (set_exec p v s) = set_exec p v (set_pctxt p c s)"
  by (cases "pcbs s p") (simp add: set_pctxt_def set_exec_def set_p_state_def)

text \<open>The running process waits for its request: it joins the blocked queue.\<close>

lemma block_ok:
  assumes ok: "os_ok s P Q R" and p: "pcb_running s \<noteq> NULL" and room: "heap_room SZ_IOCB s" and c: "c \<noteq> NULL"
    and run: "serial_schedule_io dev b z op s = Some (0, u)"
  defines "p \<equiv> pcb_running s"
  defines "Q' \<equiv> put_at (pcbs s) PCB_EXEC_BLOCKED p Q"
  shows "\<exists>t d x. pcb_insert p (set_pctxt p c (set_exec p PCB_EXEC_BLOCKED u)) = Some t \<and>
    serial_devno dev = Some d \<and> d < 4 \<and> queues_rel t Q' \<and> requests_ok t Q' (R(d := R d @ [x])) \<and>
    dcbs_ok t \<and> heap_ok t \<and> pcb_running t = p \<and> set (all_queued Q') = P \<and> sched_only u t \<and>
    (\<forall>y. pctxt (pcbs t y) = (if y = p then c else pctxt (pcbs s y))) \<and>
    (\<forall>y. p_state (pcbs t y) = (if y = p then (p_state (pcbs s p))\<lparr>exec := PCB_EXEC_BLOCKED\<rparr> else p_state (pcbs s y))) \<and>
    pcb_rq (iocbs t x) = p \<and> (\<forall>q \<in> set (all_queued Q'). pctxt (pcbs t q) \<noteq> NULL) \<and>
    x \<notin> live_ptrs s \<and> live_ptrs t = insert x (live_ptrs s)"
proof -
  note o = os_okD [OF ok]
  obtain d x where x: "serial_devno dev = Some d" "d < 4" "x \<notin> set (all_queued R)" "procs_same s u" "dcbs_ok u" "heap_ok u"
    "live_ptrs u = insert x (live_ptrs s)" "pcb_rq (iocbs u x) = p"
    "\<forall>e < 4. device_ok u e ((R(d := R d @ [x])) e)"
    "\<forall>y \<in> set (all_queued R). pcb_rq (iocbs u y) = pcb_rq (iocbs s y)" "x \<notin> live_ptrs s"
    using schedule_ok [OF ok room run] unfolding p_def by blast
  have u: "pcbs u = pcbs s" "pcb_queues u = pcb_queues s" "pcb_running u = p"
    using x(4) by (auto simp: procs_same_def p_def)
  have "queues_rel u Q" by (rule queues_rel_cong [THEN iffD2, OF _ _ o(3)]) (simp_all add: u)
  moreover have lp: "loose s Q p" using o(6) p by (simp add: p_def)
  then have "loose u Q p" by (simp add: loose_def u)
  ultimately obtain t where t: "pcb_insert p (set_pctxt p c (set_exec p PCB_EXEC_BLOCKED u)) = Some t"
    "queues_rel t Q'" "sched_only u t" "pcb_running t = pcb_running u"
    "\<forall>y. pctxt (pcbs t y) = (if y = p then c else pctxt (pcbs u y))"
    "\<forall>y. p_state (pcbs t y) = (if y = p then (p_state (pcbs u p))\<lparr>exec := PCB_EXEC_BLOCKED\<rparr> else p_state (pcbs u y))"
    using insert_with [of u Q p PCB_EXEC_BLOCKED c] unfolding exec_pctxt Q'_def u by blast
  have setQ: "set (all_queued Q') = insert p (set (all_queued Q))" unfolding Q'_def by (rule put_at_sets(2))
  then have P: "set (all_queued Q') = P" using o(7) p by (auto simp: p_def)
  let ?R = "R(d := R d @ [x])"
  obtain A B where AB: "all_queued R = A @ R d @ B" "all_queued ?R = A @ (R d @ [x]) @ B"
    using all_queued_upd [OF x(2), of R] by metis
  note rq = o(4) [unfolded requests_ok_def]
  have rqu: "map (\<lambda>y. pcb_rq (iocbs u y)) (all_queued R) = map (\<lambda>y. pcb_rq (iocbs s y)) (all_queued R)"
    using x(10) by simp
  have pn: "p \<notin> set (Q 1) \<union> set (Q 3)" using lp by (simp add: loose_def)
  have "distinct (map (\<lambda>y. pcb_rq (iocbs u y)) (all_queued ?R))"
  proof -
    have "distinct (map (\<lambda>y. pcb_rq (iocbs u y)) (all_queued R))" "p \<notin> set (map (\<lambda>y. pcb_rq (iocbs u y)) (all_queued R))"
      unfolding rqu using rq pn by auto
    then show ?thesis unfolding AB by (auto simp: x(8))
  qed
  moreover have "set (map (\<lambda>y. pcb_rq (iocbs u y)) (all_queued ?R)) = insert p (set (Q 1) \<union> set (Q 3))"
  proof -
    have "set (map (\<lambda>y. pcb_rq (iocbs u y)) (all_queued R)) = set (Q 1) \<union> set (Q 3)" unfolding rqu using rq by blast
    then show ?thesis unfolding AB by (auto simp: x(8))
  qed
  moreover have "set (all_queued ?R) \<subseteq> live_ptrs u" using rq unfolding AB x(7) by auto
  ultimately have "requests_ok u Q' ?R"
    using x(9) put_at_odd(2) [of "pcbs s" p Q] by (simp add: requests_ok_def Q'_def)
  then have "requests_ok t Q' ?R" using requests_ok_frame [OF t(3), of Q' Q'] by simp
  moreover have "\<forall>q \<in> set (all_queued Q'). pctxt (pcbs t q) \<noteq> NULL"
    unfolding setQ using t(5) o(5) c by (auto simp: u)
  moreover have "dcbs_ok t" "heap_ok t" "pcb_rq (iocbs t x) = p" "live_ptrs t = insert x (live_ptrs s)"
    using sched_only_eqs [OF t(3)] x(5,6,7,8) by auto
  ultimately show ?thesis using t x(1,2,11) P u
    by (intro exI [of _ t] exI [of _ d] exI [of _ x]) (simp only: simp_thms if_True)
qed

text \<open>With another process ready, the call switches to it.\<close>

lemma io_switch:
  assumes ok: "os_ok s P Q R" and p: "pcb_running s \<noteq> NULL" and room: "heap_room SZ_IOCB s" and c: "c \<noteq> NULL"
    and run: "serial_schedule_io (c_ebx (ctxts s c)) (c_ecx (ctxts s c)) (c_edx (ctxts s c)) op s = Some (0, u)"
    and Q: "Q 0 = n # ns"
  shows "\<exists>t d x. sys_io op ks c s = Some (pctxt (pcbs s n), t) \<and> pcb_running t = n \<and>
    serial_devno (c_ebx (ctxts s c)) = Some d \<and> pcb_rq (iocbs t x) = pcb_running s \<and>
    pctxt (pcbs t (pcb_running s)) = c \<and> exec (p_state (pcbs t n)) = PCB_EXEC_RUNNING \<and>
    os_ok t P ((put_at (pcbs s) PCB_EXEC_BLOCKED (pcb_running s) Q)(0 := ns)) (R(d := R d @ [x])) \<and>
    d < 4 \<and> x \<notin> live_ptrs s \<and> live_ptrs t = insert x (live_ptrs s)"
proof -
  let ?p = "pcb_running s" and ?Q = "put_at (pcbs s) PCB_EXEC_BLOCKED (pcb_running s) Q"
  obtain a d x where a: "pcb_insert ?p (set_pctxt ?p c (set_exec ?p PCB_EXEC_BLOCKED u)) = Some a"
    "serial_devno (c_ebx (ctxts s c)) = Some d" "queues_rel a ?Q" "requests_ok a ?Q (R(d := R d @ [x]))" "dcbs_ok a" "heap_ok a"
    "set (all_queued ?Q) = P" "\<forall>y. pctxt (pcbs a y) = (if y = ?p then c else pctxt (pcbs s y))"
    "pcb_rq (iocbs a x) = ?p" "\<forall>q \<in> set (all_queued ?Q). pctxt (pcbs a q) \<noteq> NULL"
    "d < 4" "x \<notin> live_ptrs s" "live_ptrs a = insert x (live_ptrs s)"
    using block_ok [OF ok p room c run] by blast
  have Q0: "?Q 0 = n # ns" using Q by (simp add: put_at_blocked)
  obtain t where t: "run_ready a = Some (pctxt (pcbs a n), t)" "pcb_running t = n" "sched_only a t"
    "exec (p_state (pcbs t n)) = PCB_EXEC_RUNNING" "\<forall>x. pctxt (pcbs t x) = pctxt (pcbs a x)"
    "os_ok t (set (all_queued ?Q)) (?Q(0 := ns)) (R(d := R d @ [x]))"
    using run_ready_ok [OF a(5,6,3,4) _ Q0] a(10) by blast
  have hd: "pcb_head (pcb_queues a 0) \<noteq> NULL" using take_head [OF a(3) Q0] by auto
  have "n \<in> set (all_queued Q)" using Q set_queue_sub [of 0 Q] by auto
  then have np: "n \<noteq> ?p" using os_okD(6) [OF ok p] by (auto simp: loose_iff)
  have up: "pcb_running u = ?p" using schedule_ok [OF ok room run] by (auto simp: procs_same_def)
  have "sys_io op ks c s = Some (pctxt (pcbs s n), t)"
    using p run a(1) hd t(1) a(8) np by (simp add: sys_io_def up)
  then show ?thesis using a t sched_only_eqs [OF t(3)] by auto
qed


section \<open>Steps of the running system\<close>

text \<open>
  A step is a serial interrupt; the completion of a device's request; the halting of the
  processor; anything the code between two entries of the kernel does to memory, saved contexts and ports
  (a process that computes, and prepares the context and the registers of its next call); a
  system call other than EXIT that finds no finished request and returns; or, when a blocking call
  finds no other process ready, its two halves: up to the waiting loop, and from its end. A call
  that finds finished requests is their completions, followed by the call. With the list of turns
  empty, \<open>sys_call\<close> returns exactly when it does not wait. The premises about the heap say that a new
  request finds a free block, and that the block of a finished one is released where the heap manager
  is correct.
\<close>

inductive os_step :: "'a os_scheme \<Rightarrow> 'a os_scheme \<Rightarrow> bool" where
  irq: "serial_interrupt s = Some t \<Longrightarrow> os_step s t"
| complete: "d < 4 \<Longrightarrow> serial_check_io (dcb_dev (dcb_at s d)) s = Some (r, t) \<Longrightarrow>
    event (dcb_at s d) \<longrightarrow> heap_releasable (iocb_queue_head (dcb_at s d)) s \<Longrightarrow> os_step s t"
| halt: "os_step s (cli (hlt (sti s)))"
| compute: "os_step s (s\<lparr>ram := m, ctxts := cs, m_trace := m_trace s @ es, m_count := m_count s + n\<rparr>)"
| call: "sys_call [] c s = Some (r, t) \<Longrightarrow> c \<noteq> NULL \<Longrightarrow> c_eax (ctxts s c) \<noteq> EXIT \<Longrightarrow> \<forall>d < 4. quiet s d \<Longrightarrow>
    c_eax (ctxts s c) = READ \<or> c_eax (ctxts s c) = WRITE \<longrightarrow> heap_room SZ_IOCB s \<Longrightarrow> os_step s t"
| wait: "pcb_running s = p \<Longrightarrow> p \<noteq> NULL \<Longrightarrow> c \<noteq> NULL \<Longrightarrow> heap_room SZ_IOCB s \<Longrightarrow>
    serial_schedule_io (c_ebx (ctxts s c)) (c_ecx (ctxts s c)) (c_edx (ctxts s c)) op (set_eax c 0 s) = Some (0, u) \<Longrightarrow>
    pcb_insert p (set_pctxt p c (set_exec p PCB_EXEC_BLOCKED u)) = Some t \<Longrightarrow>
    os_step s (t\<lparr>pcb_running := NULL\<rparr>)"
| resume: "pcb_running s = NULL \<Longrightarrow> run_ready s = Some (r, t) \<Longrightarrow> os_step s t"

inductive_cases os_stepE: "os_step s t"

inductive os_reach :: "'a os_scheme \<Rightarrow> 'a os_scheme \<Rightarrow> bool" where
  start: "os_reach s s"
| step: "os_reach s t \<Longrightarrow> os_step t u \<Longrightarrow> os_reach s u"

lemma os_ok_eax [simp]: "os_ok (set_eax c v s) P Q R = os_ok s P Q R"
  by (simp add: os_ok_def dcbs_ok_def heap_ok_def heap_rel_def queues_rel_def requests_ok_def device_ok_def
      ioq_rel_def live_ptrs_def loose_def set_eax_def)

lemma room_eax [simp]: "heap_room n (set_eax c v s) = heap_room n s"
  by (simp add: heap_room_def heap_rel_def set_eax_def)

lemma quiet_call:
  assumes ok: "os_ok s P Q R" and q: "\<forall>d < 4. quiet s d"
  shows "sys_call ks c s =
    (let opc = c_eax (ctxts s c); s = set_eax c 0 s
     in if opc = READ then sys_read ks c s else if opc = WRITE then sys_write ks c s
        else if opc = IDLE then sys_idle c s else if opc = EXIT then sys_exit s else Some (NULL, s))"
  using sys_check_io_quiet [OF os_okD(1) [OF ok] q] by (simp add: sys_call_def Let_def)

text \<open>A request that is not accepted changes nothing but the result of the call.\<close>

lemma alloc_None_room: "heap_ok s \<Longrightarrow> heap_room n s \<Longrightarrow> \<exists>p t. sys_alloc_mem n s = Some (p, t) \<and> p \<noteq> NULL"
  using heap.malloc_fresh by blast

lemma schedule_refused:
  assumes "serial_schedule_io dev b z op s = Some (r, t)" and "r \<noteq> 0" and "heap_ok s" "heap_room SZ_IOCB s"
  shows "t = s"
proof -
  obtain p u where p: "sys_alloc_mem SZ_IOCB s = Some (p, u)" "p \<noteq> NULL" using alloc_None_room [OF assms(3,4)] by blast
  show ?thesis
  proof (cases "\<exists>d. b \<noteq> NULL \<and> z \<noteq> 0 \<and> serial_devno dev = Some d \<and> dopen (dcb_at s d)")
    case False
    then show ?thesis using assms(1) by (auto simp: serial_schedule_io_def split: if_splits option.splits)
  next
    case True
    then obtain d where d: "b \<noteq> NULL" "z \<noteq> 0" "serial_devno dev = Some d" "dopen (dcb_at s d)" by blast
    then show ?thesis using assms(1,2) p
      by (auto simp: serial_schedule_io_def serial_read_def serial_write_def bind_eq_Some_conv Let_def
          split: if_splits prod.splits)
  qed
qed

text \<open>
  Which heap blocks are live, apart from those of requests, no step changes.
\<close>

definition other_live :: "'a heap_scheme \<Rightarrow> (nat \<Rightarrow> addr list) \<Rightarrow> addr set" where
  "other_live s R = live_ptrs s - set (all_queued R)"

lemma live_eax [simp]: "live_ptrs (set_eax c v s) = live_ptrs s"
  by (simp add: live_ptrs_def set_eax_def)

lemma other_live_add:
  assumes "requests_ok s Q R" and "d < 4" and "x \<notin> live_ptrs s" and "live_ptrs t = insert x (live_ptrs s)"
  shows "other_live t (R(d := R d @ [x])) = other_live s R"
proof -
  obtain A B where AB: "all_queued R = A @ R d @ B" "all_queued (R(d := R d @ [x])) = A @ (R d @ [x]) @ B"
    using all_queued_upd [OF assms(2), of R] by metis
  have "set (all_queued R) \<subseteq> live_ptrs s" using assms(1) by (simp add: requests_ok_def)
  then show ?thesis using assms(3) unfolding other_live_def assms(4) AB by auto
qed

lemma other_live_del:
  assumes "requests_ok s Q R" and "d < 4" and R: "R d = x # xs" and "live_ptrs t = live_ptrs s - {x}"
  shows "other_live t (R(d := xs)) = other_live s R"
proof -
  obtain A B where AB: "all_queued R = A @ R d @ B" "all_queued (R(d := xs)) = A @ xs @ B"
    using all_queued_upd [OF assms(2), of R] by metis
  then show ?thesis using requests_distinct [OF assms(1)] unfolding other_live_def assms(4) AB R by auto
qed

lemma io_step:
  assumes ok: "os_ok s P Q R" and run: "sys_io op [] c s = Some (r, t)" and c: "c \<noteq> NULL"
    and room: "heap_room SZ_IOCB s"
  shows "\<exists>Q' R'. os_ok t P Q' R' \<and> other_live t R' = other_live s R"
proof (cases "pcb_running s = NULL")
  case True
  then have "t = set_eax c (- 1) s" using run by (simp add: sys_io_def)
  then show ?thesis using ok by (intro exI [of _ Q] exI [of _ R]) (simp add: other_live_def)
next
  case False
  obtain v u where u: "serial_schedule_io (c_ebx (ctxts s c)) (c_ecx (ctxts s c)) (c_edx (ctxts s c)) op s = Some (v, u)"
    using run False by (auto simp: sys_io_def Let_def bind_eq_Some_conv)
  show ?thesis
  proof (cases "v = 0")
    case v: True
    show ?thesis
    proof (cases "Q 0")
      case Nil
      let ?p = "pcb_running s"
      obtain a where a: "pcb_insert ?p (set_pctxt ?p c (set_exec ?p PCB_EXEC_BLOCKED u)) = Some a"
        "queues_rel a (put_at (pcbs s) PCB_EXEC_BLOCKED ?p Q)"
        using block_ok [OF ok False room c u [unfolded v]] by blast
      have "pcb_head (pcb_queues a 0) = NULL"
        using queue_rel_head [OF queues_relD(1) [OF a(2), of 0]] Nil by (simp add: put_at_blocked)
      moreover have "pcb_running u = ?p" using schedule_ok [OF ok room u [unfolded v]] by (auto simp: procs_same_def)
      ultimately have "sys_io op [] c s = None" using False u v a(1) by (simp add: sys_io_def)
      then show ?thesis using run by simp
    next
      case (Cons n ns)
      obtain t' d x where t: "sys_io op [] c s = Some (pctxt (pcbs s n), t')"
        "os_ok t' P ((put_at (pcbs s) PCB_EXEC_BLOCKED (pcb_running s) Q)(0 := ns)) (R(d := R d @ [x]))"
        "d < 4" "x \<notin> live_ptrs s" "live_ptrs t' = insert x (live_ptrs s)"
        using io_switch [OF ok False room c u [unfolded v] Cons, of "[]"] by blast
      then have "other_live t' (R(d := R d @ [x])) = other_live s R" using other_live_add [OF os_okD(4) [OF ok]] by blast
      moreover have "t' = t" using run t(1) by simp
      ultimately show ?thesis using t(2) by blast
    qed
  next
    case v: False
    then have "u = s" using schedule_refused [OF u v os_okD(2) [OF ok] room] by simp
    then have "t = s" using run u False v by (auto simp: sys_io_def)
    then show ?thesis using ok by blast
  qed
qed

lemma running_NULL_ok:
  assumes "dcbs_ok s" "heap_ok s" "queues_rel s Q" "requests_ok s Q R"
    and "\<And>p. p \<in> set (all_queued Q) \<Longrightarrow> pctxt (pcbs s p) \<noteq> NULL"
  shows "os_ok (s\<lparr>pcb_running := NULL\<rparr>) (set (all_queued Q)) Q R"
proof -
  have so: "sched_only s (s\<lparr>pcb_running := NULL\<rparr>)" by simp
  have "queues_rel (s\<lparr>pcb_running := NULL\<rparr>) Q = queues_rel s Q" by (rule queues_rel_cong) simp_all
  then show ?thesis
    using assms requests_ok_frame [OF so, of Q Q] sched_only_eqs [OF so] by (simp add: os_ok_def)
qed

lemma idle_live:
  assumes "sys_idle c s = Some (r, t)" and "os_ok s P Q R" and "c \<noteq> NULL"
  shows "\<exists>Q'. os_ok t P Q' R \<and> live_ptrs t = live_ptrs s"
proof (cases "Q 0")
  case Nil
  then have "t = remembered c s" using idle_none [OF assms(2)] assms(1) by simp
  with assms(2) show ?thesis by (intro exI [of _ Q]) simp
next
  case (Cons n ns)
  from idle_switch [OF assms(2) Cons assms(3)] assms(1)
  have "os_ok t P (yielded s Q) R" "sched_only (remembered c s) t" by auto
  with sched_only_eqs [of "remembered c s" t] show ?thesis by auto
qed

lemma computed_ok [simp]:
  "os_ok (s\<lparr>ram := m, ctxts := cs, m_trace := es, m_count := n\<rparr>) P Q R = os_ok s P Q R"
  "live_ptrs (s\<lparr>ram := m, ctxts := cs, m_trace := es, m_count := n\<rparr>) = live_ptrs s"
  by (simp_all add: os_ok_def dcbs_ok_def heap_ok_def heap_rel_def queues_rel_def requests_ok_def device_ok_def
      ioq_rel_def live_ptrs_def loose_def)

lemma os_step_own:
  assumes "os_step s t" and ok: "os_ok s P Q R"
  shows "\<exists>Q' R'. os_ok t P Q' R' \<and> other_live t R' = other_live s R"
  using assms(1)
proof cases
  case irq
  note i = serial_interrupt_irq [OF this]
  have "os_ok t P Q R" "live_ptrs t = live_ptrs s" using irq_step [OF i ok] i by (simp_all add: irq_only_def)
  then show ?thesis by (intro exI [of _ Q] exI [of _ R]) (simp add: other_live_def)
next
  case (complete d r)
  show ?thesis
  proof (cases "event (dcb_at s d)")
    case False
    then have "serial_check_io (dcb_dev (dcb_at s d)) s = Some (0, s)"
      using check_io_nothing [OF dcbs_ok_devno [OF os_okD(1) [OF ok] complete(1)]] by blast
    with complete(2) ok show ?thesis by auto
  next
    case True
    have "device_ok s d (R d)" using os_okD(8) [OF ok complete(1)] .
    then obtain x xs where R: "R d = x # xs" "ioq_rel s d (x # xs)"
      using True by (cases "R d") (auto simp: device_ok_def)
    have "iocb_queue_head (dcb_at s d) = x" using ioq_head [OF R(2)] by simp
    then have "heap_releasable x s" using complete(3) True by simp
    from complete_event [OF ok complete(1) True R(1) this] complete(2)
    have "os_ok t P (woken s (pcb_rq (iocbs s x)) Q) (R(d := xs))" "live_ptrs t = live_ptrs s - {x}" by auto
    with other_live_del [OF os_okD(4) [OF ok] complete(1) R(1)] show ?thesis by blast
  qed
next
  case halt
  have "irq_only s t"
    unfolding halt by (rule io_irq_only) (simp add: io_only_def cli_def hlt_def sti_def)
  then have "os_ok t P Q R" "live_ptrs t = live_ptrs s" using irq_step [OF _ ok] by (auto simp: irq_only_def)
  then show ?thesis by (intro exI [of _ Q] exI [of _ R]) (simp add: other_live_def)
next
  case compute
  then show ?thesis using ok by (intro exI [of _ Q] exI [of _ R]) (simp add: other_live_def)
next
  case (call c r)
  let ?s = "set_eax c 0 s" and ?o = "c_eax (ctxts s c)"
  have ok': "os_ok ?s P Q R" using ok by simp
  have same: "other_live ?s R = other_live s R" by (simp add: other_live_def)
  consider (io) op where "?o = READ \<or> ?o = WRITE" "sys_io op [] c ?s = Some (r, t)"
    | (idle) "sys_idle c ?s = Some (r, t)" | (none) "t = ?s"
    using call(1,3) unfolding quiet_call [OF ok call(4)]
    by (auto simp: Let_def sys_read_def sys_write_def split: if_splits)
  then show ?thesis
  proof cases
    case io
    then have "heap_room SZ_IOCB ?s" using call(5) by simp
    from io_step [OF ok' io(2) call(2) this] show ?thesis unfolding same .
  next
    case idle
    from idle_live [OF this ok' call(2)] show ?thesis by (auto simp: other_live_def)
  next
    case none
    then show ?thesis using ok' same by blast
  qed
next
  case (wait p c op u v)
  have ok': "os_ok (set_eax c 0 s) P Q R" "heap_room SZ_IOCB (set_eax c 0 s)" using ok wait(5) by simp_all
  have "pcb_running (set_eax c 0 s) \<noteq> NULL" using wait by simp
  from block_ok [OF ok'(1) this ok'(2) wait(4) wait(6)] wait(2,7) obtain d x where
    b: "queues_rel v (put_at (pcbs s) PCB_EXEC_BLOCKED p Q)" "dcbs_ok v" "heap_ok v"
    "requests_ok v (put_at (pcbs s) PCB_EXEC_BLOCKED p Q) (R(d := R d @ [x]))"
    "set (all_queued (put_at (pcbs s) PCB_EXEC_BLOCKED p Q)) = P"
    "\<forall>q \<in> set (all_queued (put_at (pcbs s) PCB_EXEC_BLOCKED p Q)). pctxt (pcbs v q) \<noteq> NULL"
    "d < 4" "x \<notin> live_ptrs s" "live_ptrs v = insert x (live_ptrs s)"
    by auto
  have "live_ptrs (v\<lparr>pcb_running := NULL\<rparr>) = insert x (live_ptrs s)" using b(9) by (simp add: live_ptrs_def)
  then have "other_live (v\<lparr>pcb_running := NULL\<rparr>) (R(d := R d @ [x])) = other_live s R"
    using other_live_add [OF os_okD(4) [OF ok] b(7,8)] by blast
  then show ?thesis unfolding wait(1) using running_NULL_ok [OF b(2,3,1,4)] b(5,6) by blast
next
  case (resume r)
  note o = os_okD [OF ok]
  have "Q 0 \<noteq> []"
  proof
    assume "Q 0 = []"
    then have "pcb_head (pcb_queues s 0) = NULL" using queue_rel_head [OF queues_relD(1) [OF o(3), of 0]] by simp
    then show False using resume(2) by (simp add: run_ready_def pcb_remove_def)
  qed
  then obtain n ns where "Q 0 = n # ns" by (cases "Q 0") auto
  from run_ready_ok [OF o(1-4) o(5) this] resume o(7)
  have "sched_only s t" "os_ok t P (Q(0 := ns)) R" by auto
  with sched_only_eqs [of s t] show ?thesis by (auto simp: other_live_def)
qed

lemma os_step_ok: "os_step s t \<Longrightarrow> os_ok s P Q R \<Longrightarrow> \<exists>Q' R'. os_ok t P Q' R'"
  using os_step_own by blast

lemma os_reach_ok: "os_reach s t \<Longrightarrow> os_ok s P Q R \<Longrightarrow> \<exists>Q' R'. os_ok t P Q' R'"
proof (induction rule: os_reach.induct)
  case (step s t u)
  then show ?case using os_step_ok by blast
qed blast

end
