(* ===== verification/Syscall_Read.thy ===== *)
theory Syscall_Read
  imports Syscall_Run
begin

text \<open>
  A blocking read from the system call to its return: the request is queued, the processor
  halts until the line has arrived, the request completes and the process runs again.
\<close>

section \<open>A heap used as a stack\<close>

lemma stack_alloc:
  assumes rel: "heap_rel s bs" and st: "stack_like bs" and room: "unat sz + 12 < unat (fst (snd (last bs)))"
    and ok: "heap_ok s" and run: "sys_alloc_mem sz s = Some (p, t)"
  shows "heap_rel t (snd (a_alloc sz bs))" "stack_like (snd (a_alloc sz bs))"
proof -
  obtain q u where "allocate_memory sz s = Some (q, u)" "heap_rel u (snd (a_alloc sz bs))"
    "stack_like (snd (a_alloc sz bs))" using lifo_rel [OF rel st room] by blast
  moreover have "allocate_memory sz s = Some (p, t)" using ok run by (simp add: heap_ok_def sys_alloc_mem_def)
  ultimately show "heap_rel t (snd (a_alloc sz bs))" "stack_like (snd (a_alloc sz bs))" by auto
qed

lemma stack_room:
  assumes rel: "heap_rel s bs" and st: "stack_like bs" and room: "unat sz + 12 < unat (fst (snd (last bs)))"
  shows "heap_room sz s"
proof -
  from st obtain A a n where bs: "bs = A @ [(a, n, True)]" and fA: "frees A = []" by (rule stack_likeE)
  have r: "unat sz + 12 < unat n" using room by (simp add: bs)
  then have "sz \<le> n" by (simp add: word_le_nat_alt)
  then have "fit_at sz bs = Some (A, a, n, [])" by (simp add: bs fit_at_no_free fA)
  moreover from this have "alloc_safe sz bs" using r by (simp add: alloc_safe_def)
  ultimately show ?thesis using rel r u32_lt_4G [of n] by (auto simp: heap_room_def)
qed

section \<open>Waiting for the line\<close>

lemma io_only_hlt [simp]: "io_only s (hlt (sti s))" "io_only s (cli s)"
  by (simp_all add: io_only_def hlt_def sti_def cli_def)

lemma serves_hlt [simp]: "serves (hlt (sti s)) xs = serves s xs" "serves (cli s) xs = serves s xs"
  by (simp_all add: serves_def hlt_def sti_def cli_def)

lemma serving_io: "io_only s t \<Longrightarrow> serving t d op buf sz n ev = serving s d op buf sz n ev"
  using io_only_eqs [of s t] by (auto simp: serving_def dcbs_ok_def)

lemma serving_event: "serving s d op buf sz n ev \<Longrightarrow> event (dcb_at s d) = ev"
  by (simp add: serving_def)

lemma quiet_no_request: "os_ok s P Q R \<Longrightarrow> e < 4 \<Longrightarrow> R e = [] \<Longrightarrow> quiet s e"
  using os_okD(8) [of s P Q R e] by (auto simp: device_ok_def quiet_def)

lemma interrupts_one: "interrupts 1 s = serial_interrupt s"
proof -
  have "interrupts 0 = Some" by (rule ext) simp
  show ?thesis unfolding One_nat_def interrupts.simps(2) \<open>interrupts 0 = Some\<close> by (rule bind_runit)
qed

lemma wait_read:
  assumes "serving s d IO_OP_READ buf sz n False" "n + length bs \<le> unat sz" "bs \<noteq> []" "0x0D \<notin> set (butlast bs)"
    and "finished bs n (unat sz)" and "serves s (concat (map (received d) bs))"
    and "os_ok s P Q R" and "\<forall>e < 4. e \<noteq> d \<longrightarrow> R e = []"
  shows "\<exists>a. wait_io (replicate (length bs) 1 @ ks) s =
      Option.bind (sys_check_io a) (\<lambda>(procs_ready, s). if procs_ready then Some s else wait_io ks s) \<and>
    irq_only s a \<and> serving a d IO_OP_READ buf sz (n + length bs) True \<and>
    ram a = store_bytes (buf + of_nat n) bs (ram s)"
  using assms
proof (induction bs arbitrary: s n)
  case (Cons b bs)
  let ?h = "hlt (sti s)"
  have sv: "serving ?h d IO_OP_READ buf sz n False" using Cons.prems(1) serving_io [OF io_only_hlt(1)] by blast
  have srv: "serves ?h (received d b @ concat (map (received d) bs))"
    using Cons.prems(6) by simp
  obtain t where t: "serial_interrupt ?h = Some t" "serves t (concat (map (received d) bs))"
    "serving t d IO_OP_READ buf sz (Suc n) (Suc n = unat sz \<or> b = 0x0D)"
    "ram t = (ram ?h)(buf + of_nat n := b)"
    using read_step [OF sv _ srv] Cons.prems(2) by auto
  have io: "irq_only s (cli t)"
    using irq_only_trans [OF irq_only_trans [OF io_irq_only [OF io_only_hlt(1)] serial_interrupt_irq [OF t(1)]]
        io_irq_only [OF io_only_hlt(2)]] .
  have ramh: "ram ?h = ram s" "ram (cli t) = ram t" by (simp_all add: hlt_def sti_def cli_def)
  have svc: "serving (cli t) d IO_OP_READ buf sz (Suc n) (Suc n = unat sz \<or> b = 0x0D)"
    using t(3) serving_io [OF io_only_hlt(2)] by blast
  have ok: "os_ok (cli t) P Q R" by (rule irq_step [OF io Cons.prems(7)])
  have turn: "wait_io (replicate (length (b # bs)) 1 @ ks) s =
      Option.bind (sys_check_io (cli t)) (\<lambda>(r, s). if r then Some s else wait_io (replicate (length bs) 1 @ ks) s)"
    by (simp add: t(1) interrupts_one del: One_nat_def)
  show ?case
  proof (cases bs)
    case Nil
    have "Suc n = unat sz \<or> b = 0x0D" using Cons.prems(5) Nil by (auto simp: finished_def)
    moreover have "wait_io (replicate (length (b # bs)) 1 @ ks) s =
        Option.bind (sys_check_io (cli t)) (\<lambda>(r, s). if r then Some s else wait_io ks s)"
      using turn unfolding Nil list.size replicate_0 append_Nil .
    ultimately show ?thesis using io svc t(4) ramh
      by (intro exI [of _ "cli t"]) (simp add: Nil fun_upd_def)
  next
    case (Cons c cs)
    have nf: "\<not> (Suc n = unat sz \<or> b = 0x0D)" and more: "Suc n + length bs \<le> unat sz" "bs \<noteq> []"
      "0x0D \<notin> set (butlast bs)" "finished bs (Suc n) (unat sz)"
      using Cons.prems(2,4,5) Cons by (auto simp: finished_def)
    have sv': "serving (cli t) d IO_OP_READ buf sz (Suc n) False" using svc nf by simp
    have "quiet (cli t) e" if "e < 4" for e
      using quiet_no_request [OF ok that] Cons.prems(8) that serving_event [OF sv'] by (cases "e = d") (auto simp: quiet_def)
    then have "sys_check_io (cli t) = Some (False, cli t)"
      using sys_check_io_quiet [OF os_okD(1) [OF ok]] by blast
    then have turn': "wait_io (replicate (length (b # bs)) 1 @ ks) s = wait_io (replicate (length bs) 1 @ ks) (cli t)"
      unfolding turn by simp
    have "serves (cli t) (concat (map (received d) bs))" using t(2) by simp
    from Cons.IH [OF sv' more this ok Cons.prems(8)] obtain a where
      a: "wait_io (replicate (length bs) 1 @ ks) (cli t) =
          Option.bind (sys_check_io a) (\<lambda>(r, s). if r then Some s else wait_io ks s)"
        "irq_only (cli t) a" "serving a d IO_OP_READ buf sz (Suc n + length bs) True"
        "ram a = store_bytes (buf + of_nat (Suc n)) bs (ram (cli t))" by blast
    show ?thesis
      using turn' a irq_only_trans [OF io a(2)] t(4) ramh
      by (intro exI [of _ a]) (simp add: add.assoc add.commute [of 1] fun_upd_def)
  qed
qed simp


section \<open>From the call to its return\<close>

lemma sched_only_more:
  "sched_only s t \<Longrightarrow> ram t = ram s \<and> m_env t = m_env s \<and> m_count t = m_count s \<and> serves t xs = serves s xs \<and>
     heap_rel t bs = heap_rel s bs"
  by (cases s; cases t) (simp add: sched_only_def serves_def heap_rel_def)

lemma serving_sched: "sched_only s t \<Longrightarrow> serving t d op buf sz n ev = serving s d op buf sz n ev"
  using sched_only_eqs [of s t] by (auto simp: serving_def dcbs_ok_def)

text \<open>The queues while the only active process is blocked, and when it has been woken.\<close>

lemma put_blocked_active:
  assumes "dpatch (p_state (h p)) = PCB_DPATCH_ACTIVE" and "Q 1 = []"
  shows "put_at h PCB_EXEC_BLOCKED p Q = Q(1 := [p])"
  using assms by (simp add: put_at_def Let_def PSTATE_QUEUE_SELECTOR_def place_def)

lemma woken_active:
  assumes "exec (p_state (pcbs s p)) = PCB_EXEC_BLOCKED" and "dpatch (p_state (pcbs s p)) = PCB_DPATCH_ACTIVE"
    and "Q 0 = []" and "Q 1 = []"
  shows "woken s p (Q(1 := [p])) = Q(0 := [p])"
proof -
  have "unplaced s p (Q(1 := [p])) = Q" using assms by (simp add: unplaced_def PSTATE_QUEUE_SELECTOR_def fun_upd_idem)
  then show ?thesis using assms by (simp add: woken_def Let_def PSTATE_QUEUE_SELECTOR_def readied_def place_def)
qed

lemma blocking_read_lemma:
  assumes ok: "os_ok s P Q (\<lambda>d. [])" and Q0: "Q 0 = []"
    and p: "pcb_running s = p" "p \<noteq> NULL" "dpatch (p_state (pcbs s p)) = PCB_DPATCH_ACTIVE"
    and call: "c \<noteq> NULL" "ctxts s c = ctx" "c_eax ctx = READ" "serial_devno (c_ebx ctx) = Some d" "dopen (dcb_at s d)"
      "c_ecx ctx \<noteq> NULL"
    and heap: "heap_rel s bs" "stack_like bs" "32 < unat (fst (snd (last bs)))"
    and line: "line \<noteq> []" "length line \<le> unat (c_edx ctx)" "0x0D \<notin> set (butlast line)"
      "last line = 0x0D \<or> length line = unat (c_edx ctx)"
      "serves s (concat (map (received d) line))"
  shows "\<exists>t. sys_call (replicate (length line) 1) c s = Some (c, t) \<and> pcb_running t = p \<and>
    exec (p_state (pcbs t p)) = PCB_EXEC_RUNNING \<and> c_eax (ctxts t c) = of_nat (length line) \<and>
    ram t = store_bytes (c_ecx ctx) line (ram s) \<and> os_ok t P Q (\<lambda>d. []) \<and> live_ptrs t = live_ptrs s"
proof -
  let ?R = "(\<lambda>d. []) :: nat \<Rightarrow> addr list" and ?s = "set_eax c 0 s"
  let ?Q = "Q(1 := [p])" and ?ks = "replicate (length line) (1 :: nat)"
  note o = os_okD [OF ok]
  have ok0: "os_ok ?s P Q ?R" using ok by simp
  note o0 = os_okD [OF ok0]
  have so: "sched_only s ?s" by simp
  have d4: "d < 4" using serial_devno_dcb [OF o(1) call(4)] by simp
  have Q1: "Q 1 = []" using o(4) by (simp add: requests_ok_def all_queued_def)
  have args: "c_edx ctx \<noteq> 0" using line(1,2) by auto
  have h20: "unat SZ_IOCB + 12 < unat (fst (snd (last bs)))" using heap(3) by (simp add: SZ_IOCB_def)
  have hs: "heap_rel ?s bs" using heap(1) sched_only_more [OF so] by simp
  have room: "heap_room SZ_IOCB ?s" by (rule stack_room [OF hs heap(2) h20])
  have ds: "dcb_at ?s d = dcb_at s d" using sched_only_eqs [OF so] by simp
  have idle: "idle_device ?s d"
    using o0(8) [OF d4] o0(1) d4 call(5) by (auto simp: idle_device_def device_ok_def ioq_rel_def ds)
  obtain u where u: "serial_schedule_io (c_ebx ctx) (c_ecx ctx) (c_edx ctx) IO_OP_READ ?s = Some (0, u)"
    "serving u d IO_OP_READ (c_ecx ctx) (c_edx ctx) 0 False" "ram u = ram ?s" "\<forall>xs. serves u xs = serves ?s xs"
    using read_start [OF idle call(4) o0(2) room call(6) args] by blast
  obtain x v where v: "sys_alloc_mem SZ_IOCB ?s = Some (x, v)" "heap_rel u bs = heap_rel v bs" for bs
    using schedule_idle [OF idle call(4) o0(2) room call(6) args, of IO_OP_READ] u(1) by auto
  let ?bs = "snd (a_alloc SZ_IOCB bs)"
  have hu: "heap_rel u ?bs" "stack_like ?bs" using stack_alloc [OF hs heap(2) h20 o0(2) v(1)] v(2) by auto
  have p0: "pcb_running ?s = p" using p(1) by simp
  have ctx: "c_ebx (ctxts ?s c) = c_ebx ctx" "c_ecx (ctxts ?s c) = c_ecx ctx" "c_edx (ctxts ?s c) = c_edx ctx"
    using call(2) by (simp_all add: set_eax_def)
  have put: "put_at (pcbs ?s) PCB_EXEC_BLOCKED p Q = ?Q" using put_blocked_active [of "pcbs ?s" p Q] p(3) Q1 by simp
  obtain a d' y where a: "pcb_insert p (set_pctxt p c (set_exec p PCB_EXEC_BLOCKED u)) = Some a"
    "serial_devno (c_ebx ctx) = Some d'" "queues_rel a ?Q" "requests_ok a ?Q (?R(d' := ?R d' @ [y]))" "dcbs_ok a" "heap_ok a"
    "pcb_running a = p" "set (all_queued ?Q) = P" "sched_only u a"
    "\<forall>y. pctxt (pcbs a y) = (if y = p then c else pctxt (pcbs ?s y))"
    "\<forall>y. p_state (pcbs a y) = (if y = p then (p_state (pcbs ?s p))\<lparr>exec := PCB_EXEC_BLOCKED\<rparr> else p_state (pcbs ?s y))"
    "pcb_rq (iocbs a y) = p" "\<forall>q \<in> set (all_queued ?Q). pctxt (pcbs a q) \<noteq> NULL"
    "y \<notin> live_ptrs ?s" "live_ptrs a = insert y (live_ptrs ?s)"
    using block_ok [OF ok0 _ room call(1) u(1), unfolded p0 put, OF p(2)] by blast
  let ?R' = "?R(d := [y])" and ?w = "a\<lparr>pcb_running := NULL\<rparr>"
  have dd: "d' = d" using a(2) call(4) by simp
  have okw: "os_ok ?w P ?Q ?R'"
    using running_NULL_ok [OF a(5,6,3), of ?R'] a(4,8,13) unfolding dd by simp
  have hda: "pcb_head (pcb_queues a 0) = NULL"
    using queue_rel_head [OF queues_relD(1) [OF a(3), of 0]] Q0 by simp
  have uw: "sched_only u ?w" using sched_only_trans [OF a(9) sched_only_upd(3)] .
  have svw: "serving ?w d IO_OP_READ (c_ecx ctx) (c_edx ctx) 0 False" using serving_sched [OF uw] u(2) by blast
  have srv: "serves ?w (concat (map (received d) line))"
    using sched_only_more [OF uw] u(4) sched_only_more [OF so] line(5) by blast
  have fin: "finished line 0 (unat (c_edx ctx))" using line(1,4) by (simp add: finished_def)
  have noreq: "\<forall>e < 4. e \<noteq> d \<longrightarrow> ?R' e = []" by simp
  obtain b where b: "wait_io (?ks @ []) ?w =
      Option.bind (sys_check_io b) (\<lambda>(procs_ready, s). if procs_ready then Some s else wait_io [] s)"
    "irq_only ?w b" "serving b d IO_OP_READ (c_ecx ctx) (c_edx ctx) (length line) True"
    "ram b = store_bytes (c_ecx ctx) line (ram ?w)"
    using wait_read [OF svw _ line(1,3) fin srv okw noreq, of "[]"] line(2) by auto
  have okb: "os_ok b P ?Q ?R'" by (rule irq_step [OF b(2) okw])
  note ob = os_okD [OF okb]
  have eb: "pcbs b = pcbs a" "iocbs b = iocbs a" "ctxts b = ctxts a" "live_ptrs b = live_ptrs a" "heap_rel b ?bs"
    using b(2) hu(1) sched_only_more [OF a(9)] sched_only_eqs [OF sched_only_upd(3) [of a NULL]]
      sched_only_more [OF sched_only_upd(3) [of a NULL]]
    by (auto simp: irq_only_def procs_same_def)
  have rq: "pcb_rq (iocbs b y) = p" using a(12) eb(2) by simp
  have wk: "woken b p ?Q = Q(0 := [p])"
    using a(11) p(3) Q0 Q1 by (intro woken_active) (simp_all add: eb)
  have pc: "pctxt (pcbs b p) = c" using a(10) by (simp add: eb)
  have "\<exists>t. serial_check_io (dcb_dev (dcb_at b d)) b = Some (1, t) \<and> os_ok t P (Q(0 := [p])) (?R'(d := [])) \<and>
      ctxts t = (ctxts b)(c := (ctxts b c)\<lparr>c_eax := buffer_idx (dcb_at b d)\<rparr>) \<and>
      live_ptrs t = live_ptrs b - {y} \<and> ram t = ram b \<and> (\<forall>e. e \<noteq> d \<longrightarrow> dcb_at t e = dcb_at b e) \<and>
      (\<forall>x. pctxt (pcbs t x) = pctxt (pcbs b x))"
    using complete_event [OF okb d4 serving_event [OF b(3), THEN iffD2, OF TrueI] _ stack_releasable [OF eb(5) hu(2)], of y "[]"]
    unfolding rq wk pc by auto
  then obtain t where t: "serial_check_io (dcb_dev (dcb_at b d)) b = Some (1, t)" "os_ok t P (Q(0 := [p])) (?R'(d := []))"
    "ctxts t = (ctxts b)(c := (ctxts b c)\<lparr>c_eax := buffer_idx (dcb_at b d)\<rparr>)" "live_ptrs t = live_ptrs b - {y}"
    "ram t = ram b" "\<forall>e. e \<noteq> d \<longrightarrow> dcb_at t e = dcb_at b e" "\<forall>x. pctxt (pcbs t x) = pctxt (pcbs b x)" by blast
  note ot = os_okD [OF t(2)]
  have others: "quiet b e" if "e < 4" "e \<noteq> d" for e using quiet_no_request [OF okb that(1)] that(2) by simp
  have chk: "sys_check_io b = Some (True, t)"
    using sys_check_io_one [OF ob(1) d4 _ t(1) ot(1)] others t(6) by blast
  have "(Q(0 := [p])) 0 = [p]" by simp
  from run_ready_ok [OF ot(1-4) ot(5) this] obtain z where
    z: "run_ready t = Some (pctxt (pcbs t p), z)" "pcb_running z = p" "sched_only t z" "ctxts z = ctxts t"
      "exec (p_state (pcbs z p)) = PCB_EXEC_RUNNING" "os_ok z (set (all_queued (Q(0 := [p])))) (Q(0 := [p], 0 := [])) (?R'(d := []))"
    by blast
  have "sys_io IO_OP_READ ?ks c ?s = Some (c, z)"
    using p(2) u(1) a(1,7) hda b(1) chk z(1) t(7) pc u(1) schedule_ok [OF ok0 room u(1)]
    by (auto simp: sys_io_def ctx p0 procs_same_def p(1))
  moreover have "sys_call ?ks c s = sys_io IO_OP_READ ?ks c ?s"
    using quiet_call [OF ok] quiet_no_request [OF ok] call(2,3) by (simp add: sys_read_def)
  moreover have "Q(0 := [p], 0 := []) = Q" using Q0 by auto
  moreover have "?R'(d := []) = ?R" by auto
  moreover have "set (all_queued (Q(0 := [p]))) = P" using a(8) Q0 Q1 by (auto simp: set_queues)
  moreover have "c_eax (ctxts z c) = of_nat (length line)"
    using z(4) t(3) b(3) by (simp add: serving_def)
  moreover have "ram z = store_bytes (c_ecx ctx) line (ram s)"
    using sched_only_more [OF z(3)] t(5) b(4) sched_only_more [OF uw] u(3) sched_only_more [OF so] by simp
  moreover have "live_ptrs z = live_ptrs s"
    using sched_only_eqs [OF z(3)] sched_only_eqs [OF so] t(4) a(14,15) eb(4) by auto
  ultimately show ?thesis using z by (intro exI [of _ z]) simp
qed

end
