(* ===== verification/Syscall_Exit.thy ===== *)
theory Syscall_Exit
  imports Syscall_Read
begin

text \<open>
  Termination of the running process, and two ways in which the waiting loop and the
  termination leave processes behind.
\<close>

section \<open>Termination\<close>

lemma touch_more: "heap_touch s t \<Longrightarrow> serial.more t = serial.more s"
  by (cases s; cases t) (simp add: heap_touch_def)

lemma pcb_free_ok:
  fixes s :: "'a serial_scheme"
  assumes ok: "heap_ok s" and p: "p \<noteq> NULL" "p \<in> live_ptrs s" "q = pstackseg (pcbs s p)" "q \<in> live_ptrs s" "p \<noteq> q"
    and rel: "heap_releasable2 q p s"
  shows "\<exists>u. pcb_free p s = Some (0, u) \<and> heap_ok u \<and> live_ptrs u = live_ptrs s - {p, q} \<and>
    pcbs u = (pcbs s)(p := zero_pcb) \<and> pcb_queues u = pcb_queues s \<and> pcb_running u = pcb_running s \<and>
    ctxts u = ctxts s \<and> serial_dcb_list u = serial_dcb_list s \<and> iocbs u = iocbs s \<and>
    serial.more u = serial.more s"
proof -
  obtain v where v: "sys_free_mem q s = Some (0, v)" "live_ptrs v = live_ptrs s - {q}" "heap_ok v"
    using heap.mfree_live [OF ok p(4) heap_releasable2_first [OF rel]] by blast
  let ?w = "v\<lparr>pcbs := (pcbs v)(p := zero_pcb)\<rparr>"
  have "p \<in> live_ptrs ?w" using p by (simp add: v(2))
  moreover have "heap_releasable p ?w"
    using heap_releasable2_second [OF ok rel p(4) v(1)] by (simp add: heap_releasable_def)
  moreover have "heap_ok ?w" using v(3) by simp
  ultimately obtain u where u: "sys_free_mem p ?w = Some (0, u)" "live_ptrs u = live_ptrs ?w - {p}" "heap_ok u"
    using heap.mfree_live [of ?w p] by blast
  have t: "heap_touch s v" "heap_touch ?w u"
    using sys_free_touch [OF ok v(1)] sys_free_touch [OF _ u(1)] v(3) by auto
  have more: "serial.more v = serial.more s" "serial.more u = serial.more ?w"
    using touch_more [OF t(1)] touch_more [OF t(2)] by simp_all
  have "pcb_free p s = Some (0, u)" using v(1) u(1) p by (simp add: pcb_free_def)
  then show ?thesis
    using u(2,3) v(2) touch_procs [OF t(1)] touch_procs [OF t(2)] touch_serial [OF t(1)] touch_serial [OF t(2)] more
    by (intro exI [of _ u]) auto
qed

lemma exit_ok:
  assumes ok: "os_ok s P Q R" and p: "pcb_running s = p" "p \<noteq> NULL" "p \<in> live_ptrs s"
    and q: "q = pstackseg (pcbs s p)" "q \<in> live_ptrs s" "p \<noteq> q" "{p, q} \<inter> set (all_queued R) = {}"
    and rel: "heap_releasable2 q p s"
  shows "\<exists>u. pcb_free p s = Some (0, u) \<and> dcbs_ok u \<and> heap_ok u \<and> queues_rel u Q \<and> requests_ok u Q R \<and>
    (\<forall>x \<in> set (all_queued Q). pcbs u x = pcbs s x) \<and> set (all_queued Q) = P - {p} \<and>
    live_ptrs u = live_ptrs s - {p, q} \<and> pcb_queues u = pcb_queues s \<and> serial.more u = serial.more s"
proof -
  note o = os_okD [OF ok]
  obtain u where u: "pcb_free p s = Some (0, u)" "heap_ok u" "live_ptrs u = live_ptrs s - {p, q}"
    "pcbs u = (pcbs s)(p := zero_pcb)" "pcb_queues u = pcb_queues s" "pcb_running u = pcb_running s"
    "serial_dcb_list u = serial_dcb_list s" "iocbs u = iocbs s" "serial.more u = serial.more s"
    using pcb_free_ok [OF o(2) p(2,3) q(1,2,3) rel] by blast
  have pQ: "p \<notin> set (all_queued Q)" using o(6) p by (auto simp: loose_iff)
  have same: "\<forall>x \<in> set (all_queued Q). pcbs u x = pcbs s x" using pQ by (auto simp: u(4))
  have "queues_rel u Q = queues_rel s Q" by (rule queues_rel_cong) (use same u(5) in auto)
  moreover have "device_ok u d (R d)" if "d < 4" for d
    using o(8) [OF that] by (simp add: device_ok_def ioq_rel_def u)
  then have "requests_ok u Q R" using o(4) q(4) by (auto simp: requests_ok_def u)
  moreover have "dcbs_ok u" using o(1) by (simp add: dcbs_ok_def u)
  ultimately show ?thesis using u same o(3,7) pQ p by (intro exI [of _ u]) auto
qed

text \<open>The next ready process runs.\<close>

lemma exit_switch:
  assumes ok: "os_ok s P Q R" and p: "pcb_running s = p" "p \<noteq> NULL" "p \<in> live_ptrs s"
    and q: "q = pstackseg (pcbs s p)" "q \<in> live_ptrs s" "p \<noteq> q" "{p, q} \<inter> set (all_queued R) = {}"
    and rel: "heap_releasable2 q p s" and Q: "Q 0 = n # ns"
  shows "\<exists>t. sys_exit s = Some (pctxt (pcbs s n), t) \<and> pcb_running t = n \<and>
    exec (p_state (pcbs t n)) = PCB_EXEC_RUNNING \<and> os_ok t (P - {p}) (Q(0 := ns)) R \<and>
    live_ptrs t = live_ptrs s - {p, q}"
proof -
  note o = os_okD [OF ok]
  obtain u where u: "pcb_free p s = Some (0, u)" "dcbs_ok u" "heap_ok u" "queues_rel u Q" "requests_ok u Q R"
    "\<forall>x \<in> set (all_queued Q). pcbs u x = pcbs s x" "set (all_queued Q) = P - {p}"
    "live_ptrs u = live_ptrs s - {p, q}" "pcb_queues u = pcb_queues s"
    using exit_ok [OF ok p q rel] by blast
  have ctx: "pctxt (pcbs u x) \<noteq> NULL" if "x \<in> set (all_queued Q)" for x using o(5) u(6) that by simp
  obtain t where t: "run_ready u = Some (pctxt (pcbs u n), t)" "pcb_running t = n" "sched_only u t"
    "exec (p_state (pcbs t n)) = PCB_EXEC_RUNNING" "os_ok t (set (all_queued Q)) (Q(0 := ns)) R"
    using run_ready_ok [OF u(2,3,4,5) ctx Q] by blast
  have "pcb_head (pcb_queues u 0) \<noteq> NULL" using take_head [OF u(4) Q] by auto
  then have "sys_exit s = Some (pctxt (pcbs u n), t)" using p u(1) t(1) by (simp add: sys_exit_def)
  moreover have "pcbs u n = pcbs s n" using u(6) Q set_queue_sub [of 0 Q] by auto
  ultimately show ?thesis using t u(7,8) sched_only_eqs [OF t(3)] by auto
qed

text \<open>
  With no process ready, the context of the first IDLE call gets control back, whether or not
  processes are blocked.
\<close>

lemma exit_original:
  assumes ok: "os_ok s P Q R" and p: "pcb_running s = p" "p \<noteq> NULL" "p \<in> live_ptrs s"
    and q: "q = pstackseg (pcbs s p)" "q \<in> live_ptrs s" "p \<noteq> q" "{p, q} \<inter> set (all_queued R) = {}"
    and rel: "heap_releasable2 q p s" and Q: "Q 0 = []" and orig: "context_original s \<noteq> NULL"
  shows "\<exists>t. sys_exit s = Some (context_original s, t) \<and> pcb_running t = NULL \<and>
    context_original t = NULL \<and> os_ok t (P - {p}) Q R"
proof -
  note o = os_okD [OF ok]
  obtain u where u: "pcb_free p s = Some (0, u)" "dcbs_ok u" "heap_ok u" "queues_rel u Q" "requests_ok u Q R"
    "\<forall>x \<in> set (all_queued Q). pcbs u x = pcbs s x" "set (all_queued Q) = P - {p}" "serial.more u = serial.more s"
    using exit_ok [OF ok p q rel] by blast
  have co: "context_original u = context_original s" using u(8) by (cases s; cases u) simp
  have "pcb_head (pcb_queues u 0) = NULL"
    using queue_rel_head [OF queues_relD(1) [OF u(4), of 0]] Q by simp
  then have "sys_exit s = Some (context_original s, u\<lparr>pcb_running := NULL, context_original := NULL\<rparr>)"
    using p u(1) orig by (simp add: sys_exit_def co)
  moreover have "os_ok (u\<lparr>pcb_running := NULL\<rparr>) (P - {p}) Q R"
    using running_NULL_ok [OF u(2,3,4,5)] o(5) u(6,7) by simp
  ultimately show ?thesis by simp
qed

section \<open>Waiting for a suspended process\<close>

text \<open>
  When the request that ends the waiting belongs to a suspended process, no active process is
  ready, and the dispatcher takes the head of the empty queue.
\<close>

lemma run_ready_empty:
  assumes "queues_rel s Q" and "Q 0 = []"
  shows "run_ready s = None"
proof -
  have "pcb_head (pcb_queues s 0) = NULL"
    using queue_rel_head [OF queues_relD(1) [OF assms(1), of 0]] assms(2) by simp
  then show ?thesis by (simp add: run_ready_def pcb_remove_def)
qed

lemma woken_suspended:
  assumes rel: "queues_rel s Q" and "dpatch (p_state (pcbs s p)) \<noteq> PCB_DPATCH_ACTIVE" and "Q 0 = []"
  shows "woken s p Q 0 = []" and "p \<in> set (woken s p Q 2)"
  using assms by (simp_all add: woken_def unplaced_def Let_def PSTATE_QUEUE_SELECTOR_def readied_def place_def)

lemma wait_fault_lemma:
  assumes ok: "os_ok s P Q R" and d: "d < 4" "event (dcb_at s d)" "\<forall>e < 4. e \<noteq> d \<longrightarrow> quiet s e"
    and R: "R d = x # xs" "heap_releasable x s" and p: "pcb_rq (iocbs s x) = p"
    and susp: "dpatch (p_state (pcbs s p)) \<noteq> PCB_DPATCH_ACTIVE" and Q: "Q 0 = []"
  shows "\<exists>t Q'. wait_io (0 # ks) s = Some t \<and> queues_rel t Q' \<and> Q' 0 = [] \<and> p \<in> set (Q' 2) \<and>
    pcb_head (pcb_queues t 0) = NULL \<and> pcb_remove NULL t = None \<and> run_ready t = None"
proof -
  let ?s = "cli (hlt (sti s))"
  have io: "io_only s ?s" using io_only_trans [OF io_only_hlt(1) io_only_hlt(2)] .
  have irq: "irq_only s ?s" by (rule io_irq_only [OF io])
  have ok': "os_ok ?s P Q R" by (rule irq_step [OF irq ok])
  note e = io_only_eqs [OF io]
  have "heap_releasable x ?s" using R(2) irq by (simp add: heap_releasable_def irq_only_def)
  then obtain u where u: "serial_check_io (dcb_dev (dcb_at ?s d)) ?s = Some (1, u)" "os_ok u P (woken ?s p Q) (R(d := xs))"
    "\<forall>e. e \<noteq> d \<longrightarrow> dcb_at u e = dcb_at ?s e"
    using complete_event [OF ok' d(1) _ R(1)] d(2) e p by auto
  have "quiet ?s a" if "a < 4" "a \<noteq> d" for a using d(3) that e by (simp add: quiet_def)
  then have "sys_check_io ?s = Some (True, u)"
    using sys_check_io_one [OF os_okD(1) [OF ok'] d(1) _ u(1) os_okD(1) [OF u(2)]] u(3) by blast
  then have wait: "wait_io (0 # ks) s = Some u" by simp
  have w: "woken ?s p Q 0 = []" "p \<in> set (woken ?s p Q 2)"
    using woken_suspended [OF os_okD(3) [OF ok'] _ Q] susp e by simp_all
  have rel: "queues_rel u (woken ?s p Q)" by (rule os_okD(3) [OF u(2)])
  then have "pcb_head (pcb_queues u 0) = NULL" using queue_rel_head [OF queues_relD(1) [OF rel, of 0]] w(1) by simp
  moreover have "run_ready u = None" by (rule run_ready_empty [OF rel w(1)])
  moreover have "pcb_remove NULL u = None" by (simp add: pcb_remove_def)
  ultimately show ?thesis using wait rel w by (intro exI [of _ u] exI [of _ "woken ?s p Q"]) (simp only: simp_thms)
qed

end
