(* ===== verification/Syscall_Claims.thy ===== *)
theory Syscall_Claims
  imports Syscall_Exit
begin

text \<open>
  The statements about system calls and the scheduling of processes, each with an instance on a
  concrete machine.
\<close>

section \<open>Concrete machines\<close>

definition os_base :: "unit os_scheme" where
  "os_base = boot_kern (serial_ext (initial_dcbs[0 := (initial_dcb COM1)\<lparr>dopen := True\<rparr>]) (\<lambda>p. zero_iocb) (os_ext NULL ()))"

text \<open>The saved context, at \<open>0x5000\<close>, of a process that calls with operation \<open>opc\<close> on COM1.\<close>

definition caller :: "u32 \<Rightarrow> 'a procs_scheme \<Rightarrow> 'a procs_scheme" where
  "caller opc s = s\<lparr>ctxts := (ctxts s)(0x5000 := (ctxts s 0x5000)
     \<lparr>c_eax := opc, c_ebx := COM1, c_ecx := 0x8000, c_edx := 10\<rparr>)\<rparr>"

text \<open>The process at \<open>0xD002000\<close> runs, \<open>0xD00000C\<close> is ready; the ports deliver \<open>xs\<close>.\<close>

definition demo_os :: "u32 \<Rightarrow> (u16 \<times> u8) list \<Rightarrow> unit os_scheme" where
  "demo_os opc xs = caller opc ((demo os_base)\<lparr>pcb_running := 0xD002000, m_env := ports xs\<rparr>)"

text \<open>The same without the ready process.\<close>

definition alone_os :: "u32 \<Rightarrow> (u16 \<times> u8) list \<Rightarrow> unit os_scheme" where
  "alone_os opc xs = (demo_os opc xs)\<lparr>pcb_queues := initial_queues\<rparr>"

lemma os_base_simps:
  "dcbs_ok os_base" "pcb_running os_base = NULL" "context_original os_base = NULL" "m_count os_base = 0"
  "serial_dcb_list os_base = initial_dcbs[0 := (initial_dcb COM1)\<lparr>dopen := True\<rparr>]"
  by (simp_all add: os_base_def boot_kern_def boot_procs_def heap_on_eq boot_heap_def dcbs_ok_def initial_dcbs_def
      initial_dcb_def)

lemma os_base_heap: "heap_ok os_base" "heap_rel os_base [(0xD000000, 49988, True)]"
  using boot_procs_heap by (simp_all add: os_base_def boot_kern_def)

lemma no_requests:
  assumes "serial_dcb_list s = initial_dcbs[0 := (initial_dcb COM1)\<lparr>dopen := True\<rparr>]" and "Q 1 = []" and "Q 3 = []"
  shows "requests_ok s Q (\<lambda>d. [])"
proof -
  have "device_ok s d []" if "d < 4" for d
  proof -
    have "d = 0 \<or> d = 1 \<or> d = 2 \<or> d = 3" using that by linarith
    then show ?thesis
      by (auto simp: device_ok_def ioq_rel_def assms(1) initial_dcbs_def initial_dcb_def ring_empty_def
          SERIAL_RBUFFER_SIZE_def)
  qed
  then show ?thesis using assms(2,3) by (simp add: requests_ok_def all_queued_def)
qed

lemma demo_os_heap: "heap_rel (demo_os opc xs) [(0xD000000, 49988, True)]" "heap_ok (demo_os opc xs)"
  "heap_rel (alone_os opc xs) [(0xD000000, 49988, True)]" "heap_ok (alone_os opc xs)"
  using os_base_heap
  by (simp_all add: demo_os_def alone_os_def caller_def demo_def heap_rel_def heap_ok_def)

lemma demo_os_frame:
  "serial_dcb_list (demo_os opc xs) = initial_dcbs[0 := (initial_dcb COM1)\<lparr>dopen := True\<rparr>]"
  "pcb_running (demo_os opc xs) = 0xD002000" "pcbs (demo_os opc xs) = pcbs (demo os_base)"
  "pcb_queues (demo_os opc xs) = pcb_queues (demo os_base)" "context_original (demo_os opc xs) = NULL"
  "dcbs_ok (demo_os opc xs)" "m_env (demo_os opc xs) = ports xs" "m_count (demo_os opc xs) = 0"
  using os_base_simps by (simp_all add: demo_os_def caller_def demo_def dcbs_ok_def)

lemma demo_os_ctx:
  "c_eax (ctxts (demo_os opc xs) 0x5000) = opc" "c_ebx (ctxts (demo_os opc xs) 0x5000) = COM1"
  "c_ecx (ctxts (demo_os opc xs) 0x5000) = 0x8000" "c_edx (ctxts (demo_os opc xs) 0x5000) = 10"
  by (simp_all add: demo_os_def caller_def)

lemma alone_os_frame:
  "serial_dcb_list (alone_os opc xs) = initial_dcbs[0 := (initial_dcb COM1)\<lparr>dopen := True\<rparr>]"
  "pcb_running (alone_os opc xs) = 0xD002000" "pcbs (alone_os opc xs) = pcbs (demo os_base)"
  "pcb_queues (alone_os opc xs) = initial_queues" "ctxts (alone_os opc xs) = ctxts (demo_os opc xs)"
  "dcbs_ok (alone_os opc xs)" "serves (alone_os opc xs) zs = serves (demo_os opc xs) zs"
  using demo_os_frame(1,2,3,6) by (simp_all add: alone_os_def dcbs_ok_def serves_def)

abbreviation demo_procs :: "addr set" where "demo_procs \<equiv> {0xD00000C, 0xD002000}"

lemma demo_os_queues: "queues_rel (demo_os opc xs) demo_Q" "loose (demo_os opc xs) demo_Q 0xD002000"
  "pctxt (pcbs (demo_os opc xs) 0xD00000C) = 0xD001067"
proof -
  show "queues_rel (demo_os opc xs) demo_Q"
    by (rule queues_rel_cong [THEN iffD2, OF _ _ demo_queues [of os_base]]) (simp_all add: demo_os_frame)
  show "loose (demo_os opc xs) demo_Q 0xD002000"
    using demo_loose [of os_base] by (simp add: loose_def demo_os_frame)
  show "pctxt (pcbs (demo_os opc xs) 0xD00000C) = 0xD001067"
    by (simp add: demo_os_frame demo_def demo_pcb_def)
qed

lemma demo_base_pctxt [simp]: "pctxt (pcbs (demo os_base) 0xD00000C) = 0xD001067"
  by (simp add: demo_def demo_pcb_def)

lemma demo_os_ok: "os_ok (demo_os opc xs) demo_procs demo_Q (\<lambda>d. [])"
proof -
  have "requests_ok (demo_os opc xs) demo_Q (\<lambda>d. [])" by (rule no_requests) (simp_all add: demo_os_frame demo_Q_def)
  then show ?thesis
    using demo_os_queues demo_os_heap(2) demo_os_frame(6) by (auto simp: os_ok_def demo_os_frame(2))
qed

lemma alone_os_ok: "os_ok (alone_os opc xs) {0xD002000} (\<lambda>i. []) (\<lambda>d. [])"
proof -
  have "requests_ok (alone_os opc xs) (\<lambda>i. []) (\<lambda>d. [])" by (rule no_requests) (simp_all add: alone_os_frame)
  moreover have "queues_rel (alone_os opc xs) (\<lambda>i. [])" by (rule initial_queues_rel) (simp add: alone_os_frame)
  moreover have "loose (alone_os opc xs) (\<lambda>i. []) 0xD002000"
    using demo_os_queues(2) [of opc xs] by (simp add: loose_def alone_os_frame demo_os_frame)
  ultimately show ?thesis
    using demo_os_heap(4) by (simp add: os_ok_def alone_os_frame all_queued_def)
qed

lemma demo_os_quiet: "\<forall>d < 4. quiet (demo_os opc xs) d"
  using quiet_no_request [OF demo_os_ok] by simp

lemma demo_os_serves: "serves (demo_os opc xs) xs"
  by (rule serves_ports) (simp_all add: demo_os_frame)

lemma demo_os_room: "heap_room SZ_IOCB (demo_os opc xs)"
  by (rule stack_room [OF demo_os_heap(1)]) (simp_all add: stack_like_def SZ_IOCB_def)

lemma set_eax_serial [simp]:
  "serial_dcb_list (set_eax c v s) = serial_dcb_list s" "yielded (set_eax c v s) Q = yielded s Q"
  by (simp_all add: set_eax_def yielded_def)

section \<open>Yielding\<close>

lemma yield_switches_lemma:
  assumes "os_ok s P Q R" and "\<forall>d < 4. quiet s d" and "c_eax (ctxts s c) = IDLE" and "c \<noteq> NULL" and "Q 0 = n # ns"
  shows "\<exists>t. sys_call ks c s = Some (pctxt (pcbs s n), t) \<and> pcb_running t = n \<and>
    exec (p_state (pcbs t n)) = PCB_EXEC_RUNNING \<and> os_ok t P (yielded s Q) R \<and>
    (pcb_running s \<noteq> NULL \<longrightarrow> pctxt (pcbs t (pcb_running s)) = c)"
proof -
  have "os_ok (set_eax c 0 s) P Q R" using assms(1) by simp
  from idle_switch [OF this assms(5,4)] show ?thesis
    using quiet_call [OF assms(1,2), of ks c] assms(3) by (auto simp: op_codes)
qed

text \<open>
  C16: An IDLE call switches to the first ready process. That process leaves the ready queue and
  runs; the caller's context is saved in its PCB, and the caller joins the ready queue behind
  the processes of the same or a greater priority (\<open>yielded\<close>). Nothing is lost or duplicated:
  the invariant holds for the same set of processes and the same requests.
\<close>

theorem yield_switches:
  assumes "os_ok s P Q R" and "\<forall>d < 4. quiet s d" and "c_eax (ctxts s c) = IDLE" and "c \<noteq> NULL" and "Q 0 = n # ns"
  shows "\<exists>t. sys_call ks c s = Some (pctxt (pcbs s n), t) \<and> pcb_running t = n \<and>
    exec (p_state (pcbs t n)) = PCB_EXEC_RUNNING \<and> os_ok t P (yielded s Q) R \<and>
    (pcb_running s \<noteq> NULL \<longrightarrow> pctxt (pcbs t (pcb_running s)) = c)"
  by (rule yield_switches_lemma [OF assms])

theorem yield_switches_witness:
  "\<exists>t. sys_call [] 0x5000 (demo_os IDLE []) = Some (0xD001067, t) \<and> pcb_running t = 0xD00000C \<and>
     os_ok t demo_procs (yielded (demo_os IDLE []) demo_Q) (\<lambda>d. [])"
  using yield_switches [OF demo_os_ok demo_os_quiet, where c = "0x5000" and opc2 = IDLE and ks = "[]" and n = "0xD00000C"]
  by (auto simp: demo_os_ctx demo_os_queues)

section \<open>Requests\<close>

text \<open>
  C17: A READ or WRITE that the device accepts blocks the caller and switches to the first ready
  process: the caller, with its context saved, joins the blocked queue, the last request of the
  device is the caller's, and the invariant holds for the same set of processes.
\<close>

theorem request_switches:
  assumes "os_ok s P Q R" and "\<forall>d < 4. quiet s d" and "c \<noteq> NULL" and "pcb_running s = p" and "p \<noteq> NULL"
    and "op = IO_OP_READ \<and> c_eax (ctxts s c) = READ \<or> op = IO_OP_WRITE \<and> c_eax (ctxts s c) = WRITE"
    and "heap_room SZ_IOCB s" and "Q 0 = n # ns"
    and "serial_schedule_io (c_ebx (ctxts s c)) (c_ecx (ctxts s c)) (c_edx (ctxts s c)) op (set_eax c 0 s) = Some (0, u)"
  shows "\<exists>t d x. sys_call ks c s = Some (pctxt (pcbs s n), t) \<and> pcb_running t = n \<and>
    serial_devno (c_ebx (ctxts s c)) = Some d \<and> pcb_rq (iocbs t x) = p \<and> pctxt (pcbs t p) = c \<and>
    os_ok t P ((put_at (pcbs s) PCB_EXEC_BLOCKED p Q)(0 := ns)) (R(d := R d @ [x]))"
proof -
  have ok: "os_ok (set_eax c 0 s) P Q R" and room: "heap_room SZ_IOCB (set_eax c 0 s)" using assms(1,7) by simp_all
  have p: "pcb_running (set_eax c 0 s) \<noteq> NULL" using assms(4,5) by simp
  have ctx: "c_ebx (ctxts (set_eax c 0 s) c) = c_ebx (ctxts s c)" "c_ecx (ctxts (set_eax c 0 s) c) = c_ecx (ctxts s c)"
    "c_edx (ctxts (set_eax c 0 s) c) = c_edx (ctxts s c)" by (simp_all add: set_eax_def)
  have "sys_call ks c s = sys_io op ks c (set_eax c 0 s)"
    using quiet_call [OF assms(1,2), of ks c] assms(6) by (auto simp: op_codes sys_read_def sys_write_def)
  then show ?thesis
    using io_switch [OF ok p room assms(3) _ assms(8), of op u ks] assms(4,9) unfolding ctx by auto
qed

theorem request_switches_witness:
  "\<exists>t x. sys_call [] 0x5000 (demo_os READ []) = Some (0xD001067, t) \<and> pcb_running t = 0xD00000C \<and>
     pcb_rq (iocbs t x) = 0xD002000"
proof -
  let ?s = "demo_os READ []"
  let ?s0 = "set_eax 0x5000 0 ?s"
  have ok: "os_ok ?s0 demo_procs demo_Q (\<lambda>d. [])" using demo_os_ok by simp
  have dev: "serial_devno COM1 = Some 0" by (simp add: serial_devno_def)
  have "dopen (dcb_at ?s0 0)" by (simp add: demo_os_frame initial_dcbs_def)
  then have "idle_device ?s0 0"
    using os_okD(8) [OF ok, of 0] os_okD(1) [OF ok] by (simp add: idle_device_def device_ok_def ioq_rel_def)
  from schedule_idle [OF this dev os_okD(2) [OF ok], of "0x8000" 10 IO_OP_READ] demo_os_room
  obtain u where "serial_schedule_io COM1 0x8000 10 IO_OP_READ ?s0 = Some (0, u)" by auto
  with request_switches [OF demo_os_ok [of READ "[]"] demo_os_quiet [of READ "[]"], where c = "0x5000"
      and p = "0xD002000" and n = "0xD00000C" and ks = "[]" and u = u and op = IO_OP_READ and ns = "[]"]
    demo_os_room [of READ "[]"]
  show ?thesis by (auto simp: demo_os_ctx demo_os_queues demo_os_frame)
qed

lemma requests_refused_lemma:
  assumes "os_ok s P Q R" and "\<forall>d < 4. quiet s d"
  shows "(c_eax (ctxts s c) \<in> {READ, WRITE} \<and> pcb_running s = NULL \<longrightarrow>
      sys_call ks c s = Some (NULL, set_eax c (- 1) s)) \<and>
    (c_eax (ctxts s c) \<in> {READ, WRITE} \<and> pcb_running s \<noteq> NULL \<and>
      (c_ecx (ctxts s c) = NULL \<or> c_edx (ctxts s c) = 0 \<or> serial_devno (c_ebx (ctxts s c)) = None \<or>
        (\<exists>d. serial_devno (c_ebx (ctxts s c)) = Some d \<and> \<not> dopen (dcb_at s d))) \<longrightarrow>
      sys_call ks c s = Some (NULL, set_eax c 0 s)) \<and>
    (c_eax (ctxts s c) \<notin> {READ, WRITE, IDLE, EXIT} \<longrightarrow> sys_call ks c s = Some (NULL, set_eax c 0 s))"
proof -
  note call = quiet_call [OF assms, of ks c]
  have twice: "set_eax c (- 1) (set_eax c 0 s) = set_eax c (- 1) s" by (simp add: set_eax_def)
  have ctx: "c_ebx (ctxts (set_eax c 0 s) c) = c_ebx (ctxts s c)" "c_ecx (ctxts (set_eax c 0 s) c) = c_ecx (ctxts s c)"
    "c_edx (ctxts (set_eax c 0 s) c) = c_edx (ctxts s c)" "serial_dcb_list (set_eax c 0 s) = serial_dcb_list s"
    by (simp_all add: set_eax_def)
  have refused: "sys_io op ks c (set_eax c 0 s) = Some (NULL, set_eax c 0 s)"
    if run: "pcb_running s \<noteq> NULL" and bad: "c_ecx (ctxts s c) = NULL \<or> c_edx (ctxts s c) = 0 \<or>
        serial_devno (c_ebx (ctxts s c)) = None \<or>
        (\<exists>d. serial_devno (c_ebx (ctxts s c)) = Some d \<and> \<not> dopen (dcb_at s d))" for op
  proof -
    have "\<exists>r. serial_schedule_io (c_ebx (ctxts s c)) (c_ecx (ctxts s c)) (c_edx (ctxts s c)) op (set_eax c 0 s) =
        Some (r, set_eax c 0 s) \<and> r \<noteq> 0"
      using bad by (auto simp: serial_schedule_io_def ctx split: option.splits)
    then obtain r where "serial_schedule_io (c_ebx (ctxts s c)) (c_ecx (ctxts s c)) (c_edx (ctxts s c)) op (set_eax c 0 s) =
        Some (r, set_eax c 0 s)" "r \<noteq> 0" by blast
    then show ?thesis using run by (simp add: sys_io_def Let_def ctx)
  qed
  show ?thesis
    unfolding call using twice refused
    by (auto simp: sys_read_def sys_write_def sys_io_def op_codes Let_def)
qed

text \<open>
  C18: The refusals of a system call, each a return to the caller (NULL). With no process running
  READ and WRITE give -1, which sends \<^verbatim>\<open>sys_req\<close> to polled I/O. A request without buffer or
  length, for an unknown or a closed device gives 0, and so does an unknown operation. Nothing
  but the result register changes.
\<close>

theorem requests_refused:
  assumes "os_ok s P Q R" and "\<forall>d < 4. quiet s d"
  shows "(c_eax (ctxts s c) \<in> {READ, WRITE} \<and> pcb_running s = NULL \<longrightarrow>
      sys_call ks c s = Some (NULL, set_eax c (- 1) s)) \<and>
    (c_eax (ctxts s c) \<in> {READ, WRITE} \<and> pcb_running s \<noteq> NULL \<and>
      (c_ecx (ctxts s c) = NULL \<or> c_edx (ctxts s c) = 0 \<or> serial_devno (c_ebx (ctxts s c)) = None \<or>
        (\<exists>d. serial_devno (c_ebx (ctxts s c)) = Some d \<and> \<not> dopen (dcb_at s d))) \<longrightarrow>
      sys_call ks c s = Some (NULL, set_eax c 0 s)) \<and>
    (c_eax (ctxts s c) \<notin> {READ, WRITE, IDLE, EXIT} \<longrightarrow> sys_call ks c s = Some (NULL, set_eax c 0 s))"
  by (rule requests_refused_lemma [OF assms])

theorem requests_refused_witness:
  "sys_call [] 0x5000 (demo_os 9 []) = Some (NULL, set_eax 0x5000 0 (demo_os 9 []))"
  using requests_refused [OF demo_os_ok [of 9 "[]"] demo_os_quiet, where c = "0x5000" and ks = "[]"]
  by (simp add: demo_os_ctx op_codes)

end
