(* ===== verification/Sched_Claims.thy ===== *)
theory Sched_Claims
  imports Syscall_Claims
begin

text \<open>
  The statements about the system over several steps: blocking reads, completions, the
  invariant of every run, termination, and two ways to lose input or control.
\<close>

section \<open>A machine with a finished request\<close>

text \<open>
  The process at \<open>0xD002000\<close>, suspended or not, waits for the read at \<open>0xD00000C\<close> on COM1, which is
  complete.
\<close>

definition done_os :: "bool \<Rightarrow> unit os_scheme \<Rightarrow> unit os_scheme" where
  "done_os sus h = h\<lparr>
     serial_dcb_list := initial_dcbs[0 := (initial_dcb COM1)\<lparr>dopen := True, event := True, buffer_idx := 5,
       iocb_queue_head := 0xD00000C, iocb_queue_tail := 0xD00000C\<rparr>],
     iocbs := (\<lambda>p. zero_iocb)(0xD00000C := \<lparr>i_next = NULL, pcb_rq = 0xD002000, i_buffer = 0x8000, buffer_sz = 10, io_op = 0\<rparr>),
     pcbs := (\<lambda>p. zero_pcb)(0xD002000 := (demo_pcb ''idle'' 9 0xD003000)
       \<lparr>p_state := \<lparr>exec = PCB_EXEC_BLOCKED, dpatch = (if sus then 0 else 1), cls = 1, pri = 9\<rparr>\<rparr>),
     pcb_queues := initial_queues((if sus then 3 else 1) :=
       \<lparr>pcb_head = 0xD002000, pcb_tail = 0xD002000, ispriority = 0\<rparr>)\<rparr>"

definition done_Q :: "bool \<Rightarrow> nat \<Rightarrow> addr list" where
  "done_Q sus = (\<lambda>i. [])((if sus then 3 else 1) := [0xD002000])"

abbreviation done_R :: "nat \<Rightarrow> addr list" where
  "done_R \<equiv> (\<lambda>d. [])(0 := [0xD00000C])"

lemma request_heap:
  "\<exists>h. heap_ok h \<and> heap_rel h [(0xD000000, 20, False), (0xD000020, 49956, True)] \<and> heap_touch os_base h"
  using alloc_on [OF os_base_heap, of 20] by (simp add: a_alloc_def alloc_safe_def)

lemma done_os_frame:
  "pcb_running (done_os sus h) = pcb_running h" "heap_ok (done_os sus h) = heap_ok h"
  "heap_rel (done_os sus h) bs = heap_rel h bs" "ctxts (done_os sus h) = ctxts h"
  "iocbs (done_os sus h) 0xD00000C = \<lparr>i_next = NULL, pcb_rq = 0xD002000, i_buffer = 0x8000, buffer_sz = 10, io_op = 0\<rparr>"
  "pctxt (pcbs (done_os sus h) 0xD002000) = 0xD003FFF" "buffer_idx (dcb_at (done_os sus h) 0) = 5"
  "event (dcb_at (done_os sus h) 0)" "dcbs_ok (done_os sus h)"
  "p_state (pcbs (done_os sus h) 0xD002000) = \<lparr>exec = PCB_EXEC_BLOCKED, dpatch = (if sus then 0 else 1), cls = 1, pri = 9\<rparr>"
  by (simp_all add: done_os_def heap_ok_def heap_rel_def demo_pcb_def initial_dcbs_def initial_dcb_def dcbs_ok_def)

lemma done_os_queues: "queues_rel (done_os sus h) (done_Q sus)"
proof -
  have "even i \<longleftrightarrow> i = 0 \<or> i = 2" if "i < 4" for i :: nat using that by presburger
  then show ?thesis
    by (auto simp: queues_rel_def queue_rel_def initial_queues_def done_os_def done_Q_def demo_pcb_def
        PSTATE_QUEUE_SELECTOR_def)
qed

lemma done_os_ok:
  assumes h: "heap_ok h" "heap_rel h [(0xD000000, 20, False), (0xD000020, 49956, True)]" "heap_touch os_base h"
  shows "os_ok (done_os sus h) {0xD002000} (done_Q sus) done_R" "heap_releasable 0xD00000C (done_os sus h)"
    "\<forall>e < 4. e \<noteq> 0 \<longrightarrow> quiet (done_os sus h) e"
proof -
  let ?s = "done_os sus h"
  have rel: "heap_rel ?s [(0xD000000, 20, False), (0xD000020, 49956, True)]" using h(2) by (simp add: done_os_frame)
  have run: "pcb_running ?s = NULL" using touch_procs [OF h(3)] by (simp add: done_os_frame os_base_simps)
  have "device_ok ?s d (done_R d)" if "d < 4" for d
  proof -
    have "d = 0 \<or> d = 1 \<or> d = 2 \<or> d = 3" using that by linarith
    then show ?thesis
      by (auto simp: device_ok_def ioq_rel_def done_os_def initial_dcbs_def initial_dcb_def ring_empty_def
          SERIAL_RBUFFER_SIZE_def)
  qed
  moreover have "set (all_queued done_R) \<subseteq> live_ptrs ?s"
    by (simp add: all_queued_def live_ptrs_rel [OF rel])
  moreover have "set (map (\<lambda>x. pcb_rq (iocbs ?s x)) (all_queued done_R)) = set (done_Q sus 1) \<union> set (done_Q sus 3)"
    by (simp add: all_queued_def done_os_frame done_Q_def)
  ultimately have "requests_ok ?s (done_Q sus) done_R" by (simp add: requests_ok_def all_queued_def)
  moreover have "all_queued (done_Q sus) = [0xD002000]" by (simp add: all_queued_def done_Q_def)
  ultimately show "os_ok ?s {0xD002000} (done_Q sus) done_R"
    using done_os_queues h(1) run by (simp add: os_ok_def done_os_frame)
  show "heap_releasable 0xD00000C ?s" by (rule stack_releasable [OF rel]) (simp add: stack_like_def)
  show "\<forall>e < 4. e \<noteq> 0 \<longrightarrow> quiet ?s e"
  proof (intro allI impI)
    fix e :: nat
    assume "e < 4" "e \<noteq> 0"
    then have "e = 1 \<or> e = 2 \<or> e = 3" by linarith
    then show "quiet ?s e"
      by (elim disjE) (simp_all add: quiet_def done_os_def initial_dcbs_def initial_dcb_def)
  qed
qed

section \<open>Completion\<close>

text \<open>
  C15: A finished request wakes the process that made it, and only that one. The check for
  completed requests reports work, the process goes from its blocked queue to the ready queue of
  its priority, finds the number of transferred bytes as the result of its call, and the request
  is released and leaves the queue of its device. The invariant holds for the same processes.
\<close>

theorem request_completes:
  assumes "os_ok s P Q R" and "d < 4" and "event (dcb_at s d)" and "\<forall>e < 4. e \<noteq> d \<longrightarrow> quiet s e"
    and "R d = x # xs" and "heap_releasable x s" and "p = pcb_rq (iocbs s x)"
  shows "\<exists>t. sys_check_io s = Some (True, t) \<and> os_ok t P (woken s p Q) (R(d := xs)) \<and>
    p \<in> set (woken s p Q (if dpatch (p_state (pcbs s p)) = PCB_DPATCH_ACTIVE then 0 else 2)) \<and>
    c_eax (ctxts t (pctxt (pcbs s p))) = buffer_idx (dcb_at s d) \<and>
    live_ptrs t = live_ptrs s - {x} \<and> \<not> event (dcb_at t d) \<and> ram t = ram s"
proof -
  obtain t where t: "serial_check_io (dcb_dev (dcb_at s d)) s = Some (1, t)" "os_ok t P (woken s p Q) (R(d := xs))"
    "ctxts t = (ctxts s)(pctxt (pcbs s p) := (ctxts s (pctxt (pcbs s p)))\<lparr>c_eax := buffer_idx (dcb_at s d)\<rparr>)"
    "live_ptrs t = live_ptrs s - {x}" "ram t = ram s" "\<forall>e. e \<noteq> d \<longrightarrow> dcb_at t e = dcb_at s e" "\<not> event (dcb_at t d)"
    using complete_event [OF assms(1,2,3,5,6)] unfolding assms(7) by blast
  have "sys_check_io s = Some (True, t)"
    using sys_check_io_one [OF os_okD(1) [OF assms(1)] assms(2,4) t(1) os_okD(1) [OF t(2)]] t(6) by blast
  moreover have "p \<in> set (woken s p Q (if dpatch (p_state (pcbs s p)) = PCB_DPATCH_ACTIVE then 0 else 2))"
    by (simp add: woken_def Let_def PSTATE_QUEUE_SELECTOR_def readied_def)
  ultimately show ?thesis using t by simp
qed

theorem request_completes_witness:
  "\<exists>(s :: unit os_scheme) t. event (dcb_at s 0) \<and> sys_check_io s = Some (True, t) \<and>
     os_ok t {0xD002000} (woken s 0xD002000 (done_Q False)) (done_R(0 := [])) \<and> c_eax (ctxts t 0xD003FFF) = 5"
proof -
  obtain h where h: "heap_ok h" "heap_rel h [(0xD000000, 20, False), (0xD000020, 49956, True)]" "heap_touch os_base h"
    using request_heap by blast
  let ?s = "done_os False h"
  note ok = done_os_ok [OF h, of False]
  have p: "(0xD002000 :: addr) = pcb_rq (iocbs ?s 0xD00000C)" by (simp add: done_os_frame)
  from request_completes [OF ok(1) _ done_os_frame(8) ok(3) _ ok(2) p, of "[]"]
  obtain t where "sys_check_io ?s = Some (True, t)"
    "os_ok t {0xD002000} (woken ?s 0xD002000 (done_Q False)) (done_R(0 := []))" "c_eax (ctxts t 0xD003FFF) = 5"
    by (auto simp: done_os_frame(5-10))
  then show ?thesis
    using done_os_frame(8) [of False h] by (intro exI [of _ ?s] exI [of _ t]) simp
qed

section \<open>A blocking read\<close>

text \<open>
  C10: A read blocks until the line is there and returns it. When the only process that can run
  reads from an open device, the call queues the request, blocks the process and halts the
  processor; each interrupt that wakes the processor delivers a byte; when a carriage return or
  the last byte of the buffer has arrived the same process runs again, in the context it called
  from, with the number of bytes as its result, the bytes in its buffer and nowhere else, and
  the request's memory released.
\<close>

theorem blocking_read_returns:
  assumes "os_ok s P Q (\<lambda>d. [])" and "Q 0 = []"
    and "pcb_running s = p" and "p \<noteq> NULL" and "dpatch (p_state (pcbs s p)) = PCB_DPATCH_ACTIVE"
    and "c \<noteq> NULL" and "ctxts s c = ctx" and "c_eax ctx = READ" and "serial_devno (c_ebx ctx) = Some d"
    and "dopen (dcb_at s d)" and "c_ecx ctx \<noteq> NULL"
    and "heap_rel s bs" and "stack_like bs" and "32 < unat (fst (snd (last bs)))"
    and "line \<noteq> []" and "length line \<le> unat (c_edx ctx)" and "0x0D \<notin> set (butlast line)"
    and "last line = 0x0D \<or> length line = unat (c_edx ctx)"
    and "serves s (concat (map (received d) line))"
  shows "\<exists>t. sys_call (replicate (length line) 1) c s = Some (c, t) \<and> pcb_running t = p \<and>
    exec (p_state (pcbs t p)) = PCB_EXEC_RUNNING \<and> c_eax (ctxts t c) = of_nat (length line) \<and>
    ram t = store_bytes (c_ecx ctx) line (ram s) \<and> os_ok t P Q (\<lambda>d. []) \<and> live_ptrs t = live_ptrs s"
  by (rule blocking_read_lemma [OF assms])

theorem blocking_read_returns_witness:
  "\<exists>t. sys_call (replicate 2 1) 0x5000 (alone_os READ (received 0 0x68 @ received 0 0x0D)) = Some (0x5000, t) \<and>
     pcb_running t = 0xD002000 \<and> c_eax (ctxts t 0x5000) = 2 \<and> ram t 0x8000 = 0x68"
proof -
  define xs where "xs = received 0 0x68 @ received 0 0x0D"
  let ?line = "[0x68, 0x0D] :: u8 list" and ?s = "alone_os READ xs"
  let ?ctx = "ctxts ?s 0x5000"
  have len: "length ?line = 2" by simp
  have ctx: "c_eax ?ctx = READ" "c_ebx ?ctx = COM1" "c_ecx ?ctx = 0x8000" "c_edx ?ctx = 10"
    by (simp_all add: alone_os_frame demo_os_ctx)
  have dev: "serial_devno (c_ebx ?ctx) = Some 0" unfolding ctx(2) by (simp add: serial_devno_def)
  have srv: "serves ?s (concat (map (received 0) ?line))"
    unfolding alone_os_frame using demo_os_serves [of READ xs] by (simp add: xs_def)
  have act: "dpatch (p_state (pcbs ?s 0xD002000)) = PCB_DPATCH_ACTIVE"
    by (simp add: alone_os_frame demo_def demo_pcb_def)
  have op: "dopen (dcb_at ?s 0)" by (simp add: alone_os_frame initial_dcbs_def)
  have st: "stack_like [(0xD000000, 49988, True)]" by (simp add: stack_like_def)
  have "\<exists>t. sys_call (replicate (length ?line) 1) 0x5000 ?s = Some (0x5000, t) \<and> pcb_running t = 0xD002000 \<and>
    exec (p_state (pcbs t 0xD002000)) = PCB_EXEC_RUNNING \<and> c_eax (ctxts t 0x5000) = of_nat (length ?line) \<and>
    ram t = store_bytes (c_ecx ?ctx) ?line (ram ?s) \<and> os_ok t {0xD002000} (\<lambda>i. []) (\<lambda>d. []) \<and> live_ptrs t = live_ptrs ?s"
    by (rule blocking_read_returns [OF alone_os_ok refl _ _ act _ refl ctx(1) dev op _ demo_os_heap(3) st _ _ _ _ _ srv])
      (simp_all add: alone_os_frame(2) ctx)
  then show ?thesis unfolding len xs_def [symmetric] by (auto simp: ctx)
qed


section \<open>Every run\<close>

lemma os_ok_running:
  assumes "os_ok s P Q R" and "p \<in> P"
  shows "(p = pcb_running s \<and> p \<notin> set (all_queued Q)) \<or> (p \<noteq> pcb_running s \<and> (\<exists>!i. i < 4 \<and> p \<in> set (Q i)))"
proof -
  note o = os_okD [OF assms(1)]
  have "\<exists>!i. i < 4 \<and> p \<in> set (Q i)" if "p \<in> set (all_queued Q)"
    using that queues_distinct [OF o(3)] unfolding set_all_queued by blast
  moreover have "pcb_running s \<notin> set (all_queued Q)"
  proof (cases "pcb_running s = NULL")
    case True
    then show ?thesis
      using queue_rel_distinct [OF queues_relD(1) [OF o(3)]] unfolding set_all_queued by auto
  next
    case False
    then show ?thesis using o(6) by (simp add: loose_iff)
  qed
  ultimately show ?thesis using assms(2) o(7) by auto
qed

lemma os_ok_blocked:
  assumes "os_ok s P Q R" and "p \<in> set (Q 1) \<union> set (Q 3)"
  shows "\<exists>!x. x \<in> set (all_queued R) \<and> pcb_rq (iocbs s x) = p"
proof -
  have "inj_on (\<lambda>x. pcb_rq (iocbs s x)) (set (all_queued R))"
    "(\<lambda>x. pcb_rq (iocbs s x)) ` set (all_queued R) = set (Q 1) \<union> set (Q 3)"
    using os_okD(4) [OF assms(1)] by (auto simp: requests_ok_def distinct_map)
  with assms(2) show ?thesis by (metis (no_types, lifting) imageE inj_onD)
qed

lemma process_places:
  assumes "os_reach s t" and "os_ok s P Q R"
  shows "\<exists>Q' R'. os_ok t P Q' R' \<and>
    (\<forall>p \<in> P. p = pcb_running t \<and> p \<notin> set (all_queued Q') \<or>
       p \<noteq> pcb_running t \<and> (\<exists>!i. i < 4 \<and> p \<in> set (Q' i))) \<and>
    (\<forall>p \<in> set (Q' 1) \<union> set (Q' 3). \<exists>!x. x \<in> set (all_queued R') \<and> pcb_rq (iocbs t x) = p) \<and>
    sorted (map (prio (pcbs t)) (Q' 0)) \<and> sorted (map (prio (pcbs t)) (Q' 2))"
proof -
  obtain Q' R' where ok: "os_ok t P Q' R'" using os_reach_ok [OF assms] by blast
  have "sorted (map (prio (pcbs t)) (Q' 0))" "sorted (map (prio (pcbs t)) (Q' 2))"
    using queues_relD(4) [OF os_okD(3) [OF ok]] by simp_all
  then show ?thesis using ok os_ok_running [OF ok] os_ok_blocked [OF ok] by blast
qed



section \<open>Termination\<close>

text \<open>
  C19: EXIT ends the caller: its PCB and its stack are released and it is gone from the set of
  processes. The first ready process runs next; when there is none, the context of the first
  IDLE call, which is \<^verbatim>\<open>kmain\<close>'s, gets control back, even if processes are still blocked.
\<close>

theorem process_exit:
  assumes "os_ok s P Q R" and "\<forall>d < 4. quiet s d" and "c_eax (ctxts s c) = EXIT"
    and "pcb_running s = p" and "p \<noteq> NULL" and "p \<in> live_ptrs s"
    and "q = pstackseg (pcbs s p)" and "q \<in> live_ptrs s" and "p \<noteq> q" and "{p, q} \<inter> set (all_queued R) = {}"
    and "heap_releasable2 q p s"
  shows "(\<forall>n ns. Q 0 = n # ns \<longrightarrow> (\<exists>t. sys_call ks c s = Some (pctxt (pcbs s n), t) \<and> pcb_running t = n \<and>
      os_ok t (P - {p}) (Q(0 := ns)) R \<and> live_ptrs t = live_ptrs s - {p, q})) \<and>
    (Q 0 = [] \<and> context_original s \<noteq> NULL \<longrightarrow>
      (\<exists>t. sys_call ks c s = Some (context_original s, t) \<and> pcb_running t = NULL \<and> os_ok t (P - {p}) Q R))"
proof -
  let ?s = "set_eax c 0 s"
  have ok: "os_ok ?s P Q R" using assms(1) by simp
  have e: "sys_call ks c s = sys_exit ?s" using quiet_call [OF assms(1,2), of ks c] assms(3) by (simp add: op_codes)
  have h: "live_ptrs ?s = live_ptrs s" "heap_releasable2 q p ?s" "context_original ?s = context_original s"
    using assms(11) by (simp_all add: live_ptrs_def heap_releasable2_def heap_rel_def set_eax_def)
  have p: "pcb_running ?s = p" "p \<in> live_ptrs ?s" "q = pstackseg (pcbs ?s p)" "q \<in> live_ptrs ?s"
    using assms h by simp_all
  have sw: "\<exists>t. sys_call ks c s = Some (pctxt (pcbs s n), t) \<and> pcb_running t = n \<and>
      os_ok t (P - {p}) (Q(0 := ns)) R \<and> live_ptrs t = live_ptrs s - {p, q}" if "Q 0 = n # ns" for n ns
    using exit_switch [OF ok p(1) assms(5) p(2,3,4) assms(9,10) h(2) that] unfolding e h(1) set_eax_simps by blast
  have orig: "\<exists>t. sys_call ks c s = Some (context_original s, t) \<and> pcb_running t = NULL \<and> os_ok t (P - {p}) Q R"
    if "Q 0 = []" "context_original s \<noteq> NULL"
    using exit_original [OF ok p(1) assms(5) p(2,3,4) assms(9,10) h(2) that(1)] that(2) unfolding e h(3) by blast
  show ?thesis by (intro conjI allI impI) (erule sw, erule conjE, erule (1) orig)
qed

definition exit_os :: "unit os_scheme \<Rightarrow> unit os_scheme" where
  "exit_os h = caller EXIT (h\<lparr>pcbs := pcbs (demo os_base), pcb_queues := initial_queues,
     pcb_running := 0xD00000C, context_original := 0x7000\<rparr>)"

lemma exit_heap: "\<exists>h. heap_ok h \<and> heap_rel h demo_blocks \<and> heap_touch os_base h"
  unfolding os_base_def boot_kern_def by (rule demo_heap_touch)

theorem process_exit_witness:
  "\<exists>h t. sys_call [] 0x5000 (exit_os h) = Some (0x7000, t) \<and> os_ok t {} (\<lambda>i. []) (\<lambda>d. [])"
proof -
  obtain h :: "unit os_scheme" where h: "heap_ok h" "heap_rel h demo_blocks" "heap_touch os_base h"
    using exit_heap by blast
  let ?s = "exit_os h"
  have rel: "heap_rel ?s demo_blocks" "heap_ok ?s" using h by (simp_all add: exit_os_def caller_def heap_rel_def heap_ok_def)
  have dl: "serial_dcb_list ?s = initial_dcbs[0 := (initial_dcb COM1)\<lparr>dopen := True\<rparr>]"
    using touch_serial [OF h(3)] by (simp add: exit_os_def caller_def os_base_simps)
  have ctx: "c_eax (ctxts ?s 0x5000) = EXIT" "pcb_running ?s = 0xD00000C" "context_original ?s = 0x7000"
    "pstackseg (pcbs ?s 0xD00000C) = 0xD000068" "pcb_queues ?s = initial_queues" "pcbs ?s = pcbs (demo os_base)"
    by (simp_all add: exit_os_def caller_def demo_def demo_pcb_def)
  have live: "live_ptrs ?s = {0xD00000C, 0xD000068}" by (auto simp: live_ptrs_rel [OF rel(1)])
  have "requests_ok ?s (\<lambda>i. []) (\<lambda>d. [])" by (rule no_requests) (simp_all add: dl)
  moreover have "queues_rel ?s (\<lambda>i. [])" by (rule initial_queues_rel) (simp add: ctx)
  moreover have "dcbs_ok ?s" using os_base_simps(1,5) by (simp add: dcbs_ok_def dl)
  moreover have "loose ?s (\<lambda>i. []) 0xD00000C" unfolding loose_def ctx by (simp add: demo_def demo_pcb_def)
  ultimately have ok: "os_ok ?s {0xD00000C} (\<lambda>i. []) (\<lambda>d. [])"
    using rel(2) by (simp add: os_ok_def ctx all_queued_def)
  have quiet: "\<forall>d < 4. quiet ?s d" using quiet_no_request [OF ok] by simp
  have "heap_releasable2 0xD000068 0xD00000C ?s"
    unfolding heap_releasable2_def
    by (rule exI [of _ demo_blocks]) (simp add: rel free_safe_def a_free_def ends_free_def)
  from process_exit [OF ok quiet ctx(1,2) _ _ ctx(4) [symmetric] _ _ _ this, of "[]"]
  obtain t where "sys_call [] 0x5000 ?s = Some (0x7000, t)" "os_ok t {} (\<lambda>i. []) (\<lambda>d. [])"
    by (auto simp: live ctx(3) all_queued_def)
  then show ?thesis by blast
qed

section \<open>Where it goes wrong\<close>

text \<open>
  C36: The waiting loop faults on a suspended process. When no active process is ready and the
  request that completes belongs to a suspended process, the loop ends, with that process in
  the suspended ready queue: it does not wait on, whatever turns could follow. The active ready
  queue is still empty, its head is NULL, and the removal of that head, which the code takes to be a
  process, dereferences NULL, so that the dispatcher does not return.
\<close>

theorem wait_loop_faults:
  assumes "os_ok s P Q R" and "d < 4" and "event (dcb_at s d)" and "\<forall>e < 4. e \<noteq> d \<longrightarrow> quiet s e"
    and "R d = x # xs" and "heap_releasable x s" and "pcb_rq (iocbs s x) = p"
    and "dpatch (p_state (pcbs s p)) \<noteq> PCB_DPATCH_ACTIVE" and "Q 0 = []"
  shows "\<exists>t Q'. wait_io (0 # ks) s = Some t \<and> queues_rel t Q' \<and> Q' 0 = [] \<and> p \<in> set (Q' 2) \<and>
    pcb_head (pcb_queues t 0) = NULL \<and> pcb_remove NULL t = None \<and> run_ready t = None"
  by (rule wait_fault_lemma [OF assms])

theorem wait_loop_faults_witness:
  "\<exists>h t. wait_io [0, 0] (done_os True h) = Some t \<and> pcb_head (pcb_queues t 0) = NULL \<and> run_ready t = None"
proof -
  obtain h where h: "heap_ok h" "heap_rel h [(0xD000000, 20, False), (0xD000020, 49956, True)]" "heap_touch os_base h"
    using request_heap by blast
  note ok = done_os_ok [OF h, of True]
  have p: "pcb_rq (iocbs (done_os True h) 0xD00000C) = 0xD002000" by (simp add: done_os_frame)
  have susp: "dpatch (p_state (pcbs (done_os True h) 0xD002000)) \<noteq> PCB_DPATCH_ACTIVE"
    unfolding done_os_frame by simp
  have "done_Q True 0 = []" by (simp add: done_Q_def)
  from wait_loop_faults [OF ok(1) _ done_os_frame(8) ok(3) _ ok(2) p susp this, of "[]" "[0]"]
  show ?thesis by auto
qed

text \<open>
  Type-ahead is lost. A byte that arrives while the current request is not a read goes into
  the ring buffer, but an empty ring buffer is empty again afterwards: its read index moves with
  its write index. Whatever read starts next gets nothing of it.
\<close>

theorem type_ahead_lost:
  assumes "serial_input_interrupt d s = Some t" and "ring_empty (dcb_at s d)" and "d < length (serial_dcb_list s)"
    and "io_op (iocbs s (iocb_queue_head (dcb_at s d))) \<noteq> IO_OP_READ"
  shows "ring_empty (dcb_at t d) \<and> ram t = ram s \<and>
    (\<forall>len buf m. ring_copy len 0 buf (dcb_at t d) m = Some (0, dcb_at t d, m))"
proof -
  have irq: "irq_only s t" by (rule input_irq [OF assms(1)])
  then have ring: "ring_empty (dcb_at t d)" using assms(2,3) by (auto simp: irq_only_def irq_dcb_def)
  obtain b a where a: "inb (port (dcb_dev (dcb_at s d)) RBR) s = (b, a)" by (rule prod.exhaust)
  have io: "io_only s a" using io_only_inb [of s "port (dcb_dev (dcb_at s d)) RBR"] unfolding a by simp
  note e = io_only_eqs [OF io]
  have hd: "iocb_queue_head (dcb_at a d) \<noteq> NULL" using assms(1) by (simp add: serial_input_interrupt_def a)
  note run = assms(1) [unfolded serial_input_interrupt_def a prod.case ensure_bind [OF hd]]
  have "ram t = ram a"
    using run assms(4) e by (auto simp: Let_def bind_eq_Some_conv)
  then show ?thesis using ring e ring_copy_empty [of "dcb_at t d"] by (simp add: ring_empty_def)
qed

definition busy_writer :: "unit serial_scheme \<Rightarrow> unit serial_scheme" where
  "busy_writer s = s\<lparr>serial_dcb_list := initial_dcbs[0 := (initial_dcb COM1)\<lparr>dopen := True,
      iocb_queue_head := 0xD00000C, iocb_queue_tail := 0xD00000C\<rparr>],
     iocbs := (\<lambda>p. zero_iocb)(0xD00000C := zero_iocb\<lparr>io_op := IO_OP_WRITE\<rparr>)\<rparr>"

theorem type_ahead_lost_witness:
  "\<exists>t. serial_input_interrupt 0 (busy_writer (demo_serial [(port COM1 RBR, 0x41)])) = Some t \<and> ring_empty (dcb_at t 0)"
proof -
  let ?s = "busy_writer (demo_serial [(port COM1 RBR, 0x41)])"
  have d: "dcb_at ?s 0 = (initial_dcb COM1)\<lparr>dopen := True, iocb_queue_head := 0xD00000C, iocb_queue_tail := 0xD00000C\<rparr>"
    "iocbs ?s 0xD00000C = zero_iocb\<lparr>io_op := IO_OP_WRITE\<rparr>"
    by (simp_all add: busy_writer_def initial_dcbs_def)
  obtain b a where a: "inb (port (dcb_dev (dcb_at ?s 0)) RBR) ?s = (b, a)" by (rule prod.exhaust)
  have "io_only ?s a" using io_only_inb [of ?s "port (dcb_dev (dcb_at ?s 0)) RBR"] unfolding a by simp
  note e = io_only_eqs [OF this]
  have "\<exists>t. serial_input_interrupt 0 ?s = Some t"
    unfolding serial_input_interrupt_def a using e d
    by (simp add: Let_def initial_dcb_def SERIAL_RBUFFER_SIZE_def)
  then obtain t where t: "serial_input_interrupt 0 ?s = Some t" ..
  have "ring_empty (dcb_at ?s 0)" unfolding d by (simp add: ring_empty_def initial_dcb_def SERIAL_RBUFFER_SIZE_def)
  from type_ahead_lost [OF t this] t show ?thesis unfolding d by (simp add: busy_writer_def initial_dcbs_def initial_dcb_def zero_iocb_def)
qed

end
