(* ===== verification/Boot_Claims.thy ===== *)
theory Boot_Claims
  imports Boot Vm_Props Sched_Claims
begin

text \<open>
  From power-on to the first process: every stage of \<^verbatim>\<open>kmain\<close> succeeds, and the
  system call that leaves it dispatches the command handler in a state with the invariant of
  the running system.
\<close>

section \<open>Messages\<close>

definition com1_ready :: "'a kern_scheme \<Rightarrow> bool" where
  "com1_ready s \<longleftrightarrow> length (initialized s) = 4 \<and> initialized s ! 0"

definition logged :: "string \<Rightarrow> 'a kern_scheme \<Rightarrow> 'a kern_scheme" where
  "logged msg s = s\<lparr>m_trace := m_trace s @ map (Outb 0x3F8) (cstr ''klogv: '' @ bytes msg @ crlf)\<rparr>"

lemma serial_out_ready:
  assumes "com1_ready s" and "n \<le> length buf"
  shows "serial_out COM1 buf n s = Some (int n, s\<lparr>m_trace := m_trace s @ map (Outb 0x3F8) (take n buf)\<rparr>)"
proof -
  have "port COM1 RBR = 0x3F8" by (simp add: port_def devices uart_registers)
  then obtain t where "serial_out_loop COM1 buf 0 n s = Some t" "prints s t"
    "m_trace t = m_trace s @ map (Outb 0x3F8) (take n buf)"
    using serial_out_loop_ok [of 0 n buf COM1 s] assms(2) by auto
  moreover from this have "t = s\<lparr>m_trace := m_trace s @ map (Outb 0x3F8) (take n buf)\<rparr>"
    by (cases s; cases t) (simp add: prints_def)
  ultimately show ?thesis using assms(1) by (simp add: serial_out_def serial_devno_def com1_ready_def)
qed

lemma com1_ready_simps [simp]:
  "com1_ready (s\<lparr>m_trace := x\<rparr>) = com1_ready s" "com1_ready (logged m s) = com1_ready s"
  "com1_ready (gdt_init s) = com1_ready s" "com1_ready (idt_init s) = com1_ready s"
  "com1_ready (cli s) = com1_ready s" "com1_ready (sti s) = com1_ready s" "com1_ready (pic_init s) = com1_ready s"
  "com1_ready (s\<lparr>idt_entries := es\<rparr>) = com1_ready s"
  by (simp_all add: com1_ready_def logged_def gdt_init_def idt_init_def cli_def sti_def pic_init_def outb_def Let_def)

lemma klogv_eq: "com1_ready s \<Longrightarrow> 0 \<notin> set (bytes msg) \<Longrightarrow> klogv COM1 msg s = Some (logged msg s)"
proof -
  assume s: "com1_ready s" and m: "0 \<notin> set (bytes msg)"
  then have "strlen (cstr msg) = Some (length (bytes msg))"
    by (simp add: strlen_eq cstr_def cchars_prefix)
  moreover have "take 2 (crlf @ [0]) = crlf" by (simp add: crlf_def)
  ultimately show ?thesis
    using s by (simp add: klogv_def serial_out_ready logged_def Let_def cstr_def del: length_bytes)
      (simp add: crlf_def serial_out_ready)
qed

section \<open>The hardware stage\<close>

text \<open>What the stage leaves alone: the processes, their memory and the device blocks.\<close>

definition hw_only :: "'a kern_scheme \<Rightarrow> 'a kern_scheme \<Rightarrow> bool" where
  "hw_only s t \<longleftrightarrow> t = s\<lparr>m_count := m_count t, m_trace := m_trace t, frames := frames t, kdir := kdir t,
     tables := tables t, tables_phys := tables_phys t, ptabs := ptabs t, phys_alloc_addr := phys_alloc_addr t,
     heap_is_initialized := heap_is_initialized t, cr0 := cr0 t, cr3 := cr3 t,
     idt_entries := idt_entries t, idtr := idtr t, gdtr := gdtr t, data_segs := data_segs t,
     initialized := initialized t\<rparr>"

lemma hw_only_trans: "hw_only s t \<Longrightarrow> hw_only t u \<Longrightarrow> hw_only s u"
  by (cases s; cases t; cases u) (simp add: hw_only_def)

text \<open>All of it but the address space.\<close>

definition hw_novm :: "'a kern_scheme \<Rightarrow> 'a kern_scheme \<Rightarrow> bool" where
  "hw_novm s t \<longleftrightarrow> t = s\<lparr>m_count := m_count t, m_trace := m_trace t,
     idt_entries := idt_entries t, idtr := idtr t, gdtr := gdtr t, data_segs := data_segs t,
     initialized := initialized t\<rparr>"

lemma hw_novm_trans: "hw_novm s t \<Longrightarrow> hw_novm t u \<Longrightarrow> hw_novm s u"
  by (cases s; cases t; cases u) (simp add: hw_novm_def)

lemma hw_novm_steps:
  "hw_novm s (logged m s)" "hw_novm s (gdt_init s)" "hw_novm s (idt_init s)" "hw_novm s (cli s)" "hw_novm s (sti s)"
  "hw_novm s (pic_init s)" "hw_novm s (s\<lparr>idt_entries := es\<rparr>)"
  by (simp_all add: hw_novm_def logged_def gdt_init_def idt_init_def cli_def sti_def pic_init_def outb_def Let_def)

lemma hw_novm_eqs:
  "hw_novm s t \<Longrightarrow> heap_is_initialized t = heap_is_initialized s \<and> phys_alloc_addr t = phys_alloc_addr s \<and>
     frames t = frames s \<and> ptabs t = ptabs s \<and> heap_addr t = heap_addr s"
  by (cases s; cases t) (simp add: hw_novm_def)

lemma serial_init_com1:
  assumes "length (initialized s) = 4"
  shows "\<exists>t. serial_init COM1 s = Some (0, t) \<and> com1_ready t \<and> hw_novm s t \<and> idt_entries t = idt_entries s"
  using assms
  by (simp add: serial_init_def serial_devno_def com1_ready_def hw_novm_def inb_def outb_def Let_def)

definition idt_only :: "'a kern_scheme \<Rightarrow> 'a kern_scheme \<Rightarrow> bool" where
  "idt_only s t \<longleftrightarrow> t = s\<lparr>idt_entries := idt_entries t\<rparr> \<and> length (idt_entries t) = length (idt_entries s)"

lemma idt_only_trans: "idt_only s t \<Longrightarrow> idt_only t u \<Longrightarrow> idt_only s u"
  by (cases s; cases t; cases u) (simp add: idt_only_def)

lemma set_gate_only: "idt_set_gate v f sl fl s = Some t \<Longrightarrow> idt_only s t"
  by (auto simp: idt_only_def idt_set_gate_def Let_def wr_def split: if_splits)

lemma set_gates_only: "set_gates i fs s = Some t \<Longrightarrow> idt_only s t"
proof (induction i fs s rule: set_gates.induct)
  case (2 i f fs s)
  then obtain u where u: "idt_set_gate i f 0x08 0x8e s = Some u" "set_gates (Suc i) fs u = Some t"
    by (auto simp: bind_eq_Some_conv)
  with 2(1) [OF u] set_gate_only [OF u(1)] show ?case by (blast intro: idt_only_trans)
qed (simp add: idt_only_def)

lemma irq_init_only: "irq_init s = Some t \<Longrightarrow> idt_only s t"
  by (auto simp: irq_init_def Let_def bind_eq_Some_conv
      intro: idt_only_trans dest!: set_gate_only set_gates_only)

lemma installed_novm: "hw_novm s t \<Longrightarrow> idt_entries t = idt_entries s \<Longrightarrow> installed t v f = installed s v f"
  by (cases s; cases t) (simp add: hw_novm_def installed_def)

text \<open>The machine at power-on: zeroed memory and an image of \<open>e\<close> pages.\<close>

definition powered_on :: "nat \<Rightarrow> 'a serial_scheme \<Rightarrow> bool" where
  "powered_on e s \<longleftrightarrow> 0 < e \<and> e < 1000 \<and> unat (phys_alloc_addr s) div 4096 = e \<and> frames_below s 0 \<and>
     (\<forall>t i. ptabs s t i = zero_page) \<and> \<not> heap_is_initialized s \<and> heap_addr s = KHEAP_BASE \<and>
     \<not> heap_isinit s \<and> alloc_head s = NULL \<and> length (idt_entries s) = 256 \<and> length (initialized s) = 4 \<and>
     pcb_queues s = initial_queues \<and> pcb_running s = NULL \<and> serial_dcb_list s = initial_dcbs \<and>
     (\<forall>p. length (p_name (pcbs s p)) = MPX_PCB_PROCNAME_BUFFER_SZ)"

lemma vm_only_hw: "vm_only s t \<Longrightarrow> hw_only s t"
  by (cases s; cases t) (simp add: vm_only_def hw_only_def)

lemma novm_hw: "hw_novm s t \<Longrightarrow> hw_only s t"
  by (cases s; cases t) (simp add: hw_novm_def hw_only_def)

text \<open>The messages of the stage, in order.\<close>

lemmas klogv_text = klogv_eq [OF _ notI]

lemma hardware_ok:
  assumes "length (initialized s) = 4" and "length (idt_entries s) = 256"
    and "\<not> heap_is_initialized s" and "unat (phys_alloc_addr s) div 4096 = e" and "0 < e" and "e < 1000"
    and "frames_below s 0" and "\<forall>t i. ptabs s t i = zero_page"
  shows "\<exists>u. kmain_hardware s = Some u \<and> hw_only s u \<and> com1_ready u \<and> heap_is_initialized u \<and>
    length (idt_entries u) = 256 \<and>
    (\<forall>v < 32. installed u v (if v = 8 then rtc_isr else if v < 17 then isrs ! v else isr_reserved)) \<and>
    installed u 0x60 sys_call_isr"
proof -
  obtain a where a: "serial_init COM1 s = Some (0, a)" "com1_ready a" "hw_novm s a" "idt_entries a = idt_entries s"
    using serial_init_com1 [OF assms(1)] by blast
  let ?b = "logged ''Initializing Interrupt Vectors...'' (cli (logged ''Disabling interrupts...'' (idt_init
    (logged ''Initializing Interrupt Descriptor Table...'' (gdt_init (logged ''Initializing Global Descriptor Table...''
      (logged ''Initialized serial I/O on COM1 device...'' a)))))))"
  have nb: "hw_novm s ?b" by (intro hw_novm_trans [OF a(3)] hw_novm_trans [OF _ hw_novm_steps(1)]
    hw_novm_trans [OF _ hw_novm_steps(2)] hw_novm_trans [OF _ hw_novm_steps(3)] hw_novm_trans [OF _ hw_novm_steps(4)]
    hw_novm_steps)
  have "idt_entries ?b = idt_entries s"
    by (simp add: a(4) logged_def gdt_init_def idt_init_def cli_def)
  then obtain c where c: "irq_init ?b = Some c"
    "\<forall>v < 32. installed c v (if v = 8 then rtc_isr else if v < 17 then isrs ! v else isr_reserved)"
    "installed c 0x60 sys_call_isr"
    using irq_init_lemma [of ?b] assms(2) by auto
  have bc: "idt_only ?b c" by (rule irq_init_only [OF c(1)])
  then have nc: "hw_novm ?b c" and rc: "com1_ready c" and lc: "length (idt_entries c) = 256"
    using a(2) hw_novm_steps(7) [where s = ?b and es = "idt_entries c"] com1_ready_simps(8) [where s = ?b and es = "idt_entries c"]
      \<open>idt_entries ?b = idt_entries s\<close> assms(2) by (simp_all add: idt_only_def)
  let ?d = "logged ''Initializing virtual memory...'' (sti (logged ''Enabling Interrupts...'' (pic_init
    (logged ''Initializing Programmble Interrupt Controller...'' c))))"
  have cd: "hw_novm c ?d" by (intro hw_novm_trans [OF _ hw_novm_steps(1)]
    hw_novm_trans [OF _ hw_novm_steps(5)] hw_novm_trans [OF _ hw_novm_steps(6)] hw_novm_steps)
  have ed: "idt_entries ?d = idt_entries c"
    by (simp add: logged_def sti_def pic_init_def outb_def Let_def)
  note nd = hw_novm_trans [OF hw_novm_trans [OF nb nc] cd]
  have vm: "\<not> heap_is_initialized ?d" "unat (phys_alloc_addr ?d) div 4096 = e" "frames_below ?d 0"
    "\<forall>t i. ptabs ?d t i = zero_page"
    using hw_novm_eqs [OF nd] assms(3,4,7,8) by (simp_all add: frames_below_def frame_used_def)
  obtain u where u: "vm_init ?d = Some u" "vm_only ?d u" "heap_is_initialized u"
    using vm_init_run [OF vm(1,2) assms(5,6) vm(3,4)] by blast
  have "kmain_hardware s = Some u"
    unfolding kmain_hardware_def a(1) bind.bind_lunit prod.case Let_def
    using a(2) rc c(1) u(1) by (simp add: klogv_eq bytes_def)
  moreover have "hw_only s u" by (rule hw_only_trans [OF novm_hw [OF nd] vm_only_hw [OF u(2)]])
  moreover have "com1_ready u" "idt_entries u = idt_entries c" "isr_addr u = isr_addr c"
    using u(2) rc ed cd by (cases c; cases u; simp add: vm_only_def com1_ready_def hw_novm_def logged_def
      sti_def pic_init_def outb_def Let_def)+
  ultimately show ?thesis using u(3) c(2,3) lc by (simp add: installed_def)
qed

section \<open>The modules\<close>

definition open_only :: "'a serial_scheme \<Rightarrow> 'a serial_scheme \<Rightarrow> bool" where
  "open_only s t \<longleftrightarrow> t = s\<lparr>m_count := m_count t, m_trace := m_trace t, idt_entries := idt_entries t,
     serial_dcb_list := serial_dcb_list t\<rparr>"

lemma open_only_trans: "open_only s t \<Longrightarrow> open_only t u \<Longrightarrow> open_only s u"
  by (cases s; cases t; cases u) (simp add: open_only_def)

lemma open_only_steps:
  "open_only s (upd_dcb d f s)" "open_only s (outb p b s)" "open_only s (cli s)" "open_only s (sti s)"
  "open_only s (snd (inb p s))" "open_only s (logged m s)"
  by (simp_all add: open_only_def upd_dcb_def outb_def cli_def sti_def inb_def logged_def Let_def)

lemma baud_19200: "baud_scan 36 0 19200 = Some True"
  by (simp add: serial_supported_baud_rates_def numeral_eq_Suc)

lemma open_com1:
  assumes "serial_dcb_list s = initial_dcbs" and "length (idt_entries s) = 256"
  shows "\<exists>t. serial_open COM1 19200 s = Some (0, t) \<and> open_only s t \<and> installed t 0x24 serial_isr \<and>
    (\<forall>v. v \<noteq> 0x24 \<longrightarrow> idt_entries t ! v = idt_entries s ! v) \<and> length (idt_entries t) = 256 \<and>
    serial_dcb_list t = initial_dcbs[0 := (initial_dcb COM1)\<lparr>dopen := True\<rparr>]"
proof -
  let ?a = "upd_dcb 0 (\<lambda>d. d\<lparr>rbuffer_idx_begin := 0, rbuffer_idx_end := 0, dopen := True, event := False\<rparr>) s"
  have dcbs: "initial_dcbs = [initial_dcb COM1, initial_dcb COM2, initial_dcb COM3, initial_dcb COM4]"
    by (simp add: initial_dcbs_def)
  have a: "serial_dcb_list ?a = initial_dcbs[0 := (initial_dcb COM1)\<lparr>dopen := True\<rparr>]"
    using assms(1) by (simp add: upd_dcb_def dcbs initial_dcb_def)
  obtain b where b: "idt_set_gate 0x24 serial_isr 0x08 0x8e ?a = Some b" "installed b 0x24 serial_isr"
    "length (idt_entries b) = 256" "\<forall>w. w \<noteq> 0x24 \<longrightarrow> idt_entries b ! w = idt_entries s ! w"
    "b = ?a\<lparr>idt_entries := idt_entries b\<rparr>"
    using idt_set_gate_ok [of "0x24" ?a serial_isr] assms(2) by (auto simp: upd_dcb_def)
  have inst: "idt_install (IRQV_BASE + irq_line 0) serial_isr ?a = Some b"
    using b(1) by (simp add: idt_install_def IRQV_BASE_def irq_line_def SERIAL_IRQ_COM_1_3_def)
  have closed: "\<not> dopen (dcb_at s 0)" "\<not> dopen (dcb_at ?a (line_peer 0))"
    using assms(1) a by (simp_all add: dcbs initial_dcb_def line_peer_def upd_dcb_def)
  define brd where "brd = (word_of_int (115200 div 19200) :: u32)"
  let ?c = "cli (outb (port COM1 FCR) 0xC7 (outb (port COM1 LCR) 0x03 (outb (port COM1 DLM) (ucast (drop_bit 8 brd))
    (outb (port COM1 DLL) (ucast brd) (outb (port COM1 LCR) 0x80 (outb (port COM1 IER) 0x00 b))))))"
  let ?d = "outb (port COM1 IER) 1 (outb (port COM1 MCR) (push_bit 3 1)
    (outb PIC_1_MASK (unmask 0 (fst (inb PIC_1_MASK ?c))) (snd (inb PIC_1_MASK ?c))))"
  let ?t = "sti (snd (inb (port COM1 RBR) ?d))"
  have run: "serial_open COM1 19200 s = Some (0, ?t)"
    unfolding serial_open_def serial_devno_def Let_def split_beta
    using closed by (simp add: baud_19200 inst brd_def)
  have "open_only b ?t"
    by (intro open_only_trans [OF _ open_only_steps(4)] open_only_trans [OF _ open_only_steps(5)]
        open_only_trans [OF _ open_only_steps(2)] open_only_trans [OF _ open_only_steps(3)] open_only_steps)
  moreover have "open_only s b" using b(5) by (cases b; cases s) (simp add: open_only_def upd_dcb_def)
  moreover have "idt_entries ?t = idt_entries b" "isr_addr ?t = isr_addr b" "serial_dcb_list ?t = serial_dcb_list b"
    by (simp_all add: sti_def cli_def outb_def inb_def Let_def)
  moreover have "serial_dcb_list b = serial_dcb_list ?a" by (subst b(5)) simp
  ultimately show ?thesis
    using run a b(2-4) open_only_trans by (intro exI [of _ ?t]) (simp add: installed_def, blast)
qed

lemma init_heap_frame:
  assumes "initialize_heap n s = Some t" and "\<not> heap_isinit s" and "heap_is_initialized s"
  shows "t = s\<lparr>heap_addr := heap_addr t, heap_isinit := heap_isinit t, free_head := free_head t,
    global_heap := global_heap t, mcbs := mcbs t\<rparr>"
proof -
  obtain b u where u: "alloc n s = Some (b, u)" using assms by (auto simp: initialize_heap_def kmalloc_def bind_eq_Some_conv)
  then have "u = s\<lparr>heap_addr := heap_addr u\<rparr>" by (auto simp: alloc_def Let_def split: if_splits)
  then show ?thesis
    using assms u by (auto simp: initialize_heap_def kmalloc_def bind_eq_Some_conv set_prev_def set_next_def set_size_def Let_def)
qed

text \<open>The state after a module has been opened and the heap installed.\<close>

lemma heap_module:
  assumes "\<not> heap_isinit s" and "heap_is_initialized s" and "heap_addr s = KHEAP_BASE" and "alloc_head s = NULL"
    and "pcb_queues s = initial_queues" and "\<forall>p. length (p_name (pcbs s p)) = MPX_PCB_PROCNAME_BUFFER_SZ"
  shows "\<exists>h k. initialize_heap 50000 s = Some h \<and> sys_set_heap_functions Allocate_Memory Free_Memory h = k \<and>
    heap_rel k [(KHEAP_BASE, 49988, True)] \<and> procs_ok k (\<lambda>_. []) \<and>
    k = s\<lparr>heap_addr := heap_addr k, heap_isinit := heap_isinit k, free_head := free_head k, global_heap := global_heap k,
      mcbs := mcbs k, malloc_function := Allocate_Memory, free_function := Free_Memory\<rparr>"
proof -
  have "heap_addr s \<noteq> 0" "(12 :: u32) \<le> 50000" "unat (heap_addr s) + unat (50000 :: u32) \<le> unat (KHEAP_BASE + KHEAP_SIZE)"
    using assms(3) by (simp_all add: vm_consts)
  then obtain h where h: "initialize_heap 50000 s = Some h" "heap_rel h [(KHEAP_BASE, 49988, True)]"
    using initialize_heap_rel [OF assms(1,2) _ _ _ assms(4), of 50000] assms(3) by auto
  let ?k = "sys_set_heap_functions Allocate_Memory Free_Memory h"
  have fr: "?k = s\<lparr>heap_addr := heap_addr ?k, heap_isinit := heap_isinit ?k, free_head := free_head ?k,
      global_heap := global_heap ?k, mcbs := mcbs ?k, malloc_function := Allocate_Memory, free_function := Free_Memory\<rparr>"
    using init_heap_frame [OF h(1) assms(1,2)] by (cases s; cases h) (simp add: sys_set_heap_functions_def)
  have rel: "heap_rel ?k [(KHEAP_BASE, 49988, True)]" using h(2) by (simp add: heap_rel_def sys_set_heap_functions_def)
  have "pcb_queues ?k = initial_queues" "pcbs ?k = pcbs s" by (subst fr, simp add: assms(5))+
  then have "procs_ok ?k (\<lambda>_. [])"
    using initial_queues_rel [of ?k] rel assms(6)
    by (auto simp: procs_ok_def named_def all_queued_def heap_ok_def sys_set_heap_functions_def)
  with h(1) rel fr show ?thesis by blast
qed

lemma start_only_serial:
  "start_only s t \<Longrightarrow> serial_dcb_list t = serial_dcb_list s \<and> iocbs t = iocbs s \<and> initialized t = initialized s \<and>
     idt_entries t = idt_entries s \<and> isr_addr t = isr_addr s \<and> pcb_running t = pcb_running s"
  by (cases s; cases t) (simp add: start_only_def)

text \<open>The two processes that start-up creates, in the ready queue.\<close>

definition boot_queues :: "addr \<Rightarrow> addr \<Rightarrow> nat \<Rightarrow> addr list" where
  "boot_queues c i = (\<lambda>_. [])(0 := [c, i])"

lemma boot_processes:
  assumes ok: "procs_ok k (\<lambda>_. [])" and hr: "heap_rel k [(KHEAP_BASE, 49988, True)]"
  shows "\<exists>c a b d i e f g. pcb_setup (cstr ''comhand'') PCB_CLASS_SYSTEM 0 k = Some (c, a) \<and>
    pcb_context_init c (code_addr img Comhand_Process) None 0 a = Some b \<and> pcb_insert c b = Some d \<and>
    pcb_setup (cstr ''idle'') PCB_CLASS_SYSTEM 9 d = Some (i, e) \<and>
    pcb_context_init i (code_addr img Idle_Process) None 0 e = Some f \<and> pcb_insert i f = Some g \<and>
    procs_ok g (boot_queues c i) \<and> start_only k g \<and>
    started g c (bytes ''comhand'') PCB_CLASS_SYSTEM 0 (code_addr img Comhand_Process) \<and>
    started g i (bytes ''idle'') PCB_CLASS_SYSTEM 9 (code_addr img Idle_Process) \<and> own_memory g {c, i}"
proof -
  have n: "0 \<in> set (cstr ''comhand'')" "0 \<in> set (cstr ''idle'')" by (simp_all add: cstr_def)
  have nm: "cchars (cstr ''comhand'') = bytes ''comhand''" "cchars (cstr ''idle'') = bytes ''idle''"
    using good_nameD(1) [of "''comhand''"] good_nameD(1) [of "''idle''"] by (simp_all add: good_name_def bytes_def)
  have st: "stack_like [(KHEAP_BASE, 49988, True)]" "room_left [(KHEAP_BASE, 49988, True)] = 49988"
    by (simp_all add: stack_like_def room_left_def)
  obtain c a b d bs where c: "pcb_setup (cstr ''comhand'') PCB_CLASS_SYSTEM 0 k = Some (c, a)"
    "pcb_context_init c (code_addr img Comhand_Process) None 0 a = Some b" "pcb_insert c b = Some d"
    "procs_ok d (placed d c (\<lambda>_. []))" "heap_rel d bs" "stack_like bs" "room_left bs = 45788" "start_only k d"
    "started d c (bytes ''comhand'') PCB_CLASS_SYSTEM 0 (code_addr img Comhand_Process)"
    "\<forall>P. own_memory k P \<longrightarrow> own_memory d (insert c P)"
    using start_process [where func = "code_addr img Comhand_Process" and cl = PCB_CLASS_SYSTEM and pr = 0,
        OF ok hr st(1) _ n(1)] st(2) by (auto simp: nm all_queued_def)
  have sc: "p_state (pcbs d c) = \<lparr>exec = PCB_EXEC_READY, dpatch = PCB_DPATCH_ACTIVE, cls = 0, pri = 0\<rparr>"
    "pname (pcbs d) c = bytes ''comhand''"
    using c(9) by (simp_all add: started_def)
  have Qc: "placed d c (\<lambda>_. []) = (\<lambda>_. [])(0 := [c])"
    by (simp add: placed_def place_def sc PSTATE_QUEUE_SELECTOR_def)
  have other: "\<forall>x \<in> set (all_queued ((\<lambda>_. [])(0 := [c]))). pname (pcbs d) x \<noteq> cchars (cstr ''idle'')"
    unfolding nm by (simp add: all_queued_def sc bytes_def)
  have okc: "procs_ok d ((\<lambda>_. [])(0 := [c]))" using c(4) Qc by simp
  obtain i e f g bs' where i: "pcb_setup (cstr ''idle'') PCB_CLASS_SYSTEM 9 d = Some (i, e)"
    "pcb_context_init i (code_addr img Idle_Process) None 0 e = Some f" "pcb_insert i f = Some g"
    "procs_ok g (placed g i ((\<lambda>_. [])(0 := [c])))" "start_only d g"
    "started g i (bytes ''idle'') PCB_CLASS_SYSTEM 9 (code_addr img Idle_Process)"
    "p_state (pcbs g c) = p_state (pcbs d c)"
    "started g c (bytes ''comhand'') PCB_CLASS_SYSTEM 0 (code_addr img Comhand_Process)"
    "\<forall>P. own_memory d P \<longrightarrow> own_memory g (insert i P)"
    using start_process [where func = "code_addr img Idle_Process" and cl = PCB_CLASS_SYSTEM and pr = 9,
        OF okc c(5,6) _ n(2) _ other] c(7,9) by (auto simp: nm all_queued_def)
  have si: "p_state (pcbs g i) = \<lparr>exec = PCB_EXEC_READY, dpatch = PCB_DPATCH_ACTIVE, cls = 0, pri = 9\<rparr>"
    using i(6) by (simp add: started_def)
  have "placed g i ((\<lambda>_. [])(0 := [c])) = boot_queues c i"
    by (simp add: placed_def place_def si sc i(7) PSTATE_QUEUE_SELECTOR_def boot_queues_def)
  moreover have "own_memory k {}" by (simp add: own_memory_def)
  then have "own_memory g {i, c}" using c(10) i(9) by blast
  then have "own_memory g {c, i}" by (simp add: insert_commute)
  ultimately show ?thesis using c i start_only_trans [OF c(8) i(5)] by metis
qed

lemma initial_devices:
  assumes "serial_dcb_list s = initial_dcbs[0 := (initial_dcb COM1)\<lparr>dopen := True\<rparr>]" and "d < 4"
  shows "device_ok s d []" "\<not> event (dcb_at s d)" "dcbs_ok s"
proof -
  have l: "serial_dcb_list s = [(initial_dcb COM1)\<lparr>dopen := True\<rparr>, initial_dcb COM2, initial_dcb COM3, initial_dcb COM4]"
    using assms(1) by (simp add: initial_dcbs_def)
  have d: "d = 0 \<or> d = 1 \<or> d = 2 \<or> d = 3" using assms(2) by auto
  then show "device_ok s d []" "\<not> event (dcb_at s d)"
    unfolding device_ok_def ioq_rel_def ring_empty_def l
    by (auto simp: initial_dcb_def SERIAL_RBUFFER_SIZE_def)
  show "dcbs_ok s" by (simp add: dcbs_ok_def l initial_dcb_def)
qed

text \<open>An open COM1 and two ready processes: the invariant of the running system.\<close>

lemma boot_os_ok:
  assumes "procs_ok s (boot_queues c i)" and "serial_dcb_list s = initial_dcbs[0 := (initial_dcb COM1)\<lparr>dopen := True\<rparr>]"
    and "pcb_running s = NULL" and "pctxt (pcbs s c) \<noteq> NULL" and "pctxt (pcbs s i) \<noteq> NULL"
  shows "os_ok s {c, i} (boot_queues c i) (\<lambda>_. [])"
proof -
  have "requests_ok s (boot_queues c i) (\<lambda>_. [])"
    using initial_devices [OF assms(2)] by (simp add: requests_ok_def all_queued_def boot_queues_def)
  moreover have "set (all_queued (boot_queues c i)) = {c, i}" by (simp add: all_queued_def boot_queues_def)
  ultimately show ?thesis
    using assms initial_devices(3) [OF assms(2), of 0] by (auto simp: os_ok_def procs_ok_def)
qed

lemma modules_ok:
  assumes "com1_ready s" and "\<not> heap_isinit s" and "heap_is_initialized s" and "heap_addr s = KHEAP_BASE"
    and "alloc_head s = NULL" and "pcb_queues s = initial_queues" and "pcb_running s = NULL"
    and "\<forall>p. length (p_name (pcbs s p)) = MPX_PCB_PROCNAME_BUFFER_SZ"
    and "serial_dcb_list s = initial_dcbs" and "length (idt_entries s) = 256"
  shows "\<exists>t c i. kmain_modules img s = Some t \<and> os_ok t {c, i} (boot_queues c i) (\<lambda>_. []) \<and>
    procs_ok t (boot_queues c i) \<and> own_memory t {c, i} \<and>
    serial_dcb_list t = initial_dcbs[0 := (initial_dcb COM1)\<lparr>dopen := True\<rparr>] \<and> pcb_running t = NULL \<and>
    started t c (bytes ''comhand'') PCB_CLASS_SYSTEM 0 (code_addr img Comhand_Process) \<and>
    started t i (bytes ''idle'') PCB_CLASS_SYSTEM 9 (code_addr img Idle_Process) \<and> installed t 0x24 serial_isr \<and>
    (\<forall>v f. v \<noteq> 0x24 \<longrightarrow> installed s v f \<longrightarrow> installed t v f)"
proof -
  obtain a where a: "serial_open COM1 19200 s = Some (0, a)" "open_only s a" "installed a 0x24 serial_isr"
    "\<forall>v. v \<noteq> 0x24 \<longrightarrow> idt_entries a ! v = idt_entries s ! v" "length (idt_entries a) = 256"
    "serial_dcb_list a = initial_dcbs[0 := (initial_dcb COM1)\<lparr>dopen := True\<rparr>]"
    using open_com1 [OF assms(9,10)] by blast
  have ra: "com1_ready a" using a(2) assms(1) by (cases s; cases a) (simp add: open_only_def com1_ready_def)
  let ?b = "logged ''Initializing MPX modules...'' (logged ''Opened COM1 for full interrupt driven I/O...'' a)"
  have ob: "open_only s ?b"
    by (intro open_only_trans [OF a(2)] open_only_trans [OF _ open_only_steps(6)] open_only_steps)
  have eb: "idt_entries ?b = idt_entries a" "serial_dcb_list ?b = serial_dcb_list a" "isr_addr ?b = isr_addr s" "initialized ?b = initialized a"
    using a(2) by (cases s; cases a; simp add: logged_def open_only_def)+
  have hb: "\<not> heap_isinit ?b" "heap_is_initialized ?b" "heap_addr ?b = KHEAP_BASE" "alloc_head ?b = NULL"
    "pcb_queues ?b = initial_queues" "\<forall>p. length (p_name (pcbs ?b p)) = MPX_PCB_PROCNAME_BUFFER_SZ"
    "pcb_running ?b = NULL"
    using ob assms(2-8) by (cases s; cases a; simp add: open_only_def logged_def)+
  obtain h k where k: "initialize_heap 50000 ?b = Some h" "sys_set_heap_functions Allocate_Memory Free_Memory h = k"
    "heap_rel k [(KHEAP_BASE, 49988, True)]" "procs_ok k (\<lambda>_. [])"
    "k = ?b\<lparr>heap_addr := heap_addr k, heap_isinit := heap_isinit k, free_head := free_head k, global_heap := global_heap k,
      mcbs := mcbs k, malloc_function := Allocate_Memory, free_function := Free_Memory\<rparr>"
    using heap_module [OF hb(1-6)] by blast
  have ek: "idt_entries k = idt_entries a" "serial_dcb_list k = serial_dcb_list a" "isr_addr k = isr_addr s"
    "pcb_running k = NULL" "initialized k = initialized a"
    by (subst k(5), simp add: eb hb)+
  obtain c i d e f g j l where p: "pcb_setup (cstr ''comhand'') PCB_CLASS_SYSTEM 0 k = Some (c, d)"
    "pcb_context_init c (code_addr img Comhand_Process) None 0 d = Some e" "pcb_insert c e = Some f"
    "pcb_setup (cstr ''idle'') PCB_CLASS_SYSTEM 9 f = Some (i, g)"
    "pcb_context_init i (code_addr img Idle_Process) None 0 g = Some j" "pcb_insert i j = Some l"
    "procs_ok l (boot_queues c i)" "start_only k l"
    "started l c (bytes ''comhand'') PCB_CLASS_SYSTEM 0 (code_addr img Comhand_Process)"
    "started l i (bytes ''idle'') PCB_CLASS_SYSTEM 9 (code_addr img Idle_Process)" "own_memory l {c, i}"
    using boot_processes [OF k(4,3), of img] by blast
  note el = start_only_serial [OF p(8)]
  have rl: "com1_ready l" using el ek(5) ra by (simp add: com1_ready_def)
  let ?t = "logged ''Transferring control to comhand...'' l"
  have same: "procs_ok ?t Q = procs_ok l Q" "started ?t x nm cl pr fn = started l x nm cl pr fn"
    "own_memory ?t P = own_memory l P" for Q x nm cl pr fn P
    by (simp_all add: own_memory_def logged_def procs_ok_def queues_rel_def named_def heap_ok_def heap_rel_def live_ptrs_def started_def)
  have et: "serial_dcb_list ?t = initial_dcbs[0 := (initial_dcb COM1)\<lparr>dopen := True\<rparr>]" "pcb_running ?t = NULL"
    "idt_entries ?t = idt_entries a" "isr_addr ?t = isr_addr s"
    using el ek a(6) by (simp_all add: logged_def)
  have pc: "pcbs ?t = pcbs l" by (simp add: logged_def)
  have nn: "pctxt (pcbs l c) \<noteq> NULL" "pctxt (pcbs l i) \<noteq> NULL" using p(9,10) unfolding started_def by blast+
  have "kmain_modules img s = Some ?t"
    unfolding kmain_modules_def a(1) bind.bind_lunit prod.case Let_def
    using ra rl k(1,2) p(1-6) by (simp add: klogv_eq bytes_def)
  moreover have "os_ok ?t {c, i} (boot_queues c i) (\<lambda>_. [])"
    using p(7) et(1,2) nn by (intro boot_os_ok) (simp_all only: same pc not_False_eq_True)
  moreover have "installed ?t 0x24 serial_isr" "\<forall>v f. v \<noteq> 0x24 \<longrightarrow> installed s v f \<longrightarrow> installed ?t v f"
    using a(2-5) et(3,4) assms(10) by (cases s; cases a; auto simp: installed_def open_only_def)+
  moreover have "procs_ok ?t (boot_queues c i)"
    "started ?t c (bytes ''comhand'') PCB_CLASS_SYSTEM 0 (code_addr img Comhand_Process)"
    "started ?t i (bytes ''idle'') PCB_CLASS_SYSTEM 9 (code_addr img Idle_Process)"
    "own_memory ?t {c, i}"
    using p(7,9,10,11) by (simp_all only: same)
  ultimately show ?thesis using et(1,2) by blast
qed

section \<open>Claims\<close>

lemma start_up:
  assumes "powered_on e (s :: 'a os_scheme)"
  shows "\<exists>b t c i. kmain_hardware s = Some b \<and> kmain_modules img b = Some t \<and>
    os_ok t {c, i} ((\<lambda>_. [])(0 := [c, i])) (\<lambda>_. []) \<and> own_memory t {c, i} \<and>
    started t c (bytes ''comhand'') PCB_CLASS_SYSTEM 0 (code_addr img Comhand_Process) \<and>
    started t i (bytes ''idle'') PCB_CLASS_SYSTEM 9 (code_addr img Idle_Process) \<and> dopen (dcb_at t 0) \<and>
    (\<forall>v < 32. installed t v (if v = 8 then rtc_isr else if v < 17 then isrs ! v else isr_reserved)) \<and>
    installed t 0x60 sys_call_isr \<and> installed t 0x24 serial_isr \<and>
    (\<forall>ctx. ctx \<noteq> NULL \<longrightarrow> c_eax (ctxts t ctx) = IDLE \<longrightarrow>
      (\<exists>u. sys_call [] ctx t = Some (pctxt (pcbs t c), u) \<and> pcb_running u = c \<and>
        exec (p_state (pcbs u c)) = PCB_EXEC_RUNNING \<and> os_ok u {c, i} ((\<lambda>_. [])(0 := [i])) (\<lambda>_. [])))"
proof -
  have on: "\<not> heap_is_initialized s" "unat (phys_alloc_addr s) div 4096 = e" "0 < e" "e < 1000" "frames_below s 0"
    "\<forall>t i. ptabs s t i = zero_page" "length (initialized s) = 4" "length (idt_entries s) = 256"
    using assms by (simp_all add: powered_on_def)
  obtain b where b: "kmain_hardware s = Some b" "hw_only s b" "com1_ready b" "heap_is_initialized b"
    "length (idt_entries b) = 256"
    "\<forall>v < 32. installed b v (if v = 8 then rtc_isr else if v < 17 then isrs ! v else isr_reserved)"
    "installed b 0x60 sys_call_isr"
    using hardware_ok [OF on(7,8) on(1-6)] by blast
  have eb: "\<not> heap_isinit b" "heap_addr b = KHEAP_BASE" "alloc_head b = NULL" "pcb_queues b = initial_queues"
    "pcb_running b = NULL" "\<forall>p. length (p_name (pcbs b p)) = MPX_PCB_PROCNAME_BUFFER_SZ" "serial_dcb_list b = initial_dcbs"
    using b(2) assms by (cases s; cases b; simp add: hw_only_def powered_on_def)+
  obtain t c i where t: "kmain_modules img b = Some t" "os_ok t {c, i} (boot_queues c i) (\<lambda>_. [])"
    "serial_dcb_list t = initial_dcbs[0 := (initial_dcb COM1)\<lparr>dopen := True\<rparr>]" "pcb_running t = NULL"
    "started t c (bytes ''comhand'') PCB_CLASS_SYSTEM 0 (code_addr img Comhand_Process)"
    "started t i (bytes ''idle'') PCB_CLASS_SYSTEM 9 (code_addr img Idle_Process)" "installed t 0x24 serial_isr"
    "\<forall>v f. v \<noteq> 0x24 \<longrightarrow> installed b v f \<longrightarrow> installed t v f" "own_memory t {c, i}"
    using modules_ok [OF b(3) eb(1) b(4) eb(2-7) b(5), of img] by blast
  have dispatch: "\<exists>u. sys_call [] ctx t = Some (pctxt (pcbs t c), u) \<and> pcb_running u = c \<and>
      exec (p_state (pcbs u c)) = PCB_EXEC_RUNNING \<and> os_ok u {c, i} ((\<lambda>_. [])(0 := [i])) (\<lambda>_. [])"
    if ctx: "ctx \<noteq> NULL" "c_eax (ctxts t ctx) = IDLE" for ctx
  proof -
    have q: "\<forall>d < 4. quiet t d" using initial_devices(2) [OF t(3)] by (simp add: quiet_def)
    have Q: "boot_queues c i 0 = c # [i]" by (simp add: boot_queues_def)
    have ok: "os_ok (set_eax ctx 0 t) {c, i} (boot_queues c i) (\<lambda>_. [])" using os_ok_eax t(2) by blast
    have "yielded (set_eax ctx 0 t) (boot_queues c i) = (\<lambda>_. [])(0 := [i])"
      using t(4) by (simp add: yielded_def boot_queues_def)
    then show ?thesis
      using idle_switch [OF ok Q ctx(1)] ctx(2) by (auto simp: quiet_call [OF t(2) q] Let_def IDLE_def READ_def WRITE_def)
  qed
  have "\<forall>v < 32. installed t v (if v = 8 then rtc_isr else if v < 17 then isrs ! v else isr_reserved)"
    using b(6) t(8) by auto
  moreover have "installed t 0x60 sys_call_isr" using b(7) t(8) by simp
  moreover have "dopen (dcb_at t 0)" using t(3) by (simp add: initial_dcbs_def)
  ultimately show ?thesis
    using b(1) t(1,2,5-7,9) dispatch unfolding boot_queues_def by blast
qed

text \<open>
  C11: The system comes up. From a machine at power-on with an image of \<open>e\<close> pages, both stages of
  \<^verbatim>\<open>kmain\<close> succeed, whatever the ports answer. They leave the command handler and the
  idle process ready in this order, each with a context that starts its function, COM1 open, the
  exceptions, the system call and the serial interrupt in the table, and the invariant of the
  running system. The interrupt with \<^verbatim>\<open>IDLE\<close> then switches to the command handler.
\<close>

theorem kmain_starts:
  assumes "powered_on e (s :: 'a os_scheme)"
  shows "\<exists>b t c i. kmain_hardware s = Some b \<and> kmain_modules img b = Some t \<and>
    os_ok t {c, i} ((\<lambda>_. [])(0 := [c, i])) (\<lambda>_. []) \<and>
    started t c (bytes ''comhand'') PCB_CLASS_SYSTEM 0 (code_addr img Comhand_Process) \<and>
    started t i (bytes ''idle'') PCB_CLASS_SYSTEM 9 (code_addr img Idle_Process) \<and> dopen (dcb_at t 0) \<and>
    (\<forall>v < 32. installed t v (if v = 8 then rtc_isr else if v < 17 then isrs ! v else isr_reserved)) \<and>
    installed t 0x60 sys_call_isr \<and> installed t 0x24 serial_isr \<and>
    (\<forall>ctx. ctx \<noteq> NULL \<longrightarrow> c_eax (ctxts t ctx) = IDLE \<longrightarrow>
      (\<exists>u. sys_call [] ctx t = Some (pctxt (pcbs t c), u) \<and> pcb_running u = c \<and>
        exec (p_state (pcbs u c)) = PCB_EXEC_RUNNING \<and> os_ok u {c, i} ((\<lambda>_. [])(0 := [i])) (\<lambda>_. [])))"
  using start_up [OF assms] by blast

definition reset_os :: "unit os_scheme" where
  "reset_os = os_base\<lparr>phys_alloc_addr := 0x123456, heap_addr := KHEAP_BASE, heap_is_initialized := False,
     heap_isinit := False, initialized := replicate 4 False, serial_dcb_list := initial_dcbs\<rparr>"

lemma reset_os_on: "powered_on 0x123 reset_os"
  by (simp add: powered_on_def reset_os_def os_base_def boot_kern_def boot_procs_def heap_on_eq boot_heap_def
      frames_below_def frame_used_def zero_pcb_def)

theorem kmain_starts_witness:
  "\<exists>b t c i. kmain_hardware reset_os = Some b \<and>
    kmain_modules \<lparr>code_addr = (\<lambda>f. 0x100000), build_date = cstr ''Jan  1 2024''\<rparr> b = Some t \<and>
    os_ok t {c, i} ((\<lambda>_. [])(0 := [c, i])) (\<lambda>_. []) \<and>
    started t c (bytes ''comhand'') PCB_CLASS_SYSTEM 0 0x100000"
  using kmain_starts [OF reset_os_on, of "\<lparr>code_addr = (\<lambda>f. 0x100000), build_date = cstr ''Jan  1 2024''\<rparr>"]
  by (simp only: image.simps) blast

end
