(* ===== verification/Comhand_Table.thy ===== *)
theory Comhand_Table
  imports Console
begin

text \<open>
  The command table \<^verbatim>\<open>cmd_entries\<close> of \<^verbatim>\<open>kernel/comhand.c\<close>: for each
  command its number, its name, its function and its help text, in the order of the source.
\<close>

datatype command =
  HelpCommand
| SetTimeCommand
| GetTimeCommand
| SetDateCommand
| GetDateCommand
| SetPcbPriorityCommand
| ShowPcbCommand
| ShowPcbReadyCommand
| ShowPcbBlockedCommand
| ShowPcbAllCommand
| DeletePcbCommand
| SuspendPcbCommand
| ResumePcbCommand
| VersionCommand
| ShutdownCommand
| LoadR3
| AlarmCommand
| AllocateMemoryCommand
| FreeMemoryCommand
| ShowFreeMemoryCommand
| ShowAllocatedMemoryCommand

record cmd_entry =
  key :: "u8 list"
  key_alt :: "u8 list"
  command_func :: command
  help_msg :: "u8 list"

section \<open>Help texts\<close>

text \<open>A line of a help text, and one that is indented by a tabulator.\<close>

definition ln :: "string \<Rightarrow> u8 list" where "ln t = bytes t @ crlf"
definition tab :: "string \<Rightarrow> u8 list" where "tab t = 9 # bytes t @ crlf"

definition help_1 :: "u8 list" where
  "help_1 =
     ln ''Help'' @
     tab ''Input:'' @
     tab ''command - the command name or its corresponding number or all'' @
     tab ''Output:'' @
     tab ''no return value'' @
     tab ''Description:'' @
     tab ''prints all available user commands as well as details about the commands if'' @
     tab ''all is used as the parameter'' @
     tab ''prints the user command with details if a command or its id is specified'' @ [0]"

definition help_2 :: "u8 list" where
  "help_2 =
     ln ''Set Time'' @
     tab ''Input:'' @
     tab ''hour - the hour to be written into data (0-23)'' @
     tab ''minute - the minute to be written into data (0-59)'' @
     tab ''second - the second to be written into data (0-59)'' @
     tab ''Output:'' @
     tab ''no output'' @
     tab ''Description:'' @
     tab ''Sets the system time.'' @
     tab ''The user will be prompted to enter the hour, minute, then second specifications'' @ [0]"

definition help_3 :: "u8 list" where
  "help_3 =
     ln ''Get Time'' @
     tab ''Input:'' @
     tab ''no inputs'' @
     tab ''Output:'' @
     tab ''outputs the system time in month, day, year format'' @
     tab ''Description:'' @
     tab ''Outputs the time stored on the system data registers'' @ [0]"

definition help_4 :: "u8 list" where
  "help_4 =
     ln ''Set Date'' @
     tab ''Input:'' @
     tab ''day - the number to set the system day to.'' @
     tab ''      date range depends on month 1 is always the minimum while the maximum could be 28, 29, 30, 31'' @
     tab ''month - the number to set the system month to (1-12)'' @
     tab ''year - the number to set the system year to (2 digits)'' @
     tab ''Output:'' @
     tab ''no output'' @
     tab ''Description:'' @
     tab ''sets the system date by writing to the system data register'' @
     tab ''it will prompt the user to enter the month XX, then day XX, year 20XX'' @ [0]"

definition help_5 :: "u8 list" where
  "help_5 =
     ln ''Get Date'' @
     tab ''Input:'' @
     tab ''no input parameters'' @
     tab ''Output:'' @
     tab ''outputs the system date'' @
     tab ''Description:'' @
     tab ''outputs the date stored on the system data registers in month, day, year'' @
     tab ''format'' @ [0]"

definition help_6 :: "u8 list" where
  "help_6 =
     ln ''Set PCB Priority'' @
     tab ''Input:'' @
     tab ''process name - corresponding name of the new process'' @
     tab ''process priority - base priority of the new process'' @
     tab ''Output:'' @
     tab ''no output'' @
     tab ''Description:'' @
     tab ''Locates a process pcb and changes its base priority'' @ [0]"

definition help_7 :: "u8 list" where
  "help_7 =
     ln ''Show PCB'' @
     tab ''Input:'' @
     tab ''Name of Process'' @
     tab ''Output:'' @
     tab ''Information on found process'' @
     tab ''Description:'' @
     tab ''Prints the name, class, state, suspended status, and priority of the given process'' @ [0]"

definition help_8 :: "u8 list" where
  "help_8 =
     ln ''Show Ready PCBs'' @
     tab ''Input:'' @
     9 # bytes ''None'' @ [0x0A] @
     tab ''Output:'' @
     tab ''Information on all ready PCBs'' @
     tab ''Description:'' @
     tab ''Prints the name, class, state, suspended status, and priority of all ready PCBs'' @ [0]"

definition help_9 :: "u8 list" where
  "help_9 =
     ln ''Show Blocked PCBs'' @
     tab ''Input:'' @
     tab ''None'' @
     tab ''Output:'' @
     tab ''Information on all Blocked PCBs'' @
     tab ''Description:'' @
     tab ''Prints the name, class, state, suspended status, and priority of all blocked PCBs'' @ [0]"

definition help_10 :: "u8 list" where
  "help_10 =
     ln ''Show All PCBs'' @
     tab ''Input:'' @
     tab ''None'' @
     tab ''Output:'' @
     tab ''Information on all PCBs'' @
     tab ''Description:'' @
     tab ''Prints the name, class, state, suspended status, and priority of all PCBs'' @ [0]"

definition help_11 :: "u8 list" where
  "help_11 =
     ln ''Delete PCB'' @
     tab ''Input:'' @
     tab ''Name of Process'' @
     tab ''Output:'' @
     tab ''No output'' @
     tab ''Description:'' @
     tab ''Deletes the PCB and frees associated memory of given PCB name if found'' @ [0]"

definition help_12 :: "u8 list" where
  "help_12 =
     ln ''Suspend PCB'' @
     tab ''Input:'' @
     tab ''Name of Process '' @
     tab ''Output: '' @
     tab ''No output'' @
     tab ''Description:'' @
     tab ''Suspends the PCB if found'' @ [0]"

definition help_13 :: "u8 list" where
  "help_13 =
     ln ''Resume PCB'' @
     tab ''Input:'' @
     tab ''Name of Process'' @
     tab ''Output:'' @
     tab ''No output'' @
     tab ''Description:'' @
     tab ''Unsuspends the PCB if found'' @ [0]"

definition help_14 :: "u8 list" where
  "help_14 =
     ln ''Version'' @
     tab ''Input:'' @
     tab ''no input parameters'' @
     tab ''Output:'' @
     tab ''no output'' @
     tab ''Description:'' @
     tab ''prints the current version of MPX and the compilation date'' @ [0]"

definition help_15 :: "u8 list" where
  "help_15 =
     ln ''Shut Down'' @
     tab ''Input:'' @
     tab ''no input parameters'' @
     tab ''Output:'' @
     tab ''no output value'' @
     tab ''Description:'' @
     tab ''shuts down the machine after confirmation is given by entering 1.'' @ [0]"

definition help_16 :: "u8 list" where
  "help_16 =
     ln ''LoadR3'' @
     tab ''Input:'' @
     tab ''no input parameters'' @
     tab ''Output:'' @
     tab ''no output value'' @
     tab ''Description:'' @
     tab ''Loads the processes associated with module R3.'' @ [0]"

definition help_17 :: "u8 list" where
  "help_17 =
     ln ''Alarm'' @
     tab ''Input:'' @
     tab ''Time to set off alarm.'' @
     tab ''Message to display at the alarm.'' @
     tab ''Result:'' @
     tab ''Alarm created to wait until past the set time.'' @
     tab ''Description:'' @
     tab ''Spawns an alarm process to wait until it passes a set time.'' @ [0]"

definition help_18 :: "u8 list" where
  "help_18 =
     ln ''Allocate Memory'' @
     tab ''Input:'' @
     tab ''An amount of memory to allocate in bytes.'' @
     tab ''Result:'' @
     tab ''Returns an address to a newly created block if successful, but not otherwise.'' @
     tab ''Description:'' @
     tab ''Allocates memory in the heap.'' @ [0]"

definition help_19 :: "u8 list" where
  "help_19 =
     ln ''Free Memory'' @
     tab ''Input:'' @
     tab ''An address to the beginning of a block.'' @
     tab ''Result:'' @
     tab ''Frees memory if successful, but not otherwise.'' @
     tab ''Description:'' @
     tab ''Frees existing memory in the heap.'' @ [0]"

definition help_20 :: "u8 list" where
  "help_20 =
     ln ''Show Free Memory'' @
     tab ''Input:'' @
     tab ''None'' @
     tab ''Result:'' @
     tab ''A printed list of free memory.'' @
     tab ''Description:'' @
     tab ''Show the list of free memory blocks in the heap.'' @ [0]"

definition help_21 :: "u8 list" where
  "help_21 =
     ln ''Show Allocated Memory'' @
     tab ''Input:'' @
     tab ''None'' @
     tab ''Result:'' @
     tab ''A printed list of allocated memory.'' @
     tab ''Description:'' @
     tab ''Show the list of allocated memory blocks in the heap.'' @ [0]"

section \<open>The table\<close>

definition cmd_entries :: "cmd_entry list" where
  "cmd_entries =
    [\<lparr>key = cstr ''1'', key_alt = cstr ''Help'', command_func = HelpCommand, help_msg = help_1\<rparr>,
     \<lparr>key = cstr ''2'', key_alt = cstr ''Set Time'', command_func = SetTimeCommand, help_msg = help_2\<rparr>,
     \<lparr>key = cstr ''3'', key_alt = cstr ''Get Time'', command_func = GetTimeCommand, help_msg = help_3\<rparr>,
     \<lparr>key = cstr ''4'', key_alt = cstr ''Set Date'', command_func = SetDateCommand, help_msg = help_4\<rparr>,
     \<lparr>key = cstr ''5'', key_alt = cstr ''Get Date'', command_func = GetDateCommand, help_msg = help_5\<rparr>,
     \<lparr>key = cstr ''6'', key_alt = cstr ''Set PCB Priority'', command_func = SetPcbPriorityCommand, help_msg = help_6\<rparr>,
     \<lparr>key = cstr ''7'', key_alt = cstr ''Show PCB'', command_func = ShowPcbCommand, help_msg = help_7\<rparr>,
     \<lparr>key = cstr ''8'', key_alt = cstr ''Show Ready PCBs'', command_func = ShowPcbReadyCommand, help_msg = help_8\<rparr>,
     \<lparr>key = cstr ''9'', key_alt = cstr ''Show Blocked PCBs'', command_func = ShowPcbBlockedCommand, help_msg = help_9\<rparr>,
     \<lparr>key = cstr ''10'', key_alt = cstr ''Show All PCBs'', command_func = ShowPcbAllCommand, help_msg = help_10\<rparr>,
     \<lparr>key = cstr ''11'', key_alt = cstr ''Delete PCB'', command_func = DeletePcbCommand, help_msg = help_11\<rparr>,
     \<lparr>key = cstr ''12'', key_alt = cstr ''Suspend PCB'', command_func = SuspendPcbCommand, help_msg = help_12\<rparr>,
     \<lparr>key = cstr ''13'', key_alt = cstr ''Resume PCB'', command_func = ResumePcbCommand, help_msg = help_13\<rparr>,
     \<lparr>key = cstr ''14'', key_alt = cstr ''Version'', command_func = VersionCommand, help_msg = help_14\<rparr>,
     \<lparr>key = cstr ''15'', key_alt = cstr ''Shut Down'', command_func = ShutdownCommand, help_msg = help_15\<rparr>,
     \<lparr>key = cstr ''16'', key_alt = cstr ''LoadR3'', command_func = LoadR3, help_msg = help_16\<rparr>,
     \<lparr>key = cstr ''17'', key_alt = cstr ''Alarm'', command_func = AlarmCommand, help_msg = help_17\<rparr>,
     \<lparr>key = cstr ''18'', key_alt = cstr ''Allocate Memory'', command_func = AllocateMemoryCommand, help_msg = help_18\<rparr>,
     \<lparr>key = cstr ''19'', key_alt = cstr ''Free Memory'', command_func = FreeMemoryCommand, help_msg = help_19\<rparr>,
     \<lparr>key = cstr ''20'', key_alt = cstr ''Show Free Memory'', command_func = ShowFreeMemoryCommand, help_msg = help_20\<rparr>,
     \<lparr>key = cstr ''21'', key_alt = cstr ''Show Allocated Memory'', command_func = ShowAllocatedMemoryCommand, help_msg = help_21\<rparr>]"

end
