(* ===== verification/Rtc.thy ===== *)
theory Rtc
  imports Console
begin

text \<open>
  The real-time clock of \<^verbatim>\<open>kernel/time.c\<close>: setting and printing the time and the
  date through the index and data ports of the chip, and the alarm process.
\<close>

section \<open>Conversions\<close>

definition month_info :: "(u8 list \<times> int) list" where
  "month_info =
     [(cstr ''January'', 31), (cstr ''February'', 28), (cstr ''March'', 31), (cstr ''April'', 30),
      (cstr ''May'', 31), (cstr ''June'', 30), (cstr ''July'', 31), (cstr ''August'', 31),
      (cstr ''September'', 30), (cstr ''October'', 31), (cstr ''November'', 30), (cstr ''December'', 31)]"

definition decimalToBCD :: "int \<Rightarrow> u8" where
  "decimalToBCD i = word_of_int (push_bit 4 (i sdiv 10) OR (i smod 10))"

definition BCDtoDecimal :: "u8 \<Rightarrow> int" where
  "BCDtoDecimal bcd = uint (bcd AND 0x0F) + uint (drop_bit 4 bcd) * 10"

section \<open>The ports of the clock\<close>

definition rtc_write :: "u8 \<Rightarrow> int \<Rightarrow> 'a machine_scheme \<Rightarrow> 'a machine_scheme" where
  "rtc_write reg v s = outb 0x71 (decimalToBCD v) (outb 0x70 reg s)"

definition rtc_read :: "u8 \<Rightarrow> 'a machine_scheme \<Rightarrow> int \<times> 'a machine_scheme" where
  "rtc_read reg s = (let (b, s) = inb 0x71 (outb 0x70 reg s) in (BCDtoDecimal b, s))"

definition setTime :: "int \<Rightarrow> int \<Rightarrow> int \<Rightarrow> 'a machine_scheme \<Rightarrow> 'a machine_scheme" where
  "setTime hours minute seconds s =
     (let s = cli s;
          s = rtc_write 0x00 seconds s;
          s = rtc_write 0x02 minute s;
          s = rtc_write 0x04 hours s
      in sti s)"

definition setDate :: "int \<Rightarrow> int \<Rightarrow> int \<Rightarrow> 'a machine_scheme \<Rightarrow> 'a machine_scheme" where
  "setDate day month year s =
     (let s = cli s;
          s = rtc_write ((0x09 AND NOT 0x80) OR 0x80) year s;
          s = rtc_write ((0x08 AND NOT 0x80) OR 0x80) month s;
          s = rtc_write ((0x07 AND NOT 0x80) OR 0x80) day s
      in sti s)"

section \<open>Printing\<close>

text \<open>
  \<^verbatim>\<open>for (i = 0; src[i] != 0; ++i, ++bufsz) buf[bufsz] = src[i]\<close>, with the number
  of characters copied. The arrays are uninitialised in C; every byte that is read has been
  written before.
\<close>

fun copy_str :: "u8 list \<Rightarrow> u8 list \<Rightarrow> nat \<Rightarrow> (nat \<times> u8 list \<times> nat) option" where
  "copy_str [] buf bufsz = None"
| "copy_str (c # cs) buf bufsz =
     (if c \<noteq> 0 then do {
        buf \<leftarrow> wr buf bufsz c;
        (n, buf, bufsz) \<leftarrow> copy_str cs buf (Suc bufsz);
        Some (Suc n, buf, bufsz)
      } else Some (0, buf, bufsz))"

text \<open>A number with a leading zero in an array of three characters.\<close>

definition two_digits :: "int \<Rightarrow> u8 list option" where
  "two_digits v = do {
     str \<leftarrow> itoa (replicate 3 0) v;
     if v < 10 then do {
       c \<leftarrow> rd str 0;
       str \<leftarrow> wr str 1 c;
       str \<leftarrow> wr str 0 0x30;
       wr str 2 0
     } else Some str
   }"

definition finish_line :: "'a others \<Rightarrow> u8 list \<Rightarrow> nat \<Rightarrow> 'a con_scheme \<Rightarrow> 'a con_scheme option" where
  "finish_line env buf bufsz s = do {
     buf \<leftarrow> wr buf bufsz 0x0D;
     buf \<leftarrow> wr buf (bufsz + 1) 0x0A;
     con_write env buf (bufsz + 2) s
   }"

definition getTime :: "'a others \<Rightarrow> 'a con_scheme \<Rightarrow> 'a con_scheme option" where
  "getTime env s = do {
     let s = cli s;
     let (seconds, s) = rtc_read 0x00 s;
     let (minutes, s) = rtc_read 0x02 s;
     let (hours, s) = rtc_read 0x04 s;
     let s = sti s;
     let fmt = [0, 0x3A, 0, 0x3A, 0, 0];
     seconds_str \<leftarrow> two_digits seconds;
     minutes_str \<leftarrow> two_digits minutes;
     hours_str \<leftarrow> two_digits hours;
     (_, timebuffer, bufsz) \<leftarrow> copy_str hours_str (replicate 100 0) 0;
     let fmtp = 1;
     (n, timebuffer, bufsz) \<leftarrow> copy_str (drop fmtp fmt) timebuffer bufsz;
     let fmtp = fmtp + n;
     (_, timebuffer, bufsz) \<leftarrow> copy_str minutes_str timebuffer bufsz;
     let fmtp = fmtp + 1;
     (n, timebuffer, bufsz) \<leftarrow> copy_str (drop fmtp fmt) timebuffer bufsz;
     (_, timebuffer, bufsz) \<leftarrow> copy_str seconds_str timebuffer bufsz;
     finish_line env timebuffer bufsz s
   }"

definition getDate :: "'a others \<Rightarrow> 'a con_scheme \<Rightarrow> 'a con_scheme option" where
  "getDate env s = do {
     let s = cli s;
     let (year, s) = rtc_read ((0x09 AND NOT 0x80) OR 0x80) s;
     let (month, s) = rtc_read ((0x08 AND NOT 0x80) OR 0x80) s;
     let (day, s) = rtc_read ((0x07 AND NOT 0x80) OR 0x80) s;
     let s = sti s;
     let fmt = [0, 0x20, 0, 0x2C, 0x20, 0x32, 0x30, 0, 0];
     daystr \<leftarrow> itoa (replicate 3 0) day;
     yearstr \<leftarrow> two_digits year;
     ensure (1 \<le> month);
     (name, _) \<leftarrow> rd month_info (nat (month - 1));
     (_, datebuffer, bufsz) \<leftarrow> copy_str name (replicate 100 0) 0;
     let fmtp = 1;
     (n, datebuffer, bufsz) \<leftarrow> copy_str (drop fmtp fmt) datebuffer bufsz;
     let fmtp = fmtp + n;
     (_, datebuffer, bufsz) \<leftarrow> copy_str daystr datebuffer bufsz;
     let fmtp = fmtp + 1;
     (n, datebuffer, bufsz) \<leftarrow> copy_str (drop fmtp fmt) datebuffer bufsz;
     (_, datebuffer, bufsz) \<leftarrow> copy_str yearstr datebuffer bufsz;
     finish_line env datebuffer bufsz s
   }"

section \<open>The alarm process\<close>

record alarmProcessParams =
  a_hours :: int
  a_minutes :: int
  a_seconds :: int
  a_msg :: addr

text \<open>One poll of the clock, in seconds since midnight.\<close>

definition poll_clock :: "'a machine_scheme \<Rightarrow> int \<times> 'a machine_scheme" where
  "poll_clock s =
     (let (second_now, s) = rtc_read 0x00 s;
          (minute_now, s) = rtc_read 0x02 s;
          (hour_now, s) = rtc_read 0x04 s
      in ((hour_now * 60 + minute_now) * 60 + second_now, s))"

partial_function (option) alarm_wait :: "'a others \<Rightarrow> int \<Rightarrow> 'a con_scheme \<Rightarrow> 'a con_scheme option" where
  "alarm_wait env timeToMatch s =
     (let (now, s) = poll_clock s
      in if now < timeToMatch then alarm_wait env timeToMatch (idle env s) else Some s)"

text \<open>\<^verbatim>\<open>strlen\<close> of a string in memory, and its bytes.\<close>

partial_function (option) ram_strlen :: "(addr \<Rightarrow> u8) \<Rightarrow> addr \<Rightarrow> nat \<Rightarrow> nat option" where
  "ram_strlen m p len = (if m p \<noteq> 0 then ram_strlen m (p + 1) (Suc len) else Some len)"

definition ram_bytes :: "(addr \<Rightarrow> u8) \<Rightarrow> addr \<Rightarrow> nat \<Rightarrow> u8 list" where
  "ram_bytes m p n = map (\<lambda>i. m (p + of_nat i)) [0..<n]"

definition alarmProcess ::
  "'a others \<Rightarrow> alarmProcessParams \<Rightarrow> 'a con_scheme \<Rightarrow> (outcome \<times> 'a con_scheme) option" where
  "alarmProcess env args s = do {
     let timeToMatch = (a_hours args * 60 + a_minutes args) * 60 + a_seconds args;
     s \<leftarrow> alarm_wait env timeToMatch s;
     s \<leftarrow> setTerminalColor env Red s;
     s \<leftarrow> put env (cstr ''[ALARM]: '') s;
     ensure (a_msg args \<noteq> NULL);
     n \<leftarrow> ram_strlen (ram s) (a_msg args) 0;
     s \<leftarrow> con_write env (ram_bytes (ram s) (a_msg args) n) n s;
     s \<leftarrow> put env (line '''') s;
     (_, s) \<leftarrow> sys_free_mem (a_msg args) s;
     Some (exitret s)
   }"

section \<open>The conversions are inverse\<close>

lemma nibbles:
  assumes "0 \<le> b" and "b < 16"
  shows "push_bit 4 a OR b = a * 16 + (b :: int)"
proof -
  have b: "take_bit 4 b = b" using assms by (simp add: take_bit_int_eq_self)
  have "push_bit 4 a AND take_bit 4 b = 0"
    by (rule bit_eqI) (auto simp: bit_and_iff bit_push_bit_iff bit_take_bit_iff)
  then have "push_bit 4 a OR b = push_bit 4 a + b" unfolding b by (simp add: disjunctive_add_eq_or)
  then show ?thesis by (simp add: push_bit_eq_mult)
qed

lemma BCDtoDecimal_eq: "BCDtoDecimal b = uint b mod 16 + uint b div 16 * 10"
proof -
  have m: "(15 :: int) = mask 4" by (simp add: mask_eq_exp_minus_1)
  have "uint (b AND 0x0F) = uint b AND 15" by (simp add: uint_and)
  also have "\<dots> = uint b mod 16" unfolding m by (simp add: take_bit_eq_mask [symmetric] take_bit_eq_mod)
  finally show ?thesis
    unfolding BCDtoDecimal_def by (simp add: drop_bit_eq_div uint_div)
qed

lemma uint_decimalToBCD: "0 \<le> n \<Longrightarrow> n < 100 \<Longrightarrow> uint (decimalToBCD n) = n div 10 * 16 + n mod 10"
proof -
  assume n: "0 \<le> n" "n < 100"
  then obtain k where k: "n = int k" using nonneg_int_cases by blast
  have "decimalToBCD n = word_of_int (n div 10 * 16 + n mod 10)"
    by (simp add: decimalToBCD_def k sdiv_nat smod_nat nibbles zdiv_int zmod_int)
  moreover have "n div 10 * 16 + n mod 10 < 256" "0 \<le> n div 10 * 16 + n mod 10"
    using n by presburger+
  moreover have "uint (word_of_int m :: u8) = m" if "m < 256" "0 \<le> m" for m
    using that by (simp add: uint_word_of_int_eq take_bit_int_eq_self)
  ultimately show ?thesis by (simp only:)
qed

lemma BCD_decimal:
  assumes "0 \<le> n" and "n < 100"
  shows "BCDtoDecimal (decimalToBCD n) = n"
proof -
  have "(q * 16 + r) mod 16 = r" "(q * 16 + r) div 16 = q" if "0 \<le> r" "r < 16" for q r :: int
    using that by simp_all
  from this [of "n mod 10" "n div 10"] show ?thesis
    unfolding BCDtoDecimal_eq uint_decimalToBCD [OF assms] by simp
qed

interpretation bcd: codec decimalToBCD BCDtoDecimal "\<lambda>n. 0 \<le> n \<and> n < 100"
  by unfold_locales (simp add: BCD_decimal)

section \<open>The texts\<close>

text \<open>Two decimal digits.\<close>

definition dd :: "int \<Rightarrow> u8 list" where
  "dd v = [word_of_int (v div 10) + 0x30, word_of_int (v mod 10) + 0x30]"

lemma dd_eq_decimal:
  assumes "10 \<le> k" and "k < 100"
  shows "dd (int k) = decimal k"
proof -
  have "k div 10 < 10" "\<not> k < 10" using assms by auto
  then have "decimal k = [of_nat (k div 10) + 0x30, of_nat (k mod 10) + 0x30]"
    by (simp add: decimal.simps [of k] decimal.simps [of "k div 10"])
  moreover have "int k div 10 = int (k div 10)" "int k mod 10 = int (k mod 10)"
    by (simp_all add: zdiv_int zmod_int)
  ultimately show ?thesis by (simp only: dd_def of_int_of_nat_eq)
qed

lemma dd_digits: "0 \<le> v \<Longrightarrow> v < 100 \<Longrightarrow> c \<in> set (dd v) \<Longrightarrow> 0x30 \<le> c"
proof -
  assume v: "0 \<le> v" "v < 100" and c: "c \<in> set (dd v)"
  obtain k where k: "v = int k" "k < 100" using v nonneg_int_cases [of v] by fastforce
  show "0x30 \<le> c"
  proof (cases "k < 10")
    case True
    then have "k div 10 = 0" "k mod 10 = k" by auto
    then have "dd v = [0x30, of_nat k + 0x30]" unfolding dd_def k(1) by simp
    moreover have "of_nat k + 0x30 \<in> set (decimal k)" using True by (simp add: decimal.simps [of k])
    ultimately show ?thesis using c decimal_digit [of _ k] by auto
  next
    case False
    then show ?thesis using c dd_eq_decimal [of k] k decimal_digit [of c k] by simp
  qed
qed

lemma dd_nonzero: "0 \<le> v \<Longrightarrow> v < 100 \<Longrightarrow> 0 \<notin> set (dd v)"
  using dd_digits [of v 0] by auto

lemma two_digits_eq:
  assumes "0 \<le> v" and "v < 100"
  shows "two_digits v = Some (dd v @ [0])"
proof -
  obtain k where k: "v = int k" "k < 100" using assms nonneg_int_cases [of v] by fastforce
  show ?thesis
  proof (cases "k < 10")
    case True
    then have d: "decimal k = [of_nat k + 0x30]" by (simp add: decimal.simps [of k])
    then have "itoa (replicate 3 0) v = Some [of_nat k + 0x30, 0, 0]"
      unfolding k(1) by (subst itoa_nat) (simp_all add: numeral_eq_Suc)
    moreover have "k div 10 = 0" "k mod 10 = k" using True by auto
    then have "dd v = [0x30, of_nat k + 0x30]" unfolding dd_def k(1) by simp
    ultimately show ?thesis using True k(1) by (simp add: two_digits_def numeral_2_eq_2)
  next
    case False
    then have d: "decimal k = dd v" using k dd_eq_decimal [of k] by simp
    moreover have "length (dd v) = 2" by (simp add: dd_def)
    ultimately have "itoa (replicate 3 0) v = Some (dd v @ [0])"
      unfolding k(1) by (subst itoa_nat) simp_all
    with False k(1) show ?thesis by (simp add: two_digits_def)
  qed
qed

lemma decimal_nonzero: "0 \<notin> set (decimal n)"
  using decimal_digit [of 0 n] by auto

lemma copy_str_eq:
  "0 \<notin> set cs \<Longrightarrow> length cs \<le> length pad \<Longrightarrow>
   copy_str (cs @ 0 # rest) (ts @ pad) (length ts)
     = Some (length cs, (ts @ cs) @ drop (length cs) pad, length (ts @ cs))"
proof (induction cs arbitrary: ts pad)
  case (Cons c cs)
  then obtain b pad' where pad: "pad = b # pad'" by (cases pad) auto
  have "copy_str (cs @ 0 # rest) ((ts @ [c]) @ pad') (length (ts @ [c]))
      = Some (length cs, ((ts @ [c]) @ cs) @ drop (length cs) pad', length ((ts @ [c]) @ cs))"
    using Cons pad by (intro Cons.IH) auto
  with Cons.prems pad show ?case by (simp add: list_update_append)
qed simp

lemma finish_line_eq:
  assumes "2 \<le> length pad"
  shows "finish_line env (ts @ pad) (length ts) s = Some (env (emit (ts @ crlf) s))"
proof -
  obtain a b pad' where "pad = a # b # pad'"
    using assms by (cases pad; cases "tl pad") auto
  then show ?thesis
    by (simp add: finish_line_def con_write_def emit_def crlf_def list_update_append)
qed

end
