(* ===== verification/Comhand_Ask.thy ===== *)
theory Comhand_Ask
  imports Rtc
begin

text \<open>
  The questions of the command handler (\<^verbatim>\<open>kernel/comhand.c\<close>) that are
  repeated until the answer is a number in range, and the commands about the time and the date.
\<close>

section \<open>Numbers\<close>

text \<open>
  The loop every number is read with: prompt in yellow, read a line, accept it when it
  consists of digits and \<^verbatim>\<open>atoi\<close> of it is in range, otherwise complain in red and
  prompt again. The line is cleared on both paths.
\<close>

partial_function (option) ask ::
  "'a others \<Rightarrow> u8 list \<Rightarrow> u8 list \<Rightarrow> (int \<Rightarrow> bool) \<Rightarrow> 'a con_scheme \<Rightarrow> (int \<times> 'a con_scheme) option" where
  "ask env prompt error_msg in_range s = do {
     s \<leftarrow> setTerminalColor env Yellow s;
     s \<leftarrow> put env prompt s;
     s \<leftarrow> setTerminalColor env White s;
     s \<leftarrow> user_input_promptread env s;
     parsable \<leftarrow> intParsable (user_input s) (nat (user_input_len s));
     n \<leftarrow> (if parsable then map_option sint (atoi (user_input s)) else Some 0);
     if parsable \<and> in_range n then do {
       s \<leftarrow> user_input_clear s;
       Some (n, s)
     } else do {
       s \<leftarrow> user_input_clear s;
       s \<leftarrow> setTerminalColor env Red s;
       s \<leftarrow> put env error_msg s;
       ask env prompt error_msg in_range s
     }
   }"

section \<open>Time and date\<close>

definition hour_msg :: "u8 list" where "hour_msg = line ''Enter the hour (0-23):''"
definition minute_msg :: "u8 list" where "minute_msg = line ''Enter the minute (0-59):''"
definition second_msg :: "u8 list" where "second_msg = line ''Enter the second (0-59):''"
definition reenter_time :: "u8 list" where "reenter_time = line ''Could not parse, please re-enter time:''"

definition setTimeCommand :: "'a others \<Rightarrow> 'a con_scheme \<Rightarrow> (outcome \<times> 'a con_scheme) option" where
  "setTimeCommand env s = do {
     (hour, s) \<leftarrow> ask env hour_msg reenter_time (\<lambda>n. n < 24 \<and> n \<ge> 0) s;
     (minute, s) \<leftarrow> ask env minute_msg reenter_time (\<lambda>n. n < 60 \<and> n \<ge> 0) s;
     (second, s) \<leftarrow> ask env second_msg reenter_time (\<lambda>n. n < 60 \<and> n \<ge> 0) s;
     Some (Returned 0, setTime hour minute second s)
   }"

definition getTimeCommand :: "'a others \<Rightarrow> 'a con_scheme \<Rightarrow> (outcome \<times> 'a con_scheme) option" where
  "getTimeCommand env s = do {
     s \<leftarrow> setTerminalColor env Yellow s;
     s \<leftarrow> put env (line ''The time is:'') s;
     s \<leftarrow> getTime env s;
     Some (Returned 0, s)
   }"

definition month_msg :: "u8 list" where "month_msg = line ''Enter the month (1-12):''"
definition year_msg :: "u8 list" where "year_msg = line ''Enter the last two digits of the year (0-99):''"
definition day_msg :: "u8 list" where "day_msg = line ''Enter the day of the month:''"

definition day_in_range :: "int \<Rightarrow> int \<Rightarrow> int \<Rightarrow> int \<Rightarrow> bool" where
  "day_in_range lastday month year day \<longleftrightarrow>
     (day \<le> lastday \<or> (month = 2 \<and> year smod 4 = 0 \<and> day \<le> 29)) \<and> day \<ge> 1"

definition setDateCommand :: "'a others \<Rightarrow> 'a con_scheme \<Rightarrow> (outcome \<times> 'a con_scheme) option" where
  "setDateCommand env s = do {
     (month, s) \<leftarrow> ask env month_msg reenter_time (\<lambda>n. n \<le> 12 \<and> n \<ge> 1) s;
     (year, s) \<leftarrow> ask env year_msg reenter_time (\<lambda>n. n < 100 \<and> n \<ge> 0) s;
     (_, lastday) \<leftarrow> rd month_info (nat (month - 1));
     (day, s) \<leftarrow> ask env day_msg reenter_time (day_in_range lastday month year) s;
     s \<leftarrow> put env (line '''') s;
     Some (Returned 0, setDate day month year s)
   }"

definition getDateCommand :: "'a others \<Rightarrow> 'a con_scheme \<Rightarrow> (outcome \<times> 'a con_scheme) option" where
  "getDateCommand env s = do {
     s \<leftarrow> setTerminalColor env Yellow s;
     s \<leftarrow> put env (line ''The date is:'') s;
     s \<leftarrow> getDate env s;
     Some (Returned 0, s)
   }"

text \<open>\<^verbatim>\<open>__DATE__\<close> is the day on which the compiler ran.\<close>

definition versionCommand ::
  "u8 list \<Rightarrow> 'a others \<Rightarrow> 'a con_scheme \<Rightarrow> (outcome \<times> 'a con_scheme) option" where
  "versionCommand build_date env s = do {
     s \<leftarrow> setTerminalColor env White s;
     s \<leftarrow> put env (bytes ''MPX vR6.'' @ crlf @ cstr ''Compiled '') s;
     s \<leftarrow> put env build_date s;
     s \<leftarrow> put env (line '''') s;
     Some (Returned 0, s)
   }"

section \<open>Answers\<close>

text \<open>
  A line typed at the prompt: at most 127 characters and the carriage return. It is accepted
  when all its characters are digits and the number they denote, modulo \<open>2 ^ 32\<close> and read as a
  signed integer, is in range; the empty line denotes 0.
\<close>

definition typed :: "u8 list \<Rightarrow> bool" where
  "typed l \<longleftrightarrow> length l < USER_INPUT_SZ \<and> 0 \<notin> set l \<and> 0x0D \<notin> set l"

fun digits_value :: "u8 list \<Rightarrow> u32 \<Rightarrow> u32" where
  "digits_value [] r = r"
| "digits_value (c # cs) r = digits_value cs (r * 10 + (ucast c - 0x30))"

definition value_of :: "u8 list \<Rightarrow> int" where
  "value_of l = sint (digits_value l 0)"

definition accepted :: "(int \<Rightarrow> bool) \<Rightarrow> u8 list \<Rightarrow> bool" where
  "accepted in_range l \<longleftrightarrow> (\<forall>c \<in> set l. digit c) \<and> in_range (value_of l)"

lemma atoi_digits_typed:
  "\<forall>c \<in> set l. digit c \<Longrightarrow> atoi_digits r (l @ 0 # rest) = Some (digits_value l r)"
  by (induction l arbitrary: r) (auto simp: digit_def)

lemma atoi_typed:
  assumes "\<forall>c \<in> set l. digit c"
  shows "atoi (l @ 0 # rest) = Some (digits_value l 0)"
proof (cases l)
  case (Cons c cs)
  then have "\<not> isspace c" "c \<noteq> 0x2D" "c \<noteq> 0x2B"
    using assms by (auto simp: digit_def isspace_def)
  then have "atoi (l @ 0 # rest) = atoi_digits 0 (l @ 0 # rest)"
    by (cases "atoi_digits 0 (l @ 0 # rest)") (simp_all add: atoi_def atoi_sign_def Cons del: atoi_digits.simps)
  with assms show ?thesis by (simp add: atoi_digits_typed)
next
  case Nil
  then show ?thesis by (simp add: atoi_def atoi_sign_def isspace_def)
qed

lemma typed_buffer:
  assumes "at_prompt s" and "typed l" and "con_in s = answered l # rest" and "bystanders env"
  shows "\<exists>t. user_input_promptread env s = Some t \<and> con_in t = rest \<and> con_out t = con_out s @ crlf \<and>
    user_input_len t = int (length l) \<and>
    user_input t = l @ 0 # replicate (USER_INPUT_SZ - 1 - length l) 0 \<and> (quiescent env \<longrightarrow> kernel_same s t)"
proof -
  let ?pad = "replicate (USER_INPUT_SZ - Suc (length l)) (0 :: u8)"
  have "drop (Suc (length l)) (user_input s) = ?pad" using assms(1) by (simp add: at_prompt_def)
  then have r: "con_read env (user_input s) USER_INPUT_SZ s
      = Some (int (length l) + 1, l @ 0x0D # ?pad, env (s\<lparr>con_in := rest\<rparr>))"
    using assms(1,2,3) by (simp add: con_read_def answered_def typed_def at_prompt_def USER_INPUT_SZ_def)
  show ?thesis
    using assms(4)
    by (simp add: user_input_promptread_def r Let_def list_update_append quiescent_same)
qed

lemma clear_typed:
  assumes "user_input s = l @ 0 # replicate (USER_INPUT_SZ - 1 - length l) 0" and "length l < USER_INPUT_SZ"
    and "user_input_len s = int (length l)"
  shows "\<exists>t. user_input_clear s = Some t \<and> at_prompt t \<and> con_in t = con_in s \<and> con_out t = con_out s \<and>
    t = s\<lparr>user_input := user_input t\<rparr> \<and> kernel_same s t"
proof -
  have "replicate (length l) 0 @ 0 # replicate (USER_INPUT_SZ - 1 - length l) 0 = replicate USER_INPUT_SZ (0 :: u8)"
    using assms(2) by (simp flip: replicate_Suc replicate_add)
  then show ?thesis
    using assms by (simp add: user_input_clear_def memset_eq at_prompt_def)
qed


text \<open>What a question writes: once for every rejected line, and once for the accepted one.\<close>

definition asked :: "u8 list \<Rightarrow> u8 list" where
  "asked prompt = color_bytes Yellow @ prompt @ color_bytes White @ crlf"

definition dialog :: "u8 list \<Rightarrow> u8 list \<Rightarrow> u8 list list \<Rightarrow> u8 list" where
  "dialog prompt err bad = concat (map (\<lambda>l. asked prompt @ color_bytes Red @ err) bad) @ asked prompt"

lemma ask_step:
  assumes "at_prompt s" and "typed l" and "con_in s = answered l # rest" and "bystanders env"
  shows "\<exists>t. at_prompt t \<and> con_in t = rest \<and> con_out t = con_out s @ asked prompt \<and>
    (quiescent env \<longrightarrow> kernel_same s t) \<and>
    ask env (prompt @ [0]) (err @ [0]) P s =
      (if accepted P l then Some (value_of l, t)
       else ask env (prompt @ [0]) (err @ [0]) P (env (emit err (env (emit (color_bytes Red) t)))))"
proof -
  let ?s = "env (emit (color_bytes White) (env (emit prompt (env (emit (color_bytes Yellow) s)))))"
  have s: "at_prompt ?s" "con_in ?s = answered l # rest"
    using assms(1,3,4) by (simp_all add: at_prompt_def)
  obtain u where u: "user_input_promptread env ?s = Some u" "con_in u = rest" "con_out u = con_out ?s @ crlf"
    "user_input_len u = int (length l)" "user_input u = l @ 0 # replicate (USER_INPUT_SZ - 1 - length l) 0"
    "quiescent env \<longrightarrow> kernel_same ?s u"
    using typed_buffer [OF s(1) assms(2) s(2) assms(4)] by blast
  have len: "length l < USER_INPUT_SZ" using assms(2) by (simp add: typed_def)
  obtain t where t: "user_input_clear u = Some t" "at_prompt t" "con_in t = con_in u" "con_out t = con_out u"
    "kernel_same u t"
    using clear_typed [OF u(5) len u(4)] by blast
  have ip: "intParsable (user_input u) (nat (user_input_len u)) = Some (\<forall>c \<in> set l. digit c)"
    using u(4,5) by (simp add: intParsable_eq)
  have v: "map_option sint (atoi (user_input u)) = Some (value_of l)" if "\<forall>c \<in> set l. digit c"
    using that u(5) by (simp add: atoi_typed value_of_def)
  have "ask env (prompt @ [0]) (err @ [0]) P s =
      (if accepted P l then Some (value_of l, t)
       else ask env (prompt @ [0]) (err @ [0]) P (env (emit err (env (emit (color_bytes Red) t)))))"
    by (subst ask.simps) (auto simp: u(1) ip v t(1) accepted_def)
  moreover have "con_out t = con_out s @ asked prompt" using u(3) t(4) assms(4) by (simp add: asked_def)
  moreover have "quiescent env \<longrightarrow> kernel_same s t"
    using u(6) t(5) kernel_same_trans [of s ?s] kernel_same_trans [of s u t] by simp
  ultimately show ?thesis using t(2,3) u(2) by auto
qed

lemma ask_ok:
  assumes "bystanders env" and "typed good" and "accepted P good"
  shows "at_prompt s \<Longrightarrow> con_in s = map answered (bad @ [good]) @ rest \<Longrightarrow>
    \<forall>l \<in> set bad. typed l \<and> \<not> accepted P l \<Longrightarrow>
    \<exists>t. ask env (prompt @ [0]) (err @ [0]) P s = Some (value_of good, t) \<and> at_prompt t \<and>
      con_in t = rest \<and> con_out t = con_out s @ dialog prompt err bad \<and> (quiescent env \<longrightarrow> kernel_same s t)"
proof (induction bad arbitrary: s)
  case Nil
  then have "con_in s = answered good # rest" by simp
  from ask_step [OF Nil.prems(1) assms(2) this assms(1), of prompt err P] assms(3)
  show ?case by (auto simp: dialog_def)
next
  case (Cons l bad)
  have inp: "con_in s = answered l # map answered (bad @ [good]) @ rest" using Cons.prems(2) by simp
  have l: "typed l" "\<not> accepted P l" using Cons.prems(3) by simp_all
  obtain t where t: "at_prompt t" "con_in t = map answered (bad @ [good]) @ rest"
    "con_out t = con_out s @ asked prompt" "quiescent env \<longrightarrow> kernel_same s t"
    "ask env (prompt @ [0]) (err @ [0]) P s
      = ask env (prompt @ [0]) (err @ [0]) P (env (emit err (env (emit (color_bytes Red) t))))"
    using ask_step [OF Cons.prems(1) l(1) inp assms(1), of prompt err P] l(2) by auto
  let ?t = "env (emit err (env (emit (color_bytes Red) t)))"
  have "at_prompt ?t" "con_in ?t = map answered (bad @ [good]) @ rest"
    using t(1,2) assms(1) by (simp_all add: at_prompt_def)
  from Cons.IH [OF this] Cons.prems(3) obtain u where
    "ask env (prompt @ [0]) (err @ [0]) P ?t = Some (value_of good, u)" "at_prompt u" "con_in u = rest"
    "con_out u = con_out ?t @ dialog prompt err bad" "quiescent env \<longrightarrow> kernel_same ?t u" by auto
  moreover have "quiescent env \<longrightarrow> kernel_same s u"
    using t(4) calculation(5) kernel_same_trans [of s ?t u] by simp
  ultimately show ?case using t(3,5) assms(1) by (auto simp: dialog_def)
qed

end
