(* ===== verification/Hex_Text.thy ===== *)
theory Hex_Text
  imports Libc
begin

text \<open>
  Addresses as text in \<^verbatim>\<open>kernel/comhand.c\<close>: what the command handler prints for a
  heap block and reads back when the block is to be released.
\<close>

section \<open>The conversions\<close>

fun hexParsable_from :: "nat \<Rightarrow> nat \<Rightarrow> u8 list \<Rightarrow> bool option" where
  "hexParsable_from 0 i string = Some True"
| "hexParsable_from (Suc k) i string = do {
     c \<leftarrow> rd string i;
     if (c > 0x39 \<or> c < 0x30) \<and> (c > 0x46 \<or> c < 0x41) \<and> (c > 0x66 \<or> c < 0x61) then Some False
     else hexParsable_from k (Suc i) string
   }"

definition hexParsable :: "u8 list \<Rightarrow> nat \<Rightarrow> bool option" where
  "hexParsable string sz =
     (if 2 \<le> sz then do {
        c0 \<leftarrow> rd string 0;
        c1 \<leftarrow> rd string 1;
        if c0 \<noteq> 0x30 \<or> (c1 \<noteq> 0x78 \<and> c1 \<noteq> 0x58) then Some False
        else hexParsable_from (sz - 2) 2 string
      } else Some True)"

fun hex_value :: "u32 \<Rightarrow> u8 list \<Rightarrow> u32 option" where
  "hex_value res [] = None"
| "hex_value res (c # s) =
     (if c \<noteq> 0 then
        (if 0x30 \<le> c \<and> c \<le> 0x39 then hex_value (push_bit 4 res + (ucast c - 0x30)) s
         else if 0x41 \<le> c \<and> c \<le> 0x46 then hex_value (push_bit 4 res + (ucast c - 0x41 + 10)) s
         else if 0x61 \<le> c \<and> c \<le> 0x66 then hex_value (push_bit 4 res + (ucast c - 0x61 + 10)) s
         else Some res)
      else Some res)"

definition hexToAddress :: "u8 list \<Rightarrow> addr option" where
  "hexToAddress s = do {
     c0 \<leftarrow> rd s 0;
     prefixed \<leftarrow> (if c0 = 0x30 then map_option (\<lambda>c1. c1 = 0x78 \<or> c1 = 0x58) (rd s 1) else Some False);
     hex_value 0 (if prefixed then drop 2 s else s)
   }"

lemma unat_16 [simp]: "unat (a div 16 :: u32) = unat a div 16" "unat (a mod 16 :: u32) = unat a mod 16"
  by (simp_all add: unat_div unat_mod)

lemma shift_16: "unat (drop_bit 4 a :: u32) = unat a div 16"
  by (simp add: drop_bit_eq_div)

function hex_size :: "u32 \<Rightarrow> nat \<Rightarrow> nat" where
  "hex_size temp sz = (if temp \<noteq> 0 then hex_size (drop_bit 4 temp) (Suc sz) else sz)"
  by pat_completeness auto
termination
  by (relation "measure (\<lambda>(temp, sz). unat temp)") (simp_all add: shift_16 unat_gt_0 del: unat_16)

declare hex_size.simps [simp del]

text \<open>The loop that writes the digits from the last, at index \<open>k + 1\<close>, down to index 2.\<close>

fun hex_fill :: "nat \<Rightarrow> u32 \<Rightarrow> u8 list \<Rightarrow> u8 list option" where
  "hex_fill 0 address string = Some string"
| "hex_fill (Suc k) address string = do {
     let md = address mod 16;
     string \<leftarrow> wr string (k + 2) (if md \<le> 9 then ucast md + 0x30 else ucast (md - 10) + 0x41);
     hex_fill k (address div 16) string
   }"

definition addressToHex :: "u8 list \<Rightarrow> addr \<Rightarrow> u8 list option" where
  "addressToHex string address = do {
     string \<leftarrow> wr string 0 0x30;
     string \<leftarrow> wr string 1 0x78;
     (string, sz) \<leftarrow>
       (if address = 0 then do { string \<leftarrow> wr string 2 0x30; Some (string, 3) }
        else do {
          let sz = hex_size address 2;
          string \<leftarrow> hex_fill (sz - 2) address string;
          Some (string, sz)
        });
     wr string sz 0
   }"

section \<open>Hexadecimal digits\<close>

definition hexdig :: "nat \<Rightarrow> u8" where
  "hexdig d = (if d \<le> 9 then of_nat d + 0x30 else of_nat (d - 10) + 0x41)"

fun hexa :: "nat \<Rightarrow> u8 list" where
  "hexa n = (if n < 16 then [hexdig n] else hexa (n div 16) @ [hexdig (n mod 16)])"

declare hexa.simps [simp del]

lemma hex_cases: "d < 16 \<Longrightarrow> d \<in> {0,1,2,3,4,5,6,7,8,9,10,11,12,13,14,15 :: nat}"
  unfolding insert_iff empty_iff by presburger

lemma hexdig_value:
  assumes "d < 16"
  shows "hex_value r (hexdig d # s) = hex_value (push_bit 4 r + of_nat d) s"
  using hex_cases [OF assms] by (elim insertE) (simp_all add: hexdig_def)

lemma hexdig_parses:
  assumes "d < 16" and "c = hexdig d"
  shows "\<not> ((c > 0x39 \<or> c < 0x30) \<and> (c > 0x46 \<or> c < 0x41) \<and> (c > 0x66 \<or> c < 0x61)) \<and> c \<noteq> 0 \<and> c \<noteq> 0x78 \<and> c \<noteq> 0x58"
  using hex_cases [OF assms(1)] unfolding assms(2) by (elim insertE) (simp_all add: hexdig_def)

lemma hexa_all:
  assumes "\<And>d. d < 16 \<Longrightarrow> P (hexdig d)"
  shows "c \<in> set (hexa n) \<Longrightarrow> P c"
proof (induction n rule: less_induct)
  case (less n)
  show ?case
  proof (cases "n < 16")
    case True
    with less.prems assms show ?thesis by (simp add: hexa.simps [of n])
  next
    case False
    with less.prems have "c \<in> set (hexa (n div 16)) \<or> c = hexdig (n mod 16)" by (auto simp: hexa.simps [of n])
    with False less.IH [of "n div 16"] assms [of "n mod 16"] show ?thesis by auto
  qed
qed

lemma hexdig_word: "(if (a :: u32) mod 16 \<le> 9 then ucast (a mod 16) + 0x30 else ucast (a mod 16 - 10) + 0x41) = hexdig (unat a mod 16)"
proof -
  have "\<exists>d < 16. a mod 16 = of_nat d \<and> unat a mod 16 = d"
    by (rule exI [of _ "unat a mod 16"]) (simp add: word_unat_eq_iff unsigned_of_nat take_bit_nat_eq_self)
  then obtain d where d: "d < 16" "a mod 16 = of_nat d" "unat a mod 16 = d" by blast
  show ?thesis unfolding d(2,3) using hex_cases [OF d(1)] by (elim insertE) (simp_all add: hexdig_def)
qed

lemma hexa_bounded: "n < 16 ^ k \<Longrightarrow> 0 < k \<Longrightarrow> length (hexa n) \<le> k"
proof (induction k arbitrary: n)
  case (Suc k)
  show ?case
  proof (cases "n < 16")
    case False
    with Suc.prems have "n div 16 < 16 ^ k" "0 < k" by (auto intro: gr0I)
    with Suc.IH False show ?thesis by (simp add: hexa.simps [of n])
  qed (simp add: hexa.simps [of n])
qed simp

lemma hex_size_eq: "a \<noteq> 0 \<Longrightarrow> hex_size a k = k + length (hexa (unat a))"
proof (induction a k rule: hex_size.induct)
  case (1 a k)
  note u = shift_16 [of a]
  show ?case
  proof (cases "unat a < 16")
    case True
    then have "drop_bit 4 a = 0" using u by (simp add: unat_eq_0 [symmetric])
    with True 1 show ?thesis
      by (simp add: hex_size.simps [of a] hexa.simps [of "unat a"] hex_size.simps [of 0])
  next
    case False
    then have "drop_bit 4 a \<noteq> 0" using u by (auto simp: unat_eq_0 [symmetric])
    with False 1 u show ?thesis
      by (simp add: hex_size.simps [of a] hexa.simps [of "unat a"])
  qed
qed

lemma hex_fill_eq:
  "length (hexa (unat a)) + 2 \<le> length buf \<Longrightarrow>
   hex_fill (length (hexa (unat a))) a buf
     = Some (take 2 buf @ hexa (unat a) @ drop (length (hexa (unat a)) + 2) buf)"
proof (induction "unat a" arbitrary: a buf rule: less_induct)
  case less
  show ?case
  proof (cases "unat a < 16")
    case True
    then have h: "hexa (unat a) = [hexdig (unat a mod 16)]" by (simp add: hexa.simps [of "unat a"])
    have "hex_fill (Suc 0) a buf = Some (buf[2 := hexdig (unat a mod 16)])"
      using less.prems h by (simp add: hexdig_word Let_def numeral_2_eq_2)
    also have "buf[2 := hexdig (unat a mod 16)] = take 2 buf @ hexa (unat a) @ drop 3 buf"
      using less.prems h by (simp add: upd_conv_take_nth_drop)
    finally show ?thesis using h by (simp add: numeral_3_eq_3)
  next
    case False
    let ?b = "a div 16" and ?d = "hexdig (unat a mod 16)"
    have u: "unat ?b = unat a div 16" by simp
    have h: "hexa (unat a) = hexa (unat ?b) @ [?d]" using False by (simp add: u hexa.simps [of "unat a"])
    let ?n = "length (hexa (unat ?b))"
    have len: "?n + 2 < length buf" using less.prems by (simp add: h)
    have "hex_fill ?n ?b (buf[?n + 2 := ?d])
        = Some (take 2 (buf[?n + 2 := ?d]) @ hexa (unat ?b) @ drop (?n + 2) (buf[?n + 2 := ?d]))"
      using False len u by (intro less.hyps) auto
    also have "drop (?n + 2) (buf[?n + 2 := ?d]) = ?d # drop (Suc (?n + 2)) buf"
      using len by (simp add: drop_update_swap Cons_nth_drop_Suc [symmetric])
    finally show ?thesis using len by (simp add: h hexdig_word Let_def)
  qed
qed

lemma addressToHex_eq:
  assumes "length (hexa (unat a)) + 2 < length buf"
  shows "addressToHex buf a = Some (0x30 # 0x78 # hexa (unat a) @ 0 # drop (length (hexa (unat a)) + 3) buf)"
proof -
  obtain x y r where buf: "buf = x # y # r" using assms by (cases buf; cases "tl buf") auto
  let ?n = "length (hexa (unat a))"
  have r: "drop ?n r = r ! ?n # drop (Suc ?n) r" using assms buf by (simp add: Cons_nth_drop_Suc)
  have "hex_fill ?n a (0x30 # 0x78 # r) = Some (0x30 # 0x78 # hexa (unat a) @ drop ?n r)"
    using hex_fill_eq [of a "0x30 # 0x78 # r"] assms buf by (simp add: numeral_2_eq_2)
  moreover have "hexa 0 = [0x30]" by (simp add: hexa.simps [of 0] hexdig_def)
  ultimately show ?thesis
    using assms buf r
    by (cases "a = 0"; cases r; cases "tl r")
      (simp_all add: addressToHex_def hex_size_eq Let_def list_update_append numeral_2_eq_2 numeral_3_eq_3)
qed

lemma hex_value_hexa:
  "hex_value r (hexa n @ xs) = hex_value (r * 16 ^ length (hexa n) + of_nat n) xs"
proof (induction n arbitrary: r xs rule: less_induct)
  case (less n)
  have p: "push_bit 4 w = (w :: u32) * 16" for w by (simp add: push_bit_eq_mult)
  show ?case
  proof (cases "n < 16")
    case True
    then show ?thesis by (simp add: hexa.simps [of n] hexdig_value p del: hex_value.simps)
  next
    case False
    let ?m = "n div 16"
    have "of_nat n = (of_nat ?m * 16 + of_nat (n mod 16) :: u32)"
      by (metis div_mult_mod_eq of_nat_add of_nat_mult of_nat_numeral)
    moreover have "hex_value r (hexa n @ xs)
        = hex_value ((r * 16 ^ length (hexa ?m) + of_nat ?m) * 16 + of_nat (n mod 16)) xs"
      using False less.IH [of ?m] by (simp add: hexa.simps [of n] hexdig_value p del: hex_value.simps)
    moreover have "length (hexa n) = Suc (length (hexa ?m))" using False by (simp add: hexa.simps [of n])
    ultimately show ?thesis by (simp add: algebra_simps)
  qed
qed

lemma hexa_address: "length (hexa (unat (a :: u32))) \<le> 8"
  by (rule hexa_bounded) (use u32_lt_4G [of a] in simp_all)

lemma hexToAddress_eq: "hexToAddress (0x30 # 0x78 # hexa (unat a) @ 0 # rest) = Some a"
  using hex_value_hexa [of 0 "unat a" "0 # rest"] by (simp add: hexToAddress_def)

text \<open>The text of an address, as the handler has it in its array of eleven characters.\<close>

definition address_text :: "addr \<Rightarrow> u8 list" where
  "address_text a = the (addressToHex (replicate 11 0) a)"

definition text_address :: "u8 list \<Rightarrow> addr" where
  "text_address t = the (hexToAddress t)"

interpretation hex: codec address_text text_address "\<lambda>a. True"
proof
  show "text_address (address_text a) = a" for a
  proof -
    have "length (hexa (unat a)) + 2 < length (replicate 11 (0 :: u8))" using hexa_address [of a] by simp
    from addressToHex_eq [OF this] show ?thesis
      by (simp add: address_text_def text_address_def hexToAddress_eq)
  qed
qed

end
