(* ===== verification/Comhand_Mem.thy ===== *)
theory Comhand_Mem
  imports Comhand_Ask Hex_Text
begin

text \<open>
  The commands of the handler about the heap (\<^verbatim>\<open>kernel/comhand.c\<close>): allocating a
  block of a typed size, releasing the block at a typed address, and listing the blocks.
\<close>

section \<open>Allocating and releasing\<close>

text \<open>
  Both commands repeat their question until the line parses, and copy it into an array of
  their own. \<open>parse\<close> and \<open>n\<close> are the test and the length of the array.
\<close>

partial_function (option) ask_text ::
  "'a others \<Rightarrow> u8 list \<Rightarrow> u8 list \<Rightarrow> (u8 list \<Rightarrow> nat \<Rightarrow> bool option) \<Rightarrow> nat \<Rightarrow> 'a con_scheme \<Rightarrow>
   (u8 list \<times> 'a con_scheme) option" where
  "ask_text env msg error_msg parse n s = do {
     s \<leftarrow> setTerminalColor env Yellow s;
     s \<leftarrow> put env msg s;
     s \<leftarrow> setTerminalColor env White s;
     s \<leftarrow> user_input_promptread env s;
     parsable \<leftarrow> parse (user_input s) (nat (user_input_len s));
     if parsable then do {
       input \<leftarrow> memcpy (replicate n 0) (user_input s) (nat (user_input_len s));
       s \<leftarrow> user_input_clear s;
       Some (input, s)
     } else do {
       s \<leftarrow> user_input_clear s;
       s \<leftarrow> setTerminalColor env Red s;
       s \<leftarrow> put env error_msg s;
       ask_text env msg error_msg parse n s
     }
   }"

definition size_msg :: "u8 list" where "size_msg = line ''Enter the size of the allocation:''"
definition reenter_size :: "u8 list" where
  "reenter_size = line ''Could not parse, please re-enter integer value:''"
definition address_is :: "u8 list" where "address_is = cstr ''The address of the allocated memory is: ''"

definition allocateMemoryCommand :: "'a others \<Rightarrow> 'a con_scheme \<Rightarrow> (outcome \<times> 'a con_scheme) option" where
  "allocateMemoryCommand env s = do {
     (inputNum, s) \<leftarrow> ask_text env size_msg reenter_size intParsable 100 s;
     sz \<leftarrow> atoi inputNum;
     s \<leftarrow> user_input_clear s;
     (addressPtr, s) \<leftarrow> allocate_memory sz s;
     if addressPtr = NULL then do {
       s \<leftarrow> put env (line ''Memory could not be allocated:'') s;
       Some (Returned 1, s)
     } else do {
       addressMsg \<leftarrow> addressToHex (replicate 11 0) addressPtr;
       s \<leftarrow> put env address_is s;
       s \<leftarrow> dput env addressMsg s;
       s \<leftarrow> put env (line '''') s;
       Some (Returned 0, s)
     }
   }"

definition address_msg :: "u8 list" where
  "address_msg = line ''Enter the hexadecimal address of the memory block to free:''"
definition reenter_address :: "u8 list" where
  "reenter_address = line ''Could not parse, please re-enter hexadecimal value:''"
definition was_freed :: "u8 list" where "was_freed = line ''Memory was freed.''"

definition freeMemoryCommand :: "'a others \<Rightarrow> 'a con_scheme \<Rightarrow> (outcome \<times> 'a con_scheme) option" where
  "freeMemoryCommand env s = do {
     (inputHexText, s) \<leftarrow> ask_text env address_msg reenter_address hexParsable 128 s;
     address \<leftarrow> hexToAddress inputHexText;
     s \<leftarrow> user_input_clear s;
     (success, s) \<leftarrow> free_memory address s;
     if success \<noteq> 0 then do {
       s \<leftarrow> put env (line ''Memory could not be freed.'') s;
       Some (Returned 1, s)
     } else do {
       s \<leftarrow> put env was_freed s;
       Some (Returned 0, s)
     }
   }"

section \<open>Listing\<close>

text \<open>The loop of both listings; the block is read anew after every request.\<close>

partial_function (option) show_blocks :: "'a others \<Rightarrow> addr \<Rightarrow> 'a con_scheme \<Rightarrow> 'a con_scheme option" where
  "show_blocks env currList s =
     (if currList \<noteq> NULL then do {
        s \<leftarrow> put env (9 # cstr ''Address: '') s;
        addressarr \<leftarrow> addressToHex (replicate 11 0) (currList + SZ_MCB);
        s \<leftarrow> dput env addressarr s;
        printSize \<leftarrow> itoa (replicate 10 0) (sint (blk_size (mcbs s currList)));
        s \<leftarrow> put env (9 # cstr ''Size: '') s;
        s \<leftarrow> dput env printSize s;
        s \<leftarrow> put env (line '''') s;
        show_blocks env (m_next (mcbs s currList)) s
      } else Some s)"

definition showAllocatedMemoryCommand ::
  "'a others \<Rightarrow> 'a con_scheme \<Rightarrow> (outcome \<times> 'a con_scheme) option" where
  "showAllocatedMemoryCommand env s = do {
     let currList = alloc_head s;
     s \<leftarrow> put env (crlf @ line ''Allocated Memory:'') s;
     s \<leftarrow> show_blocks env currList s;
     Some (Returned 0, s)
   }"

definition showFreeMemoryCommand ::
  "'a others \<Rightarrow> 'a con_scheme \<Rightarrow> (outcome \<times> 'a con_scheme) option" where
  "showFreeMemoryCommand env s = do {
     let currList = free_head s;
     s \<leftarrow> put env (crlf @ line ''Freed Memory:'') s;
     s \<leftarrow> show_blocks env currList s;
     Some (Returned 0, s)
   }"

section \<open>What a listing shows\<close>

definition block_line :: "addr \<Rightarrow> u32 \<Rightarrow> u8 list" where
  "block_line a n = 9 # bytes ''Address: '' @ 0x30 # 0x78 # hexa (unat (a + SZ_MCB)) @
     9 # bytes ''Size: '' @ decimal (unat n) @ crlf"

lemma put_tab [simp]: "put env (c # cstr t) s = Some (env (emit (c # bytes t) s))"
  using put_eq [of env "c # bytes t" s] by (simp add: cstr_def del: put_eq)

lemma hexa_nonzero: "0 \<notin> set (hexa n)"
  using hexa_all [of "\<lambda>c. c \<noteq> 0" 0 n] hexdig_parses by blast

lemma address_array:
  "\<exists>pad. addressToHex (replicate 11 0) a = Some ((0x30 # 0x78 # hexa (unat a)) @ 0 # pad)"
  using addressToHex_eq [of a "replicate 11 0"] hexa_address [of a] by auto

lemma emit_emit [simp]: "emit cs (emit bs s) = emit (bs @ cs) s"
  by (simp add: emit_def)

lemma sint_small: "unat n < 2 ^ 31 \<Longrightarrow> sint (n :: u32) = int (unat n)"
  proof -
  assume n: "unat n < 2 ^ 31"
  have "sint (of_nat k :: u32) = int k" if "k < 2 ^ 31" for k
    using that by (simp add: signed_of_nat signed_take_bit_int_eq_self)
  from this [OF n] show ?thesis by simp
qed

lemma show_block_step:
  assumes "quiescent env" and "a \<noteq> NULL" and "unat (blk_size (mcbs s a)) < 10 ^ 9"
  shows "\<exists>t. show_blocks env a s = show_blocks env (m_next (mcbs s a)) t \<and> kernel_same s t \<and>
    con_out t = con_out s @ block_line a (blk_size (mcbs s a))"
proof -
  let ?n = "blk_size (mcbs s a)"
  obtain pad where ad: "addressToHex (replicate 11 0) (a + SZ_MCB)
      = Some ((0x30 # 0x78 # hexa (unat (a + SZ_MCB))) @ 0 # pad)"
    using address_array by blast
  have zero: "0 \<notin> set (0x30 # 0x78 # hexa (unat (a + SZ_MCB)))" using hexa_nonzero by simp
  let ?s1 = "env (emit (9 # bytes ''Address: '') s)"
  let ?s2 = "env (emit (0x30 # 0x78 # hexa (unat (a + SZ_MCB))) ?s1)"
  have d1: "dput env ((0x30 # 0x78 # hexa (unat (a + SZ_MCB))) @ 0 # pad) ?s1 = Some ?s2"
    by (subst dput_eq) (simp_all only: cchars_prefix [OF zero] set_append list.set, auto)
  have len: "length (decimal (unat ?n)) \<le> 9" using assms(3) by (intro decimal_bounded) simp_all
  have m: "mcbs ?s2 a = mcbs s a"
    using assms(1) quiescent_emit [OF assms(1), of s "0x30 # 0x78 # hexa (unat (a + SZ_MCB))" ?s1]
    by (simp add: kernel_same_def [of s ?s2])
  have si: "sint ?n = int (unat ?n)" using assms(3) by (intro sint_small) simp
  let ?pad = "drop (Suc (length (decimal (unat ?n)))) (replicate 10 (0 :: u8))"
  have it: "itoa (replicate 10 0) (sint (blk_size (mcbs ?s2 a))) = Some (decimal (unat ?n) @ 0 # ?pad)"
    unfolding m si using len by (intro itoa_nat) simp
  let ?s3 = "env (emit (9 # bytes ''Size: '') ?s2)"
  let ?s4 = "env (emit (decimal (unat ?n)) ?s3)"
  have d2: "dput env (decimal (unat ?n) @ 0 # ?pad) ?s3 = Some ?s4"
    by (subst dput_eq) (simp_all only: cchars_prefix [OF decimal_nonzero] set_append list.set, auto)
  let ?t = "env (emit (bytes [] @ crlf) ?s4)"
  have same: "kernel_same s ?t" using assms(1) by simp
  have "m_next (mcbs ?t a) = m_next (mcbs s a)" using same by (simp only: kernel_same_def)
  then have "show_blocks env a s = show_blocks env (m_next (mcbs s a)) ?t"
    using assms(2)
    by (subst show_blocks.simps) (simp only: if_True not_False_eq_True put_tab ad d1 it d2 put_line bind.bind_lunit)
  moreover have "con_out ?t = con_out s @ block_line a ?n" using assms(1) by (simp add: block_line_def)
  ultimately show ?thesis using same by blast
qed


lemma show_blocks_seg:
  assumes "quiescent env"
  shows "seg (mcbs s) pr p xs l NULL \<Longrightarrow> \<forall>a \<in> set xs. unat (blk_size (mcbs s a)) < 10 ^ 9 \<Longrightarrow>
    \<exists>t. show_blocks env p s = Some t \<and> kernel_same s t \<and>
      con_out t = con_out s @ concat (map (\<lambda>a. block_line a (blk_size (mcbs s a))) xs)"
proof (induction xs arbitrary: s pr p)
  case Nil
  then show ?case by (subst show_blocks.simps) simp
next
  case (Cons a xs)
  then have p: "p = a" "a \<noteq> NULL" and sz: "unat (blk_size (mcbs s a)) < 10 ^ 9" by simp_all
  obtain t where t: "show_blocks env a s = show_blocks env (m_next (mcbs s a)) t" "kernel_same s t"
    "con_out t = con_out s @ block_line a (blk_size (mcbs s a))"
    using show_block_step [where env = env and s = s, OF assms p(2) sz] by blast
  have m: "mcbs t = mcbs s" using t(2) by (simp add: kernel_same_def)
  have "seg (mcbs t) a (m_next (mcbs s a)) xs l NULL" "\<forall>a \<in> set xs. unat (blk_size (mcbs t a)) < 10 ^ 9"
    using Cons.prems m by simp_all
  from Cons.IH [OF this] obtain u where "show_blocks env (m_next (mcbs s a)) t = Some u" "kernel_same t u"
    "con_out u = con_out t @ concat (map (\<lambda>a. block_line a (blk_size (mcbs t a))) xs)" by blast
  with p(1) t m kernel_same_trans show ?case by auto
qed

fun lines_of :: "bool \<Rightarrow> block list \<Rightarrow> u8 list" where
  "lines_of free [] = []"
| "lines_of free ((a, n, f) # bs) = (if f = free then block_line a n else []) @ lines_of free bs"

lemma lines_of_eq:
  assumes "\<forall>(a, n, f) \<in> set bs. blk_size (m a) = n"
  shows "concat (map (\<lambda>a. block_line a (blk_size (m a))) (frees bs)) = lines_of True bs"
    "concat (map (\<lambda>a. block_line a (blk_size (m a))) (allocs bs)) = lines_of False bs"
  using assms by (induction bs rule: frees.induct) auto

lemma listing_ok:
  assumes env: "quiescent env" and rel: "heap_rel s bs"
    and small: "\<forall>(a, n, f) \<in> set bs. unat n < 10 ^ 9"
  shows "\<exists>t. showFreeMemoryCommand env s = Some (Returned 0, t) \<and> heap_rel t bs \<and>
      con_out t = con_out s @ crlf @ bytes ''Freed Memory:'' @ crlf @ lines_of True bs"
    "\<exists>t. showAllocatedMemoryCommand env s = Some (Returned 0, t) \<and> heap_rel t bs \<and>
      con_out t = con_out s @ crlf @ bytes ''Allocated Memory:'' @ crlf @ lines_of False bs"
proof -
  have head: "put env (crlf @ line h) s = Some (env (emit (crlf @ bytes h @ crlf) s))" for h
    using put_eq [of env "crlf @ bytes h @ crlf" s] by (simp add: line_def del: put_eq)
  have same: "kernel_same s (env (emit b s))" for b using env by simp
  then have m: "mcbs (env (emit b s)) = mcbs s" for b by (simp add: kernel_same_def)
  have sizes: "\<forall>(a, n, f) \<in> set bs. blk_size (mcbs s a) = n" using rel by (simp add: heap_rel_def)
  have sm: "\<forall>a \<in> set (frees bs). unat (blk_size (mcbs s a)) < 10 ^ 9"
    "\<forall>a \<in> set (allocs bs). unat (blk_size (mcbs s a)) < 10 ^ 9"
    using sizes small by (auto simp: set_frees set_allocs)
  obtain l l' where seg: "seg (mcbs s) NULL (free_head s) (frees bs) l NULL"
    "seg (mcbs s) NULL (alloc_head s) (allocs bs) l' NULL"
    using rel by (auto simp: heap_rel_def)
  let ?f = "env (emit (crlf @ bytes ''Freed Memory:'' @ crlf) s)"
    and ?a = "env (emit (crlf @ bytes ''Allocated Memory:'' @ crlf) s)"
  obtain t where "show_blocks env (free_head s) ?f = Some t" "kernel_same ?f t"
    "con_out t = con_out ?f @ concat (map (\<lambda>a. block_line a (blk_size (mcbs ?f a))) (frees bs))"
    using show_blocks_seg [OF env, of ?f NULL "free_head s" "frees bs" l] seg(1) sm(1) m by auto
  then show "\<exists>t. showFreeMemoryCommand env s = Some (Returned 0, t) \<and> heap_rel t bs \<and>
      con_out t = con_out s @ crlf @ bytes ''Freed Memory:'' @ crlf @ lines_of True bs"
    using env rel kernel_same_heap(1) [OF kernel_same_trans [OF same]] lines_of_eq(1) [OF sizes]
    by (simp add: showFreeMemoryCommand_def head m)
  obtain t where "show_blocks env (alloc_head s) ?a = Some t" "kernel_same ?a t"
    "con_out t = con_out ?a @ concat (map (\<lambda>a. block_line a (blk_size (mcbs ?a a))) (allocs bs))"
    using show_blocks_seg [OF env, of ?a NULL "alloc_head s" "allocs bs" l'] seg(2) sm(2) m by auto
  then show "\<exists>t. showAllocatedMemoryCommand env s = Some (Returned 0, t) \<and> heap_rel t bs \<and>
      con_out t = con_out s @ crlf @ bytes ''Allocated Memory:'' @ crlf @ lines_of False bs"
    using env rel kernel_same_heap(1) [OF kernel_same_trans [OF same]] lines_of_eq(2) [OF sizes]
    by (simp add: showAllocatedMemoryCommand_def head m)
qed

section \<open>Reading a line into an array\<close>

lemma ask_text_ok:
  assumes env: "bystanders env" and s: "at_prompt s" "con_in s = answered l # rest" and l: "typed l" "length l < n"
    and parse: "\<And>buf. parse (l @ 0 # buf) (length l) = Some True"
  shows "\<exists>t. ask_text env (msg @ [0]) err parse n s = Some (l @ replicate (n - length l) 0, t) \<and> at_prompt t \<and>
    con_in t = rest \<and> user_input_len t = int (length l) \<and> con_out t = con_out s @ asked msg \<and>
    (quiescent env \<longrightarrow> kernel_same s t)"
proof -
  let ?s = "env (emit (color_bytes White) (env (emit msg (env (emit (color_bytes Yellow) s)))))"
  have p: "at_prompt ?s" "con_in ?s = answered l # rest" using env s by (simp_all add: at_prompt_def)
  obtain u where u: "user_input_promptread env ?s = Some u" "con_in u = rest" "con_out u = con_out ?s @ crlf"
    "user_input_len u = int (length l)" "user_input u = l @ 0 # replicate (USER_INPUT_SZ - 1 - length l) 0"
    using typed_buffer [OF p(1) l(1) p(2) env] by blast
  have len: "length l < USER_INPUT_SZ" using l(1) by (simp add: typed_def)
  obtain t where t: "user_input_clear u = Some t" "at_prompt t" "con_in t = con_in u" "con_out t = con_out u"
    "t = u\<lparr>user_input := user_input t\<rparr>"
    using clear_typed [OF u(5) len u(4)] by blast
  have cp: "memcpy (replicate n 0) (user_input u) (length l) = Some (l @ replicate (n - length l) 0)"
    using l(2) u(5) by (simp add: memcpy_eq)
  have "ask_text env (msg @ [0]) err parse n s = Some (l @ replicate (n - length l) 0, t)"
    using parse u(4,5) by (subst ask_text.simps) (simp add: u(1) t(1) cp [unfolded u(5), simplified])
  moreover have "kernel_same s t" if q: "quiescent env"
  proof -
    have "kernel_same ?s u"
      using u(1) q
      by (auto simp: user_input_promptread_def con_read_def bind_eq_Some_conv Let_def quiescent_same split: list.splits)
    moreover have "kernel_same u t" by (subst t(5)) simp
    moreover have "kernel_same s ?s" using q by simp
    ultimately show ?thesis by (blast intro: kernel_same_trans)
  qed
  moreover have "user_input_len t = int (length l)" by (subst t(5)) (simp add: u(4))
  moreover have "con_out t = con_out s @ asked msg" using u(3) t(4) env by (simp add: asked_def)
  ultimately show ?thesis using t(2,3) u(2) by auto
qed


section \<open>The two commands\<close>

lemma clear_again:
  assumes "at_prompt s" and "user_input_len s = int k" and "k < USER_INPUT_SZ"
  shows "user_input_clear s = Some s"
proof -
  have "memset (user_input s) 0 k = Some (user_input s)"
    using assms by (simp add: memset_eq at_prompt_def flip: replicate_add)
  then show ?thesis using assms(2) by (simp add: user_input_clear_def)
qed

lemma parse_digits:
  assumes "\<forall>c \<in> set l. digit c"
  shows "intParsable (l @ 0 # buf) (length l) = Some True"
  using assms by (simp add: intParsable_eq)

lemma allocate_command:
  assumes env: "quiescent env" and s: "at_prompt s" "con_in s = answered l # rest"
    and l: "typed l" "length l < 100" "\<forall>c \<in> set l. digit c"
    and al: "\<And>t. kernel_same s t \<Longrightarrow> \<exists>u. allocate_memory (digits_value l 0) t = Some (p, u) \<and> R u"
    and p: "p \<noteq> NULL" and R: "\<And>t u. kernel_same t u \<Longrightarrow> R t \<Longrightarrow> R u"
  shows "\<exists>t. allocateMemoryCommand env s = Some (Returned 0, t) \<and> R t \<and> at_prompt t \<and> con_in t = rest \<and>
    con_out t = con_out s @ asked (bytes ''Enter the size of the allocation:'' @ crlf) @
      bytes ''The address of the allocated memory is: '' @ 0x30 # 0x78 # hexa (unat p) @ crlf"
proof -
  let ?m = "bytes ''Enter the size of the allocation:'' @ crlf"
  have msg: "size_msg = ?m @ [0]" by (simp add: size_msg_def line_def)
  have byst: "bystanders env" using env by simp
  obtain t where t: "ask_text env size_msg reenter_size intParsable 100 s
      = Some (l @ replicate (100 - length l) 0, t)" "at_prompt t" "con_in t = rest"
    "user_input_len t = int (length l)" "con_out t = con_out s @ asked ?m" "kernel_same s t"
    using ask_text_ok [where parse = intParsable and msg = ?m and err = reenter_size, OF byst s l(1,2) parse_digits [OF l(3)]] env unfolding msg by auto
  have "replicate (100 - length l) (0 :: u8) = 0 # replicate (99 - length l) 0"
    using l(2) by (simp flip: replicate_Suc add: Suc_diff_le)
  then have at: "atoi (l @ replicate (100 - length l) 0) = Some (digits_value l 0)"
    using atoi_typed [OF l(3)] by simp
  have cl: "user_input_clear t = Some t"
    using l(1) by (intro clear_again [OF t(2,4)]) (simp add: typed_def)
  obtain u where u: "allocate_memory (digits_value l 0) t = Some (p, u)" "R u" using al [OF t(6)] by blast
  note fr = touch_con [OF allocate_frame [OF u(1)]]
  obtain pad where ad: "addressToHex (replicate 11 0) p = Some ((0x30 # 0x78 # hexa (unat p)) @ 0 # pad)"
    using address_array by blast
  have zero: "0 \<notin> set (0x30 # 0x78 # hexa (unat p))" using hexa_nonzero by simp
  let ?v = "env (emit (bytes ''The address of the allocated memory is: '') u)"
  let ?w = "env (emit (0x30 # 0x78 # hexa (unat p)) ?v)"
  have d: "dput env ((0x30 # 0x78 # hexa (unat p)) @ 0 # pad) ?v = Some ?w"
    by (subst dput_eq) (simp_all only: cchars_prefix [OF zero] set_append list.set, auto)
  let ?x = "env (emit (bytes [] @ crlf) ?w)"
  have "allocateMemoryCommand env s = Some (Returned 0, ?x)"
    using p unfolding allocateMemoryCommand_def t(1) bind.bind_lunit prod.case at cl u(1) address_is_def
    by (simp only: if_False ad d put_cstr put_line bind.bind_lunit)
  moreover have "R ?x" by (rule R [OF _ u(2)]) (use env in simp)
  moreover have "at_prompt ?x" "con_in ?x = rest" using byst t(2,3) fr by (simp_all add: at_prompt_def)
  moreover have "con_out ?x = con_out u @ bytes ''The address of the allocated memory is: '' @
      0x30 # 0x78 # hexa (unat p) @ crlf"
    using byst by simp
  ultimately show ?thesis using fr t(5) by simp
qed

lemma hex_parses:
  assumes "hexa n = l"
  shows "hexParsable ((0x30 # 0x78 # l) @ 0 # buf) (length (0x30 # 0x78 # l)) = Some True"
proof -
  let ?ok = "\<lambda>c. \<not> ((c > 0x39 \<or> c < 0x30) \<and> (c > 0x46 \<or> c < 0x41) \<and> (c > 0x66 \<or> c < (0x61 :: u8)))"
  have h: "\<forall>c \<in> set (hexa n). ?ok c"
    using hexa_all [of ?ok _ n] hexdig_parses by blast
  have "hexParsable_from k i str = Some True"
    if "\<forall>c \<in> set (take k (drop i str)). ?ok c" "i + k \<le> length str" for k i str
    using that
  proof (induction k i str rule: hexParsable_from.induct)
    case (2 k i str)
    then have e: "take (Suc k) (drop i str) = str ! i # take k (drop (Suc i) str)"
      by (simp add: Cons_nth_drop_Suc [symmetric])
    then have "?ok (str ! i)" "\<forall>c \<in> set (take k (drop (Suc i) str)). ?ok c" using "2.prems"(1) by simp_all
    with 2 show ?case by auto
  qed simp
  from this [of "length l" 2 "(0x30 # 0x78 # l) @ 0 # buf"] h assms
  show ?thesis by (simp add: hexParsable_def numeral_2_eq_2)
qed

lemma free_command:
  assumes env: "quiescent env" and s: "at_prompt s" "con_in s = answered (0x30 # 0x78 # hexa (unat p)) # rest"
    and al: "\<And>t. kernel_same s t \<Longrightarrow> \<exists>u. free_memory p t = Some (0, u) \<and> R u"
    and R: "\<And>t u. kernel_same t u \<Longrightarrow> R t \<Longrightarrow> R u"
  shows "\<exists>t. freeMemoryCommand env s = Some (Returned 0, t) \<and> R t \<and> at_prompt t \<and> con_in t = rest \<and>
    con_out t = con_out s @ asked (bytes ''Enter the hexadecimal address of the memory block to free:'' @ crlf) @
      bytes ''Memory was freed.'' @ crlf"
proof -
  let ?m = "bytes ''Enter the hexadecimal address of the memory block to free:'' @ crlf"
    and ?l = "0x30 # 0x78 # hexa (unat p) :: u8 list"
  have msg: "address_msg = ?m @ [0]" by (simp add: address_msg_def line_def)
  have byst: "bystanders env" using env by simp
  have len: "length ?l \<le> 10" using hexa_address [of p] by simp
  have "hexdig d \<noteq> 0x0D" if "d < 16" for d using hexdig_parses [OF that refl] by auto
  then have "0x0D \<notin> set (hexa (unat p))" using hexa_all [where P = "\<lambda>c. c \<noteq> 0x0D"] by blast
  then have "0x0D \<notin> set ?l" by simp
  then have ty: "typed ?l" using len hexa_nonzero by (simp add: typed_def USER_INPUT_SZ_def)
  have l128: "length ?l < 128" using len by simp
  obtain t where t: "ask_text env address_msg reenter_address hexParsable 128 s
      = Some (?l @ replicate (128 - length ?l) 0, t)" "at_prompt t" "con_in t = rest"
    "user_input_len t = int (length ?l)" "con_out t = con_out s @ asked ?m" "kernel_same s t"
    using ask_text_ok [where parse = hexParsable and msg = ?m and err = reenter_address, OF byst s ty l128 hex_parses [OF refl]] env unfolding msg by blast
  have "replicate (128 - length ?l) (0 :: u8) = 0 # replicate (127 - length ?l) 0"
    using l128 by (simp flip: replicate_Suc add: Suc_diff_le)
  then have at: "hexToAddress (?l @ replicate (128 - length ?l) 0) = Some p"
    using hexToAddress_eq [of p] by simp
  have cl: "user_input_clear t = Some t"
    using ty by (intro clear_again [OF t(2,4)]) (simp add: typed_def)
  obtain u where u: "free_memory p t = Some (0, u)" "R u" using al [OF t(6)] by blast
  note fr = touch_con [OF free_frame [OF u(1)]]
  let ?x = "env (emit (bytes ''Memory was freed.'' @ crlf) u)"
  have "freeMemoryCommand env s = Some (Returned 0, ?x)"
    unfolding freeMemoryCommand_def t(1) bind.bind_lunit prod.case at cl u(1) was_freed_def put_line by simp
  moreover have "R ?x" by (rule R [OF _ u(2)]) (use env in simp)
  moreover have "at_prompt ?x" "con_in ?x = rest" using byst t(2,3) fr by (simp_all add: at_prompt_def)
  ultimately show ?thesis using fr t(5) byst by auto
qed

end
