(* ===== verification/Comhand_Pcb.thy ===== *)
theory Comhand_Pcb
  imports Comhand_Ask Load_R3
begin

text \<open>
  The commands of the handler about processes (\<^verbatim>\<open>kernel/comhand.c\<close>): finding
  one by a typed name, showing, suspending, resuming, deleting and reprioritising it, the
  listings of the queues, the alarm and the shutdown.
\<close>

section \<open>Names of the states\<close>

text \<open>\<^verbatim>\<open>struct str_pcbprop_map\<close>: the value, its name and the name that is printed.\<close>

type_synonym str_pcbprop_map = "nat \<times> u8 list \<times> u8 list"

definition avail_pcb_class :: "str_pcbprop_map list" where
  "avail_pcb_class = [(0, cstr ''system'', cstr ''System''), (1, cstr ''user'', cstr ''User'')]"

definition avail_pcb_execstate :: "str_pcbprop_map list" where
  "avail_pcb_execstate =
     [(0, cstr ''blocked'', cstr ''Blocked''), (1, cstr ''ready'', cstr ''Ready''),
      (2, cstr ''running'', cstr ''Running'')]"

definition avail_pcb_dpatchstate :: "str_pcbprop_map list" where
  "avail_pcb_dpatchstate =
     [(0, cstr ''suspended'', cstr ''Suspended''), (1, cstr ''active'', cstr ''Active'')]"

definition class_str :: "1 word \<Rightarrow> u8 list option" where
  "class_str st = map_option (snd \<circ> snd) (rd avail_pcb_class (unat st))"

definition execstate_str :: "2 word \<Rightarrow> u8 list option" where
  "execstate_str st = map_option (snd \<circ> snd) (rd avail_pcb_execstate (unat st))"

definition dpatchstate_str :: "1 word \<Rightarrow> u8 list option" where
  "dpatchstate_str st = map_option (snd \<circ> snd) (rd avail_pcb_dpatchstate (unat st))"

section \<open>Showing processes\<close>

text \<open>
  The strings of a state are looked up first; the name is read from the PCB when it is
  written, after the requests before it.
\<close>

definition pcb_strings :: "pcb_state \<Rightarrow> (u8 list \<times> u8 list \<times> u8 list \<times> u8 list) option" where
  "pcb_strings st = do {
     charClass \<leftarrow> class_str (cls st);
     charState \<leftarrow> execstate_str (exec st);
     charStatus \<leftarrow> dpatchstate_str (dpatch st);
     charPri \<leftarrow> itoa (replicate 4 0) (uint (pri st));
     Some (charClass, charState, charStatus, charPri)
   }"

definition write_pcb ::
  "'a others \<Rightarrow> addr \<Rightarrow> u8 list \<times> u8 list \<times> u8 list \<times> u8 list \<Rightarrow> 'a con_scheme \<Rightarrow> 'a con_scheme option" where
  "write_pcb env p strs s = do {
     let (charClass, charState, charStatus, charPri) = strs;
     s \<leftarrow> put env (crlf @ cstr ''Process Name: '') s;
     s \<leftarrow> dput env (p_name (pcbs s p)) s;
     s \<leftarrow> put env (crlf @ cstr ''Process Class: '') s;
     s \<leftarrow> dput env charClass s;
     s \<leftarrow> put env (crlf @ cstr ''Process Priority: '') s;
     s \<leftarrow> dput env charPri s;
     s \<leftarrow> put env (crlf @ cstr ''Process State: '') s;
     s \<leftarrow> dput env charState s;
     s \<leftarrow> put env (crlf @ cstr ''Process Status: '') s;
     s \<leftarrow> dput env charStatus s;
     put env (line '''') s
   }"

partial_function (option) show_list :: "'a others \<Rightarrow> addr \<Rightarrow> 'a con_scheme \<Rightarrow> 'a con_scheme option" where
  "show_list env proc_iter s = do {
     strs \<leftarrow> pcb_strings (p_state (pcbs s proc_iter));
     s \<leftarrow> write_pcb env proc_iter strs s;
     if p_next (pcbs s proc_iter) = NULL then Some s
     else show_list env (p_next (pcbs s proc_iter)) s
   }"

fun show_queues :: "'a others \<Rightarrow> nat list \<Rightarrow> 'a con_scheme \<Rightarrow> 'a con_scheme option" where
  "show_queues env [] s = Some s"
| "show_queues env (i # is) s = do {
     s \<leftarrow> (if pcb_head (pcb_queues s i) \<noteq> NULL then show_list env (pcb_head (pcb_queues s i)) s else Some s);
     show_queues env is s
   }"

text \<open>
  The loop \<^verbatim>\<open>for (i = {0, PCB_DPATCH_SUSPENDED, x, 0}; i.exec <= PCB_DPATCH_ACTIVE; ++i.exec)\<close>.
  The initialiser sets the fields in the order of the declaration: \<^verbatim>\<open>exec\<close> is 0,
  \<^verbatim>\<open>dpatch\<close> is 0 and the class is \<open>x\<close>. Then the queues of \<^verbatim>\<open>exec\<close> 0 and 1 are shown.
\<close>

definition listed_queues :: "1 word \<Rightarrow> nat list" where
  "listed_queues x =
     map (\<lambda>e. PSTATE_QUEUE_SELECTOR \<lparr>exec = e, dpatch = PCB_DPATCH_SUSPENDED, cls = x, pri = 0\<rparr>) [0, 1]"

definition showPcbReadyCommand :: "'a others \<Rightarrow> 'a con_scheme \<Rightarrow> (outcome \<times> 'a con_scheme) option" where
  "showPcbReadyCommand env s = do {
     s \<leftarrow> setTerminalColor env Yellow s;
     s \<leftarrow> show_queues env (listed_queues (ucast PCB_EXEC_READY)) s;
     Some (Returned 0, s)
   }"

definition showPcbBlockedCommand :: "'a others \<Rightarrow> 'a con_scheme \<Rightarrow> (outcome \<times> 'a con_scheme) option" where
  "showPcbBlockedCommand env s = do {
     s \<leftarrow> setTerminalColor env Yellow s;
     s \<leftarrow> show_queues env (listed_queues (ucast PCB_EXEC_BLOCKED)) s;
     Some (Returned 0, s)
   }"

definition showPcbAllCommand :: "'a others \<Rightarrow> 'a con_scheme \<Rightarrow> (outcome \<times> 'a con_scheme) option" where
  "showPcbAllCommand env s = do {
     s \<leftarrow> setTerminalColor env Yellow s;
     s \<leftarrow> show_queues env [0, 1, 2, 3] s;
     Some (Returned 0, s)
   }"

section \<open>Commands on a named process\<close>

text \<open>The question for a name; the result is what \<^verbatim>\<open>pcb_find\<close> returns for the line.\<close>

definition ask_process :: "'a others \<Rightarrow> u8 list \<Rightarrow> 'a con_scheme \<Rightarrow> (addr \<times> 'a con_scheme) option" where
  "ask_process env msg s = do {
     s \<leftarrow> setTerminalColor env Yellow s;
     s \<leftarrow> put env msg s;
     s \<leftarrow> setTerminalColor env White s;
     s \<leftarrow> user_input_promptread env s;
     procfound \<leftarrow> pcb_find (user_input s) s;
     s \<leftarrow> user_input_clear s;
     Some (procfound, s)
   }"

definition complain :: "'a others \<Rightarrow> u8 list \<Rightarrow> 'a con_scheme \<Rightarrow> (outcome \<times> 'a con_scheme) option" where
  "complain env msg s = do {
     s \<leftarrow> setTerminalColor env Red s;
     s \<leftarrow> put env msg s;
     Some (Returned 1, s)
   }"

definition not_found :: "u8 list" where
  "not_found = line ''A process with the given name was not found''"

definition showPcbCommand :: "'a others \<Rightarrow> 'a con_scheme \<Rightarrow> (outcome \<times> 'a con_scheme) option" where
  "showPcbCommand env s = do {
     (procfound, s) \<leftarrow> ask_process env (line ''Enter the name of an existing process:'') s;
     if procfound = NULL then complain env (line ''Specified process was not found'') s
     else do {
       strs \<leftarrow> pcb_strings (p_state (pcbs s procfound));
       s \<leftarrow> setTerminalColor env Yellow s;
       s \<leftarrow> write_pcb env procfound strs s;
       Some (Returned 0, s)
     }
   }"

definition deletePcbCommand :: "'a others \<Rightarrow> 'a con_scheme \<Rightarrow> (outcome \<times> 'a con_scheme) option" where
  "deletePcbCommand env s = do {
     (procfound, s) \<leftarrow> ask_process env (line ''Enter the name of an existing process to be deleted:'') s;
     if procfound = NULL then complain env not_found s
     else if cls (p_state (pcbs s procfound)) = 0 then
       complain env (bytes ''Process is a system process, cannot be removed'' @ [0x0A, 0]) s
     else do {
       (_, s) \<leftarrow> pcb_remove procfound s;
       (_, s) \<leftarrow> pcb_free procfound s;
       Some (Returned 0, s)
     }
   }"

definition set_dpatch :: "addr \<Rightarrow> 1 word \<Rightarrow> 'a procs_scheme \<Rightarrow> 'a procs_scheme" where
  "set_dpatch p v s = set_p_state p ((p_state (pcbs s p))\<lparr>dpatch := v\<rparr>) s"

definition suspendPcbCommand :: "'a others \<Rightarrow> 'a con_scheme \<Rightarrow> (outcome \<times> 'a con_scheme) option" where
  "suspendPcbCommand env s = do {
     (procfound, s) \<leftarrow> ask_process env (line ''Enter the name of an existing process to suspend:'') s;
     if procfound = NULL then complain env not_found s
     else if cls (p_state (pcbs s procfound)) = 0 then
       complain env (bytes ''Process is a system process, cannot be suspended'' @ [0x0A, 0]) s
     else do {
       (_, s) \<leftarrow> pcb_remove procfound s;
       s \<leftarrow> pcb_insert procfound (set_dpatch procfound PCB_DPATCH_SUSPENDED s);
       Some (Returned 0, s)
     }
   }"

definition resumePcbCommand :: "'a others \<Rightarrow> 'a con_scheme \<Rightarrow> (outcome \<times> 'a con_scheme) option" where
  "resumePcbCommand env s = do {
     (procfound, s) \<leftarrow> ask_process env (line ''Enter the name of an existing process to resume:'') s;
     if procfound = NULL then complain env not_found s
     else do {
       (_, s) \<leftarrow> pcb_remove procfound s;
       s \<leftarrow> pcb_insert procfound (set_dpatch procfound PCB_DPATCH_ACTIVE s);
       Some (Returned 0, s)
     }
   }"

section \<open>The priority of a process\<close>

text \<open>
  The name is copied, with its terminator, into an array of 63 characters before it is
  looked up. The PCB that was found is used again after the next question.
\<close>

partial_function (option) ask_existing :: "'a others \<Rightarrow> 'a con_scheme \<Rightarrow> (addr \<times> 'a con_scheme) option" where
  "ask_existing env s = do {
     s \<leftarrow> setTerminalColor env Yellow s;
     s \<leftarrow> put env (line ''Enter the name of an existing process to change its priority:'') s;
     s \<leftarrow> setTerminalColor env White s;
     s \<leftarrow> user_input_promptread env s;
     let n = nat (user_input_len s);
     if 0 < n \<and> n \<le> 63 then do {
       proc_name \<leftarrow> memcpy (replicate 63 0) (user_input s) (n + 1);
       pcb_findres \<leftarrow> pcb_find proc_name s;
       s \<leftarrow> user_input_clear s;
       if pcb_findres = NULL then do {
         s \<leftarrow> setTerminalColor env Red s;
         s \<leftarrow> put env (line ''Process name does not exist.'') s;
         ask_existing env s
       } else Some (pcb_findres, s)
     } else do {
       s \<leftarrow> user_input_clear s;
       s \<leftarrow> setTerminalColor env Red s;
       s \<leftarrow> put env not_found s;
       ask_existing env s
     }
   }"

definition set_pri :: "addr \<Rightarrow> u8 \<Rightarrow> 'a procs_scheme \<Rightarrow> 'a procs_scheme" where
  "set_pri p v s = set_p_state p ((p_state (pcbs s p))\<lparr>pri := ucast v\<rparr>) s"

partial_function (option) ask_priority :: "'a others \<Rightarrow> addr \<Rightarrow> 'a con_scheme \<Rightarrow> 'a con_scheme option" where
  "ask_priority env pcb_findres s = do {
     s \<leftarrow> setTerminalColor env Yellow s;
     s \<leftarrow> put env (line ''Enter process priority (0-9):'') s;
     s \<leftarrow> setTerminalColor env White s;
     s \<leftarrow> user_input_promptread env s;
     parsable \<leftarrow> (if user_input_len s = 1 then intParsable (user_input s) 1 else Some False);
     proc_pri \<leftarrow> (if parsable then map_option ucast (atoi (user_input s)) else Some 0);
     if parsable \<and> proc_pri \<le> (9 :: u8) then do {
       (_, s) \<leftarrow> pcb_remove pcb_findres s;
       s \<leftarrow> pcb_insert pcb_findres (set_pri pcb_findres proc_pri s);
       user_input_clear s
     } else do {
       s \<leftarrow> user_input_clear s;
       s \<leftarrow> setTerminalColor env Red s;
       s \<leftarrow> put env (line ''Priority is not in the accepted range.'') s;
       ask_priority env pcb_findres s
     }
   }"

definition setPcbPriorityCommand :: "'a others \<Rightarrow> 'a con_scheme \<Rightarrow> (outcome \<times> 'a con_scheme) option" where
  "setPcbPriorityCommand env s = do {
     (pcb_findres, s) \<leftarrow> ask_existing env s;
     s \<leftarrow> ask_priority env pcb_findres s;
     Some (Returned 0, s)
   }"

section \<open>Shutting down\<close>

partial_function (option) kill_queue :: "nat \<Rightarrow> 'a procs_scheme \<Rightarrow> 'a procs_scheme option" where
  "kill_queue i s =
     (let hdl = pcb_head (pcb_queues s i)
      in if hdl \<noteq> NULL then do {
           (_, s) \<leftarrow> pcb_remove hdl s;
           (_, s) \<leftarrow> pcb_free hdl s;
           kill_queue i s
         } else Some s)"

fun kill_queues :: "nat list \<Rightarrow> 'a procs_scheme \<Rightarrow> 'a procs_scheme option" where
  "kill_queues [] s = Some s"
| "kill_queues (i # is) s = do { s \<leftarrow> kill_queue i s; kill_queues is s }"

definition shutdown_msg :: "u8 list" where
  "shutdown_msg = bytes ''Are you sure you would like to shut down?'' @ crlf @
     line ''Enter 1 to confirm, enter another key to go back to menu:''"

text \<open>\<^verbatim>\<open>sys_req(EXIT)\<close> does not come back: the process has exited.\<close>

definition shutdownCommand :: "'a others \<Rightarrow> 'a con_scheme \<Rightarrow> (outcome \<times> 'a con_scheme) option" where
  "shutdownCommand env s = do {
     s \<leftarrow> setTerminalColor env Red s;
     s \<leftarrow> put env shutdown_msg s;
     s \<leftarrow> user_input_promptread env s;
     s \<leftarrow> setTerminalColor env White s;
     c \<leftarrow> strcmp (user_input s) (cstr ''1'');
     if c = 0 then do {
       s \<leftarrow> put env (line ''Shutting down now.'') s;
       s \<leftarrow> user_input_clear s;
       s \<leftarrow> kill_queues [0, 1, 2, 3] s;
       Some (exitret s)
     } else do {
       s \<leftarrow> put env (line ''Shut down cancelled.'') s;
       s \<leftarrow> user_input_clear s;
       Some (Returned 1, s)
     }
   }"

section \<open>Setting an alarm\<close>

definition le_bytes :: "u32 \<Rightarrow> u8 list" where
  "le_bytes w = map (\<lambda>i. ucast (drop_bit (8 * i) w)) [0, 1, 2, 3]"

text \<open>\<^verbatim>\<open>struct alarmProcessParams\<close> in memory.\<close>

definition alarm_bytes :: "alarmProcessParams \<Rightarrow> u8 list" where
  "alarm_bytes a = le_bytes (word_of_int (a_hours a)) @ le_bytes (word_of_int (a_minutes a)) @
     le_bytes (word_of_int (a_seconds a)) @ le_bytes (a_msg a)"

fun timer_name :: "nat \<Rightarrow> nat \<Rightarrow> u8 list \<Rightarrow> 'a procs_scheme \<Rightarrow> u8 list option" where
  "timer_name 0 i nm s = Some nm"
| "timer_name (Suc k) i nm s = do {
     postfix \<leftarrow> itoa (drop 6 nm) (int i);
     let nm = take 6 nm @ postfix;
     p \<leftarrow> pcb_find nm s;
     if p = NULL then Some nm
     else do {
       n \<leftarrow> strlen (drop 6 nm);
       postfix \<leftarrow> memset (drop 6 nm) 0 n;
       timer_name k (Suc i) (take 6 nm @ postfix) s
     }
   }"

definition reenter_alarm :: "u8 list" where
  "reenter_alarm = line ''Could not parse, please re-enter time value:''"

definition alarmCommand :: "image \<Rightarrow> 'a others \<Rightarrow> 'a con_scheme \<Rightarrow> (outcome \<times> 'a con_scheme) option" where
  "alarmCommand img env s = do {
     (hour, s) \<leftarrow> ask env hour_msg reenter_alarm (\<lambda>n. n < 24 \<and> n \<ge> 0) s;
     (minute, s) \<leftarrow> ask env minute_msg reenter_alarm (\<lambda>n. n < 60 \<and> n \<ge> 0) s;
     (second, s) \<leftarrow> ask env second_msg reenter_alarm (\<lambda>n. n < 60 \<and> n \<ge> 0) s;
     s \<leftarrow> setTerminalColor env Yellow s;
     s \<leftarrow> put env (line ''Enter the message to display:'') s;
     s \<leftarrow> setTerminalColor env White s;
     s \<leftarrow> user_input_promptread env s;
     let n = nat (user_input_len s);
     (alarm_msg, s) \<leftarrow> sys_alloc_mem (of_nat n + 1) s;
     ensure (alarm_msg \<noteq> NULL \<or> n = 0);
     let s = s\<lparr>ram := store_bytes alarm_msg (take n (user_input s)) (ram s)\<rparr>;
     timername \<leftarrow> timer_name 256 0 (bytes ''timer_'' @ replicate 58 0) s;
     (timerpcb, s) \<leftarrow> pcb_setup timername PCB_CLASS_USER 0 s;
     let alarm_args = \<lparr>a_hours = hour, a_minutes = minute, a_seconds = second, a_msg = alarm_msg\<rparr>;
     s \<leftarrow> pcb_context_init timerpcb (code_addr img Alarm_Process) (Some (alarm_bytes alarm_args)) 16 s;
     s \<leftarrow> pcb_insert timerpcb s;
     s \<leftarrow> user_input_clear s;
     Some (Returned 0, s)
   }"

end
