(* ===== verification/Comhand.thy ===== *)
theory Comhand
  imports Comhand_Table Comhand_Mem Comhand_Pcb
begin

text \<open>
  The command handler process itself (\<^verbatim>\<open>kernel/comhand.c\<close>): the help command, the
  choice of a command by number or name, and the loop around it.
\<close>

section \<open>Choosing an entry\<close>

fun find_entry :: "u8 list \<Rightarrow> cmd_entry list \<Rightarrow> cmd_entry option option" where
  "find_entry ui [] = Some None"
| "find_entry ui (e # es) = do {
     c \<leftarrow> strcmp ui (key e);
     found \<leftarrow> (if c = 0 then Some True else map_option (\<lambda>c. c = 0) (strcmp ui (key_alt e)));
     if found then Some (Some e) else find_entry ui es
   }"

fun write_helps :: "'a others \<Rightarrow> cmd_entry list \<Rightarrow> 'a con_scheme \<Rightarrow> 'a con_scheme option" where
  "write_helps env [] s = Some s"
| "write_helps env (e # es) s = do { s \<leftarrow> put env (help_msg e) s; write_helps env es s }"

definition helpCommand :: "'a others \<Rightarrow> 'a con_scheme \<Rightarrow> (outcome \<times> 'a con_scheme) option" where
  "helpCommand env s = do {
     s \<leftarrow> setTerminalColor env Yellow s;
     s \<leftarrow> put env (bytes ''Enter the command name same case sensitive or the number of the command'' @ crlf @
            line ''Enter [all] to display all commands'') s;
     s \<leftarrow> setTerminalColor env White s;
     s \<leftarrow> user_input_promptread env s;
     c \<leftarrow> strcmp (cstr ''all'') (user_input s);
     if c = 0 then do {
       s \<leftarrow> write_helps env cmd_entries s;
       s \<leftarrow> user_input_clear s;
       Some (Returned 0, s)
     } else do {
       found \<leftarrow> find_entry (user_input s) cmd_entries;
       s \<leftarrow> (case found of
              Some e \<Rightarrow> put env (help_msg e) s
            | None \<Rightarrow> put env (line ''Command name not recognized'') s);
       s \<leftarrow> user_input_clear s;
       Some (Returned 0, s)
     }
   }"

section \<open>The commands behind the table\<close>

fun run_command :: "image \<Rightarrow> command \<Rightarrow> 'a others \<Rightarrow> 'a con_scheme \<Rightarrow> (outcome \<times> 'a con_scheme) option" where
  "run_command img HelpCommand env s = helpCommand env s"
| "run_command img SetTimeCommand env s = setTimeCommand env s"
| "run_command img GetTimeCommand env s = getTimeCommand env s"
| "run_command img SetDateCommand env s = setDateCommand env s"
| "run_command img GetDateCommand env s = getDateCommand env s"
| "run_command img SetPcbPriorityCommand env s = setPcbPriorityCommand env s"
| "run_command img ShowPcbCommand env s = showPcbCommand env s"
| "run_command img ShowPcbReadyCommand env s = showPcbReadyCommand env s"
| "run_command img ShowPcbBlockedCommand env s = showPcbBlockedCommand env s"
| "run_command img ShowPcbAllCommand env s = showPcbAllCommand env s"
| "run_command img DeletePcbCommand env s = deletePcbCommand env s"
| "run_command img SuspendPcbCommand env s = suspendPcbCommand env s"
| "run_command img ResumePcbCommand env s = resumePcbCommand env s"
| "run_command img VersionCommand env s = versionCommand (build_date img) env s"
| "run_command img ShutdownCommand env s = shutdownCommand env s"
| "run_command img LoadR3 env s = loadR3 img s"
| "run_command img AlarmCommand env s = alarmCommand img env s"
| "run_command img AllocateMemoryCommand env s = allocateMemoryCommand env s"
| "run_command img FreeMemoryCommand env s = freeMemoryCommand env s"
| "run_command img ShowFreeMemoryCommand env s = showFreeMemoryCommand env s"
| "run_command img ShowAllocatedMemoryCommand env s = showAllocatedMemoryCommand env s"

section \<open>The loop\<close>

definition menu_options :: "u8 list" where
  "menu_options =
     bytes ''Please select an option by choosing a number from an entry below.'' @ crlf @
     bytes ''1 ) Help               2 ) Set Time          3 ) Get Time     4 ) Set Date'' @ crlf @
     bytes ''5 ) Get Date           6 ) Set PCB Priority  7 ) Show PCB     8 ) Show Ready PCB'' @ crlf @
     bytes ''9 ) Show Blocked PCBs  10) Show All PCBs     11) Delete PCB   12) Suspend PCB'' @ crlf @
     bytes ''13) Resume PCB         14) Version           15) Shut Down    16) loadR3'' @ crlf @
     bytes ''17) Alarm              18) Allocate Memory   19) Free Memory  20) Show Free Mem'' @ crlf @
     line ''21) Show Alloc'ed Mem''"

text \<open>
  One turn of the loop. The result tells how the handler leaves the loop, if it does: by
  exiting in \<^verbatim>\<open>shutdownCommand\<close>, or by the \<^verbatim>\<open>return\<close> after
  \<^verbatim>\<open>shutdownCommand\<close> has returned 0.
\<close>

definition comhand_turn ::
  "image \<Rightarrow> 'a others \<Rightarrow> 'a con_scheme \<Rightarrow> (outcome option \<times> 'a con_scheme) option" where
  "comhand_turn img env s = do {
     let s = idle env s;
     s \<leftarrow> setTerminalColor env Purple s;
     s \<leftarrow> put env menu_options s;
     s \<leftarrow> setTerminalColor env White s;
     s \<leftarrow> user_input_promptread env s;
     found \<leftarrow> find_entry (user_input s) cmd_entries;
     case found of
       Some e \<Rightarrow> do {
         s \<leftarrow> user_input_clear s;
         (retcode, s) \<leftarrow> run_command img (command_func e) env s;
         if retcode = Exited then Some (Some Exited, s)
         else if command_func e = ShutdownCommand \<and> retcode = Returned 0 then Some (Some (Returned 0), s)
         else Some (None, s)
       }
     | None \<Rightarrow> do {
         s \<leftarrow> user_input_clear s;
         s \<leftarrow> setTerminalColor env Red s;
         s \<leftarrow> put env (line ''Please select a valid option.'') s;
         Some (None, s)
       }
   }"

partial_function (option) comhand_loop ::
  "image \<Rightarrow> 'a others \<Rightarrow> 'a con_scheme \<Rightarrow> (outcome \<times> 'a con_scheme) option" where
  "comhand_loop img env s = do {
     (left, s) \<leftarrow> comhand_turn img env s;
     case left of Some r \<Rightarrow> Some (r, s) | None \<Rightarrow> comhand_loop img env s
   }"

definition comhand :: "image \<Rightarrow> 'a others \<Rightarrow> 'a con_scheme \<Rightarrow> (outcome \<times> 'a con_scheme) option" where
  "comhand img env s = do {
     s \<leftarrow> setTerminalColor env Blue s;
     s \<leftarrow> put env (line ''Welcome to 5x5 MPX.'') s;
     comhand_loop img env s
   }"

end
