(* ===== verification/Rtc_Claims.thy ===== *)
theory Rtc_Claims
  imports Rtc Pcb_Claims
begin

text \<open>
  The statements about the clock: what is set is what is printed, and the alarm goes off at
  the first poll at or after its time.
\<close>

section \<open>The chip\<close>

text \<open>
  The chip after the I/O events so far: port \<open>0x70\<close> selects a register with its lower seven
  bits, port \<open>0x71\<close> stores into the selected register. The first component is the register that is
  selected, the second what the kernel has stored.
\<close>

definition chip_step :: "io_event \<Rightarrow> u8 option \<times> (u8 \<Rightarrow> u8 option) \<Rightarrow> u8 option \<times> (u8 \<Rightarrow> u8 option)" where
  "chip_step ev c =
     (case ev of
        Outb p v \<Rightarrow> if p = 0x70 then (Some (v AND 0x7F), snd c)
                    else if p = 0x71 then (case fst c of Some r \<Rightarrow> (Some r, (snd c)(r \<mapsto> v)) | None \<Rightarrow> c) else c
      | _ \<Rightarrow> c)"

definition selected :: "io_event list \<Rightarrow> u8 option" where
  "selected es = fst (fold chip_step es (None, \<lambda>r. None))"

definition cmos :: "io_event list \<Rightarrow> u8 \<Rightarrow> u8 option" where
  "cmos es = snd (fold chip_step es (None, \<lambda>r. None))"

text \<open>
  The law of the chip for the next \<open>n\<close> input instructions: whatever the kernel does until then,
  port \<open>0x71\<close> answers with the register that the kernel has selected through port \<open>0x70\<close>,
  where \<open>f\<close> says what the registers hold after the events \<open>es\<close>. About registers that \<open>f\<close>
  does not give, nothing is assumed.
\<close>

definition chip_shows :: "(io_event list \<Rightarrow> u8 \<Rightarrow> u8 option) \<Rightarrow> nat \<Rightarrow> 'a machine_scheme \<Rightarrow> bool" where
  "chip_shows f n s \<longleftrightarrow> (\<forall>i < n. \<forall>h r v.
     selected (m_trace s @ h) = Some r \<and> f (m_trace s @ h) r = Some v \<longrightarrow>
       m_env s (m_count s + i) (m_trace s @ h) 0x71 = v)"

text \<open>Binary coded decimals, and the registers of a clock at the time of day \<open>T\<close>, in seconds.\<close>

definition bcd :: "int \<Rightarrow> u8" where
  "bcd n = word_of_int (n div 10 * 16 + n mod 10)"

definition clock :: "int \<Rightarrow> io_event list \<Rightarrow> u8 \<Rightarrow> u8 option" where
  "clock T es r =
     (if r = 0 then Some (bcd (T mod 60))
      else if r = 2 then Some (bcd (T div 60 mod 60))
      else if r = 4 then Some (bcd (T div 3600)) else None)"

lemma decimalToBCD_eq: "0 \<le> n \<Longrightarrow> n < 100 \<Longrightarrow> decimalToBCD n = bcd n"
  using uint_decimalToBCD [of n] by (metis bcd_def word_of_int_uint)

lemma BCDtoDecimal_bcd: "0 \<le> n \<Longrightarrow> n < 100 \<Longrightarrow> BCDtoDecimal (bcd n) = n"
  by (simp add: BCD_decimal flip: decimalToBCD_eq)

lemmas port_defs = rtc_read_def rtc_write_def inb_def outb_def cli_def sti_def Let_def

lemma chip_snoc:
  "selected (es @ [Outb 0x70 v]) = Some (v AND 0x7F)" "cmos (es @ [Outb 0x70 v]) = cmos es"
  "cmos (es @ [Inb p b]) = cmos es" "cmos (es @ [Cli]) = cmos es"
  by (simp_all add: selected_def cmos_def chip_step_def)

text \<open>One read selects its register and gets what the chip shows there.\<close>

lemma rtc_read_shows:
  assumes "chip_shows f (Suc n) s" and "f (m_trace s @ [Outb 0x70 r]) (r AND 0x7F) = Some v"
  shows "rtc_read r s = (BCDtoDecimal v, s\<lparr>m_count := Suc (m_count s), m_trace := m_trace s @ [Outb 0x70 r, Inb 0x71 v]\<rparr>)"
    "chip_shows f n (s\<lparr>m_count := Suc (m_count s), m_trace := m_trace s @ [Outb 0x70 r, Inb 0x71 v]\<rparr>)"
proof -
  have "m_env s (m_count s) (m_trace s @ [Outb 0x70 r]) 0x71 = v"
    using assms chip_snoc(1) [of "m_trace s" r] unfolding chip_shows_def by force
  then show "rtc_read r s = (BCDtoDecimal v, s\<lparr>m_count := Suc (m_count s), m_trace := m_trace s @ [Outb 0x70 r, Inb 0x71 v]\<rparr>)"
    by (simp add: port_defs)
  have "m_env s (m_count s + Suc i) (m_trace s @ Outb 0x70 r # Inb 0x71 v # h) 0x71 = w"
    if "i < n" "selected (m_trace s @ Outb 0x70 r # Inb 0x71 v # h) = Some q"
      "f (m_trace s @ Outb 0x70 r # Inb 0x71 v # h) q = Some w" for i h q w
    using assms(1) that unfolding chip_shows_def by blast
  then show "chip_shows f n (s\<lparr>m_count := Suc (m_count s), m_trace := m_trace s @ [Outb 0x70 r, Inb 0x71 v]\<rparr>)"
    by (simp add: chip_shows_def)
qed

lemma rtc_read_con: "rtc_read r s = (x, t) \<Longrightarrow> con_out t = con_out s"
  by (auto simp: port_defs)

lemma chip_shows_cong:
  assumes "m_env t = m_env s" and "m_count t = m_count s" and t: "m_trace t = m_trace s @ es" and "chip_shows f n s"
  shows "chip_shows f n t"
  unfolding chip_shows_def t append_assoc using assms(1,2) assms(4) [unfolded chip_shows_def] by fastforce

text \<open>Three reads in a row.\<close>

definition three_reads :: "u8 \<Rightarrow> u8 \<Rightarrow> u8 \<Rightarrow> u8 \<Rightarrow> u8 \<Rightarrow> u8 \<Rightarrow> io_event list" where
  "three_reads q x r y t z = [Outb 0x70 q, Inb 0x71 x, Outb 0x70 r, Inb 0x71 y, Outb 0x70 t, Inb 0x71 z]"

lemma three_reads_shows:
  assumes "chip_shows f 3 s"
    and "f (m_trace s @ [Outb 0x70 q]) (q AND 0x7F) = Some x"
    and "f (m_trace s @ [Outb 0x70 q, Inb 0x71 x, Outb 0x70 r]) (r AND 0x7F) = Some y"
    and "f (m_trace s @ [Outb 0x70 q, Inb 0x71 x, Outb 0x70 r, Inb 0x71 y, Outb 0x70 t]) (t AND 0x7F) = Some z"
  shows "\<exists>a b. rtc_read q s = (BCDtoDecimal x, a) \<and> rtc_read r a = (BCDtoDecimal y, b) \<and>
    rtc_read t b = (BCDtoDecimal z, s\<lparr>m_count := m_count s + 3, m_trace := m_trace s @ three_reads q x r y t z\<rparr>)"
proof -
  let ?a = "s\<lparr>m_count := Suc (m_count s), m_trace := m_trace s @ [Outb 0x70 q, Inb 0x71 x]\<rparr>"
  let ?b = "?a\<lparr>m_count := Suc (m_count ?a), m_trace := m_trace ?a @ [Outb 0x70 r, Inb 0x71 y]\<rparr>"
  have c3: "chip_shows f (Suc (Suc (Suc 0))) s" using assms(1) by (simp add: numeral_3_eq_3)
  note a = rtc_read_shows [OF c3, of q x]
  have fy: "f (m_trace ?a @ [Outb 0x70 r]) (r AND 0x7F) = Some y" using assms(3) by simp
  note b = rtc_read_shows [OF a(2) [OF assms(2)], of r y]
  have fz: "f (m_trace ?b @ [Outb 0x70 t]) (t AND 0x7F) = Some z" using assms(4) by simp
  show ?thesis
    using a(1) [OF assms(2)] b(1) [OF fy] rtc_read_shows(1) [OF b(2) [OF fy] fz]
    by (simp add: three_reads_def numeral_3_eq_3)
qed

lemma getTime_ok:
  assumes env: "bystanders env"
    and v: "rtc_read 0x00 (cli s) = (sec, a)" "rtc_read 0x02 a = (mi, b)" "rtc_read 0x04 b = (h, c)"
    and r: "0 \<le> sec" "sec < 100" "0 \<le> mi" "mi < 100" "0 \<le> h" "h < 100"
  shows "\<exists>u. getTime env s = Some u \<and>
    con_out u = con_out s @ dd h @ bytes '':'' @ dd mi @ bytes '':'' @ dd sec @ crlf"
proof -
  let ?t1 = "dd h" and ?t2 = "dd h @ [0x3A]" and ?t3 = "(dd h @ [0x3A]) @ dd mi"
    and ?t4 = "((dd h @ [0x3A]) @ dd mi) @ [0x3A]" and ?t5 = "(((dd h @ [0x3A]) @ dd mi) @ [0x3A]) @ dd sec"
  have l: "length (dd x) = 2" for x by (simp add: dd_def)
  note nz = dd_nonzero [OF r(1,2)] dd_nonzero [OF r(3,4)] dd_nonzero [OF r(5,6)]
  have cp: "copy_str (dd h @ [0]) (replicate 100 0) 0 = Some (2, ?t1 @ replicate 98 0, length ?t1)"
    "copy_str [0x3A, 0, 0x3A, 0, 0] (?t1 @ replicate 98 0) (length ?t1) = Some (1, ?t2 @ replicate 97 0, length ?t2)"
    "copy_str (dd mi @ [0]) (?t2 @ replicate 97 0) (length ?t2) = Some (2, ?t3 @ replicate 95 0, length ?t3)"
    "copy_str [0x3A, 0, 0] (?t3 @ replicate 95 0) (length ?t3) = Some (1, ?t4 @ replicate 94 0, length ?t4)"
    "copy_str (dd sec @ [0]) (?t4 @ replicate 94 0) (length ?t4) = Some (2, ?t5 @ replicate 92 0, length ?t5)"
    using copy_str_eq [OF nz(3), of "replicate 100 0" "[]" "[]"]
      copy_str_eq [of "[0x3A]" "replicate 98 0" "[0x3A, 0, 0]" ?t1]
      copy_str_eq [OF nz(2), of "replicate 97 0" "[]" ?t2]
      copy_str_eq [of "[0x3A]" "replicate 95 0" "[0]" ?t3]
      copy_str_eq [OF nz(1), of "replicate 94 0" "[]" ?t4]
    by (simp_all add: l)
  let ?s = "sti c"
  have f: "finish_line env (?t5 @ replicate 92 0) (length ?t5) ?s = Some (env (emit (?t5 @ crlf) ?s))"
    by (rule finish_line_eq) simp
  have d: "drop 1 [0, 0x3A, 0, 0x3A, 0, 0] = [0x3A, 0, 0x3A, 0, (0 :: u8)]"
    "drop (1 + 1 + 1) [0, 0x3A, 0, 0x3A, 0, 0] = [0x3A, 0, (0 :: u8)]"
    by simp_all
  have "getTime env s = Some (env (emit (?t5 @ crlf) ?s))"
    unfolding getTime_def Let_def
    by (subst v(1), unfold prod.case, subst v(2), unfold prod.case, subst v(3), unfold prod.case)
      (simp only: two_digits_eq [OF r(1,2)] two_digits_eq [OF r(3,4)] two_digits_eq [OF r(5,6)]
         bind.bind_lunit cp d f prod.case)
  moreover have "con_out ?s = con_out s"
    using v [THEN rtc_read_con] by (simp add: cli_def sti_def)
  moreover have "bytes '':'' = [0x3A]" by (simp add: bytes_def)
  ultimately show ?thesis using env by simp
qed


lemma month_name:
  assumes "1 \<le> m" and "m \<le> 12"
  shows "\<exists>nm d. rd month_info (nat (m - 1)) = Some (nm @ [0], d) \<and> 0 \<notin> set nm \<and> length nm \<le> 9"
proof -
  have all: "\<forall>(nm, d) \<in> set month_info. nm = butlast nm @ [0] \<and> 0 \<notin> set (butlast nm) \<and> length (butlast nm) \<le> 9"
    by (simp add: month_info_def cstr_def bytes_def)
  have "nat (m - 1) < length month_info" using assms by (simp add: month_info_def)
  then have r: "rd month_info (nat (m - 1)) = Some (month_info ! nat (m - 1))" "month_info ! nat (m - 1) \<in> set month_info"
    by simp_all
  obtain nm d where e: "month_info ! nat (m - 1) = (nm, d)" by (cases "month_info ! nat (m - 1)")
  have "nm = butlast nm @ [0]" "0 \<notin> set (butlast nm)" "length (butlast nm) \<le> 9"
    using bspec [OF all r(2)] by (simp_all add: e)
  then show ?thesis using r(1) e by (intro exI [of _ "butlast nm"] exI [of _ d]) simp
qed

lemma getDate_ok:
  assumes env: "bystanders env"
    and v: "rtc_read 0x89 (cli s) = (y, a)" "rtc_read 0x88 a = (m, b)" "rtc_read 0x87 b = (int d, c)"
    and r: "0 \<le> y" "y < 100" "1 \<le> m" "m \<le> 12" "d < 100"
    and nm: "rd month_info (nat (m - 1)) = Some (nm @ [0], l)"
  shows "\<exists>u. getDate env s = Some u \<and>
    con_out u = con_out s @ nm @ bytes '' '' @ decimal d @ bytes '', 20'' @ dd y @ crlf"
proof -
  obtain nm' l' where "rd month_info (nat (m - 1)) = Some (nm' @ [0], l')" "0 \<notin> set nm'" "length nm' \<le> 9"
    using month_name [OF r(3,4)] by blast
  with nm have n0: "0 \<notin> set nm" and nl: "length nm \<le> 9" by auto
  have dl: "length (decimal d) \<le> 2" using decimal_bounded [of d 2] r(5) by simp
  let ?c = "[0x2C, 0x20, 0x32, 0x30] :: u8 list"
  let ?p1 = "drop (length nm) (replicate 100 (0 :: u8))"
  let ?t2 = "nm @ [0x20]" and ?p2 = "drop 1 ?p1"
  let ?t3 = "?t2 @ decimal d" and ?p3 = "drop (length (decimal d)) ?p2"
  let ?t4 = "?t3 @ ?c" and ?p4 = "drop 4 ?p3"
  let ?t5 = "?t4 @ dd y" and ?p5 = "drop 2 ?p4"
  have l: "length (dd y) = 2" by (simp add: dd_def)
  have pl: "length ?p5 = 93 - length nm - length (decimal d)" using nl dl by simp
  have cp: "copy_str (nm @ [0]) (replicate 100 0) 0 = Some (length nm, nm @ ?p1, length nm)"
    "copy_str [0x20, 0, 0x2C, 0x20, 0x32, 0x30, 0, 0] (nm @ ?p1) (length nm) = Some (1, ?t2 @ ?p2, length ?t2)"
    "copy_str (decimal d @ 0 # drop (Suc (length (decimal d))) (replicate 3 0)) (?t2 @ ?p2) (length ?t2)
      = Some (length (decimal d), ?t3 @ ?p3, length ?t3)"
    "copy_str [0x2C, 0x20, 0x32, 0x30, 0, 0] (?t3 @ ?p3) (length ?t3) = Some (4, ?t4 @ ?p4, length ?t4)"
    "copy_str (dd y @ [0]) (?t4 @ ?p4) (length ?t4) = Some (2, ?t5 @ ?p5, length ?t5)"
    using copy_str_eq [OF n0, of "replicate 100 0" "[]" "[]"]
      copy_str_eq [of "[0x20]" ?p1 "[0x2C, 0x20, 0x32, 0x30, 0, 0]" nm]
      copy_str_eq [OF decimal_nonzero [of d], of ?p2 "drop (Suc (length (decimal d))) (replicate 3 0)" ?t2]
      copy_str_eq [of ?c ?p3 "[0]" ?t3]
      copy_str_eq [OF dd_nonzero [OF r(1,2)], of ?p4 "[]" ?t4] nl dl
    by (simp_all add: l)
  let ?s = "sti c"
  have f: "finish_line env (?t5 @ ?p5) (length ?t5) ?s = Some (env (emit (?t5 @ crlf) ?s))"
    by (rule finish_line_eq) (use pl nl dl in simp)
  have reg: "(0x09 AND NOT 0x80) OR 0x80 = (0x89 :: u8)" "(0x08 AND NOT 0x80) OR 0x80 = (0x88 :: u8)"
    "(0x07 AND NOT 0x80) OR 0x80 = (0x87 :: u8)"
    by simp_all
  have ds: "itoa (replicate 3 0) (int d) = Some (decimal d @ 0 # drop (Suc (length (decimal d))) (replicate 3 0))"
    using dl by (intro itoa_nat) simp
  have dr: "drop 1 [0, 0x20, 0, 0x2C, 0x20, 0x32, 0x30, 0, 0] = [0x20, 0, 0x2C, 0x20, 0x32, 0x30, 0, (0 :: u8)]"
    "drop (1 + 1 + 1) [0, 0x20, 0, 0x2C, 0x20, 0x32, 0x30, 0, 0] = [0x2C, 0x20, 0x32, 0x30, 0, (0 :: u8)]"
    by simp_all
  have en: "ensure (1 \<le> m) = Some ()" using r by simp
  have "getDate env s = Some (env (emit (?t5 @ crlf) ?s))"
    unfolding getDate_def Let_def reg
    by (subst v(1), unfold prod.case, subst v(2), unfold prod.case, subst v(3), unfold prod.case)
      (simp only: two_digits_eq [OF r(1,2)] ds nm en bind.bind_lunit cp dr f prod.case)
  moreover have "con_out ?s = con_out s"
    using v [THEN rtc_read_con] by (simp add: cli_def sti_def)
  moreover have "bytes '' '' = [0x20]" "bytes '', 20'' = ?c" by (simp_all add: bytes_def)
  ultimately show ?thesis using env by simp
qed


section \<open>What is set is what is printed\<close>

lemma setTime_trace:
  "setTime h mi sec s = s\<lparr>m_trace := m_trace s @ [Cli, Outb 0x70 0x00, Outb 0x71 (decimalToBCD sec),
     Outb 0x70 0x02, Outb 0x71 (decimalToBCD mi), Outb 0x70 0x04, Outb 0x71 (decimalToBCD h), Sti]\<rparr>"
  by (simp add: setTime_def port_defs)

lemma setDate_trace:
  "setDate d m y s = s\<lparr>m_trace := m_trace s @ [Cli, Outb 0x70 0x89, Outb 0x71 (decimalToBCD y),
     Outb 0x70 0x88, Outb 0x71 (decimalToBCD m), Outb 0x70 0x87, Outb 0x71 (decimalToBCD d), Sti]\<rparr>"
  by (simp add: setDate_def port_defs)

lemma set_then_read:
  assumes "chip_shows cmos 3 s" and "m_env t = m_env s" "m_count t = m_count s"
    and t: "m_trace t = m_trace s @ [Cli, Outb 0x70 q, Outb 0x71 x, Outb 0x70 r, Outb 0x71 y, Outb 0x70 p, Outb 0x71 z, Sti, Cli]"
    and "distinct [q AND 0x7F, r AND 0x7F, p AND 0x7F]"
  shows "\<exists>a b c. rtc_read q t = (BCDtoDecimal x, a) \<and> rtc_read r a = (BCDtoDecimal y, b) \<and>
    rtc_read p b = (BCDtoDecimal z, c)"
proof -
  have "chip_shows cmos 3 t" by (rule chip_shows_cong [OF assms(2,3) t assms(1)])
  from three_reads_shows [OF this, of q x r y p z] show ?thesis
    using assms(5) by (force simp: t cmos_def chip_step_def)
qed

text \<open>The concrete console of the instances: nothing typed, nothing written.\<close>

definition demo_con :: "(int \<times> u8 list) list \<Rightarrow> (nat \<Rightarrow> io_event list \<Rightarrow> u16 \<Rightarrow> u8) \<Rightarrow> con" where
  "demo_con inp f = (boot_procs (con_ext inp [] (replicate 128 0) 0 ()))\<lparr>m_env := f, m_count := 0, m_trace := []\<rparr>"

lemma demo_con_simps [simp]:
  "m_env (demo_con inp f) = f" "m_count (demo_con inp f) = 0" "m_trace (demo_con inp f) = []"
  "con_in (demo_con inp f) = inp" "con_out (demo_con inp f) = []"
  "user_input (demo_con inp f) = replicate 128 0" "user_input_len (demo_con inp f) = 0"
  by (simp_all add: demo_con_def boot_procs_def heap_on_eq boot_heap_def)

text \<open>A chip with a stopped clock.\<close>

definition demo_chip :: "nat \<Rightarrow> io_event list \<Rightarrow> u16 \<Rightarrow> u8" where
  "demo_chip n h p =
     (case selected h of None \<Rightarrow> 0 | Some r \<Rightarrow> (case cmos h r of None \<Rightarrow> 0 | Some v \<Rightarrow> v))"

lemma demo_chip_shows: "chip_shows cmos n (demo_con inp demo_chip)"
  by (auto simp: chip_shows_def demo_chip_def)

text \<open>
  C37: Setting the clock sends the three values in BCD to their registers, with interrupts off,
  and printing the time afterwards writes them as HH:MM:SS. The chip is any device that answers a
  read of port \<open>0x71\<close> with what the kernel has last stored in the register it has selected through
  port \<open>0x70\<close>: a clock that does not tick between the two commands.
\<close>

theorem time_roundtrip:
  assumes "0 \<le> h" "h < 24" "0 \<le> mi" "mi < 60" "0 \<le> sec" "sec < 60"
    and "bystanders env" and "chip_shows cmos 3 s"
  shows "m_trace (setTime h mi sec s) = m_trace s @ [Cli, Outb 0x70 0x00, Outb 0x71 (bcd sec),
      Outb 0x70 0x02, Outb 0x71 (bcd mi), Outb 0x70 0x04, Outb 0x71 (bcd h), Sti] \<and>
    (\<exists>u. getTime env (setTime h mi sec s) = Some u \<and>
      con_out u = con_out s @ dd h @ bytes '':'' @ dd mi @ bytes '':'' @ dd sec @ crlf)"
proof -
  let ?t = "setTime h mi sec s"
  have b: "decimalToBCD h = bcd h" "decimalToBCD mi = bcd mi" "decimalToBCD sec = bcd sec"
    "BCDtoDecimal (bcd h) = h" "BCDtoDecimal (bcd mi) = mi" "BCDtoDecimal (bcd sec) = sec"
    using assms(1-6) by (simp_all add: decimalToBCD_eq BCDtoDecimal_bcd)
  obtain a c d where "rtc_read 0x00 (cli ?t) = (sec, a)" "rtc_read 0x02 a = (mi, c)" "rtc_read 0x04 c = (h, d)"
    using set_then_read [OF assms(8), of "cli ?t" 0 "bcd sec" 2 "bcd mi" 4 "bcd h"]
    by (auto simp: setTime_trace b cli_def)
  from getTime_ok [OF assms(7) this] assms(1-6) show ?thesis by (auto simp: setTime_trace b)
qed

theorem time_roundtrip_witness:
  "\<exists>u. getTime id (setTime 12 30 59 (demo_con [] demo_chip)) = Some u \<and> con_out u = bytes ''12:30:59'' @ crlf"
  using time_roundtrip [OF _ _ _ _ _ _ bystanders_id(1) demo_chip_shows, of 12 30 59 "[]"]
  by (auto simp: dd_def bytes_def)

text \<open>
  The same for the date: the name of the month, the day without a leading zero, and the
  year of the century behind 20.
\<close>

theorem date_roundtrip:
  assumes "1 \<le> d" "d \<le> 31" "1 \<le> m" "m \<le> 12" "0 \<le> y" "y < 100"
    and "bystanders env" and "chip_shows cmos 3 s"
  shows "\<exists>nm l u. month_info ! nat (m - 1) = (nm @ [0], l) \<and>
    getDate env (setDate (int d) m y s) = Some u \<and>
    con_out u = con_out s @ nm @ bytes '' '' @ decimal d @ bytes '', 20'' @ dd y @ crlf"
proof -
  let ?t = "setDate (int d) m y s"
  have b: "decimalToBCD y = bcd y" "decimalToBCD m = bcd m" "decimalToBCD (int d) = bcd (int d)"
    "BCDtoDecimal (bcd y) = y" "BCDtoDecimal (bcd m) = m" "BCDtoDecimal (bcd (int d)) = int d"
    using assms(1-6) by (simp_all add: decimalToBCD_eq BCDtoDecimal_bcd)
  obtain a c e where v: "rtc_read 0x89 (cli ?t) = (y, a)" "rtc_read 0x88 a = (m, c)" "rtc_read 0x87 c = (int d, e)"
    using set_then_read [OF assms(8), of "cli ?t" "0x89" "bcd y" "0x88" "bcd m" "0x87" "bcd (int d)"]
    by (auto simp: setDate_trace b cli_def)
  obtain nm l where nm: "rd month_info (nat (m - 1)) = Some (nm @ [0], l)"
    using month_name [OF assms(3,4)] by blast
  have "d < 100" using assms(2) by simp
  from getDate_ok [OF assms(7) v assms(5,6,3,4) this nm]
  obtain u where "getDate env ?t = Some u"
    "con_out u = con_out ?t @ nm @ bytes '' '' @ decimal d @ bytes '', 20'' @ dd y @ crlf"
    by blast
  moreover have "month_info ! nat (m - 1) = (nm @ [0], l)" using nm by (simp add: rd_Some_iff)
  ultimately show ?thesis by (auto simp: setDate_trace)
qed

theorem date_roundtrip_witness:
  "\<exists>u. getDate id (setDate 5 3 24 (demo_con [] demo_chip)) = Some u \<and> con_out u = bytes ''March 5, 2024'' @ crlf"
  using date_roundtrip [OF _ _ _ _ _ _ bystanders_id(1) demo_chip_shows, of 5 3 24 "[]"]
  by (auto simp: month_info_def cstr_def dd_def bytes_def decimal.simps)

section \<open>The alarm\<close>

text \<open>
  One look at the clock at the time of day \<open>T\<close>, in terms of the ports: seconds, minutes and hours
  from their registers. Then the state after \<open>k\<close> looks, at the times \<open>T 0\<close>, \<open>T 1\<close>, ..., with
  the other processes running after each.
\<close>

definition looked :: "int \<Rightarrow> 'a machine_scheme \<Rightarrow> 'a machine_scheme" where
  "looked T s = s\<lparr>m_count := m_count s + 3,
     m_trace := m_trace s @ three_reads 0 (bcd (T mod 60)) 2 (bcd (T div 60 mod 60)) 4 (bcd (T div 3600))\<rparr>"

fun waited :: "'a others \<Rightarrow> (nat \<Rightarrow> int) \<Rightarrow> nat \<Rightarrow> 'a con_scheme \<Rightarrow> 'a con_scheme" where
  "waited env T 0 s = s"
| "waited env T (Suc k) s = env (looked (T k) (waited env T k s))"

definition time_of_day :: "int \<Rightarrow> bool" where
  "time_of_day T \<longleftrightarrow> 0 \<le> T \<and> T < 86400"

lemma poll_clock_shows:
  assumes "chip_shows (clock T) 3 s" and "time_of_day T"
  shows "poll_clock s = (T, looked T s)"
proof -
  have T: "0 \<le> T" "T < 86400" using assms(2) by (simp_all add: time_of_day_def)
  have r: "BCDtoDecimal (bcd (T mod 60)) = T mod 60" "BCDtoDecimal (bcd (T div 60 mod 60)) = T div 60 mod 60"
    "BCDtoDecimal (bcd (T div 3600)) = T div 3600"
    using T by (simp_all add: BCDtoDecimal_bcd)
  have h: "T div 3600 = T div 60 div 60" using zdiv_zmult2_eq [of 60 T 60] by simp
  have sum: "(T div 3600 * 60 + T div 60 mod 60) * 60 + T mod 60 = T"
    unfolding h using div_mult_mod_eq [of "T div 60" 60] div_mult_mod_eq [of T 60] by simp
  obtain a b where "rtc_read 0 s = (T mod 60, a)" "rtc_read 2 a = (T div 60 mod 60, b)"
    "rtc_read 4 b = (T div 3600, looked T s)"
    using three_reads_shows [OF assms(1), of 0 "bcd (T mod 60)" 2 "bcd (T div 60 mod 60)" 4 "bcd (T div 3600)"]
    by (auto simp: clock_def r looked_def)
  then show ?thesis using sum by (simp add: poll_clock_def)
qed

lemma waited_Suc: "waited env T (Suc k) s = waited env (\<lambda>j. T (Suc j)) k (env (looked (T 0) s))"
  by (induction k) simp_all

lemma alarm_wait_eq:
  "\<forall>j \<le> k. time_of_day (T j) \<and> chip_shows (clock (T j)) 3 (waited env T j s) \<Longrightarrow>
   \<forall>j < k. T j < target \<Longrightarrow> target \<le> T k \<Longrightarrow>
   alarm_wait env target s = Some (looked (T k) (waited env T k s))"
proof (induction k arbitrary: s T)
  case 0
  then have "poll_clock s = (T 0, looked (T 0) s)" by (intro poll_clock_shows) simp_all
  with 0 show ?case by (subst alarm_wait.simps) simp
next
  case (Suc k)
  have p: "poll_clock s = (T 0, looked (T 0) s)"
    using Suc.prems(1) by (intro poll_clock_shows) (auto dest: spec [of _ 0])
  have "alarm_wait env target (env (looked (T 0) s))
      = Some (looked (T (Suc k)) (waited env (\<lambda>j. T (Suc j)) k (env (looked (T 0) s))))"
  proof (rule Suc.IH)
    show "\<forall>j \<le> k. time_of_day (T (Suc j)) \<and>
        chip_shows (clock (T (Suc j))) 3 (waited env (\<lambda>j. T (Suc j)) j (env (looked (T 0) s)))"
      unfolding waited_Suc [symmetric] using Suc.prems(1) by (simp del: waited.simps)
  qed (use Suc.prems(2,3) in auto)
  then show ?case
    using Suc.prems(2) by (subst alarm_wait.simps) (simp add: p idle_def waited_Suc del: waited.simps)
qed

definition holds_text :: "addr \<Rightarrow> u8 list \<Rightarrow> (addr \<Rightarrow> u8) \<Rightarrow> bool" where
  "holds_text p ts m \<longleftrightarrow> 0 \<notin> set ts \<and> m (p + of_nat (length ts)) = 0 \<and>
     (\<forall>i < length ts. m (p + of_nat i) = ts ! i)"

lemma ram_strlen_eq: "holds_text p ts m \<Longrightarrow> ram_strlen m p n = Some (n + length ts)"
proof (induction ts arbitrary: p n)
  case Nil
  then show ?case by (subst ram_strlen.simps) (simp add: holds_text_def)
next
  case (Cons c ts)
  have i: "m (p + of_nat i) = (c # ts) ! i" if "i < Suc (length ts)" for i
    using Cons.prems that by (simp add: holds_text_def)
  have "holds_text (p + 1) ts m"
    unfolding holds_text_def
  proof (intro conjI allI impI)
    show "0 \<notin> set ts" "m (p + 1 + of_nat (length ts)) = 0"
      using Cons.prems by (simp_all add: holds_text_def add.assoc)
    show "m (p + 1 + of_nat j) = ts ! j" if "j < length ts" for j
      using i [of "Suc j"] that by (simp add: add.assoc)
  qed
  moreover have "m p \<noteq> 0" using i [of 0] Cons.prems by (auto simp: holds_text_def)
  ultimately show ?case using Cons.IH by (subst ram_strlen.simps) simp
qed

lemma ram_bytes_eq: "holds_text p ts m \<Longrightarrow> ram_bytes m p (length ts) = ts"
  by (auto simp: ram_bytes_def holds_text_def intro!: nth_equalityI)

text \<open>What the alarm needs of the state: its message, in a heap block that can be released.\<close>

definition alarm_ready :: "addr \<Rightarrow> u8 list \<Rightarrow> 'a procs_scheme \<Rightarrow> bool" where
  "alarm_ready msg ts s \<longleftrightarrow> msg \<noteq> NULL \<and> holds_text msg ts (ram s) \<and> heap_ok s \<and>
     msg \<in> live_ptrs s \<and> heap_releasable msg s"

lemma alarm_ready_same: "kernel_same s t \<Longrightarrow> alarm_ready msg ts t = alarm_ready msg ts s"
  by (simp add: alarm_ready_def kernel_same_heap) (simp add: kernel_same_def)

lemma looked_same: "kernel_same s (looked T s)" "con_out (looked T s) = con_out s"
  by (simp_all add: looked_def kernel_same_def)

lemma waited_keeps:
  assumes "bystanders env" and "\<forall>s. alarm_ready msg ts s \<longrightarrow> alarm_ready msg ts (env s)"
  shows "con_out (waited env T k s) = con_out s"
    "alarm_ready msg ts s \<Longrightarrow> alarm_ready msg ts (waited env T k s)"
  using assms
  by (induction k) (simp_all add: alarm_ready_same [OF looked_same(1)] looked_same(2))

text \<open>
  C38: The alarm goes off at its time, not before. Let the alarm look at the clock chip at the
  times of day \<open>T 0\<close>, \<open>T 1\<close>, ..., where the chip, during a look, answers with the register
  selected through port \<open>0x70\<close>: seconds, minutes and hours of that time in BCD. If \<open>T k\<close> is the
  first of these times that is not before the alarm's, the waiting ends with look \<open>k\<close>, having read just
  these registers and having yielded to the other processes after every earlier look; then the
  alarm writes its message in red, releases the block of the message and exits.
\<close>

theorem alarm_fires:
  assumes target: "target = 3600 * a_hours args + 60 * a_minutes args + a_seconds args"
    and chip: "\<forall>j \<le> k. time_of_day (T j) \<and> chip_shows (clock (T j)) 3 (waited env T j s)"
    and early: "\<forall>j < k. T j < target"
    and due: "target \<le> T k"
    and env: "bystanders env" "\<forall>s. alarm_ready (a_msg args) ts s \<longrightarrow> alarm_ready (a_msg args) ts (env s)"
    and ready: "alarm_ready (a_msg args) ts s"
  shows "alarm_wait env target s = Some (looked (T k) (waited env T k s)) \<and>
    (\<exists>u. alarmProcess env args s = Some (Exited, u) \<and>
      con_out u = con_out s @ color_bytes Red @ bytes ''[ALARM]: '' @ ts @ crlf \<and> a_msg args \<notin> live_ptrs u)"
proof -
  note w = waited_keeps [OF env]
  let ?a = "looked (T k) (waited env T k s)"
  have wait: "alarm_wait env target s = Some ?a" by (rule alarm_wait_eq [OF chip early due])
  have arith: "(a_hours args * 60 + a_minutes args) * 60 + a_seconds args = target" using target by simp
  let ?b = "env (emit (bytes ''[ALARM]: '') (env (emit (color_bytes Red) ?a)))"
  have keep: "alarm_ready (a_msg args) ts (env (emit bs t))" if "alarm_ready (a_msg args) ts t" for bs t
  proof -
    have "kernel_same t (emit bs t)" by simp
    then have "alarm_ready (a_msg args) ts (emit bs t)" using that by (simp only: alarm_ready_same)
    with env(2) show ?thesis by blast
  qed
  have "alarm_ready (a_msg args) ts ?a"
    using w(2) [OF ready] by (simp only: alarm_ready_same [OF looked_same(1)])
  then have b: "alarm_ready (a_msg args) ts ?b" by (intro keep)
  let ?c = "env (emit ([] @ crlf) (env (emit ts ?b)))"
  have c: "alarm_ready (a_msg args) ts ?c" by (rule keep [OF keep [OF b]])
  then obtain u where u: "sys_free_mem (a_msg args) ?c = Some (0, u)" "live_ptrs u = live_ptrs ?c - {a_msg args}"
    using heap.mfree_live [of ?c "a_msg args"] by (auto simp: alarm_ready_def)
  have hk: "heap_ok ?c" using c by (simp add: alarm_ready_def)
  have "con_out u = con_out ?c" using touch_con [OF sys_free_touch [OF hk u(1)]] by simp
  moreover have "con_out ?c = con_out s @ color_bytes Red @ bytes ''[ALARM]: '' @ ts @ crlf"
    using env(1) w(1) by (simp add: looked_same(2))
  moreover have "alarmProcess env args s = Some (Exited, u)"
  proof -
    have h: "holds_text (a_msg args) ts (ram ?b)" and nn: "ensure (a_msg args \<noteq> NULL) = Some ()"
      using b by (simp_all add: alarm_ready_def)
    have e: "line '''' = ([] @ crlf) @ [0]" by (simp add: line_def bytes_def)
    show ?thesis
      unfolding alarmProcess_def Let_def arith wait bind.bind_lunit setTerminalColor_eq put_cstr
        nn ram_strlen_eq [OF h] add_0 ram_bytes_eq [OF h] con_write_all e put_eq u(1) prod.case exitret_def ..
  qed
  ultimately show ?thesis using u(2) wait by auto
qed

text \<open>A chip on which the second hand moves after the first look.\<close>

definition demo_time :: "nat \<Rightarrow> int" where
  "demo_time n = (if n < 3 then 0 else 1)"

definition demo_clock :: "nat \<Rightarrow> io_event list \<Rightarrow> u16 \<Rightarrow> u8" where
  "demo_clock n h p =
     (case selected h of None \<Rightarrow> 0 | Some r \<Rightarrow> (case clock (demo_time n) h r of None \<Rightarrow> 0 | Some v \<Rightarrow> v))"

lemma demo_clock_shows:
  "m_env s = demo_clock \<Longrightarrow> \<forall>i < n. demo_time (m_count s + i) = T \<Longrightarrow> chip_shows (clock T) n s"
  by (auto simp: chip_shows_def demo_clock_def)

theorem alarm_fires_witness:
  "\<exists>(s :: con) u. m_env s = demo_clock \<and> m_count s = 0 \<and>
     alarm_wait id 1 s = Some (looked 1 (looked 0 s)) \<and>
     alarmProcess id \<lparr>a_hours = 0, a_minutes = 0, a_seconds = 1, a_msg = 0xD00000C\<rparr> s = Some (Exited, u) \<and>
     con_out u = color_bytes Red @ bytes ''[ALARM]: Tea'' @ crlf"
proof -
  let ?x = "con_ext [] [] (replicate 128 0) 0 ()"
  obtain t where t: "heap_ok t" "heap_rel t [(0xD000000, 4, False), (0xD000010, 49972, True)]"
    "heap_touch (boot_procs ?x) t"
    using alloc_on [OF boot_procs_heap, of 4 ?x] by (auto simp: a_alloc_def alloc_safe_def)
  let ?m = "(\<lambda>p. 0)(0xD00000C := 0x54, 0xD00000D := 0x65, 0xD00000E := 0x61) :: addr \<Rightarrow> u8"
  define s where "s = t\<lparr>m_env := demo_clock, m_count := 0, m_trace := [], ram := ?m\<rparr>"
  have hr: "heap_rel s [(0xD000000, 4, False), (0xD000010, 49972, True)]" "heap_ok s"
    using t(1,2) by (simp_all add: s_def heap_rel_def heap_ok_def)
  have "holds_text 0xD00000C (bytes ''Tea'') ?m"
    by (auto simp: holds_text_def bytes_def nth_Cons' less_Suc_eq)
  moreover have "alarm_ready 0xD00000C (bytes ''Tea'') s" if "holds_text 0xD00000C (bytes ''Tea'') ?m"
  proof -
    have "ram s = ?m" by (simp add: s_def)
    moreover have "free_safe (0xD00000C - 12) [(0xD000000, 4, False), (0xD000010, 49972, True)]"
      by (simp add: free_safe_def)
    then have "heap_releasable 0xD00000C s" using hr(1) unfolding heap_releasable_def by blast
    ultimately show ?thesis
      using that hr(2) by (simp add: alarm_ready_def live_ptrs_rel [OF hr(1)])
  qed
  moreover have "con_out s = []"
    using touch_con [OF t(3)] by (simp add: s_def boot_procs_def heap_on_eq boot_heap_def)
  moreover have m: "m_env s = demo_clock" "m_count s = 0" by (simp_all add: s_def)
  define T where "T j = int j" for j
  have chip: "\<forall>j \<le> 1. time_of_day (T j) \<and> chip_shows (clock (T j)) 3 (waited id T j s)"
  proof (intro allI impI)
    fix j :: nat
    assume "j \<le> 1"
    then have "j = 0 \<or> j = 1" by auto
    then show "time_of_day (T j) \<and> chip_shows (clock (T j)) 3 (waited id T j s)"
      by (auto simp: T_def time_of_day_def demo_time_def looked_def m intro!: demo_clock_shows)
  qed
  moreover have "looked (T 1) (waited id T 1 s) = looked 1 (looked 0 s)" by (simp add: T_def)
  moreover have "\<forall>j < (1 :: nat). T j < 1" "1 \<le> T 1" by (simp_all add: T_def)
  ultimately obtain u where "alarm_wait id 1 s = Some (looked 1 (looked 0 s))"
    "alarmProcess id \<lparr>a_hours = 0, a_minutes = 0, a_seconds = 1, a_msg = 0xD00000C\<rparr> s = Some (Exited, u)"
    "con_out u = color_bytes Red @ bytes ''[ALARM]: '' @ bytes ''Tea'' @ crlf"
    using alarm_fires [of 1 "\<lparr>a_hours = 0, a_minutes = 0, a_seconds = 1, a_msg = 0xD00000C\<rparr>" 1 T id s "bytes ''Tea''"]
    by auto
  with m show ?thesis by (intro exI [of _ s] exI [of _ u]) (simp add: bytes_def)
qed

end
