(* ===== verification/Comhand_Claims.thy ===== *)
theory Comhand_Claims
  imports Comhand Rtc_Claims
begin

text \<open>
  The command handler as its user sees it: which command a line selects, what a dialog does
  with wrong answers, and sessions that end in a change of the clock or of the heap.
\<close>

section \<open>Choosing a command\<close>

text \<open>The reference: the number or the name of a command, as a map from lines to commands.\<close>

definition command_names :: "(string \<times> string \<times> command) list" where
  "command_names =
    [(''1'', ''Help'', HelpCommand), (''2'', ''Set Time'', SetTimeCommand), (''3'', ''Get Time'', GetTimeCommand),
     (''4'', ''Set Date'', SetDateCommand), (''5'', ''Get Date'', GetDateCommand),
     (''6'', ''Set PCB Priority'', SetPcbPriorityCommand), (''7'', ''Show PCB'', ShowPcbCommand),
     (''8'', ''Show Ready PCBs'', ShowPcbReadyCommand), (''9'', ''Show Blocked PCBs'', ShowPcbBlockedCommand),
     (''10'', ''Show All PCBs'', ShowPcbAllCommand), (''11'', ''Delete PCB'', DeletePcbCommand),
     (''12'', ''Suspend PCB'', SuspendPcbCommand), (''13'', ''Resume PCB'', ResumePcbCommand),
     (''14'', ''Version'', VersionCommand), (''15'', ''Shut Down'', ShutdownCommand), (''16'', ''LoadR3'', LoadR3),
     (''17'', ''Alarm'', AlarmCommand), (''18'', ''Allocate Memory'', AllocateMemoryCommand),
     (''19'', ''Free Memory'', FreeMemoryCommand), (''20'', ''Show Free Memory'', ShowFreeMemoryCommand),
     (''21'', ''Show Allocated Memory'', ShowAllocatedMemoryCommand)]"

definition command_of :: "u8 list \<Rightarrow> command option" where
  "command_of l = map_of (map (\<lambda>(k, n, c). (bytes k, c)) command_names @ map (\<lambda>(k, n, c). (bytes n, c)) command_names) l"

lemma strcmp_line:
  assumes "0 \<notin> set l" and "0 \<notin> set k"
  shows "map_option (\<lambda>c. c = 0) (strcmp (l @ 0 # r) (k @ [0])) = Some (l = k)"
proof -
  have "0 \<in> set (l @ 0 # r)" "0 \<in> set (k @ [0])" by simp_all
  then obtain d where "strcmp (l @ 0 # r) (k @ [0]) = Some d" "d = 0 \<longleftrightarrow> cchars (l @ 0 # r) = cchars (k @ [0])"
    using strcmp_spec by blast
  with assms show ?thesis by (simp add: cchars_prefix)
qed

lemma find_entry_eq:
  assumes "0 \<notin> set l" and "\<forall>e \<in> set es. \<exists>k n. key e = k @ [0] \<and> key_alt e = n @ [0] \<and> 0 \<notin> set k \<and> 0 \<notin> set n"
  shows "find_entry (l @ 0 # r) es = Some (find (\<lambda>e. key e = l @ [0] \<or> key_alt e = l @ [0]) es)"
  using assms(2)
proof (induction es)
  case (Cons e es)
  then obtain k n where e: "key e = k @ [0]" "key_alt e = n @ [0]" "0 \<notin> set k" "0 \<notin> set n" by auto
  from strcmp_line [OF assms(1) e(3), of r] strcmp_line [OF assms(1) e(4), of r] obtain c d where
    "strcmp (l @ 0 # r) (k @ [0]) = Some c" "c = 0 \<longleftrightarrow> l = k"
    "strcmp (l @ 0 # r) (n @ [0]) = Some d" "d = 0 \<longleftrightarrow> l = n" by auto
  with Cons e show ?case by auto
qed simp

lemma entries_terminated:
  "\<forall>e \<in> set cmd_entries. \<exists>k n. key e = k @ [0] \<and> key_alt e = n @ [0] \<and> 0 \<notin> set k \<and> 0 \<notin> set n"
  by (simp add: cmd_entries_def cstr_def bytes_def)

lemma find_map_either:
  "map_option f (find (\<lambda>e. Q (f e)) xs) = find Q (map f xs)"
  by (induction xs) auto

lemma find_either:
  "distinct (map fst xs @ map (fst \<circ> snd) xs) \<Longrightarrow>
   map_option (snd \<circ> snd) (find (\<lambda>(k, n, c). k = l \<or> n = l) xs)
     = map_of (map (\<lambda>(k, n, c). (k, c)) xs @ map (\<lambda>(k, n, c). (n, c)) xs) l"
proof (induction xs)
  case (Cons x xs)
  obtain k n c where x: "x = (k, n, c)" by (cases x)
  have fst: "fst ` set (map (\<lambda>(k, n, c). (k, c)) xs) = fst ` set xs" by force
  show ?case
  proof (cases "l = n \<and> l \<noteq> k")
    case True
    then have "l \<notin> fst ` set xs" using Cons.prems by (auto simp: x)
    then have "map_of (map (\<lambda>(k, n, c). (k, c)) xs) l = None" by (simp only: map_of_eq_None_iff fst) simp
    with True show ?thesis by (simp add: x map_add_def)
  next
    case False
    have "map_of (map (\<lambda>(k, n, c). (k, c)) xs @ (n, c) # map (\<lambda>(k, n, c). (n, c)) xs) l
        = map_of (map (\<lambda>(k, n, c). (k, c)) xs @ map (\<lambda>(k, n, c). (n, c)) xs) l" if "l \<noteq> n"
      using that by (simp add: map_add_def split: option.splits)
    with False Cons show ?thesis by (auto simp: x map_add_def split: option.splits)
  qed
qed simp

lemma entries_names:
  "map (\<lambda>e. (key e, key_alt e, command_func e)) cmd_entries
     = map (\<lambda>(k, n, c). (k @ [0], n @ [0], c)) (map (\<lambda>(k, n, c). (bytes k, bytes n, c)) command_names)"
  by (simp add: cmd_entries_def command_names_def cstr_def)

lemma keys_distinct:
  "distinct (map (\<lambda>(k, n, c). bytes k) command_names @ map (\<lambda>(k, n, c). bytes n) command_names)"
  by (simp add: command_names_def bytes_def)

lemma entry_command:
  "map_option command_func (find (\<lambda>e. key e = l @ [0] \<or> key_alt e = l @ [0]) cmd_entries) = command_of l"
proof -
  let ?f = "\<lambda>e. (key e, key_alt e, command_func e)" and ?names = "map (\<lambda>(k, n, c). (bytes k, bytes n, c)) command_names"
  have "map_option ?f (find (\<lambda>e. key e = l @ [0] \<or> key_alt e = l @ [0]) cmd_entries)
      = find (\<lambda>(k, n, c). k = l @ [0] \<or> n = l @ [0]) (map ?f cmd_entries)"
    using find_map_either [of ?f "\<lambda>(k, n, c). k = l @ [0] \<or> n = l @ [0]" cmd_entries] by simp
  also have "\<dots> = map_option (\<lambda>(k, n, c). (k @ [0], n @ [0], c)) (find (\<lambda>(k, n, c). k = l \<or> n = l) ?names)"
    unfolding entries_names
    using find_map_either [of "\<lambda>(k, n, c). (k @ [0], n @ [0], c)" "\<lambda>(k, n, c). k = l @ [0] \<or> n = l @ [0]" ?names]
    by (simp add: case_prod_unfold)
  finally have "map_option (snd \<circ> snd) (map_option ?f (find (\<lambda>e. key e = l @ [0] \<or> key_alt e = l @ [0]) cmd_entries))
      = map_option (snd \<circ> snd) (find (\<lambda>(k, n, c). k = l \<or> n = l) ?names)"
    by (simp add: option.map_comp comp_def case_prod_unfold)
  moreover have "distinct (map fst ?names @ map (fst \<circ> snd) ?names)"
    using keys_distinct by (simp add: comp_def case_prod_unfold)
  from find_either [OF this, of l]
  have "map_option (snd \<circ> snd) (find (\<lambda>(k, n, c). k = l \<or> n = l) ?names) = command_of l"
    by (simp add: command_of_def comp_def case_prod_unfold)
  ultimately show ?thesis by (simp add: option.map_comp comp_def)
qed

definition menu_text :: "u8 list" where
  "menu_text = butlast menu_options"

lemma menu_options_eq: "menu_options = menu_text @ [0]"
  by (simp add: menu_text_def menu_options_def line_def butlast_append)

definition leaves :: "command \<Rightarrow> outcome \<Rightarrow> outcome option" where
  "leaves c r = (if r = Exited then Some Exited
     else if c = ShutdownCommand \<and> r = Returned 0 then Some (Returned 0) else None)"

lemma turn_step:
  assumes env: "bystanders env" and s: "at_prompt s" "con_in s = answered l # rest" and l: "typed l"
  shows "\<exists>t. at_prompt t \<and> con_in t = rest \<and> (quiescent env \<longrightarrow> kernel_same s t) \<and>
    con_out t = con_out s @ color_bytes Purple @ menu_text @ color_bytes White @ crlf \<and>
    comhand_turn img env s = (case command_of l of
        Some c \<Rightarrow> Option.bind (run_command img c env t) (\<lambda>(r, u). Some (leaves c r, u))
      | None \<Rightarrow> Some (None, env (emit (bytes ''Please select a valid option.'' @ crlf) (env (emit (color_bytes Red) t)))))"
proof -
  let ?s = "env (emit (color_bytes White) (env (emit menu_text (env (emit (color_bytes Purple) (env s))))))"
  have p: "at_prompt ?s" "con_in ?s = answered l # rest" using env s by (simp_all add: at_prompt_def)
  obtain u where u: "user_input_promptread env ?s = Some u" "con_in u = rest" "con_out u = con_out ?s @ crlf"
    "user_input_len u = int (length l)" "user_input u = l @ 0 # replicate (USER_INPUT_SZ - 1 - length l) 0"
    using typed_buffer [OF p(1) l p(2) env] by blast
  have len: "length l < USER_INPUT_SZ" and nz: "0 \<notin> set l" using l by (simp_all add: typed_def)
  obtain t where t: "user_input_clear u = Some t" "at_prompt t" "con_in t = con_in u" "con_out t = con_out u"
    "t = u\<lparr>user_input := user_input t\<rparr>"
    using clear_typed [OF u(5) len u(4)] by blast
  let ?e = "find (\<lambda>e. key e = l @ [0] \<or> key_alt e = l @ [0]) cmd_entries"
  have e: "find_entry (user_input u) cmd_entries = Some ?e"
    unfolding u(5) by (rule find_entry_eq [OF nz entries_terminated])
  have run: "comhand_turn img env s = (case command_of l of
        Some c \<Rightarrow> Option.bind (run_command img c env t) (\<lambda>(r, u). Some (leaves c r, u))
      | None \<Rightarrow> Some (None, env (emit (bytes ''Please select a valid option.'' @ crlf) (env (emit (color_bytes Red) t)))))"
    unfolding comhand_turn_def idle_def Let_def menu_options_eq setTerminalColor_eq put_eq bind.bind_lunit u(1) e t(1)
      entry_command [symmetric]
    by (cases ?e) (auto simp: leaves_def intro!: arg_cong2 [where f = Option.bind])
  have "kernel_same s t" if q: "quiescent env"
  proof -
    have "kernel_same ?s u"
      using u(1) q
      by (auto simp: user_input_promptread_def con_read_def bind_eq_Some_conv Let_def quiescent_same split: list.splits)
    moreover have "kernel_same u t" by (subst t(5)) simp
    moreover have "kernel_same s ?s" using q by (simp add: quiescent_same)
    ultimately show ?thesis by (blast intro: kernel_same_trans)
  qed
  moreover have "con_out t = con_out s @ color_bytes Purple @ menu_text @ color_bytes White @ crlf"
    using u(3) t(4) env by simp
  ultimately show ?thesis using t(2,3) u(2) run by auto
qed

section \<open>Sessions\<close>

lemma ask_line:
  assumes "bystanders env" and "at_prompt s" and "con_in s = map answered (bad @ [good]) @ rest"
    and "\<forall>l \<in> set bad. typed l \<and> \<not> accepted P l" and "typed good" and "accepted P good"
  shows "\<exists>t. ask env (line m) (line e) P s = Some (value_of good, t) \<and> at_prompt t \<and> con_in t = rest \<and>
    con_out t = con_out s @ dialog (bytes m @ crlf) (bytes e @ crlf) bad \<and> (quiescent env \<longrightarrow> kernel_same s t)"
  using ask_ok [OF assms(1,5,6,2-4), of "bytes m @ crlf" "bytes e @ crlf"] by (simp add: line_def)

text \<open>What the three questions of the clock accept.\<close>

definition below :: "int \<Rightarrow> int \<Rightarrow> bool" where
  "below k n \<longleftrightarrow> n < k \<and> n \<ge> 0"

abbreviation clock_dialog :: "string \<Rightarrow> u8 list list \<Rightarrow> u8 list list \<Rightarrow> u8 list list \<Rightarrow> u8 list" where
  "clock_dialog e bh bm bs \<equiv>
     dialog (bytes ''Enter the hour (0-23):'' @ crlf) (bytes e @ crlf) bh @
     dialog (bytes ''Enter the minute (0-59):'' @ crlf) (bytes e @ crlf) bm @
     dialog (bytes ''Enter the second (0-59):'' @ crlf) (bytes e @ crlf) bs"

lemma clock_questions:
  assumes env: "bystanders env" and s: "at_prompt s"
    and inp: "con_in s = map answered (bh @ [h]) @ map answered (bm @ [m]) @ map answered (bs @ [sc]) @ rest"
    and bad: "\<forall>l \<in> set bh. typed l \<and> \<not> accepted (below 24) l"
      "\<forall>l \<in> set bm. typed l \<and> \<not> accepted (below 60) l" "\<forall>l \<in> set bs. typed l \<and> \<not> accepted (below 60) l"
    and good: "typed h" "accepted (below 24) h" "typed m" "accepted (below 60) m" "typed sc" "accepted (below 60) sc"
  shows "\<exists>a b c. ask env hour_msg (line e) (below 24) s = Some (value_of h, a) \<and>
    ask env minute_msg (line e) (below 60) a = Some (value_of m, b) \<and>
    ask env second_msg (line e) (below 60) b = Some (value_of sc, c) \<and> at_prompt c \<and> con_in c = rest \<and>
    con_out c = con_out s @ clock_dialog e bh bm bs \<and> (quiescent env \<longrightarrow> kernel_same s c)"
proof -
  obtain a where a: "ask env hour_msg (line e) (below 24) s = Some (value_of h, a)" "at_prompt a"
    "con_in a = map answered (bm @ [m]) @ map answered (bs @ [sc]) @ rest"
    "con_out a = con_out s @ dialog (bytes ''Enter the hour (0-23):'' @ crlf) (bytes e @ crlf) bh"
    "quiescent env \<longrightarrow> kernel_same s a"
    using ask_line [OF env s inp bad(1) good(1,2), of "''Enter the hour (0-23):''" e] unfolding hour_msg_def by blast
  obtain b where b: "ask env minute_msg (line e) (below 60) a = Some (value_of m, b)" "at_prompt b"
    "con_in b = map answered (bs @ [sc]) @ rest"
    "con_out b = con_out a @ dialog (bytes ''Enter the minute (0-59):'' @ crlf) (bytes e @ crlf) bm"
    "quiescent env \<longrightarrow> kernel_same a b"
    using ask_line [OF env a(2,3) bad(2) good(3,4), of "''Enter the minute (0-59):''" e] unfolding minute_msg_def by blast
  obtain c where c: "ask env second_msg (line e) (below 60) b = Some (value_of sc, c)" "at_prompt c" "con_in c = rest"
    "con_out c = con_out b @ dialog (bytes ''Enter the second (0-59):'' @ crlf) (bytes e @ crlf) bs"
    "quiescent env \<longrightarrow> kernel_same b c"
    using ask_line [OF env b(2,3) bad(3) good(5,6), of "''Enter the second (0-59):''" e] unfolding second_msg_def by blast
  have "quiescent env \<longrightarrow> kernel_same s c"
    using a(5) b(5) c(5) kernel_same_trans [of s a b] kernel_same_trans [of s b c] by blast
  with a b c show ?thesis by (intro exI [of _ a] exI [of _ b] exI [of _ c]) simp
qed

lemma below_eq: "(\<lambda>n. n < k \<and> n \<ge> 0) = below k"
  by (simp add: below_def fun_eq_iff)

lemma set_time_session_lemma:
  assumes "bystanders env" and "at_prompt s"
    and "con_in s = map answered (bh @ [h]) @ map answered (bm @ [m]) @ map answered (bs @ [sc]) @ rest"
    and "\<forall>l \<in> set bh. typed l \<and> \<not> accepted (below 24) l"
      "\<forall>l \<in> set bm. typed l \<and> \<not> accepted (below 60) l" "\<forall>l \<in> set bs. typed l \<and> \<not> accepted (below 60) l"
    and "typed h" "accepted (below 24) h" "typed m" "accepted (below 60) m" "typed sc" "accepted (below 60) sc"
  shows "\<exists>t. setTimeCommand env s = Some (Returned 0, setTime (value_of h) (value_of m) (value_of sc) t) \<and>
    at_prompt t \<and> con_in t = rest \<and>
    con_out t = con_out s @ clock_dialog ''Could not parse, please re-enter time:'' bh bm bs"
proof -
  obtain a b c where q: "ask env hour_msg reenter_time (below 24) s = Some (value_of h, a)"
    "ask env minute_msg reenter_time (below 60) a = Some (value_of m, b)"
    "ask env second_msg reenter_time (below 60) b = Some (value_of sc, c)" "at_prompt c" "con_in c = rest"
    "con_out c = con_out s @ clock_dialog ''Could not parse, please re-enter time:'' bh bm bs"
    using clock_questions [OF assms, of "''Could not parse, please re-enter time:''"] unfolding reenter_time_def by blast
  have "setTimeCommand env s = Some (Returned 0, setTime (value_of h) (value_of m) (value_of sc) c)"
    unfolding setTimeCommand_def below_eq q(1-3) bind.bind_lunit prod.case ..
  with q(4-6) show ?thesis by blast
qed

lemma stack_free:
  assumes rel: "heap_rel s bs" and st: "stack_like bs" and room: "unat n + 12 < room_left bs"
    and t: "heap_rel t (snd (a_alloc n bs))"
  shows "\<exists>u. free_memory (fst (a_alloc n bs)) t = Some (0, u) \<and> heap_rel u bs"
proof -
  from st obtain P a k where bs: "bs = P @ [(a, k, True)]" and fP: "frees P = []" by (rule stack_likeE)
  have room': "unat n + 12 < unat k" using room by (simp add: bs room_left_def)
  then have "n \<le> k" by (simp add: word_le_nat_alt)
  then have fit: "fit_at n bs = Some (P, a, k, [])" by (simp add: bs fit_at_no_free fP)
  let ?bs = "P @ [(a, n, False), (a + 12 + n, k - (n + 12), True)]"
  have res: "a_alloc n bs = (a + 12, ?bs)" using room' by (simp add: a_alloc_def fit)
  have t': "heap_rel t ?bs" using t by (simp add: res)
  obtain lo hi where tl: "tiles lo ?bs hi" using t' by (rule heap_rel_tiles)
  have "a \<notin> set (allocs P)" using tiles_distinct_allocs [OF tl] by simp
  then have blk: "block_at a ?bs = Some (P, n, [(a + 12 + n, k - (n + 12), True)])" by (rule block_at_stack)
  have "free_safe a ?bs" by (simp add: free_safe_def blk fP)
  moreover have "a \<in> set (allocs ?bs)" by simp
  ultimately obtain u where u: "free_memory (a + 12) t = Some (0, u)" "heap_rel u (a_free a ?bs)"
    using free_rel [OF t'] by blast
  have "\<not> ends_free P" using fP by (cases P rule: rev_cases) (auto simp: ends_free_def)
  then have "a_free a ?bs = bs" by (simp add: a_free_def blk bs)
  with u show ?thesis by (simp add: res)
qed

lemma kernel_rel: "kernel_same s t \<Longrightarrow> heap_rel s bs \<Longrightarrow> heap_rel t bs"
  by (simp add: kernel_same_heap)

definition address_line :: "addr \<Rightarrow> u8 list" where
  "address_line p = 0x30 # 0x78 # hexa (unat p)"

lemma memory_session_lemma:
  assumes env: "quiescent env" and s: "at_prompt s"
    and heap: "heap_rel s bs" "stack_like bs" "unat (digits_value l 0) + 12 < room_left bs"
    and l: "typed l" "length l < 100" "\<forall>c \<in> set l. digit c" and p: "p = fst (a_alloc (digits_value l 0) bs)"
    and inp: "con_in s = answered l # answered (address_line p) # rest"
  shows "\<exists>t u. allocateMemoryCommand env s = Some (Returned 0, t) \<and> heap_rel t (snd (a_alloc (digits_value l 0) bs)) \<and>
    con_out t = con_out s @ asked (bytes ''Enter the size of the allocation:'' @ crlf) @
      bytes ''The address of the allocated memory is: '' @ address_line p @ crlf \<and>
    freeMemoryCommand env t = Some (Returned 0, u) \<and> heap_rel u bs \<and> at_prompt u \<and> con_in u = rest \<and>
    con_out u = con_out t @ asked (bytes ''Enter the hexadecimal address of the memory block to free:'' @ crlf) @
      bytes ''Memory was freed.'' @ crlf"
proof -
  let ?n = "digits_value l 0"
  let ?bs = "snd (a_alloc ?n bs)"
  note a = a_alloc_stack [OF heap(2,3)]
  have al: "\<exists>u. allocate_memory ?n t = Some (p, u) \<and> heap_rel u ?bs" if "kernel_same s t" for t
    using allocate_rel [OF kernel_rel [OF that heap(1)] a(5,4)] p by auto
  have pn: "p \<noteq> NULL"
  proof -
    obtain q t u where "allocate_memory ?n s = Some (q, t)" "q \<noteq> NULL"
      using lifo_rel [OF heap(1,2), of ?n] heap(3) by (auto simp: room_left_def)
    with al [of s] show ?thesis by auto
  qed
  have "\<exists>t. allocateMemoryCommand env s = Some (Returned 0, t) \<and> heap_rel t ?bs \<and> at_prompt t \<and>
    con_in t = answered (address_line p) # rest \<and>
    con_out t = con_out s @ asked (bytes ''Enter the size of the allocation:'' @ crlf) @
      bytes ''The address of the allocated memory is: '' @ 0x30 # 0x78 # hexa (unat p) @ crlf"
    by (rule allocate_command [OF env s inp l al pn kernel_rel])
  then obtain t where t: "allocateMemoryCommand env s = Some (Returned 0, t)" "heap_rel t ?bs" "at_prompt t"
    "con_in t = answered (address_line p) # rest"
    "con_out t = con_out s @ asked (bytes ''Enter the size of the allocation:'' @ crlf) @
      bytes ''The address of the allocated memory is: '' @ 0x30 # 0x78 # hexa (unat p) @ crlf"
    by blast
  have fr: "\<exists>u. free_memory p v = Some (0, u) \<and> heap_rel u bs" if "kernel_same t v" for v
    using stack_free [OF heap kernel_rel [OF that t(2)]] p by simp
  have "\<exists>u. freeMemoryCommand env t = Some (Returned 0, u) \<and> heap_rel u bs \<and> at_prompt u \<and> con_in u = rest \<and>
    con_out u = con_out t @ asked (bytes ''Enter the hexadecimal address of the memory block to free:'' @ crlf) @
      bytes ''Memory was freed.'' @ crlf"
    by (rule free_command [OF env t(3) t(4) [unfolded address_line_def] fr kernel_rel])
  then obtain u where u: "freeMemoryCommand env t = Some (Returned 0, u)" "heap_rel u bs" "at_prompt u" "con_in u = rest"
    "con_out u = con_out t @ asked (bytes ''Enter the hexadecimal address of the memory block to free:'' @ crlf) @
      bytes ''Memory was freed.'' @ crlf"
    by blast
  have "con_out t = con_out s @ asked (bytes ''Enter the size of the allocation:'' @ crlf) @
      bytes ''The address of the allocated memory is: '' @ address_line p @ crlf"
    using t(5) by (simp add: address_line_def)
  with t u show ?thesis by blast
qed

section \<open>Claims\<close>

text \<open>
  C20: The handler runs what the user names. At the menu, a typed line that is the number or the
  name of a command runs exactly that command, with the line cleared; any other line is answered with
  a complaint. The handler is left only by a shutdown.
\<close>

theorem comhand_dispatch:
  assumes "bystanders env" and "at_prompt s" and "con_in s = answered l # rest" and "typed l"
  shows "\<exists>t. at_prompt t \<and> con_in t = rest \<and> (quiescent env \<longrightarrow> kernel_same s t) \<and>
    con_out t = con_out s @ color_bytes Purple @ menu_text @ color_bytes White @ crlf \<and>
    comhand_turn img env s = (case command_of l of
        Some c \<Rightarrow> Option.bind (run_command img c env t) (\<lambda>(r, u). Some (leaves c r, u))
      | None \<Rightarrow> Some (None, env (emit (bytes ''Please select a valid option.'' @ crlf) (env (emit (color_bytes Red) t)))))"
  by (rule turn_step [OF assms])

definition demo_image :: image where
  "demo_image = \<lparr>code_addr = (\<lambda>f. 0x100000), build_date = cstr ''Jan  1 2024''\<rparr>"

lemma demo_prompt [simp]: "at_prompt (demo_con inp f)"
  by (simp add: at_prompt_def USER_INPUT_SZ_def)

theorem comhand_dispatch_witness:
  "\<exists>u. comhand_turn demo_image id (demo_con [answered (bytes ''22'')] (\<lambda>n h p. 0)) = Some (None, u) \<and>
    con_out u = color_bytes Purple @ menu_text @ color_bytes White @ crlf @ color_bytes Red @
      bytes ''Please select a valid option.'' @ crlf"
proof -
  have "command_of (bytes ''22'') = None" by (simp add: command_of_def command_names_def bytes_def)
  moreover have "typed (bytes ''22'')" by (simp add: typed_def bytes_def USER_INPUT_SZ_def)
  ultimately show ?thesis
    using comhand_dispatch [of id "demo_con [answered (bytes ''22'')] (\<lambda>n h p. 0)" "bytes ''22''" "[]" demo_image]
    by (auto simp del: emit_emit)
qed

text \<open>
  Setting the clock from the console. However often the user answers with something that is not
  a number in range, the question is repeated; with the first good answers for the hour, the
  minute and the second the clock's registers are set to them.
\<close>

theorem set_time_session:
  assumes "bystanders env" and "at_prompt s"
    and "con_in s = map answered (bh @ [h]) @ map answered (bm @ [m]) @ map answered (bs @ [sc]) @ rest"
    and "\<forall>l \<in> set bh. typed l \<and> \<not> accepted (\<lambda>n. n < 24 \<and> n \<ge> 0) l"
    and "\<forall>l \<in> set (bm @ bs). typed l \<and> \<not> accepted (\<lambda>n. n < 60 \<and> n \<ge> 0) l"
    and "typed h" "accepted (\<lambda>n. n < 24 \<and> n \<ge> 0) h" "typed m" "accepted (\<lambda>n. n < 60 \<and> n \<ge> 0) m"
    and "typed sc" "accepted (\<lambda>n. n < 60 \<and> n \<ge> 0) sc"
  shows "\<exists>t. setTimeCommand env s = Some (Returned 0, setTime (value_of h) (value_of m) (value_of sc) t) \<and>
    at_prompt t \<and> con_in t = rest \<and>
    con_out t = con_out s @
      dialog (bytes ''Enter the hour (0-23):'' @ crlf) (bytes ''Could not parse, please re-enter time:'' @ crlf) bh @
      dialog (bytes ''Enter the minute (0-59):'' @ crlf) (bytes ''Could not parse, please re-enter time:'' @ crlf) bm @
      dialog (bytes ''Enter the second (0-59):'' @ crlf) (bytes ''Could not parse, please re-enter time:'' @ crlf) bs \<and>
    m_trace (setTime (value_of h) (value_of m) (value_of sc) t) =
      m_trace t @ [Cli, Outb 0x70 0x00, Outb 0x71 (decimalToBCD (value_of sc)), Outb 0x70 0x02,
        Outb 0x71 (decimalToBCD (value_of m)), Outb 0x70 0x04, Outb 0x71 (decimalToBCD (value_of h)), Sti]"
proof -
  have b: "(\<lambda>n. n < k \<and> n \<ge> 0) = below k" for k by (simp add: below_def fun_eq_iff)
  have tr: "m_trace (setTime (value_of h) (value_of m) (value_of sc) t) =
      m_trace t @ [Cli, Outb 0x70 0x00, Outb 0x71 (decimalToBCD (value_of sc)), Outb 0x70 0x02,
        Outb 0x71 (decimalToBCD (value_of m)), Outb 0x70 0x04, Outb 0x71 (decimalToBCD (value_of h)), Sti]"
    for t :: "'a con_scheme" by (simp add: setTime_trace)
  have "\<forall>l \<in> set bm. typed l \<and> \<not> accepted (below 60) l" "\<forall>l \<in> set bs. typed l \<and> \<not> accepted (below 60) l"
    using assms(5) unfolding b by simp_all
  from set_time_session_lemma [OF assms(1-3) assms(4) [unfolded b] this assms(6) assms(7) [unfolded b] assms(8)
      assms(9) [unfolded b] assms(10) assms(11) [unfolded b]]
  show ?thesis unfolding tr by simp
qed

theorem set_time_session_witness:
  "\<exists>t. setTimeCommand id (demo_con (map answered [bytes ''24'', bytes ''x'', bytes ''12'', bytes ''30'', bytes ''60'', bytes ''59'']) (\<lambda>n h p. 0))
      = Some (Returned 0, setTime 12 30 59 t) \<and> con_in t = []"
proof -
  let ?P = "\<lambda>n. n < 24 \<and> n \<ge> (0 :: int)" and ?R = "\<lambda>n. n < 60 \<and> n \<ge> (0 :: int)"
  have v: "value_of (bytes ''24'') = 24" "value_of (bytes ''12'') = 12" "value_of (bytes ''30'') = 30" "value_of (bytes ''60'') = 60"
    "value_of (bytes ''59'') = 59"
    by (simp_all add: value_of_def bytes_def)
  have d: "\<forall>c \<in> set (bytes ''12''). digit c" "\<forall>c \<in> set (bytes ''30''). digit c" "\<forall>c \<in> set (bytes ''59''). digit c"
    "\<not> (\<forall>c \<in> set (bytes ''x''). digit c)"
    by (simp_all add: bytes_def digit_def)
  have ty: "typed (bytes ''24'')" "typed (bytes ''x'')" "typed (bytes ''12'')" "typed (bytes ''30'')" "typed (bytes ''60'')" "typed (bytes ''59'')"
    by (simp_all add: typed_def bytes_def USER_INPUT_SZ_def)
  have "\<forall>l \<in> set [bytes ''24'', bytes ''x'']. typed l \<and> \<not> accepted ?P l" "\<forall>l \<in> set ([] @ [bytes ''60'']). typed l \<and> \<not> accepted ?R l"
    "accepted ?P (bytes ''12'')" "accepted ?R (bytes ''30'')" "accepted ?R (bytes ''59'')"
    unfolding accepted_def using v d ty by simp_all
  from set_time_session [OF bystanders_id(1) demo_prompt _ this(1,2) ty(3) this(3) ty(4) this(4) ty(6) this(5), of _ "\<lambda>n h p. 0" "[]"]
  show ?thesis unfolding v by auto
qed

text \<open>
  C39: Memory from the console. On a heap whose free space is one block at the end, a typed
  number of bytes is allocated and its address printed; typing that address at the other command
  releases the block and restores the heap.
\<close>

theorem memory_session:
  assumes "quiescent env" and "at_prompt s" and "heap_rel s bs" "stack_like bs"
    and "unat (digits_value l 0) + 12 < unat (fst (snd (last bs)))"
    and "typed l" "length l < 100" "\<forall>c \<in> set l. digit c" and "p = fst (a_alloc (digits_value l 0) bs)"
    and "con_in s = answered l # answered (address_line p) # rest"
  shows "\<exists>t u. allocateMemoryCommand env s = Some (Returned 0, t) \<and> heap_rel t (snd (a_alloc (digits_value l 0) bs)) \<and>
    con_out t = con_out s @ asked (bytes ''Enter the size of the allocation:'' @ crlf) @
      bytes ''The address of the allocated memory is: '' @ address_line p @ crlf \<and>
    freeMemoryCommand env t = Some (Returned 0, u) \<and> heap_rel u bs \<and> at_prompt u \<and> con_in u = rest \<and>
    con_out u = con_out t @ asked (bytes ''Enter the hexadecimal address of the memory block to free:'' @ crlf) @
      bytes ''Memory was freed.'' @ crlf"
  by (rule memory_session_lemma [OF assms(1-4) _ assms(6-10)]) (use assms(5) in \<open>simp add: room_left_def\<close>)

lemma demo_con_heap: "heap_rel (demo_con inp f) [(0xD000000, 49988, True)]"
  using boot_procs_heap by (simp add: demo_con_def heap_rel_def)

theorem memory_session_witness:
  "\<exists>t u. allocateMemoryCommand id (demo_con [answered (bytes ''16''), answered (bytes ''0xD00000C'')] (\<lambda>n h p. 0)) = Some (Returned 0, t) \<and>
    heap_rel t [(0xD000000, 16, False), (0xD00001C, 49960, True)] \<and>
    freeMemoryCommand id t = Some (Returned 0, u) \<and> heap_rel u [(0xD000000, 49988, True)]"
proof -
  have v: "digits_value (bytes ''16'') 0 = 16" by (simp add: bytes_def)
  have a: "a_alloc 16 [(0xD000000, 49988, True)] = (0xD00000C, [(0xD000000, 16, False), (0xD00001C, 49960, True)])"
    by (simp add: a_alloc_def)
  have t: "address_line 0xD00000C = bytes ''0xD00000C''"
    by (simp add: address_line_def hexa.simps hexdig_def bytes_def)
  have l: "typed (bytes ''16'')" "length (bytes ''16'') < 100" "\<forall>c \<in> set (bytes ''16''). digit c"
    by (simp_all add: typed_def bytes_def USER_INPUT_SZ_def digit_def)
  show ?thesis
    using memory_session [OF quiescent_id(1) demo_prompt demo_con_heap _ _ l, of "0xD00000C" _ _ "[]"]
    unfolding v a t by (simp add: stack_like_def) blast
qed

text \<open>
  The listings show the heap. With blocks below \<open>10 ^ 9\<close> bytes, the command for free memory
  writes one line, with the address and the size, for every free block and no other, in the order of
  the addresses, and the command for allocated memory does so for the allocated ones. Neither changes
  the heap.
\<close>

theorem heap_listing:
  assumes "quiescent env" and "heap_rel s bs" and "\<forall>(a, n, f) \<in> set bs. unat n < 10 ^ 9"
  shows "(\<exists>t. showFreeMemoryCommand env s = Some (Returned 0, t) \<and> heap_rel t bs \<and>
      con_out t = con_out s @ crlf @ bytes ''Freed Memory:'' @ crlf @ lines_of True bs) \<and>
    (\<exists>t. showAllocatedMemoryCommand env s = Some (Returned 0, t) \<and> heap_rel t bs \<and>
      con_out t = con_out s @ crlf @ bytes ''Allocated Memory:'' @ crlf @ lines_of False bs)"
  using listing_ok [OF assms] by blast

theorem heap_listing_witness:
  "\<exists>t. showFreeMemoryCommand id (demo_con [] (\<lambda>n h p. 0)) = Some (Returned 0, t) \<and>
    con_out t = crlf @ bytes ''Freed Memory:'' @ crlf @ 9 # bytes ''Address: 0xD00000C'' @ 9 # bytes ''Size: 49988'' @ crlf"
proof -
  have "lines_of True [(0xD000000, 49988, True)]
      = 9 # bytes ''Address: 0xD00000C'' @ 9 # bytes ''Size: 49988'' @ crlf"
    by (simp add: block_line_def SZ_MCB_def hexa.simps hexdig_def decimal.simps bytes_def)
  then show ?thesis
    using heap_listing [OF quiescent_id(1) demo_con_heap, of "[]" "\<lambda>n h p. 0"] by auto
qed

text \<open>
  Addresses survive the terminal. The text that is printed for any address fits the array of
  eleven characters with its terminator, is accepted as an address, and reads back as the same
  address.
\<close>

theorem address_roundtrip:
  "\<exists>t rest. addressToHex (replicate 11 0) a = Some (t @ 0 # rest) \<and> length (t @ 0 # rest) = 11 \<and> 0 \<notin> set t \<and>
    hexParsable (t @ 0 # buf) (length t) = Some True \<and> hexToAddress (t @ 0 # buf) = Some a"
proof -
  let ?t = "0x30 # 0x78 # hexa (unat a) :: u8 list"
  have len: "length (hexa (unat a)) \<le> 8" by (rule hexa_address)
  have "addressToHex (replicate 11 0) a = Some (?t @ 0 # replicate (8 - length (hexa (unat a))) 0)"
    using addressToHex_eq [of a "replicate 11 0"] len by simp
  moreover have "0 \<notin> set ?t" using hexa_nonzero by simp
  moreover have "hexParsable (?t @ 0 # buf) (length ?t) = Some True" by (rule hex_parses [OF refl])
  moreover have "hexToAddress (?t @ 0 # buf) = Some a" using hexToAddress_eq by simp
  ultimately show ?thesis using len by (intro exI [of _ ?t] exI [of _ "replicate (8 - length (hexa (unat a))) 0"]) simp
qed

text \<open>
  The listings of the ready and of the blocked processes are the same: each shows the queue of the
  suspended blocked processes and then that of the suspended ready ones.
\<close>

theorem listings_show_suspended:
  "listed_queues x = [3, 2] \<and> showPcbReadyCommand = showPcbBlockedCommand"
  by (simp add: listed_queues_def PSTATE_QUEUE_SELECTOR_def showPcbReadyCommand_def showPcbBlockedCommand_def fun_eq_iff)

end
