(* ===== verification/User_Procs.thy ===== *)
theory User_Procs
  imports Console
begin

text \<open>
  The processes of \<^verbatim>\<open>user/system.c\<close>: the idle process and the test processes.
  The code behind \<^verbatim>\<open>sys_req(EXIT)\<close> runs only if the kernel dispatches a process
  that has exited; here the process ends there.
\<close>

section \<open>The idle process\<close>

definition idle_message :: "u8 list" where
  "idle_message = line ''IDLE PROCESS EXECUTING.''"

text \<open>One turn of the endless loop; \<^verbatim>\<open>sizeof(msg)\<close> counts the terminator.\<close>

definition idle_turn :: "'a others \<Rightarrow> 'a con_scheme \<Rightarrow> 'a con_scheme option" where
  "idle_turn env s = do {
     s \<leftarrow> con_write env idle_message (length idle_message) s;
     Some (idle env s)
   }"

partial_function (option) sys_idle_process :: "'a others \<Rightarrow> 'a con_scheme \<Rightarrow> (outcome \<times> 'a con_scheme) option" where
  "sys_idle_process env s = do {
     s \<leftarrow> idle_turn env s;
     sys_idle_process env s
   }"

section \<open>The processes of R3\<close>

definition dispatched :: "u8 list" where
  "dispatched = line '' dispatched''"

fun r3_loop :: "'a others \<Rightarrow> nat \<Rightarrow> u8 list \<Rightarrow> 'a con_scheme \<Rightarrow> 'a con_scheme option" where
  "r3_loop env 0 procname s = Some s"
| "r3_loop env (Suc k) procname s = do {
     s \<leftarrow> dput env procname s;
     s \<leftarrow> dput env dispatched s;
     r3_loop env k procname (idle env s)
   }"

definition r3_proc :: "'a others \<Rightarrow> nat \<Rightarrow> u8 list \<Rightarrow> 'a con_scheme \<Rightarrow> (outcome \<times> 'a con_scheme) option" where
  "r3_proc env iterations procname s = do {
     s \<leftarrow> r3_loop env iterations procname s;
     Some (exitret s)
   }"

definition proc1 :: "'a others \<Rightarrow> 'a con_scheme \<Rightarrow> (outcome \<times> 'a con_scheme) option" where
  "proc1 env s = r3_proc env 1 (cstr ''proc1'') s"

definition proc2 :: "'a others \<Rightarrow> 'a con_scheme \<Rightarrow> (outcome \<times> 'a con_scheme) option" where
  "proc2 env s = r3_proc env 2 (cstr ''proc2'') s"

definition proc3 :: "'a others \<Rightarrow> 'a con_scheme \<Rightarrow> (outcome \<times> 'a con_scheme) option" where
  "proc3 env s = r3_proc env 3 (cstr ''proc3'') s"

definition proc4 :: "'a others \<Rightarrow> 'a con_scheme \<Rightarrow> (outcome \<times> 'a con_scheme) option" where
  "proc4 env s = r3_proc env 4 (cstr ''proc4'') s"

definition proc5 :: "'a others \<Rightarrow> 'a con_scheme \<Rightarrow> (outcome \<times> 'a con_scheme) option" where
  "proc5 env s = r3_proc env 5 (cstr ''proc5'') s"

section \<open>The processes of R6\<close>

definition comwrite :: "'a others \<Rightarrow> 'a con_scheme \<Rightarrow> (outcome \<times> 'a con_scheme) option" where
  "comwrite env s = do {
     let msg = line ''comwrite is writing a message.'';
     s \<leftarrow> con_write env msg (length msg) s;
     Some (exitret s)
   }"

definition comread_prompt :: "u8 list" where
  "comread_prompt = cstr ''comread: please input a message> ''"

definition comread :: "'a others \<Rightarrow> 'a con_scheme \<Rightarrow> (outcome \<times> 'a con_scheme) option" where
  "comread env s = do {
     s \<leftarrow> con_write env comread_prompt (length comread_prompt) s;
     (nread, buf, s) \<leftarrow> con_read env (replicate 100 0) 100 s;
     ensure (0 \<le> nread);
     s \<leftarrow> con_write env buf (nat nread) s;
     Some (exitret s)
   }"

definition iocom25_message :: "u8 list" where
  "iocom25_message = line ''iocom25 is writing a message.''"

fun iocom25_loop :: "'a others \<Rightarrow> nat \<Rightarrow> 'a con_scheme \<Rightarrow> 'a con_scheme option" where
  "iocom25_loop env 0 s = Some s"
| "iocom25_loop env (Suc k) s = do {
     s \<leftarrow> con_write env iocom25_message (length iocom25_message) s;
     iocom25_loop env k (idle env s)
   }"

definition iocom25 :: "'a others \<Rightarrow> 'a con_scheme \<Rightarrow> (outcome \<times> 'a con_scheme) option" where
  "iocom25 env s = do {
     s \<leftarrow> iocom25_loop env 25 s;
     Some (exitret s)
   }"

partial_function (option) iocom_loop :: "'a others \<Rightarrow> 'a con_scheme \<Rightarrow> (outcome \<times> 'a con_scheme) option" where
  "iocom_loop env s = do {
     let s = idle env s;
     s \<leftarrow> con_write env (line ''iocom is still writing.'') (length (line ''iocom is still writing.'')) s;
     iocom_loop env s
   }"

definition iocom :: "'a others \<Rightarrow> 'a con_scheme \<Rightarrow> (outcome \<times> 'a con_scheme) option" where
  "iocom env s = do {
     let msg = line ''iocom is writing a message.'';
     s \<leftarrow> con_write env msg (length msg) s;
     iocom_loop env s
   }"

section \<open>What they write\<close>

lemma r3_loop_out:
  assumes "bystanders env" and "0 \<in> set nm"
  shows "\<exists>t. r3_loop env k nm s = Some t \<and>
    con_out t = con_out s @ concat (replicate k (cchars nm @ bytes '' dispatched'' @ crlf))"
proof (induction k arbitrary: s)
  case (Suc k)
  have d: "dput env dispatched s = Some (env (emit (bytes '' dispatched'' @ crlf) s))" for s
    by (subst dput_eq) (simp_all add: dispatched_def line_def bytes_def crlf_def cchars_def)
  let ?s = "env (env (emit (bytes '' dispatched'' @ crlf) (env (emit (cchars nm) s))))"
  obtain t where "r3_loop env k nm ?s = Some t"
    "con_out t = con_out ?s @ concat (replicate k (cchars nm @ bytes '' dispatched'' @ crlf))"
    using Suc by blast
  then show ?case using assms by (simp add: dput_eq d idle_def)
qed simp

lemma iocom25_loop_out:
  assumes "bystanders env"
  shows "\<exists>t. iocom25_loop env k s = Some t \<and> con_out t = con_out s @ concat (replicate k iocom25_message)"
proof (induction k arbitrary: s)
  case (Suc k)
  let ?s = "env (env (emit iocom25_message s))"
  obtain t where "iocom25_loop env k ?s = Some t" "con_out t = con_out ?s @ concat (replicate k iocom25_message)"
    using Suc by blast
  then show ?case using assms by (simp add: idle_def)
qed simp

text \<open>An endless loop has no result.\<close>

lemma sys_idle_process_None: "sys_idle_process env s \<noteq> Some y"
proof -
  have "sys_idle_process env s = Some y \<longrightarrow> False" for s y
    by (rule sys_idle_process.raw_induct [of "\<lambda>env s y. False", THEN impI]) (auto simp: bind_eq_Some_conv)
  then show ?thesis by blast
qed

lemma iocom_loop_None: "iocom_loop env s \<noteq> Some y"
proof -
  have "iocom_loop env s = Some y \<longrightarrow> False" for s y
    by (rule iocom_loop.raw_induct [of "\<lambda>env s y. False", THEN impI]) (auto simp: bind_eq_Some_conv Let_def)
  then show ?thesis by blast
qed

end
