(* ===== verification/Proc_Claims.thy ===== *)
theory Proc_Claims
  imports Comhand_Claims User_Procs
begin

text \<open>
  Processes from the console: the commands that find one by name and change its state, the
  loader, and what the loaded processes write.
\<close>

section \<open>Asking for a process\<close>

text \<open>A question and its answer, with the line still in the buffer.\<close>

lemma prompt_ok:
  assumes env: "quiescent env" and s: "at_prompt s" "con_in s = answered l # rest" and l: "typed l"
  shows "\<exists>u. user_input_promptread env
      (env (emit (color_bytes White) (env (emit (bytes m @ crlf) (env (emit (color_bytes Yellow) s)))))) = Some u \<and>
    kernel_same s u \<and> con_in u = rest \<and> con_out u = con_out s @ asked (bytes m @ crlf) \<and>
    user_input_len u = int (length l) \<and> user_input u = l @ 0 # replicate (USER_INPUT_SZ - 1 - length l) 0"
proof -
  have byst: "bystanders env" using env by simp
  let ?s = "env (emit (color_bytes White) (env (emit (bytes m @ crlf) (env (emit (color_bytes Yellow) s)))))"
  have p: "at_prompt ?s" "con_in ?s = answered l # rest" using byst s by (simp_all add: at_prompt_def)
  obtain u where u: "user_input_promptread env ?s = Some u" "con_in u = rest" "con_out u = con_out ?s @ crlf"
    "user_input_len u = int (length l)" "user_input u = l @ 0 # replicate (USER_INPUT_SZ - 1 - length l) 0"
    "kernel_same ?s u"
    using typed_buffer [OF p(1) l p(2) byst] env by blast
  note u(6)
  moreover have "kernel_same s ?s" using env by simp
  ultimately have "kernel_same s u" by (blast intro: kernel_same_trans)
  moreover have "con_out u = con_out s @ asked (bytes m @ crlf)" using u(3) byst by (simp add: asked_def)
  ultimately show ?thesis using u by blast
qed

lemma line_cleared:
  assumes "typed l" and "user_input s = l @ 0 # replicate (USER_INPUT_SZ - 1 - length l) 0"
    and "user_input_len s = int (length l)"
  shows "\<exists>t. user_input_clear s = Some t \<and> at_prompt t \<and> con_in t = con_in s \<and> con_out t = con_out s \<and>
    kernel_same s t"
proof -
  have "length l < USER_INPUT_SZ" using assms(1) by (simp add: typed_def)
  from clear_typed [OF assms(2) this assms(3)] show ?thesis by blast
qed

lemma find_named:
  assumes "procs_ok s Q" and "kernel_same s u" and "0 \<notin> set l"
  shows "pcb_find (l @ 0 # pad) u = Some (first_named (pcbs s) l (all_queued Q))"
proof -
  have "queues_rel u Q" "named u Q" using assms kernel_same_procs [OF assms(2)] by (simp_all add: procs_ok_def)
  then have "pcb_find (l @ 0 # pad) u = Some (first_named (pcbs u) (cchars (l @ 0 # pad)) (all_queued Q))"
    by (intro pcb_find_rel) simp_all
  then show ?thesis using assms(2,3) by (simp add: cchars_prefix kernel_same_def)
qed

lemma ask_process_ok:
  assumes env: "quiescent env" and s: "at_prompt s" "con_in s = answered l # rest" and l: "typed l"
    and ok: "procs_ok s Q"
  shows "\<exists>t. ask_process env (line m) s = Some (first_named (pcbs s) l (all_queued Q), t) \<and> kernel_same s t \<and>
    at_prompt t \<and> con_in t = rest \<and> con_out t = con_out s @ asked (bytes m @ crlf)"
proof -
  let ?s = "env (emit (color_bytes White) (env (emit (bytes m @ crlf) (env (emit (color_bytes Yellow) s)))))"
  obtain u where u: "user_input_promptread env ?s = Some u" "kernel_same s u" "con_in u = rest"
    "con_out u = con_out s @ asked (bytes m @ crlf)" "user_input_len u = int (length l)"
    "user_input u = l @ 0 # replicate (USER_INPUT_SZ - 1 - length l) 0"
    using prompt_ok [OF assms(1-4)] by blast
  obtain t where t: "user_input_clear u = Some t" "at_prompt t" "con_in t = con_in u" "con_out t = con_out u"
    "kernel_same u t"
    using line_cleared [OF l u(6,5)] by blast
  have f: "pcb_find (user_input u) u = Some (first_named (pcbs s) l (all_queued Q))"
    unfolding u(6) by (rule find_named [OF ok u(2)]) (use l in \<open>simp add: typed_def\<close>)
  have "ask_process env (line m) s = Some (first_named (pcbs s) l (all_queued Q), t)"
    unfolding ask_process_def setTerminalColor_eq put_line bind.bind_lunit u(1) f t(1) ..
  then show ?thesis using t u(3,4) kernel_same_trans [OF u(2) t(5)] by simp
qed

lemma found_named:
  assumes ok: "procs_ok s Q" and p: "p \<in> set (all_queued Q)" "pname (pcbs s) p = l"
  shows "first_named (pcbs s) l (all_queued Q) = p" "p \<noteq> NULL" "p \<in> set (Q (sel s p))"
proof -
  have rel: "queues_rel s Q" using ok by (simp add: procs_ok_def)
  have nn: "NULL \<notin> set (all_queued Q)"
    using queue_rel_distinct [OF queues_relD(1) [OF rel]] by (auto simp: set_all_queued)
  then show "p \<noteq> NULL" using p(1) by auto
  let ?f = "first_named (pcbs s) l (all_queued Q)"
  have "?f \<noteq> NULL" using first_named_cases(1) [OF nn] p by blast
  then have "?f \<in> set (all_queued Q)" "pname (pcbs s) ?f = l" using first_named_cases(2) [OF nn] by blast+
  with ok p show "?f = p" by (auto simp: procs_ok_def dest: inj_onD)
  show "p \<in> set (Q (sel s p))"
    using p(1) queues_relD(2) [OF rel] by (force simp: set_all_queued)
qed

lemma first_named_none:
  assumes ok: "procs_ok s Q" and none: "\<forall>p \<in> set (all_queued Q). pname (pcbs s) p \<noteq> l"
  shows "first_named (pcbs s) l (all_queued Q) = NULL"
proof -
  have "NULL \<notin> set (all_queued Q)"
    using ok queue_rel_distinct [OF queues_relD(1)] by (auto simp: procs_ok_def set_all_queued)
  from first_named_cases(1) [OF this] none show ?thesis by blast
qed

section \<open>Putting a process back with another state\<close>

definition requeued :: "'a procs_scheme \<Rightarrow> addr \<Rightarrow> pcb_state \<Rightarrow> (nat \<Rightarrow> addr list) \<Rightarrow> (nat \<Rightarrow> addr list)" where
  "requeued s p st Q = placed (set_p_state p st s) p (unplaced s p Q)"

lemma links_con:
  "links_only s t \<Longrightarrow> con_in t = con_in s \<and> con_out t = con_out s \<and> user_input t = user_input s \<and>
    user_input_len t = user_input_len s"
  by (cases s; cases t) (simp add: links_only_def)

lemma requeue_ok:
  assumes ok: "procs_ok s Q" and p: "p \<in> set (all_queued Q)"
  shows "\<exists>t u. pcb_remove p s = Some (0, t) \<and> p_state (pcbs t p) = p_state (pcbs s p) \<and>
    pcb_insert p (set_p_state p st t) = Some u \<and> procs_ok u (requeued s p st Q) \<and>
    p_state (pcbs u p) = st \<and> (\<forall>x. x \<noteq> p \<longrightarrow> p_state (pcbs u x) = p_state (pcbs s x)) \<and>
    links_only s t \<and> links_only (set_p_state p st t) u"
proof -
  have rel: "queues_rel s Q" using ok by (simp add: procs_ok_def)
  note fn = found_named [OF ok p refl]
  obtain t where t: "pcb_remove p s = Some (0, t)" "queues_rel t (unplaced s p Q)" "loose t (unplaced s p Q) p" "links_only s t"
    using pcb_remove_rel [OF rel fn(3)] by blast
  note fr = links_only_frame [OF t(4)] links_only_state [OF t(4)]
  let ?Q = "unplaced s p Q" and ?v = "set_p_state p st t"
  have sub: "set (all_queued ?Q) \<subseteq> set (all_queued Q)"
    unfolding set_all_queued
    by (intro UN_mono) (use set_remove1_subset [of p "Q (sel s p)"] in \<open>auto simp: unplaced_def\<close>)
  have nQ: "p \<notin> set (all_queued ?Q)" using t(3) by (auto simp: loose_def set_all_queued)
  have v: "pcbs ?v = (pcbs t)(p := (pcbs t p)\<lparr>p_state := st\<rparr>)" "pcb_queues ?v = pcb_queues t"
    by (simp_all add: set_p_state_def)
  have h: "live_ptrs ?v = live_ptrs s" "heap_ok ?v = heap_ok s"
    using fr by (simp_all add: set_p_state_def live_ptrs_def heap_ok_def heap_rel_def)
  have n: "p_name (pcbs ?v x) = p_name (pcbs s x)" for x using fr by (simp add: v)
  have "queues_rel ?v ?Q" using t(2) nQ by (subst queues_rel_cong [of _ t]) (auto simp: v)
  moreover have "inj_on (pname (pcbs s)) (set (all_queued ?Q))"
    using ok sub by (auto simp: procs_ok_def intro: inj_on_subset)
  ultimately have "procs_ok ?v ?Q"
    using ok sub by (auto simp: procs_ok_def named_iff n h)
  moreover have "loose ?v ?Q p" using t(3) by (simp add: loose_def v)
  moreover have "p \<in> live_ptrs ?v" "0 \<in> set (p_name (pcbs ?v p))" using ok p by (auto simp: procs_ok_def named_iff n h)
  moreover have "\<forall>x \<in> set (all_queued ?Q). pname (pcbs ?v) x \<noteq> pname (pcbs ?v) p"
    using ok sub nQ p by (auto simp: procs_ok_def n dest: inj_onD)
  ultimately obtain u where u: "pcb_insert p ?v = Some u" "procs_ok u (placed ?v p ?Q)" "links_only ?v u"
    using pcb_insert_ok [of ?v ?Q p] by blast
  have "placed ?v p ?Q = requeued s p st Q"
    using fr by (simp add: requeued_def placed_def place_def set_p_state_def)
  with t u links_only_state [OF u(3)] fr show ?thesis by (auto simp: v(1))
qed

lemma kernel_running: "kernel_same s t \<Longrightarrow> pcbs t = pcbs s \<and> pcb_queues t = pcb_queues s"
  by (simp add: kernel_same_def)

lemma requeued_same: "pcbs t = pcbs s \<Longrightarrow> requeued t p st Q = requeued s p st Q"
  by (simp add: requeued_def placed_def place_def unplaced_def set_p_state_def)

lemma requeue_to:
  assumes same: "kernel_same s t" and ok: "procs_ok s Q" and p: "p \<in> set (all_queued Q)"
  shows "\<exists>a u. pcb_remove p t = Some (0, a) \<and> p_state (pcbs a p) = p_state (pcbs s p) \<and>
    pcb_insert p (set_p_state p st a) = Some u \<and>
    procs_ok u (requeued s p st Q) \<and> p_state (pcbs u p) = st \<and>
    (\<forall>x. x \<noteq> p \<longrightarrow> p_state (pcbs u x) = p_state (pcbs s x)) \<and> con_in u = con_in t \<and> con_out u = con_out t \<and>
    user_input u = user_input t \<and> user_input_len u = user_input_len t"
proof -
  note k = kernel_running [OF same]
  have okt: "procs_ok t Q" using ok kernel_same_procs(3) [OF same] by simp
  obtain a u where u: "pcb_remove p t = Some (0, a)" "p_state (pcbs a p) = p_state (pcbs t p)"
    "pcb_insert p (set_p_state p st a) = Some u" "procs_ok u (requeued t p st Q)"
    "p_state (pcbs u p) = st" "\<forall>x. x \<noteq> p \<longrightarrow> p_state (pcbs u x) = p_state (pcbs t x)"
    "links_only t a" "links_only (set_p_state p st a) u"
    using requeue_ok [OF okt p] by blast
  have "con_in u = con_in t" "con_out u = con_out t" "user_input u = user_input t" "user_input_len u = user_input_len t"
    using links_con [OF u(7)] links_con [OF u(8)] by (simp_all add: set_p_state_def)
  then show ?thesis using u k requeued_same [of t s] by simp
qed

lemma requeue_command:
  assumes ask: "ask_process env m s = Some (p, t)" "kernel_same s t" "at_prompt t" "con_in t = rest"
    and ok: "procs_ok s Q" and p: "p \<in> set (all_queued Q)"
  shows "\<exists>a u. pcb_remove p t = Some (0, a) \<and> pcb_insert p (set_dpatch p d a) = Some u \<and>
    procs_ok u (requeued s p ((p_state (pcbs s p))\<lparr>dpatch := d\<rparr>) Q) \<and>
    p_state (pcbs u p) = (p_state (pcbs s p))\<lparr>dpatch := d\<rparr> \<and>
    (\<forall>x. x \<noteq> p \<longrightarrow> p_state (pcbs u x) = p_state (pcbs s x)) \<and> at_prompt u \<and> con_in u = rest \<and> con_out u = con_out t"
  using requeue_to [OF ask(2) ok p, of "(p_state (pcbs s p))\<lparr>dpatch := d\<rparr>"] ask(3,4)
  by (auto simp: set_dpatch_def at_prompt_def)

lemma complain_ok:
  assumes "quiescent env"
  shows "\<exists>t. complain env (m @ [0]) s = Some (Returned 1, t) \<and> kernel_same s t \<and>
    con_out t = con_out s @ color_bytes Red @ m"
  using assms by (simp add: complain_def)

section \<open>Claims\<close>

definition suspended :: "pcb_state \<Rightarrow> pcb_state" where
  "suspended st = st\<lparr>dpatch := PCB_DPATCH_SUSPENDED\<rparr>"

definition resumed :: "pcb_state \<Rightarrow> pcb_state" where
  "resumed st = st\<lparr>dpatch := PCB_DPATCH_ACTIVE\<rparr>"


text \<open>A console with one ready user process, \<^verbatim>\<open>init\<close>, and the lines \<open>inp\<close>.\<close>

lemma demo_console:
  "\<exists>s :: con. procs_ok s demo_Q \<and> at_prompt s \<and> con_in s = inp \<and> pname (pcbs s) 0xD00000C = bytes ''init'' \<and>
    p_state (pcbs s 0xD00000C) = \<lparr>exec = PCB_EXEC_READY, dpatch = PCB_DPATCH_ACTIVE, cls = 1, pri = 3\<rparr> \<and>
    pstackseg (pcbs s 0xD00000C) = 0xD000068 \<and> heap_rel s demo_blocks"
proof -
  obtain h :: con where h: "heap_ok h" "heap_rel h demo_blocks"
    "heap_touch (boot_procs (con_ext inp [] (replicate 128 0) 0 ())) h"
    using demo_heap_touch [of "con_ext inp [] (replicate 128 0) 0 ()"] by (elim exE conjE)
  have "con_in h = inp" "user_input h = replicate 128 0"
    using touch_con [OF h(3)] by (simp_all add: boot_procs_def heap_on_eq boot_heap_def)
  then have "con_in (demo h) = inp" "at_prompt (demo h)" by (simp_all add: demo_def at_prompt_def USER_INPUT_SZ_def)
  moreover have "p_name (pcbs (demo h) 0xD00000C) = bytes ''init'' @ 0 # replicate 59 0"
    by (simp add: demo_def demo_pcb_def demo_name_def cstr_def)
  then have "pname (pcbs (demo h)) 0xD00000C = bytes ''init''" using cchars_prefix [of "bytes ''init''" "replicate 59 0"] by (simp add: bytes_def)
  moreover have "p_state (pcbs (demo h) 0xD00000C) =
      \<lparr>exec = PCB_EXEC_READY, dpatch = PCB_DPATCH_ACTIVE, cls = 1, pri = 3\<rparr>"
    "pstackseg (pcbs (demo h) 0xD00000C) = 0xD000068"
    by (simp_all add: demo_def demo_pcb_def)
  ultimately show ?thesis using demo_ok(1,2) [OF h(1,2)] by blast
qed


section \<open>Loading the test processes\<close>

definition r3_names :: "string list" where
  "r3_names = [''proc1'', ''proc2'', ''proc3'', ''proc4'', ''proc5'']"

text \<open>
  C29: Loading the test processes. When no queued process has one of the five names and the heap
  ends in a free block with room for five control blocks and stacks, the loader queues five ready
  user processes of priority 1 under the names proc1 to proc5, in this order, behind the ready
  processes at least as urgent and before the others. Each starts in its own function; every
  other process keeps its state, and the invariant of the processes holds.
\<close>

theorem load_r3:
  assumes "procs_ok s Q" and "heap_rel s bs" and "stack_like bs" and "4200 * 5 + 100 < room_left bs"
    and "\<forall>nm \<in> set r3_names. \<forall>x \<in> set (all_queued Q). pname (pcbs s) x \<noteq> bytes nm"
  shows "\<exists>t ps. loadR3 img s = Some (Returned 0, t) \<and>
    procs_ok t (Q(0 := most_urgent (pcbs s) (Q 0) @ ps @ less_urgent (pcbs s) (Q 0))) \<and>
    (\<forall>x \<in> set (all_queued Q). p_state (pcbs t x) = p_state (pcbs s x)) \<and>
    list_all2 (\<lambda>(nm, c) p. started t p (bytes nm) PCB_CLASS_USER 1 (code_addr img c))
      (zip r3_names [Proc1, Proc2, Proc3, Proc4, Proc5]) ps"
proof -
  have "distinct (map (bytes \<circ> fst) (r3_list img))" by (simp add: r3_list_def bytes_def)
  moreover have "\<forall>(nm, f) \<in> set (r3_list img). good_name nm \<and> (\<forall>x \<in> set (all_queued Q). pname (pcbs s) x \<noteq> bytes nm)"
    using assms(5) by (simp add: r3_list_def r3_names_def good_name_def bytes_def)
  moreover have "4200 * length (r3_list img) + 100 < room_left bs" using assms(4) by (simp add: r3_list_def)
  ultimately obtain t ps where t: "load_list (r3_list img) s = Some t"
    "procs_ok t (Q(0 := most_urgent (pcbs s) (Q 0) @ ps @ less_urgent (pcbs s) (Q 0)))"
    "\<forall>x \<in> set (all_queued Q). p_state (pcbs t x) = p_state (pcbs s x)"
    "list_all2 (\<lambda>(nm, f) p. started t p (bytes nm) PCB_CLASS_USER 1 f) (r3_list img) ps"
    using load_list_ok [OF assms(1-3)] by blast
  have "r3_list img = map (\<lambda>(nm, c). (nm, code_addr img c)) (zip r3_names [Proc1, Proc2, Proc3, Proc4, Proc5])"
    by (simp add: r3_list_def r3_names_def)
  with t show ?thesis by (auto simp: loadR3_list list_all2_map1 case_prod_unfold)
qed

lemma boot_procs_ok: "procs_ok (boot_procs x) (\<lambda>_. [])"
  using boot_procs_heap(1) initial_queues_rel [of "boot_procs x"]
  by (simp add: procs_ok_def named_iff all_queued_def) (simp add: boot_procs_def heap_on_eq boot_heap_def zero_pcb_def)

theorem load_r3_witness:
  "\<exists>(t :: con) ps. loadR3 demo_image (boot_procs (con_ext [] [] (replicate 128 0) 0 ())) = Some (Returned 0, t) \<and>
    procs_ok t ((\<lambda>_. [])(0 := ps)) \<and> length ps = 5"
proof -
  let ?s = "boot_procs (con_ext [] [] (replicate 128 0) 0 ())"
  have ok: "procs_ok ?s (\<lambda>_. [])" by (rule boot_procs_ok)
  have st: "stack_like [(0xD000000, 49988, True)]" "4200 * 5 + 100 < room_left [(0xD000000 :: addr, 49988, True)]"
    by (simp_all add: stack_like_def room_left_def)
  obtain t ps where t: "loadR3 demo_image ?s = Some (Returned 0, t)" "procs_ok t ((\<lambda>_. [])(0 := ps))"
    "list_all2 (\<lambda>(nm, c) p. started t p (bytes nm) PCB_CLASS_USER 1 (code_addr demo_image c))
      (zip r3_names [Proc1, Proc2, Proc3, Proc4, Proc5]) ps"
    using load_r3 [OF ok boot_procs_heap(2) st, of demo_image] by (auto simp: all_queued_def)
  have "length ps = 5" using list_all2_lengthD [OF t(3)] by (simp add: r3_names_def)
  with t(1,2) show ?thesis by blast
qed

section \<open>Which processes end\<close>

fun idle_turns :: "'a others \<Rightarrow> nat \<Rightarrow> 'a con_scheme \<Rightarrow> 'a con_scheme option" where
  "idle_turns env 0 s = Some s"
| "idle_turns env (Suc n) s = do { s \<leftarrow> idle_turn env s; idle_turns env n s }"

lemma idle_turns_out:
  assumes "bystanders env"
  shows "\<exists>t. idle_turns env n s = Some t \<and> con_out t = con_out s @ concat (replicate n idle_message)"
proof (induction n arbitrary: s)
  case (Suc n)
  let ?s = "env (env (emit idle_message s))"
  obtain t where "idle_turns env n ?s = Some t" "con_out t = con_out ?s @ concat (replicate n idle_message)"
    using Suc by blast
  then show ?case using assms by (simp add: idle_turn_def idle_def)
qed simp

definition dispatches :: "nat \<Rightarrow> string \<Rightarrow> u8 list" where
  "dispatches k nm = concat (replicate k (bytes nm @ bytes '' dispatched'' @ crlf))"

lemma r3_proc_out:
  assumes "bystanders env" and "good_name nm"
  shows "\<exists>t. r3_proc env k (cstr nm) s = Some (Exited, t) \<and> con_out t = con_out s @ dispatches k nm"
  using r3_loop_out [OF assms(1) good_nameD(2) [OF assms(2)], of k s] good_nameD(1) [OF assms(2)]
  by (auto simp: r3_proc_def exitret_def dispatches_def)

text \<open>
  C30: Which processes end. Each of the five test processes writes its name and a message as often
  as its number says and exits, and the process for 25 messages exits after them. The idle process
  has no result, and not because of a fault: it completes any number of turns of its loop, writing its
  message in each.
\<close>

theorem processes_end:
  assumes "bystanders env"
  shows "(\<exists>t. proc1 env s = Some (Exited, t) \<and> con_out t = con_out s @ dispatches 1 ''proc1'') \<and>
    (\<exists>t. proc2 env s = Some (Exited, t) \<and> con_out t = con_out s @ dispatches 2 ''proc2'') \<and>
    (\<exists>t. proc3 env s = Some (Exited, t) \<and> con_out t = con_out s @ dispatches 3 ''proc3'') \<and>
    (\<exists>t. proc4 env s = Some (Exited, t) \<and> con_out t = con_out s @ dispatches 4 ''proc4'') \<and>
    (\<exists>t. proc5 env s = Some (Exited, t) \<and> con_out t = con_out s @ dispatches 5 ''proc5'') \<and>
    (\<exists>t. iocom25 env s = Some (Exited, t) \<and> con_out t = con_out s @ concat (replicate 25 iocom25_message)) \<and>
    sys_idle_process env s = None \<and>
    (\<forall>n. \<exists>t. idle_turns env n s = Some t \<and> con_out t = con_out s @ concat (replicate n idle_message))"
proof -
  note out = r3_proc_out [OF assms, where s = s]
  have nm: "good_name ''proc1''" "good_name ''proc2''" "good_name ''proc3''" "good_name ''proc4''" "good_name ''proc5''"
    by (simp_all add: good_name_def bytes_def)
  have "\<exists>t. iocom25 env s = Some (Exited, t) \<and> con_out t = con_out s @ concat (replicate 25 iocom25_message)"
    using iocom25_loop_out [OF assms, of 25 s] by (auto simp: iocom25_def exitret_def)
  moreover have "sys_idle_process env s = None" using sys_idle_process_None by fastforce
  moreover note idle_turns_out [OF assms, of _ s]
  ultimately show ?thesis
    unfolding proc1_def proc2_def proc3_def proc4_def proc5_def using out [OF nm(1)] out [OF nm(2)] out [OF nm(3)]
      out [OF nm(4)] out [OF nm(5)] by blast
qed

theorem processes_end_witness:
  "\<exists>t :: con. proc2 id (boot_procs (con_ext [] [] (replicate 128 0) 0 ())) = Some (Exited, t) \<and>
    con_out t = bytes ''proc2 dispatched'' @ crlf @ bytes ''proc2 dispatched'' @ crlf"
  using processes_end [OF bystanders_id(1), of "boot_procs (con_ext [] [] (replicate 128 0) 0 ())"]
  by (simp add: dispatches_def bytes_def boot_procs_def heap_on_eq boot_heap_def numeral_2_eq_2)

end
