(* ===== verification/Proc_Console.thy ===== *)
theory Proc_Console
  imports Proc_Claims
begin

text \<open>
  More of the console's commands about processes: what the listings show, and the sessions that
  delete a process and change its priority.
\<close>

section \<open>What is shown of a process\<close>

definition class_text :: "1 word \<Rightarrow> string" where
  "class_text c = (if c = 0 then ''System'' else ''User'')"

definition exec_text :: "2 word \<Rightarrow> string" where
  "exec_text e = (if e = PCB_EXEC_BLOCKED then ''Blocked'' else if e = PCB_EXEC_READY then ''Ready'' else ''Running'')"

definition dpatch_text :: "1 word \<Rightarrow> string" where
  "dpatch_text d = (if d = PCB_DPATCH_ACTIVE then ''Active'' else ''Suspended'')"

text \<open>The lines about a process: a reference for what is written.\<close>

definition process_lines :: "pcb_state \<Rightarrow> u8 list \<Rightarrow> u8 list" where
  "process_lines st nm =
     crlf @ bytes ''Process Name: '' @ nm @
     crlf @ bytes ''Process Class: '' @ bytes (class_text (cls st)) @
     crlf @ bytes ''Process Priority: '' @ decimal (unat (pri st)) @
     crlf @ bytes ''Process State: '' @ bytes (exec_text (exec st)) @
     crlf @ bytes ''Process Status: '' @ bytes (dpatch_text (dpatch st)) @ crlf"

lemma class_str_eq: "class_str c = Some (cstr (class_text c))"
  using one_bit [of c] by (auto simp: class_str_def avail_pcb_class_def class_text_def rd_def)

lemma dpatchstate_str_eq: "dpatchstate_str d = Some (cstr (dpatch_text d))"
  using one_bit [of d] by (auto simp: dpatchstate_str_def avail_pcb_dpatchstate_def dpatch_text_def rd_def)

lemma execstate_str_eq: "e \<noteq> 3 \<Longrightarrow> execstate_str e = Some (cstr (exec_text e))"
  using two_bits [of e] by (auto simp: execstate_str_def avail_pcb_execstate_def exec_text_def rd_def)

lemma pcb_strings_eq:
  assumes "exec st \<noteq> 3"
  shows "\<exists>pad. pcb_strings st = Some (cstr (class_text (cls st)), cstr (exec_text (exec st)),
    cstr (dpatch_text (dpatch st)), decimal (unat (pri st)) @ 0 # pad)"
proof -
  have "unat (pri st) < 16" using unsigned_less [of "pri st", where ?'a = nat] by simp
  then have "length (decimal (unat (pri st))) \<le> 2" by (intro decimal_bounded) simp_all
  then have "itoa (replicate 4 0) (int (unat (pri st))) =
      Some (decimal (unat (pri st)) @ 0 # drop (Suc (length (decimal (unat (pri st))))) (replicate 4 0))"
    by (intro itoa_nat) simp
  then show ?thesis
    unfolding pcb_strings_def class_str_eq dpatchstate_str_eq execstate_str_eq [OF assms] uint_nat bind.bind_lunit
    by (simp only: bind.bind_lunit) blast
qed

lemma cstr_text:
  "cchars (cstr (class_text c)) = bytes (class_text c)" "cchars (cstr (exec_text e)) = bytes (exec_text e)"
  "cchars (cstr (dpatch_text d)) = bytes (dpatch_text d)"
  by (simp_all add: class_text_def exec_text_def dpatch_text_def cstr_def bytes_def cchars_def)

lemma put_crlf: "put env (crlf @ cstr t) s = Some (env (emit (crlf @ bytes t) s))"
  using put_eq [of env "crlf @ bytes t" s] by (simp add: cstr_def del: put_eq)

lemma dput_cstr:
  "dput env (cstr (class_text c)) s = Some (env (emit (bytes (class_text c)) s))"
  "dput env (cstr (exec_text e)) s = Some (env (emit (bytes (exec_text e)) s))"
  "dput env (cstr (dpatch_text d)) s = Some (env (emit (bytes (dpatch_text d)) s))"
proof -
  have nul: "0 \<in> set (cstr t)" for t by (simp add: cstr_def)
  show "dput env (cstr (class_text c)) s = Some (env (emit (bytes (class_text c)) s))"
    "dput env (cstr (exec_text e)) s = Some (env (emit (bytes (exec_text e)) s))"
    "dput env (cstr (dpatch_text d)) s = Some (env (emit (bytes (dpatch_text d)) s))"
    by (simp_all only: dput_eq [OF nul] cstr_text)
qed

lemma write_pcb_ok:
  assumes env: "quiescent env" and st: "exec st \<noteq> 3" and nm: "0 \<in> set (p_name (pcbs s p))"
  shows "\<exists>strs t. pcb_strings st = Some strs \<and> write_pcb env p strs s = Some t \<and> kernel_same s t \<and>
    con_out t = con_out s @ process_lines st (pname (pcbs s) p) \<and> con_in t = con_in s \<and> user_input t = user_input s"
proof -
  obtain pad where strs: "pcb_strings st = Some (cstr (class_text (cls st)), cstr (exec_text (exec st)),
    cstr (dpatch_text (dpatch st)), decimal (unat (pri st)) @ 0 # pad)"
    using pcb_strings_eq [OF st] by blast
  let ?s = "env (emit (crlf @ bytes ''Process Name: '') s)"
  have "kernel_same s ?s" using env by simp
  then have n: "p_name (pcbs ?s p) = p_name (pcbs s p)" by (simp add: kernel_same_def)
  have nd: "dput env (p_name (pcbs ?s p)) ?s = Some (env (emit (pname (pcbs s) p) ?s))"
    unfolding n by (rule dput_eq [OF nm])
  have d: "dput env (decimal (unat (pri st)) @ 0 # pad) u = Some (env (emit (decimal (unat (pri st))) u))" for u
    by (subst dput_eq) (simp_all only: cchars_prefix [OF decimal_nonzero] set_append list.set, auto)
  have "\<exists>t. write_pcb env p (cstr (class_text (cls st)), cstr (exec_text (exec st)), cstr (dpatch_text (dpatch st)),
      decimal (unat (pri st)) @ 0 # pad) s = Some t \<and> kernel_same s t \<and>
    con_out t = con_out s @ process_lines st (pname (pcbs s) p) \<and> con_in t = con_in s \<and> user_input t = user_input s"
    unfolding write_pcb_def Let_def prod.case put_crlf bind.bind_lunit nd dput_cstr d put_line
    using env by (simp add: process_lines_def)
  then show ?thesis using strs by blast
qed

definition shown :: "(addr \<Rightarrow> pcb) \<Rightarrow> addr list \<Rightarrow> u8 list" where
  "shown h ps = concat (map (\<lambda>p. process_lines (p_state (h p)) (pname h p)) ps)"

lemma shown_append [simp]: "shown h [] = []" "shown h (xs @ ys) = shown h xs @ shown h ys"
  by (simp_all add: shown_def)

text \<open>Processes that can be shown: a terminated name and one of the three execution states.\<close>

definition showable :: "(addr \<Rightarrow> pcb) \<Rightarrow> addr list \<Rightarrow> bool" where
  "showable h ps \<longleftrightarrow> (\<forall>p \<in> set ps. 0 \<in> set (p_name (h p)) \<and> exec (p_state (h p)) \<noteq> 3)"

lemma show_list_ok:
  assumes env: "quiescent env"
  shows "path (\<lambda>a. p_next (pcbs s a)) p xs NULL \<Longrightarrow> xs \<noteq> [] \<Longrightarrow> showable (pcbs s) xs \<Longrightarrow>
    \<exists>t. show_list env p s = Some t \<and> kernel_same s t \<and> con_out t = con_out s @ shown (pcbs s) xs \<and>
      con_in t = con_in s \<and> user_input t = user_input s"
proof (induction xs arbitrary: p s)
  case (Cons x ys)
  have x: "p = x" "path (\<lambda>a. p_next (pcbs s a)) (p_next (pcbs s x)) ys NULL" using Cons.prems(1) by simp_all
  have sh: "0 \<in> set (p_name (pcbs s x))" "exec (p_state (pcbs s x)) \<noteq> 3" "showable (pcbs s) ys"
    using Cons.prems(3) by (simp_all add: showable_def)
  obtain strs u where u: "pcb_strings (p_state (pcbs s x)) = Some strs" "write_pcb env x strs s = Some u" "kernel_same s u"
    "con_out u = con_out s @ process_lines (p_state (pcbs s x)) (pname (pcbs s) x)" "con_in u = con_in s"
    "user_input u = user_input s"
    using write_pcb_ok [OF env sh(2,1)] by blast
  have pc: "pcbs u = pcbs s" using u(3) by (simp add: kernel_same_def)
  have run: "show_list env p s = (if p_next (pcbs s x) = NULL then Some u else show_list env (p_next (pcbs s x)) u)"
    by (subst show_list.simps) (simp add: x(1) u(1,2) pc)
  show ?case
  proof (cases ys)
    case Nil
    then show ?thesis using run x(2) u by (auto simp: shown_def)
  next
    case (Cons y zs)
    have "path (\<lambda>a. p_next (pcbs u a)) (p_next (pcbs s x)) ys NULL" "ys \<noteq> []" "showable (pcbs u) ys"
      using x(2) sh(3) Cons by (simp_all add: pc)
    then obtain t where t: "show_list env (p_next (pcbs s x)) u = Some t" "kernel_same u t"
      "con_out t = con_out u @ shown (pcbs u) ys" "con_in t = con_in u" "user_input t = user_input u"
      using Cons.IH by blast
    have "p_next (pcbs s x) \<noteq> NULL" using x(2) Cons by auto
    then show ?thesis using run t u kernel_same_trans [OF u(3) t(2)] by (simp add: pc shown_def)
  qed
qed simp

lemma show_queues_ok:
  assumes env: "quiescent env"
  shows "queues_rel s Q \<Longrightarrow> \<forall>i \<in> set is. i < 4 \<and> showable (pcbs s) (Q i) \<Longrightarrow>
    \<exists>t. show_queues env is s = Some t \<and> kernel_same s t \<and>
      con_out t = con_out s @ shown (pcbs s) (concat (map Q is)) \<and> con_in t = con_in s \<and> user_input t = user_input s"
proof (induction "is" arbitrary: s)
  case (Cons i js)
  let ?one = "if pcb_head (pcb_queues s i) \<noteq> NULL then show_list env (pcb_head (pcb_queues s i)) s else Some s"
  have q: "queue_rel (pcbs s) (pcb_queues s i) (Q i)" and sh: "showable (pcbs s) (Q i)"
    using queues_relD(1) [OF Cons.prems(1)] Cons.prems(2) by simp_all
  have "\<exists>u. ?one = Some u \<and> kernel_same s u \<and> con_out u = con_out s @ shown (pcbs s) (Q i) \<and> con_in u = con_in s \<and>
      user_input u = user_input s"
  proof (cases "Q i")
    case Nil
    then show ?thesis using queue_rel_head [OF q] by simp
  next
    case (Cons x xs)
    then show ?thesis
      using show_list_ok [OF env, of s "pcb_head (pcb_queues s i)" "Q i"] q sh by (auto simp: queue_rel_def)
  qed
  then obtain u where u: "?one = Some u" "kernel_same s u" "con_out u = con_out s @ shown (pcbs s) (Q i)"
    "con_in u = con_in s" "user_input u = user_input s" by blast
  have pc: "pcbs u = pcbs s" using u(2) by (simp add: kernel_same_def)
  obtain t where t: "show_queues env js u = Some t" "kernel_same u t"
    "con_out t = con_out u @ shown (pcbs u) (concat (map Q js))" "con_in t = con_in u" "user_input t = user_input u"
    using Cons.IH [of u] Cons.prems kernel_same_procs(1) [OF u(2)] by (auto simp: pc)
  show ?case
    using kernel_same_trans [OF u(2) t(2)] t u(3-5) unfolding show_queues.simps u(1) bind.bind_lunit by (simp add: pc)
qed simp

text \<open>
  C26: What the listings show. The command for all processes writes the lines of every queued process,
  queue by queue and in the order of the queues, and nothing else, and changes nothing. The commands
  for the ready and for the blocked processes are the same function: both show the suspended
  blocked processes and then the suspended ready ones, and no active process.
\<close>

theorem process_listing:
  assumes "quiescent env" and "procs_ok s Q" and "\<forall>p \<in> set (all_queued Q). exec (p_state (pcbs s p)) \<noteq> 3"
  shows "(\<exists>t. showPcbAllCommand env s = Some (Returned 0, t) \<and> kernel_same s t \<and>
      con_out t = con_out s @ color_bytes Yellow @ shown (pcbs s) (Q 0 @ Q 1 @ Q 2 @ Q 3)) \<and>
    showPcbReadyCommand env s = showPcbBlockedCommand env s \<and>
    (\<exists>t. showPcbReadyCommand env s = Some (Returned 0, t) \<and> kernel_same s t \<and>
      con_out t = con_out s @ color_bytes Yellow @ shown (pcbs s) (Q 3 @ Q 2))"
proof -
  let ?s = "env (emit (color_bytes Yellow) s)"
  have same: "kernel_same s ?s" using assms(1) by simp
  have pc: "pcbs ?s = pcbs s" using same by (simp add: kernel_same_def)
  have "queues_rel s Q" "named s Q" using assms(2) by (simp_all add: procs_ok_def)
  then have q: "queues_rel ?s Q" "\<forall>i < 4. showable (pcbs ?s) (Q i)"
    using assms(3) kernel_same_procs(1) [OF same] by (auto simp: showable_def pc named_def set_all_queued)
  have run: "\<exists>t. show_queues env is ?s = Some t \<and> kernel_same s t \<and>
      con_out t = con_out s @ color_bytes Yellow @ shown (pcbs s) (concat (map Q is))" if "\<forall>i \<in> set is. i < 4" for "is"
    using show_queues_ok [OF assms(1) q(1), of "is"] q(2) that kernel_same_trans [OF same] assms(1) by (auto simp: pc)
  obtain t where t: "show_queues env [0, 1, 2, 3] ?s = Some t" "kernel_same s t"
    "con_out t = con_out s @ color_bytes Yellow @ shown (pcbs s) (Q 0 @ Q 1 @ Q 2 @ Q 3)"
    using run [of "[0, 1, 2, 3]"] by (auto simp del: show_queues.simps)
  obtain u where u: "show_queues env [3, 2] ?s = Some u" "kernel_same s u"
    "con_out u = con_out s @ color_bytes Yellow @ shown (pcbs s) (Q 3 @ Q 2)"
    using run [of "[3, 2]"] by (auto simp del: show_queues.simps)
  have l: "listed_queues x = [3, 2]" for x using listings_show_suspended by blast
  have "showPcbAllCommand env s = Some (Returned 0, t)" "showPcbReadyCommand env s = Some (Returned 0, u)"
    unfolding showPcbAllCommand_def showPcbReadyCommand_def setTerminalColor_eq bind.bind_lunit l t(1) u(1) by simp_all
  moreover have "showPcbReadyCommand env s = showPcbBlockedCommand env s"
    using listings_show_suspended by (metis (no_types))
  ultimately show ?thesis using t(2,3) u(2,3) by blast
qed

theorem process_listing_witness:
  "\<exists>(s :: con) t. procs_ok s demo_Q \<and> showPcbAllCommand id s = Some (Returned 0, t) \<and>
    con_out t = con_out s @ color_bytes Yellow @ shown (pcbs s) [0xD00000C] \<and>
    (\<exists>u. showPcbReadyCommand id s = Some (Returned 0, u) \<and> con_out u = con_out s @ color_bytes Yellow)"
proof -
  obtain s :: con where s: "procs_ok s demo_Q"
    "p_state (pcbs s 0xD00000C) = \<lparr>exec = PCB_EXEC_READY, dpatch = PCB_DPATCH_ACTIVE, cls = 1, pri = 3\<rparr>"
    using demo_console by blast
  have "demo_Q 1 = []" "demo_Q 2 = []" "demo_Q 3 = []" by (simp_all add: demo_Q_def)
  then show ?thesis
    using process_listing [OF quiescent_id(1) s(1)] s by (auto simp: s(2))
qed

section \<open>Deleting a process\<close>

lemma pcb_free_con:
  assumes "heap_ok s" and "pcb_free p s = Some (0, t)"
  shows "con_in t = con_in s \<and> con_out t = con_out s \<and> user_input t = user_input s \<and> user_input_len t = user_input_len s"
proof -
  have free: "heap_touch x y" if "free_function x = Free_Memory" "sys_free_mem q x = Some (r, y)" for x y q r
    using that by (auto simp: sys_free_mem_def intro: free_frame)
  obtain v where v: "sys_free_mem (pstackseg (pcbs s p)) s = Some (0, v)"
    "sys_free_mem p (v\<lparr>pcbs := (pcbs v)(p := zero_pcb)\<rparr>) = Some (0, t)"
    using assms(2) by (auto simp: pcb_free_def bind_eq_Some_conv Let_def split: if_splits)
  note sv = sys_free_touch [OF assms(1) v(1)]
  have "free_function (v\<lparr>pcbs := (pcbs v)(p := zero_pcb)\<rparr>) = Free_Memory"
    using fns_touch [OF sv] assms(1) by (simp add: heap_ok_def)
  from touch_con [OF free [OF this v(2)]] touch_con [OF sv] show ?thesis by simp
qed

lemma name_free:
  assumes ok: "procs_ok s Q" and p: "p \<in> set (all_queued Q)" "pname (pcbs s) p = l" and u: "procs_ok u (unplaced s p Q)"
    and same: "\<forall>x. x \<noteq> p \<longrightarrow> p_name (pcbs u x) = p_name (pcbs s x)" and nz: "0 \<notin> set l"
  shows "pcb_find (l @ [0]) u = Some NULL"
proof -
  have d: "distinct (Q (sel s p))"
    using ok queue_rel_distinct [OF queues_relD(1), of s Q "sel s p"] selector_less by (simp add: procs_ok_def)
  have "x \<noteq> p \<and> x \<in> set (all_queued Q)" if "x \<in> set (all_queued (unplaced s p Q))" for x
  proof -
    obtain i where i: "i < 4" "x \<in> set (unplaced s p Q i)" using \<open>x \<in> _\<close> by (auto simp: set_all_queued)
    have "x \<in> set (Q i)" using i(2) by (auto simp: unplaced_def split: if_splits dest: subsetD [OF set_remove1_subset])
    moreover have "x \<noteq> p"
    proof
      assume "x = p"
      then have "i = sel s p" using \<open>x \<in> set (Q i)\<close> i(1) ok queues_relD(2) by (fastforce simp: procs_ok_def)
      then show False using i(2) d \<open>x = p\<close> by (simp add: unplaced_def)
    qed
    ultimately show ?thesis using i(1) by (auto simp: set_all_queued)
  qed
  then have "\<forall>x \<in> set (all_queued (unplaced s p Q)). pname (pcbs u) x \<noteq> l"
    using same p found_named(1) [OF ok] by metis
  then show ?thesis
    using find_named [OF u kernel_same_refl nz, of "[]"] first_named_none [OF u] by simp
qed

text \<open>
  C22: Deleting by name. For the name of a queued user process whose PCB and stack can be released,
  the command takes the process out of its queue and gives both blocks back to the heap; the other
  processes keep the invariant and the name is free again. A system process is refused, as is a name
  that no process has, without a change.
\<close>

theorem delete_command:
  assumes "quiescent env" and "at_prompt s" and "con_in s = answered l # rest" and "typed l" and "procs_ok s Q"
  shows "(\<forall>p \<in> set (all_queued Q). pname (pcbs s) p = l \<longrightarrow>
      (if cls (p_state (pcbs s p)) = 0 then \<exists>t. deletePcbCommand env s = Some (Returned 1, t) \<and> kernel_same s t
       else pstackseg (pcbs s p) \<in> live_ptrs s - set (all_queued Q) \<longrightarrow> heap_releasable2 (pstackseg (pcbs s p)) p s \<longrightarrow>
        (\<exists>t. deletePcbCommand env s = Some (Returned 0, t) \<and> procs_ok t (unplaced s p Q) \<and>
         live_ptrs t = live_ptrs s - {p, pstackseg (pcbs s p)} \<and> pcb_find (l @ [0]) t = Some NULL \<and>
         at_prompt t \<and> con_in t = rest))) \<and>
    ((\<forall>p \<in> set (all_queued Q). pname (pcbs s) p \<noteq> l) \<longrightarrow>
      (\<exists>t. deletePcbCommand env s = Some (Returned 1, t) \<and> kernel_same s t))"
proof -
  let ?m = "''Enter the name of an existing process to be deleted:''"
  obtain a where a: "ask_process env (line ?m) s = Some (first_named (pcbs s) l (all_queued Q), a)" "kernel_same s a"
    "at_prompt a" "con_in a = rest"
    using ask_process_ok [OF assms, of ?m] by blast
  note k = kernel_running [OF a(2)]
  have ok: "procs_ok a Q" using assms(5) kernel_same_procs(3) [OF a(2)] by simp
  have nz: "0 \<notin> set l" using assms(4) by (simp add: typed_def)
  have nf: "not_found = (bytes ''A process with the given name was not found'' @ crlf) @ [0]"
    by (simp add: not_found_def line_def)
  note refuse = complain_ok [OF assms(1), of _ a]
  have unknown: "\<exists>t. deletePcbCommand env s = Some (Returned 1, t) \<and> kernel_same s t"
    if "\<forall>p \<in> set (all_queued Q). pname (pcbs s) p \<noteq> l"
    using refuse [of "bytes ''A process with the given name was not found'' @ crlf"] kernel_same_trans [OF a(2)]
      first_named_none [OF assms(5)] that by (auto simp: deletePcbCommand_def a(1) nf)
  have known: "if cls (p_state (pcbs s p)) = 0 then \<exists>t. deletePcbCommand env s = Some (Returned 1, t) \<and> kernel_same s t
       else pstackseg (pcbs s p) \<in> live_ptrs s - set (all_queued Q) \<longrightarrow> heap_releasable2 (pstackseg (pcbs s p)) p s \<longrightarrow>
        (\<exists>t. deletePcbCommand env s = Some (Returned 0, t) \<and> procs_ok t (unplaced s p Q) \<and>
         live_ptrs t = live_ptrs s - {p, pstackseg (pcbs s p)} \<and> pcb_find (l @ [0]) t = Some NULL \<and>
         at_prompt t \<and> con_in t = rest)"
    if p: "p \<in> set (all_queued Q)" "pname (pcbs s) p = l" for p
  proof -
    note f = found_named [OF assms(5) p]
    have ap: "ask_process env (line ?m) s = Some (p, a)" using a(1) f(1) by simp
    have "\<exists>t. deletePcbCommand env s = Some (Returned 1, t) \<and> kernel_same s t" if "cls (p_state (pcbs s p)) = 0"
      using refuse [of "bytes ''Process is a system process, cannot be removed'' @ [0x0A]"] kernel_same_trans [OF a(2)]
        f(2) k that by (auto simp: deletePcbCommand_def ap)
    moreover have "\<exists>t. deletePcbCommand env s = Some (Returned 0, t) \<and> procs_ok t (unplaced s p Q) \<and>
         live_ptrs t = live_ptrs s - {p, pstackseg (pcbs s p)} \<and> pcb_find (l @ [0]) t = Some NULL \<and>
         at_prompt t \<and> con_in t = rest"
      if st: "pstackseg (pcbs s p) \<in> live_ptrs s - set (all_queued Q)" "heap_releasable2 (pstackseg (pcbs s p)) p s"
        and user: "cls (p_state (pcbs s p)) \<noteq> 0"
    proof -
      have "p \<in> set (Q (sel a p))" using f(3) k by simp
      moreover have "pstackseg (pcbs a p) \<in> live_ptrs a" "pstackseg (pcbs a p) \<notin> set (all_queued Q)"
        "heap_releasable2 (pstackseg (pcbs a p)) p a"
        using st k kernel_same_heap [OF a(2)] by simp_all
      ultimately obtain t u where t: "pcb_remove p a = Some (0, t)" "pcb_free p t = Some (0, u)"
        "procs_ok u (unplaced a p Q)" "live_ptrs u = live_ptrs a - {p, pstackseg (pcbs a p)}"
        "\<forall>x. x \<noteq> p \<longrightarrow> p_name (pcbs u x) = p_name (pcbs a x) \<and> p_state (pcbs u x) = p_state (pcbs a x)"
        using process_delete_lemma [OF ok] by blast
      have "queues_rel a Q" using ok by (simp add: procs_ok_def)
      from pcb_remove_rel [where Q = Q, OF this \<open>p \<in> set (Q (sel a p))\<close>] t(1) have lt: "links_only a t" by auto
      have "heap_ok t" using ok links_only_frame(5) [OF lt] by (simp add: procs_ok_def)
      note con = pcb_free_con [OF this t(2)] links_con [OF lt]
      have Q: "unplaced a p Q = unplaced s p Q" using k by (simp add: unplaced_def)
      have "pcb_find (l @ [0]) u = Some NULL"
        by (rule name_free [OF assms(5) p]) (use t(3,5) Q k nz in simp_all)
      then show ?thesis
        using user f(2) k t a(3,4) con Q kernel_same_heap(3) [OF a(2)]
        by (simp add: deletePcbCommand_def ap at_prompt_def)
    qed
    ultimately show ?thesis by simp
  qed
  show ?thesis using unknown known by blast
qed

theorem delete_command_witness:
  "\<exists>(s :: con) t. procs_ok s demo_Q \<and> deletePcbCommand id s = Some (Returned 0, t) \<and> procs_ok t (\<lambda>_. []) \<and>
    live_ptrs t = {} \<and> pcb_find (bytes ''init'' @ [0]) t = Some NULL"
proof -
  obtain s :: con where s: "procs_ok s demo_Q" "at_prompt s" "con_in s = [answered (bytes ''init'')]"
    "pname (pcbs s) 0xD00000C = bytes ''init''"
    "p_state (pcbs s 0xD00000C) = \<lparr>exec = PCB_EXEC_READY, dpatch = PCB_DPATCH_ACTIVE, cls = 1, pri = 3\<rparr>"
    "pstackseg (pcbs s 0xD00000C) = 0xD000068" "heap_rel s demo_blocks"
    using demo_console by blast
  have ty: "typed (bytes ''init'')" by (simp add: typed_def bytes_def USER_INPUT_SZ_def)
  have live: "live_ptrs s = {0xD00000C, 0xD000068}" by (auto simp: live_ptrs_rel [OF s(7)])
  have "heap_releasable2 0xD000068 0xD00000C s"
    unfolding heap_releasable2_def
    by (rule exI [of _ demo_blocks]) (simp add: s(7) free_safe_def a_free_def ends_free_def)
  moreover have "unplaced s 0xD00000C demo_Q = (\<lambda>_. [])"
    using s(5) by (simp add: unplaced_def PSTATE_QUEUE_SELECTOR_def)
  ultimately show ?thesis
    using delete_command [OF quiescent_id(1) s(2,3) ty s(1)] s(1,4,5,6) by (auto simp: live)
qed

section \<open>Changing a priority\<close>

text \<open>
  Lines that are answered with another question: an empty one, one that is longer than a name, and
  one that names no process. A line of 63 characters overruns the array of the name.
\<close>

definition wrong_name :: "'a procs_scheme \<Rightarrow> (nat \<Rightarrow> addr list) \<Rightarrow> u8 list \<Rightarrow> bool" where
  "wrong_name s Q l \<longleftrightarrow> typed l \<and> length l \<noteq> 63 \<and>
     (l = [] \<or> 63 < length l \<or> (\<forall>p \<in> set (all_queued Q). pname (pcbs s) p \<noteq> l))"

definition name_reply :: "u8 list \<Rightarrow> u8 list" where
  "name_reply l = color_bytes Red @
     (if l = [] \<or> 63 < length l then bytes ''A process with the given name was not found'' @ crlf
      else bytes ''Process name does not exist.'' @ crlf)"

abbreviation name_question :: "u8 list" where
  "name_question \<equiv> asked (bytes ''Enter the name of an existing process to change its priority:'' @ crlf)"

lemma put_not_found [simp]:
  "put env not_found s = Some (env (emit (bytes ''A process with the given name was not found'' @ crlf) s))"
  by (simp add: not_found_def)

lemma copied_name:
  assumes "length l < 63" and "length l < USER_INPUT_SZ"
  shows "memcpy (replicate 63 0) (l @ 0 # replicate (USER_INPUT_SZ - 1 - length l) 0) (length l + 1) =
    Some (l @ 0 # replicate (62 - length l) 0)"
  using assms by (subst memcpy_eq) simp_all

lemma ask_existing_good:
  assumes env: "quiescent env" and s: "at_prompt s" "con_in s = answered l # rest" and l: "typed l" "l \<noteq> []" "length l < 63"
    and ok: "procs_ok s Q" and p: "p \<in> set (all_queued Q)" "pname (pcbs s) p = l"
  shows "\<exists>t. ask_existing env s = Some (p, t) \<and> kernel_same s t \<and> at_prompt t \<and> con_in t = rest \<and>
    con_out t = con_out s @ name_question"
proof -
  let ?m = "''Enter the name of an existing process to change its priority:''"
  let ?s = "env (emit (color_bytes White) (env (emit (bytes ?m @ crlf) (env (emit (color_bytes Yellow) s)))))"
  obtain u where u: "user_input_promptread env ?s = Some u" "kernel_same s u" "con_in u = rest"
    "con_out u = con_out s @ name_question" "user_input_len u = int (length l)"
    "user_input u = l @ 0 # replicate (USER_INPUT_SZ - 1 - length l) 0"
    using prompt_ok [OF env s l(1)] by blast
  obtain t where t: "user_input_clear u = Some t" "at_prompt t" "con_in t = con_in u" "con_out t = con_out u"
    "kernel_same u t"
    using line_cleared [OF l(1) u(6,5)] by blast
  have len: "length l < USER_INPUT_SZ" "0 \<notin> set l" using l(1) by (simp_all add: typed_def)
  note f = found_named(1,2) [OF ok p]
  have "ask_existing env s = Some (p, t)"
    unfolding ask_existing.simps [of env s] setTerminalColor_eq put_line bind.bind_lunit u(1) Let_def u(5,6) nat_int
    using l(2,3) f by (simp add: copied_name [OF l(3) len(1), simplified] find_named [OF ok u(2) len(2)] t(1))
  then show ?thesis using t u(3,4) kernel_same_trans [OF u(2) t(5)] by simp
qed

lemma ask_existing_bad:
  assumes env: "quiescent env" and s: "at_prompt s" "con_in s = answered l # rest" and l: "wrong_name s Q l"
    and ok: "procs_ok s Q"
  shows "\<exists>t. ask_existing env s = ask_existing env t \<and> kernel_same s t \<and> at_prompt t \<and> con_in t = rest \<and>
    con_out t = con_out s @ name_question @ name_reply l"
proof -
  let ?m = "''Enter the name of an existing process to change its priority:''"
  let ?s = "env (emit (color_bytes White) (env (emit (bytes ?m @ crlf) (env (emit (color_bytes Yellow) s)))))"
  have ty: "typed l" and n63: "length l \<noteq> 63" using l by (simp_all add: wrong_name_def)
  obtain u where u: "user_input_promptread env ?s = Some u" "kernel_same s u" "con_in u = rest"
    "con_out u = con_out s @ name_question" "user_input_len u = int (length l)"
    "user_input u = l @ 0 # replicate (USER_INPUT_SZ - 1 - length l) 0"
    using prompt_ok [OF env s ty] by blast
  obtain t where t: "user_input_clear u = Some t" "at_prompt t" "con_in t = con_in u" "con_out t = con_out u"
    "kernel_same u t"
    using line_cleared [OF ty u(6,5)] by blast
  have len: "length l < USER_INPUT_SZ" "0 \<notin> set l" using ty by (simp_all add: typed_def)
  let ?text = "if l = [] \<or> 63 < length l then bytes ''A process with the given name was not found'' @ crlf
      else bytes ''Process name does not exist.'' @ crlf"
  let ?t = "env (emit ?text (env (emit (color_bytes Red) t)))"
  have "ask_existing env s = ask_existing env ?t"
  proof (cases "l = [] \<or> 63 < length l")
    case True
    then have c: "(0 < length l \<and> length l \<le> 63) = False" by auto
    show ?thesis
      unfolding ask_existing.simps [of env s] setTerminalColor_eq put_line bind.bind_lunit u(1) Let_def u(5) nat_int c
      using True by (simp add: t(1))
  next
    case False
    then have l63: "length l < 63" "0 < length l \<and> length l \<le> 63" using n63 by auto
    have "first_named (pcbs s) l (all_queued Q) = NULL"
      using l False first_named_none [OF ok] by (auto simp: wrong_name_def)
    then show ?thesis
      unfolding ask_existing.simps [of env s] setTerminalColor_eq put_line bind.bind_lunit u(1) Let_def u(5,6) nat_int
      using False l63 by (simp add: copied_name [OF l63(1) len(1), simplified] find_named [OF ok u(2) len(2)] t(1))
  qed
  moreover have "kernel_same s ?t" using kernel_same_trans [OF u(2) t(5)] env by simp
  moreover have "con_out ?t = con_out s @ name_question @ name_reply l"
    using env t(4) u(4) by (simp add: name_reply_def)
  moreover have "at_prompt ?t" "con_in ?t = rest" using env t(2,3) u(3) by (simp_all add: at_prompt_def)
  ultimately show ?thesis by blast
qed

lemma wrong_name_same: "kernel_same s t \<Longrightarrow> wrong_name t Q l = wrong_name s Q l"
  by (simp add: wrong_name_def kernel_same_def)

lemma ask_existing_ok:
  assumes env: "quiescent env" and l: "typed l" "l \<noteq> []" "length l < 63"
  shows "at_prompt s \<Longrightarrow> con_in s = map answered (bad @ [l]) @ rest \<Longrightarrow> procs_ok s Q \<Longrightarrow> \<forall>b \<in> set bad. wrong_name s Q b \<Longrightarrow>
    p \<in> set (all_queued Q) \<Longrightarrow> pname (pcbs s) p = l \<Longrightarrow>
    \<exists>t. ask_existing env s = Some (p, t) \<and> kernel_same s t \<and> at_prompt t \<and> con_in t = rest \<and>
      con_out t = con_out s @ concat (map (\<lambda>b. name_question @ name_reply b) bad) @ name_question"
proof (induction bad arbitrary: s)
  case Nil
  then show ?case using ask_existing_good [OF env, of s l rest Q p] l by simp
next
  case (Cons b bs)
  have "con_in s = answered b # map answered (bs @ [l]) @ rest" using Cons.prems(2) by simp
  then obtain u where u: "ask_existing env s = ask_existing env u" "kernel_same s u" "at_prompt u"
    "con_in u = map answered (bs @ [l]) @ rest" "con_out u = con_out s @ name_question @ name_reply b"
    using ask_existing_bad [OF env Cons.prems(1)] Cons.prems(3,4) by (metis list.set_intros(1))
  have "procs_ok u Q" "pcbs u = pcbs s"
    using Cons.prems(3) kernel_same_procs(3) [OF u(2)] u(2) by (simp_all add: kernel_same_def)
  then obtain t where t: "ask_existing env u = Some (p, t)" "kernel_same u t" "at_prompt t" "con_in t = rest"
    "con_out t = con_out u @ concat (map (\<lambda>b. name_question @ name_reply b) bs) @ name_question"
    using Cons.IH [OF u(3,4)] Cons.prems(4-6) wrong_name_same [OF u(2)] by auto
  then show ?case using u(1,5) kernel_same_trans [OF u(2) t(2)] by simp
qed

text \<open>A good priority is one digit; any other line is answered with the question again.\<close>

abbreviation priority_question :: "u8 list" where
  "priority_question \<equiv> asked (bytes ''Enter process priority (0-9):'' @ crlf)"

definition priority_reply :: "u8 list" where
  "priority_reply = color_bytes Red @ bytes ''Priority is not in the accepted range.'' @ crlf"

definition one_digit :: "u8 list \<Rightarrow> bool" where
  "one_digit l \<longleftrightarrow> length l = 1 \<and> digit (hd l)"

lemma parsed_priority:
  assumes "length l < USER_INPUT_SZ"
  shows "(if int (length l) = 1 then intParsable (l @ 0 # pad) 1 else Some False) = Some (one_digit l)"
  by (cases l) (auto simp: one_digit_def intParsable_eq)

lemma read_priority:
  assumes "digit c"
  shows "map_option ucast (atoi ([c] @ 0 # pad)) = Some (c - 0x30 :: u8)" "c - 0x30 \<le> 9"
proof -
  have c: "0x30 \<le> c" "unat c \<le> 57" using assms by (simp_all add: digit_def word_le_nat_alt)
  have u: "unat (ucast c :: u32) = unat c" by (simp add: unsigned_ucast_eq take_bit_nat_eq_self u8_lt_256 order.strict_trans [OF u8_lt_256])
  have "unat (ucast c - 0x30 :: u32) = unat c - 48"
    using c(1) u by (subst unat_sub) (simp_all add: word_le_nat_alt)
  then have "(ucast (ucast c - 0x30 :: u32) :: u8) = c - 0x30"
    using c by (simp add: word_unat_eq_iff unsigned_ucast_eq unat_sub take_bit_nat_eq_self)
  then show "map_option ucast (atoi ([c] @ 0 # pad)) = Some (c - 0x30 :: u8)"
    using assms atoi_typed [of "[c]" pad] by simp
  show "c - 0x30 \<le> 9" using c by (simp add: word_le_nat_alt unat_sub)
qed

lemma ask_priority_bad:
  assumes env: "quiescent env" and s: "at_prompt s" "con_in s = answered l # rest" and l: "typed l" "\<not> one_digit l"
  shows "\<exists>t. ask_priority env p s = ask_priority env p t \<and> kernel_same s t \<and> at_prompt t \<and> con_in t = rest \<and>
    con_out t = con_out s @ priority_question @ priority_reply"
proof -
  let ?m = "''Enter process priority (0-9):''"
  let ?s = "env (emit (color_bytes White) (env (emit (bytes ?m @ crlf) (env (emit (color_bytes Yellow) s)))))"
  obtain u where u: "user_input_promptread env ?s = Some u" "kernel_same s u" "con_in u = rest"
    "con_out u = con_out s @ priority_question" "user_input_len u = int (length l)"
    "user_input u = l @ 0 # replicate (USER_INPUT_SZ - 1 - length l) 0"
    using prompt_ok [OF env s l(1)] by blast
  obtain t where t: "user_input_clear u = Some t" "at_prompt t" "con_in t = con_in u" "con_out t = con_out u"
    "kernel_same u t"
    using line_cleared [OF l(1) u(6,5)] by blast
  let ?t = "env (emit (bytes ''Priority is not in the accepted range.'' @ crlf) (env (emit (color_bytes Red) t)))"
  have len: "length l < USER_INPUT_SZ" using l(1) by (simp add: typed_def)
  have "ask_priority env p s = ask_priority env p ?t"
    unfolding ask_priority.simps [of env p s] setTerminalColor_eq put_line bind.bind_lunit u(1) u(5,6)
      parsed_priority [OF len]
    using l(2) by (simp add: t(1))
  moreover have "kernel_same s ?t" using kernel_same_trans [OF u(2) t(5)] env by simp
  moreover have "con_out ?t = con_out s @ priority_question @ priority_reply"
    using env t(4) u(4) by (simp add: priority_reply_def)
  moreover have "at_prompt ?t" "con_in ?t = rest" using env t(2,3) u(3) by (simp_all add: at_prompt_def)
  ultimately show ?thesis by blast
qed

definition with_priority :: "pcb_state \<Rightarrow> u8 \<Rightarrow> pcb_state" where
  "with_priority st c = st\<lparr>pri := ucast (c - 0x30)\<rparr>"

lemma ask_priority_good:
  assumes env: "quiescent env" and s: "at_prompt s" "con_in s = answered [c] # rest" and c: "typed [c]" "digit c"
    and ok: "procs_ok s Q" and p: "p \<in> set (all_queued Q)"
  shows "\<exists>t. ask_priority env p s = Some t \<and> at_prompt t \<and> con_in t = rest \<and> con_out t = con_out s @ priority_question \<and>
    procs_ok t (requeued s p (with_priority (p_state (pcbs s p)) c) Q) \<and>
    p_state (pcbs t p) = with_priority (p_state (pcbs s p)) c \<and>
    (\<forall>x. x \<noteq> p \<longrightarrow> p_state (pcbs t x) = p_state (pcbs s x))"
proof -
  let ?m = "''Enter process priority (0-9):''"
  let ?s = "env (emit (color_bytes White) (env (emit (bytes ?m @ crlf) (env (emit (color_bytes Yellow) s)))))"
  obtain u where u: "user_input_promptread env ?s = Some u" "kernel_same s u" "con_in u = rest"
    "con_out u = con_out s @ priority_question" "user_input_len u = int (length [c])"
    "user_input u = [c] @ 0 # replicate (USER_INPUT_SZ - 1 - length [c]) 0"
    using prompt_ok [OF env s c(1)] by blast
  obtain a v where v: "pcb_remove p u = Some (0, a)" "p_state (pcbs a p) = p_state (pcbs s p)"
    "pcb_insert p (set_p_state p (with_priority (p_state (pcbs s p)) c) a) = Some v"
    "procs_ok v (requeued s p (with_priority (p_state (pcbs s p)) c) Q)"
    "p_state (pcbs v p) = with_priority (p_state (pcbs s p)) c"
    "\<forall>x. x \<noteq> p \<longrightarrow> p_state (pcbs v x) = p_state (pcbs s x)" "con_in v = con_in u" "con_out v = con_out u"
    "user_input v = user_input u" "user_input_len v = user_input_len u"
    using requeue_to [OF u(2) ok p] by blast
  obtain t where t: "user_input_clear v = Some t" "at_prompt t" "con_in t = con_in v" "con_out t = con_out v"
    "kernel_same v t"
    using line_cleared [OF c(1)] u(5,6) v(9,10) by metis
  have sp: "set_pri p (c - 0x30) a = set_p_state p (with_priority (p_state (pcbs s p)) c) a"
    using v(2) by (simp add: set_pri_def with_priority_def)
  have len: "length [c] < USER_INPUT_SZ" using c(1) by (simp add: typed_def)
  have one: "one_digit [c]" using c(2) by (simp add: one_digit_def)
  have "ask_priority env p s = Some t"
    unfolding ask_priority.simps [of env p s] setTerminalColor_eq put_line bind.bind_lunit u(1) u(5,6)
      parsed_priority [OF len] read_priority(1) [OF c(2)]
    using one read_priority(2) [OF c(2)] by (simp add: v(1) sp v(3) t(1))
  moreover have "pcbs t = pcbs v" "procs_ok t Q' = procs_ok v Q'" for Q'
    using t(5) kernel_same_procs(3) [OF t(5)] by (simp_all add: kernel_same_def)
  ultimately show ?thesis using t(2-4) u(3,4) v(4-8) by simp
qed

lemma ask_priority_ok:
  assumes env: "quiescent env" and c: "digit c" and p: "p \<in> set (all_queued Q)"
  shows "at_prompt s \<Longrightarrow> con_in s = map answered (bad @ [[c]]) @ rest \<Longrightarrow> procs_ok s Q \<Longrightarrow>
    \<forall>b \<in> set bad. typed b \<and> \<not> one_digit b \<Longrightarrow>
    \<exists>t. ask_priority env p s = Some t \<and> at_prompt t \<and> con_in t = rest \<and>
      con_out t = con_out s @ concat (map (\<lambda>b. priority_question @ priority_reply) bad) @ priority_question \<and>
      procs_ok t (requeued s p (with_priority (p_state (pcbs s p)) c) Q) \<and>
      p_state (pcbs t p) = with_priority (p_state (pcbs s p)) c \<and>
      (\<forall>x. x \<noteq> p \<longrightarrow> p_state (pcbs t x) = p_state (pcbs s x))"
proof (induction bad arbitrary: s)
  case Nil
  have "typed [c]" using c by (auto simp: typed_def digit_def USER_INPUT_SZ_def)
  then show ?case using ask_priority_good [OF env, of s c rest Q p] Nil.prems c p by simp
next
  case (Cons b bs)
  have "con_in s = answered b # map answered (bs @ [[c]]) @ rest" "typed b" "\<not> one_digit b" using Cons.prems(2,4) by simp_all
  then obtain u where u: "ask_priority env p s = ask_priority env p u" "kernel_same s u" "at_prompt u"
    "con_in u = map answered (bs @ [[c]]) @ rest" "con_out u = con_out s @ priority_question @ priority_reply"
    using ask_priority_bad [OF env Cons.prems(1)] by metis
  have "procs_ok u Q" "pcbs u = pcbs s"
    using Cons.prems(3) kernel_same_procs(3) [OF u(2)] u(2) by (simp_all add: kernel_same_def)
  then show ?case
    using Cons.IH [OF u(3,4)] Cons.prems(4) u(1,5) requeued_same [of u s] by auto
qed

text \<open>
  C23: Changing a priority from the console. However many wrong names and then wrong priorities are
  typed, the questions are repeated; with the name of a queued process and one digit the process gets
  the digit as its priority and is queued again behind those of the same priority. The state of no other process
  changes and the invariant of the processes is kept.
\<close>

theorem set_priority_session:
  assumes "quiescent env" and "at_prompt s" and "procs_ok s Q"
    and "con_in s = map answered (wrong @ [l]) @ map answered (bad @ [[c]]) @ rest"
    and "\<forall>b \<in> set wrong. wrong_name s Q b" and "\<forall>b \<in> set bad. typed b \<and> \<not> one_digit b"
    and "typed l" "l \<noteq> []" "length l < 63" "p \<in> set (all_queued Q)" "pname (pcbs s) p = l" and "digit c"
  shows "\<exists>t. setPcbPriorityCommand env s = Some (Returned 0, t) \<and> at_prompt t \<and> con_in t = rest \<and>
    procs_ok t (requeued s p (with_priority (p_state (pcbs s p)) c) Q) \<and>
    p_state (pcbs t p) = with_priority (p_state (pcbs s p)) c \<and>
    (\<forall>x. x \<noteq> p \<longrightarrow> p_state (pcbs t x) = p_state (pcbs s x)) \<and>
    con_out t = con_out s @ concat (map (\<lambda>b. name_question @ name_reply b) wrong) @ name_question @
      concat (map (\<lambda>b. priority_question @ priority_reply) bad) @ priority_question"
proof -
  obtain u where u: "ask_existing env s = Some (p, u)" "kernel_same s u" "at_prompt u"
    "con_in u = map answered (bad @ [[c]]) @ rest"
    "con_out u = con_out s @ concat (map (\<lambda>b. name_question @ name_reply b) wrong) @ name_question"
    using ask_existing_ok [OF assms(1,7-9,2,4,3,5,10,11)] by blast
  have k: "procs_ok u Q" "pcbs u = pcbs s"
    using assms(3) kernel_same_procs(3) [OF u(2)] u(2) by (simp_all add: kernel_same_def)
  obtain t where t: "ask_priority env p u = Some t" "at_prompt t" "con_in t = rest"
    "con_out t = con_out u @ concat (map (\<lambda>b. priority_question @ priority_reply) bad) @ priority_question"
    "procs_ok t (requeued u p (with_priority (p_state (pcbs u p)) c) Q)"
    "p_state (pcbs t p) = with_priority (p_state (pcbs u p)) c"
    "\<forall>x. x \<noteq> p \<longrightarrow> p_state (pcbs t x) = p_state (pcbs u x)"
    using ask_priority_ok [OF assms(1,12,10) u(3,4) k(1) assms(6)] by blast
  have "setPcbPriorityCommand env s = Some (Returned 0, t)" by (simp add: setPcbPriorityCommand_def u(1) t(1))
  then show ?thesis using t u(5) k(2) requeued_same [OF k(2)] by simp
qed

theorem set_priority_session_witness:
  "\<exists>(s :: con) t. procs_ok s demo_Q \<and> setPcbPriorityCommand id s = Some (Returned 0, t) \<and> procs_ok t demo_Q \<and>
    p_state (pcbs t 0xD00000C) = \<lparr>exec = PCB_EXEC_READY, dpatch = PCB_DPATCH_ACTIVE, cls = 1, pri = 7\<rparr>"
proof -
  obtain s :: con where s: "procs_ok s demo_Q" "at_prompt s"
    "con_in s = [answered [], answered (bytes ''init''), answered (bytes ''12''), answered (bytes ''7'')]"
    "pname (pcbs s) 0xD00000C = bytes ''init''"
    "p_state (pcbs s 0xD00000C) = \<lparr>exec = PCB_EXEC_READY, dpatch = PCB_DPATCH_ACTIVE, cls = 1, pri = 3\<rparr>"
    using demo_console by blast
  have ty: "typed []" "typed (bytes ''init'')" "typed (bytes ''12'')" by (simp_all add: typed_def bytes_def USER_INPUT_SZ_def)
  have "con_in s = map answered ([[]] @ [bytes ''init'']) @ map answered ([bytes ''12''] @ [[0x37]]) @ []"
    by (simp add: s(3) bytes_def)
  moreover have "wrong_name s demo_Q []" using ty(1) by (simp add: wrong_name_def)
  moreover have "\<not> one_digit (bytes ''12'')" "digit 0x37" by (simp_all add: one_digit_def digit_def bytes_def)
  moreover have "requeued s 0xD00000C (with_priority (p_state (pcbs s 0xD00000C)) 0x37) demo_Q = demo_Q"
    using s(5) by (simp add: requeued_def placed_def place_def unplaced_def set_p_state_def with_priority_def demo_Q_def
        PSTATE_QUEUE_SELECTOR_def fun_eq_iff)
  ultimately show ?thesis
    using set_priority_session [OF quiescent_id(1) s(2,1), of "[[]]" "bytes ''init''" "[bytes ''12'']" "0x37" "[]" "0xD00000C"]
      s(1,4,5) ty by (auto simp: bytes_def with_priority_def)
qed

end
