(* ===== verification/Alarm_Claims.thy ===== *)
theory Alarm_Claims
  imports Proc_Console
begin

text \<open>
  Setting an alarm from the console: the name that the alarm process gets, and what the
  command leaves in memory for \<^verbatim>\<open>alarmProcess\<close>.
\<close>

section \<open>The name of the process\<close>

definition alarm_name :: "nat \<Rightarrow> u8 list" where
  "alarm_name i = bytes ''timer_'' @ decimal i"

definition name_in_use :: "'a procs_scheme \<Rightarrow> (nat \<Rightarrow> addr list) \<Rightarrow> u8 list \<Rightarrow> bool" where
  "name_in_use s Q l \<longleftrightarrow> (\<exists>p \<in> set (all_queued Q). pname (pcbs s) p = l)"

lemma decimal_short: "i < 256 \<Longrightarrow> length (decimal i) \<le> 3"
  by (intro decimal_bounded) simp_all

lemma find_in_use:
  assumes ok: "procs_ok s Q" and nz: "0 \<notin> set l"
  shows "\<exists>p. pcb_find (l @ 0 # pad) s = Some p \<and> (p = NULL \<longleftrightarrow> \<not> name_in_use s Q l)"
proof (cases "name_in_use s Q l")
  case True
  then obtain p where p: "p \<in> set (all_queued Q)" "pname (pcbs s) p = l" by (auto simp: name_in_use_def)
  then show ?thesis
    using found_named(1,2) [OF ok p] find_named [OF ok kernel_same_refl nz, of pad] True by auto
next
  case False
  then show ?thesis
    using first_named_none [OF ok, of l] find_named [OF ok kernel_same_refl nz, of pad] by (auto simp: name_in_use_def)
qed

lemma timer_step:
  assumes ok: "procs_ok s Q" and i: "i < 256"
  shows "timer_name (Suc k) i (bytes ''timer_'' @ replicate 58 0) s =
    (if name_in_use s Q (alarm_name i) then timer_name k (Suc i) (bytes ''timer_'' @ replicate 58 0) s
     else Some (alarm_name i @ 0 # replicate (57 - length (decimal i)) 0))"
proof -
  let ?pad = "replicate (57 - length (decimal i)) (0 :: u8)"
  have six: "drop 6 (bytes ''timer_'' @ xs) = xs" "take 6 (bytes ''timer_'' @ xs) = bytes ''timer_''" for xs
    by (simp_all add: bytes_def)
  have len: "length (decimal i) \<le> 3" by (rule decimal_short [OF i])
  then have it: "itoa (replicate 58 0) (int i) = Some (decimal i @ 0 # ?pad)"
    using itoa_nat [of i "replicate 58 0"] i by simp
  have nz: "0 \<notin> set (alarm_name i)" using decimal_nonzero by (simp add: alarm_name_def bytes_def)
  obtain p where p: "pcb_find (alarm_name i @ 0 # ?pad) s = Some p" "p = NULL \<longleftrightarrow> \<not> name_in_use s Q (alarm_name i)"
    using find_in_use [OF ok nz] by blast
  have zero: "cchars (decimal i @ 0 # ?pad) = decimal i" by (rule cchars_prefix [OF decimal_nonzero])
  have sl: "strlen (decimal i @ 0 # ?pad) = Some (length (decimal i))"
    using strlen_eq [of "decimal i @ 0 # ?pad"] by (simp add: zero)
  have "replicate (length (decimal i)) 0 @ 0 # ?pad = replicate 58 (0 :: u8)"
    using len by (simp flip: replicate_Suc replicate_add)
  then have ms: "memset (decimal i @ 0 # ?pad) 0 (length (decimal i)) = Some (replicate 58 0)"
    by (subst memset_eq) simp_all
  have nm: "bytes ''timer_'' @ decimal i @ 0 # ?pad = alarm_name i @ 0 # ?pad" by (simp add: alarm_name_def)
  show ?thesis
    unfolding timer_name.simps six it bind.bind_lunit Let_def nm p(1)
    using p(2) sl ms by (simp add: nm [symmetric] six)
qed

lemma timer_name_ok:
  assumes ok: "procs_ok s Q"
  shows "i + d < 256 \<Longrightarrow> \<forall>j < d. name_in_use s Q (alarm_name (i + j)) \<Longrightarrow> \<not> name_in_use s Q (alarm_name (i + d)) \<Longrightarrow>
    timer_name (Suc d + m) i (bytes ''timer_'' @ replicate 58 0) s =
      Some (alarm_name (i + d) @ 0 # replicate (57 - length (decimal (i + d))) 0)"
proof (induction d arbitrary: i)
  case 0
  then show ?case using timer_step [OF ok, of i m] by simp
next
  case (Suc d)
  have "name_in_use s Q (alarm_name i)" using Suc.prems(2) by fastforce
  then have "timer_name (Suc (Suc d + m)) i (bytes ''timer_'' @ replicate 58 0) s =
      timer_name (Suc d + m) (Suc i) (bytes ''timer_'' @ replicate 58 0) s"
    using timer_step [OF ok, of i "Suc d + m"] Suc.prems(1) by simp
  moreover have "\<forall>j < d. name_in_use s Q (alarm_name (Suc i + j))" using Suc.prems(2) by fastforce
  ultimately show ?case using Suc.IH [of "Suc i"] Suc.prems(1,3) by simp
qed

lemma timer_name_first:
  assumes "procs_ok s Q" and "k < 256" and "\<forall>j < k. name_in_use s Q (alarm_name j)" and "\<not> name_in_use s Q (alarm_name k)"
  shows "timer_name 256 0 (bytes ''timer_'' @ replicate 58 0) s =
    Some (alarm_name k @ 0 # replicate (57 - length (decimal k)) 0)"
proof -
  have "256 = Suc k + (255 - k)" using assms(2) by simp
  then show ?thesis using timer_name_ok [OF assms(1), of 0 k "255 - k"] assms(2-4) by simp
qed

section \<open>A block of the heap\<close>

lemma alloc_keeps_procs:
  assumes ok: "procs_ok s Q" and heap: "heap_rel s bs" "stack_like bs" "unat n + 12 < room_left bs"
  shows "\<exists>m t. sys_alloc_mem n s = Some (m, t) \<and> procs_ok t Q \<and> heap_rel t (snd (a_alloc n bs)) \<and> heap_touch s t \<and>
    m \<noteq> NULL \<and> m \<in> live_ptrs t \<and> unat m + unat n < 2 ^ 32 \<and>
    unat (fst (last (snd (a_alloc n bs)))) = unat m + unat n"
proof -
  have hk: "heap_ok s" using ok by (simp add: procs_ok_def)
  note a = a_alloc_stack [OF heap(2,3)]
  have "heap_room n s" using heap(1) a(3-5) by (auto simp: heap_room_def)
  then obtain m t where t: "sys_alloc_mem n s = Some (m, t)" "m \<noteq> NULL" "live_ptrs t = insert m (live_ptrs s)" "heap_ok t"
    using heap.malloc_fresh [OF hk] by blast
  note r = sys_alloc_rel [OF hk heap t(1)]
  have pc: "pcbs t = pcbs s" "pcb_queues t = pcb_queues s" using touch_procs [OF r(3)] by simp_all
  have "queues_rel t Q = queues_rel s Q" by (rule queues_rel_cong) (simp_all add: pc)
  then have "procs_ok t Q" using ok t(3,4) by (auto simp: procs_ok_def named_iff pc)
  then show ?thesis using t r(1,3,4,6) by blast
qed

lemma ram_procs [simp]: "procs_ok (s\<lparr>ram := m\<rparr>) Q = procs_ok s Q" "heap_rel (s\<lparr>ram := m\<rparr>) bs = heap_rel s bs"
  by (simp_all add: procs_ok_def queues_rel_def named_def heap_ok_def heap_rel_def live_ptrs_def)

section \<open>The process\<close>

definition params_at :: "(addr \<Rightarrow> u8) \<Rightarrow> addr \<Rightarrow> alarmProcessParams \<Rightarrow> bool" where
  "params_at m a args \<longleftrightarrow> (\<forall>i < 16. m (a + of_nat i) = alarm_bytes args ! i)"

lemma length_alarm_bytes [simp]: "length (alarm_bytes args) = 16"
  by (simp add: alarm_bytes_def le_bytes_def)

text \<open>
  The alarm process as the command starts it: its parameters are 4 bytes above its stack pointer.
\<close>

definition alarm_started :: "image \<Rightarrow> 'a procs_scheme \<Rightarrow> addr \<Rightarrow> u8 list \<Rightarrow> alarmProcessParams \<Rightarrow> bool" where
  "alarm_started img s p nm args \<longleftrightarrow> started_at 4012 s p nm PCB_CLASS_USER 0 (code_addr img Alarm_Process) \<and>
     params_at (ram s) (c_esp (ctxts s (pctxt (pcbs s p))) + 4) args"

lemma start_alarm:
  assumes ok: "procs_ok s Q" and hr: "heap_rel s bs" "stack_like bs" "4300 < room_left bs"
    and nm: "0 \<notin> set l" "length l < 64" "\<not> name_in_use s Q l"
  shows "\<exists>p t u v. pcb_setup (l @ 0 # pad) PCB_CLASS_USER 0 s = Some (p, t) \<and>
    pcb_context_init p (code_addr img Alarm_Process) (Some (alarm_bytes args)) 16 t = Some u \<and> pcb_insert p u = Some v \<and>
    procs_ok v (Q(0 := takeWhile (\<lambda>y. prio (pcbs s) y \<le> 0) (Q 0) @ p # dropWhile (\<lambda>y. prio (pcbs s) y \<le> 0) (Q 0))) \<and>
    start_only s v \<and> p \<notin> live_ptrs s \<and> live_ptrs s \<subseteq> live_ptrs v \<and> (\<exists>bs'. heap_rel v bs' \<and> stack_like bs') \<and>
    alarm_started img v p l args \<and> (\<forall>x \<in> set (all_queued Q). p_state (pcbs v x) = p_state (pcbs s x)) \<and>
    (\<forall>x. unat x \<le> unat (fst (last bs)) \<longrightarrow> ram v x = ram s x)"
proof -
  let ?args = "alarm_bytes args"
  have cl: "PCB_CLASS_USER = PCB_CLASS_USER \<or> PCB_CLASS_USER = PCB_CLASS_SYSTEM" "(0 :: u8) \<le> 9" by simp_all
  have name: "0 \<in> set (l @ 0 # pad)" "cchars (l @ 0 # pad) = l" using nm(1) by (simp_all add: cchars_prefix)
  have fresh: "length (cchars (l @ 0 # pad)) < 64" "\<forall>x \<in> set (all_queued Q). pname (pcbs s) x \<noteq> cchars (l @ 0 # pad)"
    using nm(2,3) name(2) by (simp_all add: name_in_use_def)
  have init: "\<exists>u. pcb_context_init p (code_addr img Alarm_Process) (Some ?args) 16 t = Some u \<and>
      context_written 4012 (\<lambda>q. store_bytes (q + 4080) ?args) stack p (code_addr img Alarm_Process) t u"
    if "p \<noteq> NULL" "pctxt (pcbs t p) = stack + 4095" for p stack and t :: "'a procs_scheme"
    using context_init_args [OF that, of ?args "code_addr img Alarm_Process"] by (simp add: algebra_simps)
  obtain p t u v bs' where v: "pcb_setup (l @ 0 # pad) PCB_CLASS_USER 0 s = Some (p, t)"
    "pcb_context_init p (code_addr img Alarm_Process) (Some ?args) 16 t = Some u" "pcb_insert p u = Some v"
    "procs_ok v (placed v p Q)" "heap_rel v bs'" "stack_like bs'" "start_only s v" "p \<notin> live_ptrs s"
    "started_at 4012 v p l PCB_CLASS_USER 0 (code_addr img Alarm_Process)"
    "\<forall>x \<in> set (all_queued Q). p_state (pcbs v x) = p_state (pcbs s x)"
    "live_ptrs v = insert (pstackseg (pcbs v p)) (insert p (live_ptrs s))"
    "ram v = store_bytes (pstackseg (pcbs v p) + 4080) ?args (store_bytes (pstackseg (pcbs v p)) (replicate 4096 0) (ram s))"
    "unat (fst (last bs)) < unat (pstackseg (pcbs v p))" "unat (pstackseg (pcbs v p)) + 4096 < 2 ^ 32"
    using start_process_with [OF init _ ok hr name(1) fresh cl] unfolding name(2) by simp blast
  let ?q = "pstackseg (pcbs v p)"
  have st: "p_state (pcbs v p) = \<lparr>exec = PCB_EXEC_READY, dpatch = PCB_DPATCH_ACTIVE, cls = 1, pri = 0\<rparr>"
    and c: "pctxt (pcbs v p) = ?q + 4012" "c_esp (ctxts v (pctxt (pcbs v p))) = pctxt (pcbs v p) + 64"
    using v(9) unfolding started_at_def by (simp, blast, blast)
  have ctx: "c_esp (ctxts v (pctxt (pcbs v p))) + 4 = ?q + 4080"
    unfolding c(2) by (simp add: c(1))
  have sel: "sel v p = 0" "prio (pcbs v) p = 0" by (simp_all add: st PSTATE_QUEUE_SELECTOR_def)
  have same: "prio (pcbs v) x = prio (pcbs s) x" if "x \<in> set (Q 0)" for x
    using v(10) that by (auto simp: all_queued_def)
  have "placed v p Q = Q(0 := takeWhile (\<lambda>y. prio (pcbs s) y \<le> 0) (Q 0) @ p # dropWhile (\<lambda>y. prio (pcbs s) y \<le> 0) (Q 0))"
    using same takeWhile_cong [of "Q 0" "Q 0" "\<lambda>y. prio (pcbs v) y \<le> 0" "\<lambda>y. prio (pcbs s) y \<le> 0"]
      dropWhile_cong [of "Q 0" "Q 0" "\<lambda>y. prio (pcbs v) y \<le> 0" "\<lambda>y. prio (pcbs s) y \<le> 0"]
    by (simp add: placed_def sel place_def)
  moreover have "params_at (ram v) (c_esp (ctxts v (pctxt (pcbs v p))) + 4) args"
    unfolding params_at_def ctx v(12)
    using store_bytes_in [of _ ?args "?q + 4080"] by simp
  moreover have "ram v x = ram s x" if x: "unat x \<le> unat (fst (last bs))" for x
  proof -
    have "unat (?q + 4080) = unat ?q + 4080" using v(14) by (simp add: unat_simps)
    then show ?thesis using x v(13,14) by (simp add: v(12) store_bytes_out)
  qed
  moreover have "live_ptrs s \<subseteq> live_ptrs v" using v(11) by auto
  ultimately show ?thesis using v by (auto simp: alarm_started_def)
qed

lemma kernel_same_alarm:
  assumes "kernel_same s t"
  shows "alarm_started img t p nm args = alarm_started img s p nm args" "name_in_use t Q l = name_in_use s Q l"
  using assms kernel_same_heap(3) [OF assms]
  by (simp_all add: alarm_started_def started_at_def name_in_use_def kernel_same_def)

section \<open>The command\<close>

lemma start_only_con:
  "start_only s t \<Longrightarrow> con_in t = con_in s \<and> con_out t = con_out s \<and> user_input t = user_input s \<and>
    user_input_len t = user_input_len s"
  by (cases s; cases t) (simp add: start_only_def)

lemma message_stored:
  assumes "m \<noteq> NULL" and "unat m + length l < 2 ^ 32" and "0 \<notin> set l"
    and mem: "\<forall>x. unat x \<le> unat m + length l \<longrightarrow> r x = store_bytes m l r0 x"
  shows "holds_text m l r \<longleftrightarrow> r0 (m + of_nat (length l)) = 0"
proof -
  have u: "unat (m + of_nat i) = unat m + i" if "i \<le> length l" for i
    using that assms(2) by (simp add: unat_simps unat_of_nat)
  have "r (m + of_nat i) = l ! i" if "i < length l" for i
    using mem u [of i] that store_bytes_in [of i l m r0] assms(2) by simp
  moreover have "r (m + of_nat (length l)) = r0 (m + of_nat (length l))"
    using mem u [of "length l"] assms(2) by (simp add: store_bytes_out)
  ultimately show ?thesis using assms(3) by (simp add: holds_text_def)
qed

lemma alarm_session_lemma:
  assumes env: "quiescent env" and s: "at_prompt s" and ok: "procs_ok s Q"
    and inp: "con_in s = map answered (bh @ [h]) @ map answered (bm @ [m]) @ map answered (bs @ [sc]) @ answered l # rest"
    and bad: "\<forall>l \<in> set bh. typed l \<and> \<not> accepted (below 24) l"
      "\<forall>l \<in> set bm. typed l \<and> \<not> accepted (below 60) l" "\<forall>l \<in> set bs. typed l \<and> \<not> accepted (below 60) l"
    and good: "typed h" "accepted (below 24) h" "typed m" "accepted (below 60) m" "typed sc" "accepted (below 60) sc"
    and l: "typed l" and heap: "heap_rel s bl" "stack_like bl" "length l + 4400 < room_left bl"
    and k: "k < 256" "\<forall>j < k. name_in_use s Q (alarm_name j)" "\<not> name_in_use s Q (alarm_name k)"
    and args: "args = \<lparr>a_hours = value_of h, a_minutes = value_of m, a_seconds = value_of sc, a_msg = fst (last bl) + 12\<rparr>"
  shows "\<exists>t p. alarmCommand img env s = Some (Returned 0, t) \<and> at_prompt t \<and> con_in t = rest \<and>
    procs_ok t (Q(0 := takeWhile (\<lambda>y. prio (pcbs s) y \<le> 0) (Q 0) @ p # dropWhile (\<lambda>y. prio (pcbs s) y \<le> 0) (Q 0))) \<and>
    alarm_started img t p (alarm_name k) args \<and>
    (\<forall>x \<in> set (all_queued Q). p_state (pcbs t x) = p_state (pcbs s x)) \<and>
    (alarm_ready (a_msg args) l t \<longleftrightarrow> ram s (a_msg args + of_nat (length l)) = 0)"
proof -
  have byst: "bystanders env" using env by simp
  have n: "length l < 128" "0 \<notin> set l" using l by (simp_all add: typed_def USER_INPUT_SZ_def)
  obtain a b c where q: "ask env hour_msg reenter_alarm (below 24) s = Some (value_of h, a)"
    "ask env minute_msg reenter_alarm (below 60) a = Some (value_of m, b)"
    "ask env second_msg reenter_alarm (below 60) b = Some (value_of sc, c)" "at_prompt c" "con_in c = answered l # rest"
    "kernel_same s c"
    using clock_questions [OF byst s inp bad good, of "''Could not parse, please re-enter time value:''"] env
    unfolding reenter_alarm_def by blast
  let ?m = "''Enter the message to display:''"
  let ?c = "env (emit (color_bytes White) (env (emit (bytes ?m @ crlf) (env (emit (color_bytes Yellow) c)))))"
  obtain u where u: "user_input_promptread env ?c = Some u" "kernel_same c u" "con_in u = rest"
    "user_input_len u = int (length l)" "user_input u = l @ 0 # replicate (USER_INPUT_SZ - 1 - length l) 0"
    using prompt_ok [OF env q(4,5) l] by blast
  have su: "kernel_same s u" by (rule kernel_same_trans [OF q(6) u(2)])
  have hu: "procs_ok u Q" "heap_rel u bl" using ok heap(1) kernel_same_procs(3) [OF su] kernel_same_heap(1) [OF su] by simp_all
  define sz where "sz = (of_nat (length l) + 1 :: u32)"
  have sz: "unat sz = length l + 1" using n by (simp add: sz_def unat_simps unat_of_nat)
  obtain p v where v: "sys_alloc_mem sz u = Some (p, v)" "procs_ok v Q" "heap_rel v (snd (a_alloc sz bl))" "heap_touch u v"
    "p \<noteq> NULL" "p \<in> live_ptrs v" "unat p + unat sz < 2 ^ 32" "unat (fst (last (snd (a_alloc sz bl)))) = unat p + unat sz"
    using alloc_keeps_procs [OF hu heap(2), of sz] heap(3) sz by auto
  have "unat sz + 12 < room_left bl" using heap(3) sz by simp
  note al = a_alloc_stack [OF heap(2) this]
  have "heap_ok u" using hu(1) by (simp add: procs_ok_def)
  from sys_alloc_rel [OF this hu(2) heap(2) _ v(1)] have "unat p = unat (fst (last bl)) + 12" using heap(3) sz by simp
  then have pm: "p = a_msg args" using v(7) by (simp add: args word_unat_eq_iff unat_simps)
  note uv = touch_con [OF v(4)] and pv = touch_procs [OF v(4)]
  have ramv: "ram v = ram s" using v(4) su by (cases u; cases v) (simp add: heap_touch_def kernel_same_def)
  define w where "w = v\<lparr>ram := store_bytes p l (ram s)\<rparr>"
  have w: "procs_ok w Q" "heap_rel w (snd (a_alloc sz bl))" "pcbs w = pcbs s" "live_ptrs w = live_ptrs v"
    using v(2,3) pv su by (simp_all add: w_def kernel_same_def live_ptrs_def)
  have inuse: "name_in_use w Q x = name_in_use s Q x" for x by (simp add: name_in_use_def w(3))
  have tn: "timer_name 256 0 (bytes ''timer_'' @ replicate 58 0) w =
      Some (alarm_name k @ 0 # replicate (57 - length (decimal k)) 0)"
    by (rule timer_name_first [OF w(1) k(1)]) (use k(2,3) inuse in simp_all)
  have an: "0 \<notin> set (alarm_name k)" "length (alarm_name k) < 64"
    using decimal_nonzero decimal_short [OF k(1)] by (simp_all add: alarm_name_def bytes_def)
  have room: "4300 < room_left (snd (a_alloc sz bl))" using al(2) heap(3) sz by simp
  have nu: "\<not> name_in_use w Q (alarm_name k)" using k(3) inuse by simp
  have top: "unat (fst (last (snd (a_alloc sz bl)))) = unat p + length l + 1" using v(8) sz by simp
  obtain pp t2 u2 v2 bs' where x: "pcb_setup (alarm_name k @ 0 # replicate (57 - length (decimal k)) 0) PCB_CLASS_USER 0 w = Some (pp, t2)"
    "pcb_context_init pp (code_addr img Alarm_Process) (Some (alarm_bytes args)) 16 t2 = Some u2" "pcb_insert pp u2 = Some v2"
    "procs_ok v2 (Q(0 := takeWhile (\<lambda>y. prio (pcbs s) y \<le> 0) (Q 0) @ pp # dropWhile (\<lambda>y. prio (pcbs s) y \<le> 0) (Q 0)))"
    "start_only w v2" "live_ptrs w \<subseteq> live_ptrs v2" "heap_rel v2 bs'" "stack_like bs'"
    "alarm_started img v2 pp (alarm_name k) args" "\<forall>x \<in> set (all_queued Q). p_state (pcbs v2 x) = p_state (pcbs s x)"
    "\<forall>x. unat x \<le> unat p + length l + 1 \<longrightarrow> ram v2 x = ram w x"
    using start_alarm [OF w(1,2) al(1) room an nu, where img = img and args = args and
        pad = "replicate (57 - length (decimal k)) 0", unfolded w(3) top] by blast
  note con = start_only_con [OF x(5)]
  obtain t where t: "user_input_clear v2 = Some t" "at_prompt t" "con_in t = con_in v2" "kernel_same v2 t"
    using line_cleared [OF l, of v2] con uv u(4,5) by (auto simp: w_def)
  have "take (length l) (user_input v) = l" using uv u(5) by simp
  then have "alarmCommand img env s = Some (Returned 0, t)"
    unfolding alarmCommand_def below_eq q(1-3) bind.bind_lunit prod.case setTerminalColor_eq put_line u(1) Let_def
      u(4) nat_int v(1) [unfolded sz_def]
    using v(5) ramv tn x(1-3) t(1) pm unfolding w_def by (simp add: args)
  moreover have "alarm_ready p l t \<longleftrightarrow> ram s (p + of_nat (length l)) = 0"
  proof -
    have "holds_text p l (ram t) \<longleftrightarrow> ram s (p + of_nat (length l)) = 0"
    proof (rule message_stored [OF v(5) _ n(2)])
      show "unat p + length l < 2 ^ 32" using v(7) sz by simp
      show "\<forall>x. unat x \<le> unat p + length l \<longrightarrow> ram t x = store_bytes p l (ram s) x"
        using x(11) t(4) by (simp add: kernel_same_def w_def)
    qed
    moreover have "heap_ok t" "p \<in> live_ptrs t" "heap_releasable p t"
      using x(4,6) v(6) w(4) stack_releasable [OF x(7,8)] kernel_same_heap [OF t(4)] by (auto simp: procs_ok_def)
    ultimately show ?thesis using v(5) by (simp add: alarm_ready_def)
  qed
  ultimately show ?thesis
    using t(2,3) con uv u(3) x(4,9,10) kernel_same_procs(3) [OF t(4)] kernel_same_alarm(1) [OF t(4)] pm t(4)
    by (intro exI [of _ t] exI [of _ pp]) (simp add: w_def kernel_same_def)
qed

section \<open>Claims\<close>

text \<open>
  C25: Setting an alarm from the console. After the questions for the time, repeated as often as
  needed, and with the message \<open>l\<close>, the command starts one ready user process under the first
  name timer_0, timer_1, ... that is free, of priority 0 and behind those of priority 0. It starts in
  the alarm function, with the time and the address of the stored message as its parameters; no other
  process changes. The message is what the alarm prints and releases exactly when the byte behind
  it happened to be 0 before: the command does not terminate it.
\<close>

theorem alarm_session:
  assumes "quiescent env" and "at_prompt s" and "procs_ok s Q"
    and "con_in s = map answered (bh @ [h]) @ map answered (bm @ [m]) @ map answered (bs @ [sc]) @ answered l # rest"
    and "\<forall>l \<in> set bh. typed l \<and> \<not> accepted (\<lambda>n. n < 24 \<and> n \<ge> 0) l"
    and "\<forall>l \<in> set bm. typed l \<and> \<not> accepted (\<lambda>n. n < 60 \<and> n \<ge> 0) l"
    and "\<forall>l \<in> set bs. typed l \<and> \<not> accepted (\<lambda>n. n < 60 \<and> n \<ge> 0) l"
    and "typed h" "accepted (\<lambda>n. n < 24 \<and> n \<ge> 0) h" "typed m" "accepted (\<lambda>n. n < 60 \<and> n \<ge> 0) m"
    and "typed sc" "accepted (\<lambda>n. n < 60 \<and> n \<ge> 0) sc" and "typed l"
    and "heap_rel s bl" "stack_like bl" "length l + 4400 < room_left bl"
    and "k < 256" "\<forall>j < k. name_in_use s Q (alarm_name j)" "\<not> name_in_use s Q (alarm_name k)"
    and "args = \<lparr>a_hours = value_of h, a_minutes = value_of m, a_seconds = value_of sc, a_msg = fst (last bl) + 12\<rparr>"
  shows "\<exists>t p. alarmCommand img env s = Some (Returned 0, t) \<and> at_prompt t \<and> con_in t = rest \<and>
    procs_ok t (Q(0 := takeWhile (\<lambda>y. prio (pcbs s) y \<le> 0) (Q 0) @ p # dropWhile (\<lambda>y. prio (pcbs s) y \<le> 0) (Q 0))) \<and>
    alarm_started img t p (alarm_name k) args \<and>
    (\<forall>x \<in> set (all_queued Q). p_state (pcbs t x) = p_state (pcbs s x)) \<and>
    (alarm_ready (a_msg args) l t \<longleftrightarrow> ram s (a_msg args + of_nat (length l)) = 0)"
  by (rule alarm_session_lemma [OF assms [unfolded below_eq]])

theorem alarm_session_witness:
  "\<exists>(t :: con) p. alarmCommand demo_image id (boot_procs (con_ext
      (map answered [bytes ''25'', bytes ''12'', bytes ''30'', bytes ''0'', bytes ''Tea'']) [] (replicate 128 0) 0 ())) =
      Some (Returned 0, t) \<and> procs_ok t ((\<lambda>_. [])(0 := [p])) \<and>
    alarm_started demo_image t p (bytes ''timer_0'')
      \<lparr>a_hours = 12, a_minutes = 30, a_seconds = 0, a_msg = 0xD00000C\<rparr> \<and> alarm_ready 0xD00000C (bytes ''Tea'') t"
proof -
  let ?s = "boot_procs (con_ext (map answered [bytes ''25'', bytes ''12'', bytes ''30'', bytes ''0'', bytes ''Tea'']) []
      (replicate 128 0) 0 ())"
  have fields: "con_in ?s = map answered ([bytes ''25''] @ [bytes ''12'']) @ map answered ([] @ [bytes ''30'']) @
      map answered ([] @ [bytes ''0'']) @ answered (bytes ''Tea'') # []" "at_prompt ?s" "ram ?s = (\<lambda>p. 0)"
    by (simp_all add: boot_procs_def heap_on_eq boot_heap_def at_prompt_def USER_INPUT_SZ_def)
  have ty: "typed (bytes ''25'')" "typed (bytes ''12'')" "typed (bytes ''30'')" "typed (bytes ''0'')" "typed (bytes ''Tea'')"
    by (simp_all add: typed_def bytes_def USER_INPUT_SZ_def)
  have v: "value_of (bytes ''25'') = 25" "value_of (bytes ''12'') = 12" "value_of (bytes ''30'') = 30" "value_of (bytes ''0'') = 0"
    by (simp_all add: value_of_def bytes_def)
  have d: "\<forall>c \<in> set (bytes ''25''). digit c" "\<forall>c \<in> set (bytes ''12''). digit c" "\<forall>c \<in> set (bytes ''30''). digit c"
    "\<forall>c \<in> set (bytes ''0''). digit c"
    by (simp_all add: digit_def bytes_def)
  have acc: "\<not> accepted (\<lambda>n. n < 24 \<and> n \<ge> 0) (bytes ''25'')" "accepted (\<lambda>n. n < 24 \<and> n \<ge> 0) (bytes ''12'')"
    "accepted (\<lambda>n. n < 60 \<and> n \<ge> 0) (bytes ''30'')" "accepted (\<lambda>n. n < 60 \<and> n \<ge> 0) (bytes ''0'')"
    using d by (simp_all add: accepted_def v)
  have ok: "procs_ok ?s (\<lambda>_. [])" by (rule boot_procs_ok)
  have st: "stack_like [(0xD000000, 49988, True)]" "length (bytes ''Tea'') + 4400 < room_left [(0xD000000 :: addr, 49988, True)]"
    by (simp_all add: stack_like_def room_left_def bytes_def)
  let ?args = "\<lparr>a_hours = 12, a_minutes = 30, a_seconds = 0, a_msg = 0xD00000C\<rparr>"
  have free: "(0 :: nat) < 256" "\<forall>j < 0. name_in_use ?s (\<lambda>_. []) (alarm_name j)" "\<not> name_in_use ?s (\<lambda>_. []) (alarm_name 0)"
    by (simp_all add: name_in_use_def all_queued_def)
  have args: "?args = \<lparr>a_hours = value_of (bytes ''12''), a_minutes = value_of (bytes ''30''), a_seconds = value_of (bytes ''0''),
      a_msg = fst (last [(0xD000000 :: addr, 49988 :: u32, True)]) + 12\<rparr>"
    by (simp add: v)
  have bad: "\<forall>l \<in> set [bytes ''25'']. typed l \<and> \<not> accepted (\<lambda>n. n < 24 \<and> n \<ge> 0) l"
    "\<forall>l \<in> set []. typed l \<and> \<not> accepted (\<lambda>n. n < 60 \<and> n \<ge> 0) l"
    using ty(1) acc(1) by simp_all
  have nm: "alarm_name 0 = bytes ''timer_0''" by (simp add: alarm_name_def decimal.simps bytes_def)
  obtain t p where t: "alarmCommand demo_image id ?s = Some (Returned 0, t)"
    "procs_ok t ((\<lambda>_. [])(0 := takeWhile (\<lambda>y. prio (pcbs ?s) y \<le> 0) [] @ p # dropWhile (\<lambda>y. prio (pcbs ?s) y \<le> 0) []))"
    "alarm_started demo_image t p (alarm_name 0) ?args"
    "alarm_ready (a_msg ?args) (bytes ''Tea'') t \<longleftrightarrow> ram ?s (a_msg ?args + of_nat (length (bytes ''Tea''))) = 0"
    using alarm_session [OF quiescent_id(1) fields(2) ok fields(1) bad bad(2) ty(2) acc(2) ty(3) acc(3) ty(4) acc(4)
        ty(5) boot_procs_heap(2) st free args, of demo_image] by blast
  have "procs_ok t ((\<lambda>_. [])(0 := [p]))" "alarm_ready 0xD00000C (bytes ''Tea'') t"
    using t(2,4) fields(3) by simp_all
  with t(1,3) show ?thesis unfolding nm by blast
qed

end
