(* ===== verification/Sys_Req.thy ===== *)
theory Sys_Req
  imports Syscall_Claims Rtc
begin

text \<open>
  \<^verbatim>\<open>sys_req\<close> of \<^verbatim>\<open>user/system.c\<close>: the request by interrupt 0x60, and
  polled I/O when the kernel answers a READ or WRITE with -1. What the interrupt does, with the
  operation, the device, the buffer and the length in the registers, is a parameter.
\<close>

section \<open>The request\<close>

type_synonym 's trap = "u32 \<Rightarrow> u32 \<Rightarrow> addr \<Rightarrow> u32 \<Rightarrow> 's \<Rightarrow> (u32 \<times> 's) option"

definition sys_req ::
  "'a kern_scheme trap \<Rightarrow> u32 \<Rightarrow> u32 \<times> addr \<times> u32 \<Rightarrow> 'a kern_scheme \<Rightarrow> (int \<times> 'a kern_scheme) option" where
  "sys_req int60 opc args s = do {
     let (dev, buffer, len) = (if opc = READ \<or> opc = WRITE then args else (0, NULL, 0));
     (ret, s) \<leftarrow> int60 opc dev buffer len s;
     if sint ret = - 1 \<and> (opc = READ \<or> opc = WRITE) then
       if opc = READ then do {
         (r, bs, s) \<leftarrow> serial_poll dev (ram_bytes (ram s) buffer (unat len)) len s;
         Some (r, s\<lparr>ram := store_bytes buffer bs (ram s)\<rparr>)
       }
       else serial_out dev (ram_bytes (ram s) buffer (unat len)) (unat len) s
     else Some (sint ret, s)
   }"

text \<open>The interrupt when the kernel returns to its caller, whose registers are saved at \<open>c\<close>.\<close>

definition with_registers :: "addr \<Rightarrow> u32 \<Rightarrow> u32 \<Rightarrow> addr \<Rightarrow> u32 \<Rightarrow> 'a procs_scheme \<Rightarrow> 'a procs_scheme" where
  "with_registers c opc dev buffer len s =
     s\<lparr>ctxts := (ctxts s)(c := (ctxts s c)\<lparr>c_eax := opc, c_ebx := dev, c_ecx := buffer, c_edx := len\<rparr>)\<rparr>"

definition int60_return :: "nat list \<Rightarrow> addr \<Rightarrow> 'a os_scheme trap" where
  "int60_return ks c opc dev buffer len s = do {
     (r, s) \<leftarrow> sys_call ks c (with_registers c opc dev buffer len s);
     ensure (r = NULL);
     Some (c_eax (ctxts s c), s)
   }"

section \<open>Requests before the first process runs\<close>

lemma with_registers_ok [simp]:
  "os_ok (with_registers c opc dev buffer len s) P Q R = os_ok s P Q R"
  "quiet (with_registers c opc dev buffer len s) d = quiet s d"
  "pcb_running (with_registers c opc dev buffer len s) = pcb_running s"
  "c_eax (ctxts (with_registers c opc dev buffer len s) c) = opc"
  "ram (with_registers c opc dev buffer len s) = ram s" "m_trace (with_registers c opc dev buffer len s) = m_trace s"
  "initialized (with_registers c opc dev buffer len s) = initialized s"
  by (simp_all add: with_registers_def os_ok_def dcbs_ok_def heap_ok_def heap_rel_def queues_rel_def requests_ok_def
      device_ok_def ioq_rel_def live_ptrs_def loose_def quiet_def)

lemma length_ram_bytes [simp]: "length (ram_bytes m p n) = n"
  by (simp add: ram_bytes_def)

lemma set_eax_frame [simp]:
  "ram (set_eax c v s) = ram s" "m_trace (set_eax c v s) = m_trace s" "initialized (set_eax c v s) = initialized s"
  by (simp_all add: set_eax_def)

text \<open>
  As long as no process runs, a WRITE to an initialised device goes out by polling: exactly the
  bytes of the buffer, and their number is the result. A WRITE to another device gives -1.
\<close>

theorem early_write_polled:
  assumes "os_ok s P Q R" and "\<forall>d < 4. quiet s d" and "pcb_running s = NULL" and "length (initialized s) = 4"
    and "serial_devno dev = Some d"
  shows "\<exists>t. sys_req (int60_return ks c) WRITE (dev, buffer, len) s = Some (if initialized s ! d then int (unat len) else - 1, t) \<and>
    ram t = ram s \<and> m_trace t = m_trace s @
      (if initialized s ! d then map (Outb (port dev RBR)) (ram_bytes (ram s) buffer (unat len)) else [])"
proof -
  let ?s = "with_registers c WRITE dev buffer len s"
  have "sys_call ks c ?s = Some (NULL, set_eax c (- 1) ?s)"
    using requests_refused_lemma [of ?s P Q R c ks] assms(1-3) by simp
  then have run: "sys_req (int60_return ks c) WRITE (dev, buffer, len) s =
      serial_out dev (ram_bytes (ram s) buffer (unat len)) (unat len) (set_eax c (- 1) ?s)"
    by (simp add: sys_req_def int60_return_def op_codes)
  let ?bs = "ram_bytes (ram s) buffer (unat len)"
  show ?thesis
  proof (cases "initialized s ! d")
    case True
    then obtain t where t: "serial_out dev ?bs (unat len) (set_eax c (- 1) ?s) = Some (int (unat len), t)"
      "t = (set_eax c (- 1) ?s)\<lparr>m_trace := m_trace t\<rparr>"
      "m_trace t = m_trace s @ map (Outb (port dev RBR)) ?bs"
      using serial_out_exact [of "unat len" ?bs "set_eax c (- 1) ?s" dev] assms(4,5) by auto
    have "ram t = ram s" by (subst t(2)) simp
    with run t(1,3) True show ?thesis by simp
  next
    case False
    then have "serial_out dev ?bs (unat len) (set_eax c (- 1) ?s) = Some (- 1, set_eax c (- 1) ?s)"
      using serial_out_exact [of "unat len" ?bs "set_eax c (- 1) ?s" dev] assms(4,5) by simp
    with run False show ?thesis by simp
  qed
qed

end
