(* ===== verification/Keeps.thy ===== *)
theory Keeps
  imports Prelude
begin

text \<open>
  Rules that follow the structure of a function in the \<open>option\<close> monad to show that the state it
  returns stands in a relation to the state it starts from.
\<close>

text \<open>
  \<open>keeps rel st s m\<close>: if \<open>m\<close> has a result, the state in it, which \<open>st\<close> selects, is related to \<open>s\<close>.
  The rules of the collection \<open>kept\<close> follow the structure of a function. Which rule for sequencing
  applies depends on the type of the first part alone: it returns a state, a value with a state, two
  values with a state, or no state.
\<close>

named_theorems kept

definition keeps :: "('s \<Rightarrow> 's \<Rightarrow> bool) \<Rightarrow> ('b \<Rightarrow> 's) \<Rightarrow> 's \<Rightarrow> 'b option \<Rightarrow> bool" where
  "keeps rel st s m \<longleftrightarrow> (\<forall>x. m = Some x \<longrightarrow> rel s (st x))"

lemma keepsD: "keeps rel st s m \<Longrightarrow> m = Some x \<Longrightarrow> rel s (st x)"
  by (simp add: keeps_def)

lemma keeps_pure: "(\<And>x. m = Some x \<Longrightarrow> keeps rel st s (f x)) \<Longrightarrow> keeps rel st s (Option.bind m f)"
  by (auto simp: keeps_def bind_eq_Some_conv)

lemma keeps_bind:
  "keeps rel (\<lambda>x. x) s m \<Longrightarrow> (\<And>u. rel s u \<Longrightarrow> keeps rel st s (f u)) \<Longrightarrow> keeps rel st s (Option.bind m f)"
  by (auto simp: keeps_def bind_eq_Some_conv)

lemma keeps_bind2:
  "keeps rel snd s m \<Longrightarrow> (\<And>a u. rel s u \<Longrightarrow> keeps rel st s (f a u)) \<Longrightarrow>
   keeps rel st s (Option.bind m (\<lambda>(a, u). f a u))"
  by (auto simp: keeps_def bind_eq_Some_conv)

lemma keeps_bind3:
  "keeps rel (\<lambda>x. snd (snd x)) s m \<Longrightarrow> (\<And>a b u. rel s u \<Longrightarrow> keeps rel st s (f a b u)) \<Longrightarrow>
   keeps rel st s (Option.bind m (\<lambda>(a, b, u). f a b u))"
  by (auto simp: keeps_def bind_eq_Some_conv)

lemma keeps_let_state:
  "rel s e \<Longrightarrow> (\<And>u. rel s u \<Longrightarrow> keeps rel st s (f u)) \<Longrightarrow> keeps rel st s (Let e f)"
  by simp

lemma keeps_let_pair:
  "rel s (snd e) \<Longrightarrow> (\<And>a u. rel s u \<Longrightarrow> keeps rel st s (f a u)) \<Longrightarrow>
   keeps rel st s (Let e (\<lambda>(a, u). f a u))"
  by (simp add: case_prod_unfold)

lemma keeps_let: "(\<And>x. keeps rel st s (f x)) \<Longrightarrow> keeps rel st s (Let e f)"
  by simp

lemma keeps_case_pair:
  "rel s (snd e) \<Longrightarrow> (\<And>a u. rel s u \<Longrightarrow> keeps rel st s (f a u)) \<Longrightarrow>
   keeps rel st s (case e of (a, u) \<Rightarrow> f a u)"
  by (simp add: case_prod_unfold)

lemma keeps_case_prod: "(\<And>a b. keeps rel st s (f a b)) \<Longrightarrow> keeps rel st s (case e of (a, b) \<Rightarrow> f a b)"
  by (simp add: case_prod_unfold)

lemma keeps_if:
  "(P \<Longrightarrow> keeps rel st s m) \<Longrightarrow> (\<not> P \<Longrightarrow> keeps rel st s n) \<Longrightarrow> keeps rel st s (if P then m else n)"
  by simp

lemma keeps_case_option:
  "keeps rel st s m \<Longrightarrow> (\<And>x. keeps rel st s (f x)) \<Longrightarrow> keeps rel st s (case e of None \<Rightarrow> m | Some x \<Rightarrow> f x)"
  by (cases e) simp_all

lemma keeps_Some:
  "rel s u \<Longrightarrow> keeps rel (\<lambda>x. x) s (Some u)" "rel s u \<Longrightarrow> keeps rel snd s (Some (a, u))"
  "rel s u \<Longrightarrow> keeps rel (\<lambda>x. snd (snd x)) s (Some (a, b, u))" "rel s (snd x) \<Longrightarrow> keeps rel snd s (Some x)"
  by (simp_all add: keeps_def)

lemma keeps_None: "keeps rel st s None"
  by (simp add: keeps_def)

lemmas [kept] = keeps_None keeps_Some(4,3,2,1)
  keeps_case_option keeps_if keeps_case_prod keeps_case_pair keeps_let keeps_let_pair keeps_let_state
  keeps_pure keeps_bind keeps_bind2 keeps_bind3

end
