(* ===== verification/Pcb_Frames.thy ===== *)
theory Pcb_Frames
  imports Syscall_Run Keeps
begin

text \<open>
  What the operations on queues, requests and system calls do to a single control block: they
  change its link, its saved context, its execution state to one of the three values, and nothing else. A relation
  between two versions of a block that allows these changes holds, for every block, between the
  state before and the state after every such operation, and along every run of the system.
\<close>

section \<open>Relations between the versions of a block\<close>

definition each_pcb :: "(pcb \<Rightarrow> pcb \<Rightarrow> bool) \<Rightarrow> 'a procs_scheme \<Rightarrow> 'a procs_scheme \<Rightarrow> bool" where
  "each_pcb ok s t \<longleftrightarrow> (\<forall>p. ok (pcbs s p) (pcbs t p))"

lemma pcbs_same [simp]:
  "pcbs (set_pcb_head i v s) = pcbs s" "pcbs (set_pcb_tail i v s) = pcbs s"
  "pcbs (outb p b s) = pcbs s" "pcbs (snd (inb p s)) = pcbs s" "pcbs (cli s) = pcbs s" "pcbs (sti s) = pcbs s"
  "pcbs (hlt s) = pcbs s"
  by (simp_all add: set_pcb_head_def set_pcb_tail_def outb_def inb_def cli_def sti_def hlt_def Let_def)

lemma sys_alloc_pcbs: "sys_alloc_mem n s = Some (p, t) \<Longrightarrow> pcbs t = pcbs s"
  by (auto simp: sys_alloc_mem_def kmalloc_def alloc_def Let_def bind_eq_Some_conv dest: allocate_frame touch_procs
      split: alloc_fn.splits if_splits)

lemma sys_free_pcbs: "sys_free_mem p s = Some (r, t) \<Longrightarrow> pcbs t = pcbs s"
  by (auto simp: sys_free_mem_def dest: free_frame touch_procs split: free_fn.splits)

lemma pcbs_serial [simp]:
  "pcbs (upd_dcb d f s) = pcbs s" "pcbs (new_request p b n op s) = pcbs s"
  by (simp_all add: upd_dcb_def new_request_def)

text \<open>
  The contract of a relation between the versions of a block.
\<close>

locale pcb_frame =
  fixes ok :: "pcb \<Rightarrow> pcb \<Rightarrow> bool"
  assumes refl: "ok b b" and trans: "ok a b \<Longrightarrow> ok b c \<Longrightarrow> ok a c"
    and next_ok: "ok a b \<Longrightarrow> ok a (b\<lparr>p_next := v\<rparr>)" and pctxt_ok: "ok a b \<Longrightarrow> ok a (b\<lparr>pctxt := v\<rparr>)"
    and exec_ok: "ok a b \<Longrightarrow> e \<noteq> 3 \<Longrightarrow> ok a (b\<lparr>p_state := (p_state b)\<lparr>exec := e\<rparr>\<rparr>)"
begin

lemma each_refl [simp]: "each_pcb ok s s"
  by (simp add: each_pcb_def refl)

lemma each_trans: "each_pcb ok s t \<Longrightarrow> each_pcb ok t u \<Longrightarrow> each_pcb ok s u"
  using trans unfolding each_pcb_def by blast

lemma each_same: "each_pcb ok s t \<Longrightarrow> pcbs u = pcbs t \<Longrightarrow> each_pcb ok s u"
  by (simp add: each_pcb_def)

lemma keepsI:
  assumes "each_pcb ok s t" and "\<And>x. m = Some x \<Longrightarrow> each_pcb ok t (st x)"
  shows "keeps (each_pcb ok) st s m"
  using assms each_trans unfolding keeps_def by blast

lemma kept_if: "(P \<Longrightarrow> each_pcb ok s t) \<Longrightarrow> (\<not> P \<Longrightarrow> each_pcb ok s u) \<Longrightarrow> each_pcb ok s (if P then t else u)"
  by simp

lemma kept_let_state:
  "each_pcb ok s e \<Longrightarrow> (\<And>u. each_pcb ok s u \<Longrightarrow> each_pcb ok s (f u)) \<Longrightarrow> each_pcb ok s (Let e f)"
  by simp

lemma kept_let_pair:
  "each_pcb ok s (snd e) \<Longrightarrow> (\<And>a u. each_pcb ok s u \<Longrightarrow> each_pcb ok s (f a u)) \<Longrightarrow> each_pcb ok s (let (a, u) = e in f a u)"
  by (simp add: case_prod_unfold)

lemma kept_let: "(\<And>x. each_pcb ok s (f x)) \<Longrightarrow> each_pcb ok s (Let e f)"
  by simp

lemmas [kept] = kept_let kept_let_pair kept_let_state kept_if

lemma kept_fields [kept]:
  "each_pcb ok s t \<Longrightarrow> each_pcb ok s (set_p_next p v t)"
  "each_pcb ok s t \<Longrightarrow> each_pcb ok s (set_pctxt p v t)"
  "each_pcb ok s t \<Longrightarrow> e \<noteq> 3 \<Longrightarrow> each_pcb ok s (set_p_state p ((p_state (pcbs t p))\<lparr>exec := e\<rparr>) t)"
  "each_pcb ok s t \<Longrightarrow> e \<noteq> 3 \<Longrightarrow> each_pcb ok s (set_exec p e t)"
  using next_ok pctxt_ok exec_ok
  by (simp_all add: each_pcb_def set_p_next_def set_pctxt_def set_p_state_def set_exec_def)

lemma kept_same [kept]:
  "each_pcb ok s t \<Longrightarrow> each_pcb ok s (set_pcb_head i v t)" "each_pcb ok s t \<Longrightarrow> each_pcb ok s (set_pcb_tail i v t)"
  "each_pcb ok s t \<Longrightarrow> each_pcb ok s (t\<lparr>ram := m\<rparr>)" "each_pcb ok s t \<Longrightarrow> each_pcb ok s (t\<lparr>ctxts := c\<rparr>)"
  "each_pcb ok s t \<Longrightarrow> each_pcb ok s (t\<lparr>pcb_running := r\<rparr>)"
  by (erule each_same, simp)+

lemma kept_memory [kept]:
  "each_pcb ok s t \<Longrightarrow> keeps (each_pcb ok) snd s (sys_alloc_mem n t)"
  "each_pcb ok s t \<Longrightarrow> keeps (each_pcb ok) snd s (sys_free_mem p t)"
  by (erule keepsI, (force simp: each_pcb_def refl dest: sys_alloc_pcbs sys_free_pcbs) [1])+

lemma kept_insert [kept]: "each_pcb ok s t \<Longrightarrow> keeps (each_pcb ok) (\<lambda>x. x) s (pcb_insert p t)"
  unfolding pcb_insert_def pcb_insert_tail_def by (rule kept | assumption)+

lemma kept_remove [kept]: "each_pcb ok s t \<Longrightarrow> keeps (each_pcb ok) snd s (pcb_remove p t)"
  unfolding pcb_remove_def by (rule kept | assumption)+

lemma kept_serial [kept]:
  "each_pcb ok s t \<Longrightarrow> each_pcb ok s (upd_dcb d f t)" "each_pcb ok s t \<Longrightarrow> each_pcb ok s (new_request p b n op t)"
  "each_pcb ok s t \<Longrightarrow> each_pcb ok s (t\<lparr>iocbs := h\<rparr>)"
  by (erule each_same, simp)+

lemma kept_set_eax [kept]: "each_pcb ok s t \<Longrightarrow> each_pcb ok s (set_eax c w t)"
  by (erule each_same) simp

lemma kept_ports [kept]:
  "each_pcb ok s t \<Longrightarrow> each_pcb ok s (outb q v t)" "each_pcb ok s t \<Longrightarrow> each_pcb ok s (snd (inb q t))"
  "each_pcb ok s t \<Longrightarrow> each_pcb ok s (cli t)" "each_pcb ok s t \<Longrightarrow> each_pcb ok s (sti t)"
  "each_pcb ok s t \<Longrightarrow> each_pcb ok s (hlt t)"
  by (erule each_same, simp)+

lemma kept_os [kept]: "each_pcb ok s t \<Longrightarrow> each_pcb ok s (t\<lparr>context_original := c\<rparr>)"
  by (erule each_same) simp

lemma kept_start_read [kept]: "each_pcb ok s t \<Longrightarrow> keeps (each_pcb ok) (\<lambda>x. x) s (start_read d b n t)"
  unfolding start_read_def by (rule kept | assumption)+

lemma kept_start_next [kept]: "each_pcb ok s t \<Longrightarrow> keeps (each_pcb ok) (\<lambda>x. x) s (start_next dev d y op t)"
  unfolding start_next_def by (rule kept | assumption)+

lemma kept_wake [kept]: "each_pcb ok s t \<Longrightarrow> keeps (each_pcb ok) (\<lambda>x. x) s (wake p n t)"
  unfolding wake_def by (rule kept | assumption | (simp; fail))+

lemma kept_request [kept]:
  "each_pcb ok s t \<Longrightarrow> keeps (each_pcb ok) snd s (serial_read dev b n t)" "each_pcb ok s t \<Longrightarrow> keeps (each_pcb ok) snd s (serial_write dev b n t)"
  unfolding serial_read_def serial_write_def by (rule kept | assumption)+

lemma kept_schedule [kept]: "each_pcb ok s t \<Longrightarrow> keeps (each_pcb ok) snd s (serial_schedule_io dev b n op t)"
  unfolding serial_schedule_io_def by (rule kept | assumption)+

lemma kept_check_io [kept]: "each_pcb ok s t \<Longrightarrow> keeps (each_pcb ok) snd s (serial_check_io dev t)"
  unfolding serial_check_io_def by (rule kept | assumption)+

lemma kept_interrupt [kept]: "each_pcb ok s t \<Longrightarrow> keeps (each_pcb ok) (\<lambda>x. x) s (serial_interrupt t)"
  by (erule keepsI) (auto simp: each_pcb_def refl irq_only_def procs_same_def dest!: serial_interrupt_irq)

lemma kept_interrupts [kept]: "each_pcb ok s t \<Longrightarrow> keeps (each_pcb ok) (\<lambda>x. x) s (interrupts k t)"
proof (induction k arbitrary: t)
  case (Suc k)
  then show ?case unfolding interrupts.simps by - (rule kept | assumption | rule Suc.IH)+
qed (simp add: keeps_def)

lemma kept_check_devices: "each_pcb ok s t \<Longrightarrow> keeps (each_pcb ok) snd s (check_devices ds b t)"
proof (induction ds arbitrary: b t)
  case (Cons d ds)
  then show ?case unfolding check_devices.simps by - (rule kept | assumption | rule Cons.IH)+
qed (simp add: keeps_def)

lemma kept_sys_check_io [kept]: "each_pcb ok s t \<Longrightarrow> keeps (each_pcb ok) snd s (sys_check_io t)"
  unfolding sys_check_io_def by (rule kept_check_devices)

lemma kept_wait_io [kept]: "each_pcb ok s t \<Longrightarrow> keeps (each_pcb ok) (\<lambda>x. x) s (wait_io ks t)"
proof (induction ks arbitrary: t)
  case (Cons k ks)
  then show ?case unfolding wait_io.simps by - (rule kept | assumption | rule Cons.IH)+
qed (simp add: keeps_def)

lemma kept_switch [kept]: "each_pcb ok s t \<Longrightarrow> each_pcb ok s (snd (switch_to p t))"
  unfolding switch_to_def Let_def snd_conv by (rule kept | assumption | (simp; fail))+

lemma kept_run_ready [kept]: "each_pcb ok s t \<Longrightarrow> keeps (each_pcb ok) snd s (run_ready t)"
  unfolding run_ready_def by (rule kept | assumption)+

lemma kept_sys_io [kept]: "each_pcb ok s t \<Longrightarrow> keeps (each_pcb ok) snd s (sys_io op ks c t)"
  unfolding sys_io_def by (rule kept | assumption | (simp; fail))+

lemma kept_sys_idle [kept]: "each_pcb ok s t \<Longrightarrow> keeps (each_pcb ok) snd s (sys_idle c t)"
  unfolding sys_idle_def by (rule kept | assumption | (simp; fail))+

text \<open>Every call but EXIT, which clears the block of the caller.\<close>

lemma kept_call: "c_eax (ctxts s c) \<noteq> EXIT \<Longrightarrow> keeps (each_pcb ok) snd s (sys_call ks c s)"
  unfolding sys_call_def sys_read_def sys_write_def Let_def
  by (rule kept each_refl | assumption | (simp add: keeps_def; fail))+

lemma os_step_kept:
  assumes "os_step s t"
  shows "each_pcb ok s t"
  using assms
proof cases
  case irq
  from keepsD [OF kept_interrupt [OF each_refl] this] show ?thesis .
next
  case (complete d r)
  from keepsD [OF kept_check_io [OF each_refl] this(2)] show ?thesis by simp
next
  case halt
  then show ?thesis by (simp add: each_pcb_def refl)
next
  case compute
  then show ?thesis by (simp add: each_pcb_def refl)
next
  case (call c r)
  from keepsD [OF kept_call [OF call(3)] call(1)] show ?thesis by simp
next
  case (wait p c op u v)
  have "each_pcb ok s u" using keepsD [OF kept_schedule [OF kept_set_eax [OF each_refl]] wait(6)] by simp
  then have "keeps (each_pcb ok) (\<lambda>x. x) s (pcb_insert p (set_pctxt p c (set_exec p PCB_EXEC_BLOCKED u)))"
    by - (rule kept | assumption | (simp; fail))+
  from kept_same(5) [OF keepsD [OF this wait(7)]] show ?thesis unfolding wait(1) .
next
  case (resume r)
  from keepsD [OF kept_run_ready [OF each_refl] this(2)] show ?thesis by simp
qed

lemma os_reach_kept: "os_reach s t \<Longrightarrow> each_pcb ok s t"
  by (induction rule: os_reach.induct) (auto intro: each_trans os_step_kept)

end

end
