(* ===== verification/Pcb_Types.thy ===== *)
theory Pcb_Types
  imports Proc_Claims Pcb_Frames
begin

text \<open>
  The ranges of the fields of a process control block. The bit fields of \<^verbatim>\<open>struct pcb_state\<close>
  hold more values than the enumerations and the priorities that the code means, and a name is an
  array that need not be terminated. The ranges hold for every block that \<^verbatim>\<open>pcb_setup\<close> has made,
  whatever the kernel and the command handler do, and whatever is typed.
\<close>

section \<open>Well-typed control blocks\<close>

text \<open>
  \<^verbatim>\<open>dpatch\<close> and \<^verbatim>\<open>cls\<close> have one bit and two values each; they need no condition.
\<close>

definition pcb_typed :: "pcb \<Rightarrow> bool" where
  "pcb_typed b \<longleftrightarrow> exec (p_state b) \<in> {PCB_EXEC_BLOCKED, PCB_EXEC_READY, PCB_EXEC_RUNNING} \<and>
     pri (p_state b) \<le> 9 \<and> 0 \<in> set (p_name b)"

text \<open>Each block that is well typed in the first state is well typed in the second.\<close>

definition typed_kept :: "pcb \<Rightarrow> pcb \<Rightarrow> bool" where
  "typed_kept a b \<longleftrightarrow> (pcb_typed a \<longrightarrow> pcb_typed b)"

abbreviation types_kept :: "'a procs_scheme \<Rightarrow> 'a procs_scheme \<Rightarrow> bool" where
  "types_kept \<equiv> each_pcb typed_kept"

lemmas types_kept_def = each_pcb_def typed_kept_def

lemma exec_values: "e \<noteq> 3 \<Longrightarrow> (e :: 2 word) \<in> {0, 1, 2}"
  using two_bits [of e] by auto

lemma pri_small: "k \<le> (9 :: u8) \<Longrightarrow> (ucast k :: 4 word) \<le> 9"
  by (simp add: word_le_nat_alt unsigned_ucast_eq take_bit_nat_eq_self)

interpretation types: pcb_frame typed_kept
  using exec_values by unfold_locales (auto simp: typed_kept_def pcb_typed_def)

lemmas types_kept_refl = types.each_refl
lemmas types_kept_trans = types.each_trans

section \<open>Creation and destruction\<close>

lemma kept_blocks [kept]:
  "types_kept s t \<Longrightarrow> types_kept s (t\<lparr>pcbs := (pcbs t)(p := (pcbs t p)\<lparr>pstackseg := v\<rparr>)\<rparr>)"
  "types_kept s t \<Longrightarrow> types_kept s (t\<lparr>pcbs := (pcbs t)(p := zero_pcb)\<rparr>)"
  "types_kept s t \<Longrightarrow> types_kept s (set_dpatch p d t)"
  "types_kept s t \<Longrightarrow> k \<le> 9 \<Longrightarrow> types_kept s (set_pri p k t)"
  by (auto simp: types_kept_def pcb_typed_def zero_pcb_def set_dpatch_def set_pri_def set_p_state_def pri_small)

lemma kept_allocate [kept]: "types_kept s t \<Longrightarrow> keeps types_kept snd s (pcb_allocate t)"
  unfolding pcb_allocate_def by (rule kept | assumption)+

lemma kept_free [kept]: "types_kept s t \<Longrightarrow> keeps types_kept snd s (pcb_free p t)"
  unfolding pcb_free_def by (rule kept | assumption)+

lemma kept_context_init [kept]: "types_kept s t \<Longrightarrow> keeps types_kept (\<lambda>x. x) s (pcb_context_init p f a n t)"
  unfolding pcb_context_init_def by (rule kept | assumption)+

text \<open>A block that has been set up is well typed: class, priority and name have been checked.\<close>

lemma copied_terminated:
  assumes "strlen nm = Some n" and "memcpy dst nm (n + 1) = Some nm'"
  shows "0 \<in> set nm'"
proof -
  have "0 \<in> set nm" using assms(1) strlen_None by fastforce
  then obtain l r where nm: "nm = l @ 0 # r" "0 \<notin> set l" by (metis split_list_first)
  have "cchars nm = l" unfolding nm(1) by (rule cchars_prefix [OF nm(2)])
  then have n: "n = length l" using assms(1) by (simp add: strlen_eq nm(1))
  have "n + 1 \<le> length nm \<and> n + 1 \<le> length dst" using assms(2) memcpy_None [of nm "n + 1" dst] by fastforce
  then show ?thesis using assms(2) by (auto simp: memcpy_eq n nm(1))
qed

text \<open>A block with the fields that \<^verbatim>\<open>pcb_setup\<close> fills in.\<close>

abbreviation (input) set_up :: "pcb \<Rightarrow> u8 list \<Rightarrow> u32 \<Rightarrow> u8 \<Rightarrow> pcb" where
  "set_up b nm cl pr \<equiv> b\<lparr>p_next := NULL, p_name := nm,
     p_state := \<lparr>exec = PCB_EXEC_READY, dpatch = PCB_DPATCH_ACTIVE, cls = ucast cl, pri = ucast pr\<rparr>,
     pctxt := pstackseg b + MPX_PCB_STACK_SZ - 1\<rparr>"

lemma set_up_typed: "0 \<in> set nm \<Longrightarrow> pr \<le> 9 \<Longrightarrow> pcb_typed (set_up b nm cl pr)"
  by (simp add: pcb_typed_def pri_small)

lemma kept_set_up:
  assumes "types_kept s t" and "strlen nm = Some n" and "memcpy dst nm (n + 1) = Some nm'"
    and "c \<and> d \<and> pr \<le> 9"
  shows "types_kept s (t\<lparr>pcbs := (pcbs t)(p := set_up (pcbs t p) nm' cl pr)\<rparr>)"
  using assms(1) set_up_typed [OF copied_terminated [OF assms(2,3)], of pr "pcbs t p" cl] assms(4)
  by (simp add: types_kept_def)

lemma kept_setup [kept]: "types_kept s t \<Longrightarrow> keeps types_kept snd s (pcb_setup nm cl pr t)"
  unfolding pcb_setup_def Let_def by (rule kept | assumption | rule kept_set_up)+

lemma setup_typed:
  assumes "pcb_setup nm cl pr s = Some (p, t)" and "p \<noteq> NULL"
  shows "pcb_typed (pcbs t p)"
proof -
  obtain n u nm' where u: "strlen nm = Some n" "pr \<le> 9" "memcpy (p_name (pcbs u p)) nm (n + 1) = Some nm'"
    "t = u\<lparr>pcbs := (pcbs u)(p := set_up (pcbs u p) nm' cl pr)\<rparr>"
    using assms by (auto simp: pcb_setup_def bind_eq_Some_conv Let_def split: if_splits)
  show ?thesis using set_up_typed [OF copied_terminated [OF u(1,3)] u(2)] by (simp add: u(4))
qed

section \<open>System calls\<close>

lemma kept_sys_exit [kept]: "types_kept s t \<Longrightarrow> keeps types_kept snd s (sys_exit t)"
  unfolding sys_exit_def by (rule kept | assumption)+

lemma kept_sys_call: "keeps types_kept snd s (sys_call ks c s)"
  unfolding sys_call_def sys_read_def sys_write_def by (rule kept types_kept_refl | assumption)+

section \<open>The command handler\<close>

text \<open>What runs during the requests of the handler keeps the types as well.\<close>

definition keeping :: "'a others \<Rightarrow> bool" where
  "keeping env \<longleftrightarrow> (\<forall>s. types_kept s (env s))"

lemma kept_env: "keeping env \<Longrightarrow> types_kept s t \<Longrightarrow> types_kept s (env t)"
  unfolding keeping_def using types_kept_trans by blast

lemma kept_console [kept]:
  "types_kept s t \<Longrightarrow> types_kept s (t\<lparr>con_in := i\<rparr>)" "types_kept s t \<Longrightarrow> types_kept s (t\<lparr>con_out := bs\<rparr>)"
  "types_kept s t \<Longrightarrow> types_kept s (t\<lparr>user_input := bs\<rparr>)" "types_kept s t \<Longrightarrow> types_kept s (t\<lparr>user_input_len := n\<rparr>)"
  by (erule types.each_same, simp)+

lemma kept_clear [kept]: "types_kept s t \<Longrightarrow> keeps types_kept (\<lambda>x. x) s (user_input_clear t)"
  unfolding user_input_clear_def by (rule kept | assumption | (rule kept_env, assumption))+

lemma kept_heap [kept]:
  "types_kept s t \<Longrightarrow> keeps types_kept snd s (allocate_memory n t)" "types_kept s t \<Longrightarrow> keeps types_kept snd s (free_memory p t)"
  by (erule types.keepsI, (force simp: types_kept_def dest: allocate_frame free_frame touch_procs) [1])+

lemma kept_clock [kept]:
  "types_kept s t \<Longrightarrow> types_kept s (setTime h m sec t)" "types_kept s t \<Longrightarrow> types_kept s (setDate d m y t)"
  "types_kept s t \<Longrightarrow> types_kept s (snd (rtc_read r t))"
  by (erule types.each_same, simp add: setTime_def setDate_def rtc_write_def rtc_read_def Let_def case_prod_unfold)+

lemma kept_write [kept]:
  "keeping env \<Longrightarrow> types_kept s t \<Longrightarrow> keeps types_kept (\<lambda>x. x) s (con_write env bs n t)"
  unfolding con_write_def by (rule kept | assumption | (rule kept_env, assumption))+

lemma kept_put [kept]:
  "keeping env \<Longrightarrow> types_kept s t \<Longrightarrow> keeps types_kept (\<lambda>x. x) s (put env bs t)"
  "keeping env \<Longrightarrow> types_kept s t \<Longrightarrow> keeps types_kept (\<lambda>x. x) s (dput env bs t)"
  unfolding put_def dput_def by (rule kept | assumption | (rule kept_env, assumption))+

lemma kept_color [kept]:
  "keeping env \<Longrightarrow> types_kept s t \<Longrightarrow> keeps types_kept (\<lambda>x. x) s (setTerminalColor env c t)"
  unfolding setTerminalColor_def by (rule kept | assumption | (rule kept_env, assumption))+

lemma kept_read [kept]: "keeping env \<Longrightarrow> types_kept s t \<Longrightarrow> keeps types_kept (\<lambda>x. snd (snd x)) s (con_read env bs n t)"
  unfolding con_read_def by (cases "con_in t") (simp_all add: case_prod_unfold keeps_None, (rule kept | assumption | (rule kept_env, assumption))+)

lemma kept_prompt [kept]:
  "keeping env \<Longrightarrow> types_kept s t \<Longrightarrow> keeps types_kept (\<lambda>x. x) s (user_input_promptread env t)"
  unfolding user_input_promptread_def by (rule kept | assumption | (rule kept_env, assumption))+

lemma kept_getTime [kept]:
  "keeping env \<Longrightarrow> types_kept s t \<Longrightarrow> keeps types_kept (\<lambda>x. x) s (getTime env t)"
  "keeping env \<Longrightarrow> types_kept s t \<Longrightarrow> keeps types_kept (\<lambda>x. x) s (getDate env t)"
  unfolding getTime_def getDate_def finish_line_def by (rule kept | assumption | (rule kept_env, assumption))+

text \<open>
  For the loops: a result is one of the body, in which the inner call keeps the types.
\<close>

lemma keeps_body:
  assumes "m = Some x" and "keeping env \<Longrightarrow> keeps types_kept st s m"
  shows "keeping env \<longrightarrow> types_kept s (st x)"
  using assms by (auto simp: keeps_def)

lemma keeps_result:
  assumes "\<And>x. m = Some x \<Longrightarrow> keeping env \<longrightarrow> types_kept t (st x)" and "keeping env" and "types_kept s t"
  shows "keeps types_kept st s m"
  using assms types_kept_trans unfolding keeps_def by blast

lemma kept_ask [kept]:
  assumes "keeping env" and "types_kept s t"
  shows "keeps types_kept snd s (ask env prompt err ok t)"
proof (rule keeps_result [OF _ assms])
  fix x
  assume "ask env prompt err ok t = Some x"
  then show "keeping env \<longrightarrow> types_kept t (snd x)"
    by (rule ask.raw_induct [rotated])
      (erule keeps_body, (rule kept types_kept_refl | assumption | (rule kept_env, assumption) |
         (rule keeps_result, blast, assumption, assumption))+)
qed

lemma kept_ask_text [kept]:
  assumes "keeping env" and "types_kept s t"
  shows "keeps types_kept snd s (ask_text env msg err parse n t)"
proof (rule keeps_result [OF _ assms])
  fix x
  assume "ask_text env msg err parse n t = Some x"
  then show "keeping env \<longrightarrow> types_kept t (snd x)"
    by (rule ask_text.raw_induct [rotated])
      (erule keeps_body, (rule kept types_kept_refl | assumption | (rule kept_env, assumption) |
         (rule keeps_result, blast, assumption, assumption))+)
qed

lemma kept_show_blocks [kept]:
  assumes "keeping env" and "types_kept s t"
  shows "keeps types_kept (\<lambda>x. x) s (show_blocks env p t)"
proof (rule keeps_result [OF _ assms])
  fix x
  assume "show_blocks env p t = Some x"
  then show "keeping env \<longrightarrow> types_kept t (x)"
    by (rule show_blocks.raw_induct [rotated])
      (erule keeps_body, (rule kept types_kept_refl | assumption | (rule kept_env, assumption) |
         (rule keeps_result, blast, assumption, assumption))+)
qed

lemma kept_ask_existing [kept]:
  assumes "keeping env" and "types_kept s t"
  shows "keeps types_kept snd s (ask_existing env  t)"
proof (rule keeps_result [OF _ assms])
  fix x
  assume "ask_existing env  t = Some x"
  then show "keeping env \<longrightarrow> types_kept t (snd x)"
    by (rule ask_existing.raw_induct [rotated])
      (erule keeps_body, (rule kept types_kept_refl | assumption | (rule kept_env, assumption) |
         (rule keeps_result, blast, assumption, assumption))+)
qed

lemma kept_write_pcb [kept]:
  "keeping env \<Longrightarrow> types_kept s t \<Longrightarrow> keeps types_kept (\<lambda>x. x) s (write_pcb env p strs t)"
  unfolding write_pcb_def by (rule kept | assumption | (rule kept_env, assumption))+

lemma kept_show_list [kept]:
  assumes "keeping env" and "types_kept s t"
  shows "keeps types_kept (\<lambda>x. x) s (show_list env p t)"
proof (rule keeps_result [OF _ assms])
  fix x
  assume "show_list env p t = Some x"
  then show "keeping env \<longrightarrow> types_kept t (x)"
    by (rule show_list.raw_induct [rotated])
      (erule keeps_body, (rule kept types_kept_refl | assumption | (rule kept_env, assumption) |
         (rule keeps_result, blast, assumption, assumption))+)
qed

lemma kept_show_queues [kept]: "keeping env \<Longrightarrow> types_kept s t \<Longrightarrow> keeps types_kept (\<lambda>x. x) s (show_queues env is t)"
proof (induction "is" arbitrary: t)
  case (Cons i "is")
  then show ?case unfolding show_queues.simps by - (rule kept | assumption | rule Cons.IH)+
qed (simp add: keeps_def)

lemma kept_ask_process [kept]:
  "keeping env \<Longrightarrow> types_kept s t \<Longrightarrow> keeps types_kept snd s (ask_process env m t)"
  "keeping env \<Longrightarrow> types_kept s t \<Longrightarrow> keeps types_kept snd s (complain env m t)"
  unfolding ask_process_def complain_def by (rule kept | assumption | (rule kept_env, assumption))+

text \<open>The answer to the question for a priority is at most 9.\<close>

lemma kept_ask_priority [kept]:
  assumes "keeping env" and "types_kept s t"
  shows "keeps types_kept (\<lambda>x. x) s (ask_priority env p t)"
proof (rule keeps_result [OF _ assms])
  fix x
  assume "ask_priority env p t = Some x"
  then show "keeping env \<longrightarrow> types_kept t (x)"
    by (rule ask_priority.raw_induct [rotated])
      (erule keeps_body, (rule kept types_kept_refl | assumption | (simp; fail) | (rule kept_env, assumption) |
         (rule keeps_result, blast, assumption, assumption))+)
qed

text \<open>The commands.\<close>

lemma kept_time_commands [kept]:
  "keeping env \<Longrightarrow> types_kept s t \<Longrightarrow> keeps types_kept snd s (setTimeCommand env t)"
  "keeping env \<Longrightarrow> types_kept s t \<Longrightarrow> keeps types_kept snd s (getTimeCommand env t)"
  "keeping env \<Longrightarrow> types_kept s t \<Longrightarrow> keeps types_kept snd s (setDateCommand env t)"
  "keeping env \<Longrightarrow> types_kept s t \<Longrightarrow> keeps types_kept snd s (getDateCommand env t)"
  "keeping env \<Longrightarrow> types_kept s t \<Longrightarrow> keeps types_kept snd s (versionCommand d env t)"
  unfolding setTimeCommand_def getTimeCommand_def setDateCommand_def getDateCommand_def versionCommand_def by (rule kept | assumption | (rule kept_env, assumption))+

lemma kept_memory_commands [kept]:
  "keeping env \<Longrightarrow> types_kept s t \<Longrightarrow> keeps types_kept snd s (allocateMemoryCommand env t)"
  "keeping env \<Longrightarrow> types_kept s t \<Longrightarrow> keeps types_kept snd s (freeMemoryCommand env t)"
  "keeping env \<Longrightarrow> types_kept s t \<Longrightarrow> keeps types_kept snd s (showAllocatedMemoryCommand env t)"
  "keeping env \<Longrightarrow> types_kept s t \<Longrightarrow> keeps types_kept snd s (showFreeMemoryCommand env t)"
  unfolding allocateMemoryCommand_def freeMemoryCommand_def showAllocatedMemoryCommand_def showFreeMemoryCommand_def by (rule kept | assumption | (rule kept_env, assumption))+

lemma kept_show_commands [kept]:
  "keeping env \<Longrightarrow> types_kept s t \<Longrightarrow> keeps types_kept snd s (showPcbCommand env t)"
  "keeping env \<Longrightarrow> types_kept s t \<Longrightarrow> keeps types_kept snd s (showPcbReadyCommand env t)"
  "keeping env \<Longrightarrow> types_kept s t \<Longrightarrow> keeps types_kept snd s (showPcbBlockedCommand env t)"
  "keeping env \<Longrightarrow> types_kept s t \<Longrightarrow> keeps types_kept snd s (showPcbAllCommand env t)"
  unfolding showPcbCommand_def showPcbReadyCommand_def showPcbBlockedCommand_def showPcbAllCommand_def by (rule kept | assumption | (rule kept_env, assumption))+

lemma kept_pcb_commands [kept]:
  "keeping env \<Longrightarrow> types_kept s t \<Longrightarrow> keeps types_kept snd s (deletePcbCommand env t)"
  "keeping env \<Longrightarrow> types_kept s t \<Longrightarrow> keeps types_kept snd s (suspendPcbCommand env t)"
  "keeping env \<Longrightarrow> types_kept s t \<Longrightarrow> keeps types_kept snd s (resumePcbCommand env t)"
  "keeping env \<Longrightarrow> types_kept s t \<Longrightarrow> keeps types_kept snd s (setPcbPriorityCommand env t)"
  unfolding deletePcbCommand_def suspendPcbCommand_def resumePcbCommand_def setPcbPriorityCommand_def by (rule kept | assumption | (rule kept_env, assumption))+

lemma kept_kill_queue [kept]:
  assumes "types_kept s t"
  shows "keeps types_kept (\<lambda>x. x) s (kill_queue i t)"
proof (rule types.keepsI [OF assms])
  fix x
  assume "kill_queue i t = Some x"
  then have "keeping id \<longrightarrow> types_kept t x"
    by (rule kill_queue.raw_induct [rotated])
      (erule keeps_body, (rule kept types_kept_refl | assumption | (rule keeps_result, blast, assumption, assumption))+)
  then show "types_kept t x" by (simp add: keeping_def)
qed

lemma kept_kill_queues [kept]: "types_kept s t \<Longrightarrow> keeps types_kept (\<lambda>x. x) s (kill_queues is t)"
proof (induction "is" arbitrary: t)
  case (Cons i "is")
  then show ?case unfolding kill_queues.simps by - (rule kept | assumption | rule Cons.IH)+
qed (simp add: keeps_def)

lemma kept_shutdown [kept]:
  "keeping env \<Longrightarrow> types_kept s t \<Longrightarrow> keeps types_kept snd s (shutdownCommand env t)"
  unfolding shutdownCommand_def exitret_def by (rule kept | assumption | (rule kept_env, assumption))+

lemma kept_alarm [kept]:
  "keeping env \<Longrightarrow> types_kept s t \<Longrightarrow> keeps types_kept snd s (alarmCommand img env t)"
  unfolding alarmCommand_def by (rule kept | assumption | (rule kept_env, assumption))+

lemma kept_load [kept]:
  "types_kept s t \<Longrightarrow> keeps types_kept snd s (loadR3 img t)"
  unfolding loadR3_def load_proc_def by (rule kept | assumption)+

lemma kept_write_helps [kept]: "keeping env \<Longrightarrow> types_kept s t \<Longrightarrow> keeps types_kept (\<lambda>x. x) s (write_helps env es t)"
proof (induction es arbitrary: t)
  case (Cons e es)
  then show ?case unfolding write_helps.simps by - (rule kept | assumption | rule Cons.IH)+
qed (simp add: keeps_def)

lemma kept_help [kept]:
  "keeping env \<Longrightarrow> types_kept s t \<Longrightarrow> keeps types_kept snd s (helpCommand env t)"
  unfolding helpCommand_def by (rule kept | assumption | (rule kept_env, assumption))+

lemma kept_command [kept]: "keeping env \<Longrightarrow> types_kept s t \<Longrightarrow> keeps types_kept snd s (run_command img c env t)"
  by (cases c) (simp_all only: run_command.simps, (rule kept | assumption)+)

lemma kept_turn [kept]:
  "keeping env \<Longrightarrow> types_kept s t \<Longrightarrow> keeps types_kept snd s (comhand_turn img env t)"
  unfolding comhand_turn_def idle_def by (rule kept | assumption | (rule kept_env, assumption))+

lemma kept_loop [kept]:
  assumes "keeping env" and "types_kept s t"
  shows "keeps types_kept snd s (comhand_loop img env t)"
proof (rule keeps_result [OF _ assms])
  fix x
  assume "comhand_loop img env t = Some x"
  then show "keeping env \<longrightarrow> types_kept t (snd x)"
    by (rule comhand_loop.raw_induct [rotated])
      (erule keeps_body, (rule kept types_kept_refl | assumption | (rule keeps_result, blast, assumption, assumption))+)
qed

lemma kept_comhand [kept]: "keeping env \<Longrightarrow> types_kept s t \<Longrightarrow> keeps types_kept snd s (comhand img env t)"
  unfolding comhand_def by (rule kept | assumption)+

section \<open>Every control block is well typed\<close>

text \<open>
  C40: The fields of a control block stay in their ranges: the execution state is one of the three of the
  enumeration, the priority is at most 9, and the name is terminated. Every block that
  \<^verbatim>\<open>pcb_setup\<close> returns is well typed. A block that is well typed stays so
  through every further \<^verbatim>\<open>pcb_setup\<close>; through every system call, with the interrupts
  and completions while it waits; through every sequence of steps of the running system; and through
  every turn of the command handler and its whole run, whatever is typed, whichever commands
  are chosen, and with any other processes in between that keep the types themselves.
\<close>

theorem pcb_types:
  assumes "keeping env"
  shows "(\<forall>nm cl pr s p t. pcb_setup nm cl pr s = Some (p, t) \<longrightarrow> types_kept s t \<and> (p \<noteq> NULL \<longrightarrow> pcb_typed (pcbs t p))) \<and>
    (\<forall>ks c s r t. sys_call ks c s = Some (r, t) \<longrightarrow> types_kept s t) \<and>
    (\<forall>s t. os_reach s t \<longrightarrow> types_kept s t) \<and>
    (\<forall>img s r t. comhand_turn img env s = Some (r, t) \<longrightarrow> types_kept s t) \<and>
    (\<forall>img s r t. comhand img env s = Some (r, t) \<longrightarrow> types_kept s t)"
  using keepsD [OF kept_setup [OF types_kept_refl]] setup_typed keepsD [OF kept_sys_call] types.os_reach_kept
    keepsD [OF kept_turn [OF assms types_kept_refl]] keepsD [OF kept_comhand [OF assms types_kept_refl]]
  by fastforce

theorem pcb_types_witness:
  "\<exists>(s :: con) u. pcb_typed (pcbs s 0xD00000C) \<and> comhand_turn demo_image id s = Some (None, u) \<and>
    pcb_typed (pcbs u 0xD00000C)"
proof -
  obtain s :: con where s: "procs_ok s demo_Q" "at_prompt s" "con_in s = [answered (bytes ''14'')]"
    "p_state (pcbs s 0xD00000C) = \<lparr>exec = PCB_EXEC_READY, dpatch = PCB_DPATCH_ACTIVE, cls = 1, pri = 3\<rparr>"
    using demo_console by blast
  have "0xD00000C \<in> set (demo_Q 0)" by (simp add: demo_Q_def)
  then have "0 \<in> set (p_name (pcbs s 0xD00000C))" using s(1) unfolding procs_ok_def named_def by fastforce
  then have pt: "pcb_typed (pcbs s 0xD00000C)" by (simp add: pcb_typed_def s(4))
  have "command_of (bytes ''14'') = Some VersionCommand" by (simp add: command_of_def command_names_def bytes_def)
  moreover have "typed (bytes ''14'')" by (simp add: typed_def bytes_def USER_INPUT_SZ_def)
  ultimately obtain t where t: "comhand_turn demo_image id s =
      Option.bind (run_command demo_image VersionCommand id t) (\<lambda>(r, u). Some (leaves VersionCommand r, u))"
    using turn_step [of id s "bytes ''14''" "[]" demo_image] s(2,3) by auto
  obtain u where u: "versionCommand (build_date demo_image) id t = Some (Returned 0, u)"
    by (simp add: versionCommand_def demo_image_def put_def con_write_def)
  have "comhand_turn demo_image id s = Some (None, u)" unfolding t by (simp add: u leaves_def)
  moreover have "keeping id" by (simp add: keeping_def)
  then have "types_kept s u" using pcb_types [of id] calculation by blast
  then have "pcb_typed (pcbs u 0xD00000C)" using pt by (simp add: types_kept_def)
  ultimately show ?thesis using pt by blast
qed

end
