(* ===== verification/Heap_Release.thy ===== *)
theory Heap_Release
  imports Sysmem
begin

text \<open>
  Releases without the premise \<open>free_safe\<close>. When \<^verbatim>\<open>free_memory\<close> loses a free block or lets two
  blocks overlap, the list of allocated blocks and the chain of free blocks stay lists, so that every
  further release still returns, with 0. This is all that the code needs which only releases.
\<close>

section \<open>What every release keeps\<close>

abbreviation chain :: "(addr \<Rightarrow> mcb) \<Rightarrow> addr \<Rightarrow> addr list \<Rightarrow> addr \<Rightarrow> bool" where
  "chain h \<equiv> path (\<lambda>a. m_next (h a))"

definition lists_ok :: "'a heap_scheme \<Rightarrow> addr list \<Rightarrow> addr list \<Rightarrow> bool" where
  "lists_ok s as fs \<longleftrightarrow> heap_isinit s \<and> dll (mcbs s) (alloc_head s) as \<and>
     chain (mcbs s) (free_head s) fs NULL \<and> set as \<inter> set fs = {}"

lemma seg_chain: "seg h pr p xs l q \<Longrightarrow> chain h p xs q"
  by (induction xs arbitrary: pr p) auto

lemma dll_distinct: "dll h p xs \<Longrightarrow> distinct xs"
  using seg_chain path_distinct by blast

lemma dll_unique: "dll h p xs \<Longrightarrow> dll h p ys \<Longrightarrow> xs = ys"
  using seg_chain path_unique by blast

lemma live_ptrs_lists: "lists_ok s as fs \<Longrightarrow> live_ptrs s = (\<lambda>a. a + SZ_MCB) ` set as"
  unfolding lists_ok_def live_ptrs_def using dll_unique by blast

text \<open>The search for the neighbours ends on every chain.\<close>

lemma seek_pos_chain:
  "chain h p fs NULL \<Longrightarrow> fs \<noteq> [] \<Longrightarrow>
   \<exists>F G. fs = F @ G \<and> seek_pos h a pr p = Some (if F = [] then pr else last F, if G = [] then NULL else hd G) \<and>
     (G = [] \<longrightarrow> F \<noteq> [])"
proof (induction fs arbitrary: pr p)
  case (Cons x xs)
  then have p: "p = x" and rest: "chain h (m_next (h x)) xs NULL" by auto
  consider "a < x" | "\<not> a < x" "xs = []" | "\<not> a < x" "xs \<noteq> []" by blast
  then show ?case
  proof cases
    case 1
    then show ?thesis using p by (intro exI [of _ "[]"] exI [of _ "x # xs"]) (simp add: seek_pos.simps)
  next
    case 2
    then have "m_next (h x) = NULL" using rest by simp
    with 2 show ?thesis using p by (intro exI [of _ "[x]"] exI [of _ "[]"]) (simp add: seek_pos.simps [of h a pr x])
  next
    case 3
    then have n: "m_next (h x) \<noteq> NULL" using rest by (cases xs) auto
    obtain F G where "xs = F @ G" "G = [] \<longrightarrow> F \<noteq> []"
      "seek_pos h a x (m_next (h x)) = Some (if F = [] then x else last F, if G = [] then NULL else hd G)"
      using Cons.IH [OF rest 3(2), of x] by blast
    with 3(1) n p show ?thesis
      by (intro exI [of _ "x # F"] exI [of _ G]) (simp add: seek_pos.simps [of h a pr x])
  qed
qed simp

lemma neighbours_chain:
  assumes "chain h p fs NULL"
  shows "\<exists>F G. fs = F @ G \<and> neighbours h a p = Some (if F = [] then NULL else last F, if G = [] then NULL else hd G)"
proof (cases fs)
  case Nil
  then show ?thesis using assms by (simp add: neighbours_def)
next
  case (Cons x xs)
  then have "p \<noteq> NULL" "fs \<noteq> []" using assms by auto
  then show ?thesis using seek_pos_chain [OF assms, of a NULL] unfolding neighbours_def by (simp only: if_False) blast
qed

section \<open>Linking a block into the chain\<close>

text \<open>
  Where a release writes: at the block, and at blocks of the chain. The part of the chain behind
  the place of the block stays as it is, except that a block may be passed over.
\<close>

definition writes_at :: "addr set \<Rightarrow> 'a heap_scheme \<Rightarrow> 'a heap_scheme \<Rightarrow> bool" where
  "writes_at A s t \<longleftrightarrow> heap_isinit t = heap_isinit s \<and> alloc_head t = alloc_head s \<and> (\<forall>x. x \<notin> A \<longrightarrow> mcbs t x = mcbs s x)"

lemma chain_next: "chain h p (F @ x # G) NULL \<Longrightarrow> m_next (h x) = (if G = [] then NULL else hd G)"
  by (cases G) auto

lemma absorb_chain:
  assumes "chain (mcbs s) y (y # G) NULL" and "x \<notin> set (y # G)" and "x \<noteq> NULL"
  shows "chain (mcbs (absorb x y s)) x (x # G) NULL" and "writes_at (insert x (set G)) s (absorb x y s)"
    and "free_head (absorb x y s) = free_head s"
    and "z \<noteq> x \<Longrightarrow> m_next (mcbs (absorb x y s) z) = m_next (mcbs s z)"
proof -
  have n: "m_next (mcbs s y) = (if G = [] then NULL else hd G)" and g: "chain (mcbs s) (m_next (mcbs s y)) G NULL"
    using chain_next [of "mcbs s" y "[]" y G] assms(1) by auto
  have xy: "x \<noteq> y" using assms(2) by auto
  have nx: "m_next (mcbs (absorb x y s) z) = (if z = x then m_next (mcbs s y) else m_next (mcbs s z))" for z
    using xy by (auto simp: absorb_def Let_def)
  show "z \<noteq> x \<Longrightarrow> m_next (mcbs (absorb x y s) z) = m_next (mcbs s z)" by (simp add: nx)
  have "chain (mcbs (absorb x y s)) (m_next (mcbs s y)) G NULL"
    using g assms(2) by (subst path_cong [of G _ "\<lambda>a. m_next (mcbs s a)"]) (auto simp: nx)
  then show "chain (mcbs (absorb x y s)) x (x # G) NULL" using assms(3) by (simp add: nx)
  have "m_next (mcbs s y) \<noteq> NULL \<Longrightarrow> m_next (mcbs s y) \<in> set G" using n by (auto split: if_splits)
  then show "writes_at (insert x (set G)) s (absorb x y s)"
    using xy by (auto simp: writes_at_def absorb_def Let_def)
  show "free_head (absorb x y s) = free_head s" by (simp add: absorb_def Let_def)
qed

text \<open>
  Behind a free block that it does not touch, a block is not linked in: the chain stays as it is.
\<close>

lemma insert_free_apart:
  assumes c: "chain (mcbs s) (free_head s) (F @ sel # G) NULL" and b: "b \<notin> set (F @ sel # G)" "b \<noteq> NULL"
    and nxt: "nxt = (if G = [] then NULL else hd G)" and apart: "block_end sel s \<noteq> b"
  shows "\<exists>t. insert_free b sel nxt s = Some t \<and> chain (mcbs t) (free_head t) (F @ sel # G) NULL \<and>
    writes_at (insert b (set G)) s t"
proof -
  have dist: "distinct (F @ sel # G)" "NULL \<notin> set (F @ sel # G)" using path_distinct [OF c] path_nonNULL [OF c] by auto
  then have sel: "sel \<noteq> NULL" by simp
  have head: "free_head s \<noteq> NULL" "nxt \<noteq> free_head s" using c dist nxt by (cases F; cases G; auto)+
  have n: "m_next (mcbs s sel) = nxt" using chain_next [OF c] by (simp add: nxt)
  have same: "chain (mcbs t) (free_head s) (F @ sel # G) NULL"
    if "\<And>x. x \<in> set (F @ sel # G) \<Longrightarrow> m_next (mcbs t x) = m_next (mcbs s x)" for t :: "'a heap_scheme"
    using c that by (subst path_cong [of _ _ "\<lambda>a. m_next (mcbs s a)"]) auto
  show ?thesis
  proof (cases "nxt = NULL")
    case True
    have "insert_free b sel nxt s = Some (set_prev b sel s)" using True apart sel head by (simp add: insert_free_def)
    moreover have "writes_at (insert b (set G)) s (set_prev b sel s)" by (simp add: writes_at_def)
    ultimately show ?thesis using same [of "set_prev b sel s"] b by (intro exI [of _ "set_prev b sel s"]) auto
  next
    case False
    then obtain G' where G: "G = nxt # G'" using nxt by (cases G) auto
    let ?s = "set_prev b sel s"
    let ?t = "join_forward b nxt ?s"
    have cs: "chain (mcbs ?s) nxt (nxt # G') NULL"
      using c n b(1) unfolding G by (subst path_cong [of _ _ "\<lambda>a. m_next (mcbs s a)"]) auto
    have bG: "b \<notin> set (nxt # G')" using b(1) by (auto simp: G)
    note ab = absorb_chain [OF cs bG b(2)]
    have fh: "free_head ?t = free_head s" using ab(3) by (simp add: join_forward_def)
    then have "insert_free b sel nxt s = Some ?t" using False apart sel head by (simp add: insert_free_def Let_def)
    moreover have "writes_at (insert b (set G)) s ?t"
      using ab(2) by (auto simp: writes_at_def join_forward_def G)
    moreover have "chain (mcbs ?t) (free_head s) (F @ sel # G) NULL"
      by (rule same) (use ab(4) b(1) in \<open>auto simp: join_forward_def\<close>)
    ultimately show ?thesis using fh by (intro exI [of _ ?t]) simp
  qed
qed

lemma insert_free_behind:
  assumes c: "chain (mcbs s) (free_head s) (F @ sel # G) NULL" and b: "b \<notin> set (F @ sel # G)" "b \<noteq> NULL"
    and nxt: "nxt = (if G = [] then NULL else hd G)"
  shows "\<exists>t fs. insert_free b sel nxt s = Some t \<and> chain (mcbs t) (free_head t) fs NULL \<and>
    set fs \<subseteq> insert b (set (F @ sel # G)) \<and> writes_at (insert b (set (F @ sel # G))) s t"
proof -
  have dist: "distinct (F @ sel # G)" "NULL \<notin> set (F @ sel # G)" using path_distinct [OF c] path_nonNULL [OF c] by auto
  then have sel: "sel \<noteq> NULL" by simp
  have head: "free_head s \<noteq> NULL" "nxt \<noteq> free_head s" using c dist nxt by (cases F; cases G; auto)+
  have n: "m_next (mcbs s sel) = nxt" using chain_next [OF c] by (simp add: nxt)
  have same: "chain (mcbs t) (free_head s) (F @ sel # G) NULL"
    if "\<And>x. x \<in> set (F @ sel # G) \<Longrightarrow> m_next (mcbs t x) = m_next (mcbs s x)" for t :: "'a heap_scheme"
    using c that by (subst path_cong [of _ _ "\<lambda>a. m_next (mcbs s a)"]) auto
  have kept: ?thesis if "insert_free b sel nxt s = Some t" "writes_at (insert b (set (F @ sel # G))) s t"
    "free_head t = free_head s" "\<And>x. x \<in> set (F @ sel # G) \<Longrightarrow> m_next (mcbs t x) = m_next (mcbs s x)" for t
    using that same [of t] by (intro exI [of _ t] exI [of _ "F @ sel # G"]) auto
  let ?s = "set_size sel (blk_size (mcbs s sel) + (blk_size (mcbs s b) + SZ_MCB)) s"
  consider (merge) "block_end sel s = b" "nxt \<noteq> NULL" "block_end b ?s = nxt"
    | (merged) "block_end sel s = b" "\<not> (nxt \<noteq> NULL \<and> block_end b ?s = nxt)"
    | (apart) "block_end sel s \<noteq> b" by blast
  then show ?thesis
  proof cases
    case merge
    then obtain G' where G: "G = nxt # G'" using nxt by (cases G) auto
    let ?t = "absorb sel nxt ?s"
    have run: "insert_free b sel nxt s = Some ?t" using merge sel head by (simp add: insert_free_def merge_back_def Let_def)
    have split: "chain (mcbs s) (free_head s) F sel" "chain (mcbs s) nxt (nxt # G') NULL" using c n by (auto simp: G)
    have cs: "chain (mcbs ?s) nxt (nxt # G') NULL"
      using split(2) by (subst path_cong [of _ _ "\<lambda>a. m_next (mcbs s a)"]) auto
    have sG: "sel \<notin> set (nxt # G')" using dist by (auto simp: G)
    note ab = absorb_chain [OF cs sG sel]
    have inF: "x \<noteq> sel" if "x \<in> set F" for x using dist that by auto
    have "chain (mcbs ?t) (free_head s) F sel"
      using split(1) inF ab(4) by (subst path_cong [of _ _ "\<lambda>a. m_next (mcbs s a)"]) auto
    then have "chain (mcbs ?t) (free_head ?t) (F @ sel # G') NULL"
      using ab(1,3) by auto
    moreover have "writes_at (insert b (set (F @ sel # G))) s ?t"
      using ab(2) by (auto simp: writes_at_def G)
    ultimately show ?thesis using run by (intro exI [of _ ?t] exI [of _ "F @ sel # G'"]) (auto simp: G)
  next
    case merged
    let ?t = "if nxt \<noteq> NULL then ?s else set_next sel NULL ?s"
    have "insert_free b sel nxt s = Some ?t" using merged sel head by (auto simp: insert_free_def merge_back_def Let_def)
    then show ?thesis by (rule kept) (auto simp: writes_at_def n)
  next
    case apart
    from insert_free_apart [OF c b nxt this] obtain t where "insert_free b sel nxt s = Some t"
      "chain (mcbs t) (free_head t) (F @ sel # G) NULL" "writes_at (insert b (set G)) s t" by blast
    then show ?thesis by (intro exI [of _ t] exI [of _ "F @ sel # G"]) (auto simp: writes_at_def)
  qed
qed

lemma insert_free_chain:
  assumes c: "chain (mcbs s) (free_head s) (F @ G) NULL" and b: "b \<notin> set (F @ G)" "b \<noteq> NULL"
    and sel: "sel = (if F = [] then NULL else last F)" and nxt: "nxt = (if G = [] then NULL else hd G)"
  shows "\<exists>t fs. insert_free b sel nxt s = Some t \<and> chain (mcbs t) (free_head t) fs NULL \<and>
    set fs \<subseteq> insert b (set (F @ G)) \<and> writes_at (insert b (set (F @ G))) s t"
proof -
  have head: "free_head s = NULL \<longleftrightarrow> F @ G = []" using c by (cases "F @ G") auto
  have dist: "distinct (F @ G)" "NULL \<notin> set (F @ G)" using path_distinct [OF c] path_nonNULL [OF c] by auto
  have behind: "chain (mcbs s) nxt G NULL" if "G \<noteq> []"
    using c that by (cases G) (auto simp: nxt)
  consider (empty) "F @ G = []" | (first) y G' where "F = []" "G = y # G'" | (last) F' where "F = F' @ [sel]"
    by (metis append_Nil append_butlast_last_id neq_Nil_conv sel)
  then show ?thesis
  proof cases
    case empty
    let ?t = "set_prev b NULL (set_next b NULL (s\<lparr>free_head := b\<rparr>))"
    have "insert_free b sel nxt s = Some ?t" using empty head by (simp add: insert_free_def)
    moreover have "chain (mcbs ?t) (free_head ?t) [b] NULL" using b(2) by simp
    ultimately show ?thesis using empty by (intro exI [of _ ?t] exI [of _ "[b]"]) (simp add: writes_at_def)
  next
    case first
    let ?s = "set_prev b NULL s"
    let ?t = "(join_forward b y ?s)\<lparr>free_head := b\<rparr>"
    have run: "insert_free b sel nxt s = Some ?t"
      using first head dist by (simp add: insert_free_def sel nxt)
    have cs: "chain (mcbs ?s) y (y # G') NULL" 
      using behind first b(1) by (subst path_cong [of _ _ "\<lambda>a. m_next (mcbs s a)"]) (auto simp: nxt)
    show ?thesis
    proof (cases "block_end b ?s = y")
      case True
      have "b \<notin> set (y # G')" using b(1) first by simp
      note ab = absorb_chain [OF cs this b(2)]
      have "chain (mcbs ?t) (free_head ?t) (b # G') NULL" using ab(1) True by (simp add: join_forward_def)
      moreover have "writes_at (insert b (set (F @ G))) s ?t"
        using ab(2) True first by (auto simp: writes_at_def join_forward_def)
      ultimately show ?thesis using run first by (intro exI [of _ ?t] exI [of _ "b # G'"]) auto
    next
      case False
      have yb: "y \<noteq> b" using b(1) first by auto
      have "chain (mcbs ?t) y (y # G') NULL"
        using cs b(1) first False by (subst path_cong [of _ _ "\<lambda>a. m_next (mcbs ?s a)"]) (auto simp: join_forward_def)
      moreover have "m_next (mcbs ?t b) = y" using False yb by (simp add: join_forward_def)
      ultimately have "chain (mcbs ?t) (free_head ?t) (b # y # G') NULL" using b(2) by simp
      moreover have "writes_at (insert b (set (F @ G))) s ?t"
        using False first by (auto simp: writes_at_def join_forward_def)
      ultimately show ?thesis using run first by (intro exI [of _ ?t] exI [of _ "b # y # G'"]) auto
    qed
  next
    case last
    show ?thesis using insert_free_behind [of s F' sel G b] c b nxt unfolding last by simp
  qed
qed

section \<open>Releases\<close>

lemma release_lists:
  assumes ok: "lists_ok s (A @ b # B) fs"
  shows "\<exists>t gs. free_memory (b + SZ_MCB) s = Some (0, t) \<and> lists_ok t (A @ B) gs"
proof -
  have d: "heap_isinit s" "chain (mcbs s) (free_head s) fs NULL" "set (A @ b # B) \<inter> set fs = {}"
    using ok by (simp_all add: lists_ok_def)
  obtain l where seg: "seg (mcbs s) NULL (alloc_head s) (A @ b # B) l NULL" using ok unfolding lists_ok_def by blast
  then have dist: "distinct (A @ b # B)" using dll_distinct by blast
  have b0: "b \<noteq> NULL" using seg_nonNULL [OF seg] by auto
  obtain u where u: "unlink_alloc b s = Some u" "dll (mcbs u) (alloc_head u) (A @ B)"
    "\<forall>x. x \<notin> set (A @ B) \<longrightarrow> mcbs u x = mcbs s x" "free_head u = free_head s" "heap_isinit u = heap_isinit s"
    using unlink_alloc_lists [OF seg dist] by blast
  have cu: "chain (mcbs u) (free_head u) fs NULL"
    using d(2,3) u(3,4) by (subst path_cong [of _ _ "\<lambda>a. m_next (mcbs s a)"]) auto
  obtain F G where FG: "fs = F @ G"
    "neighbours (mcbs u) b (free_head u) = Some (if F = [] then NULL else last F, if G = [] then NULL else hd G)"
    using neighbours_chain [OF cu] by blast
  have "b \<notin> set (F @ G)" using d(3) by (auto simp: FG(1))
  then obtain t gs where t: "insert_free b (if F = [] then NULL else last F) (if G = [] then NULL else hd G) u = Some t"
    "chain (mcbs t) (free_head t) gs NULL" "set gs \<subseteq> insert b (set (F @ G))" "writes_at (insert b (set (F @ G))) u t"
    using insert_free_chain [OF cu [unfolded FG(1)] _ b0 refl refl] by blast
  have out: "x \<notin> insert b (set (F @ G))" if "x \<in> set (A @ B)" for x using that d(3) dist by (auto simp: FG(1))
  obtain l' where "seg (mcbs u) NULL (alloc_head u) (A @ B) l' NULL" using u(2) by blast
  then have "seg (mcbs t) NULL (alloc_head t) (A @ B) l' NULL"
    using t(4) out by (subst seg_cong [of _ _ "mcbs u"]) (auto simp: writes_at_def)
  moreover have "set (A @ B) \<inter> set gs = {}" using out t(3) by blast
  ultimately have "lists_ok t (A @ B) gs" using t(2,4) u(5) d(1) by (auto simp: lists_ok_def writes_at_def)
  moreover have "free_memory (b + SZ_MCB) s = Some (0, t)"
    using d(1) find_block_seg [OF seg, of b] b0 u(1) FG(2) t(1) by (simp add: free_memory_def)
  ultimately show ?thesis by blast
qed

section \<open>The contract of a client that only releases\<close>

locale releaser =
  fixes mfree :: "addr \<Rightarrow> 's \<Rightarrow> (int \<times> 's) option" and ok :: "'s \<Rightarrow> bool" and live :: "'s \<Rightarrow> addr set"
  assumes release: "ok s \<Longrightarrow> p \<in> live s \<Longrightarrow> \<exists>t. mfree p s = Some (0, t) \<and> live t = live s - {p} \<and> ok t"
begin

text \<open>An object with a second object hanging off it; in between the client may write to its own data.\<close>

lemma release_pair:
  assumes "ok s" "p \<in> live s" "q \<in> live s" "p \<noteq> q" and own: "\<And>t. ok (f t) = ok t" "\<And>t. live (f t) = live t"
  shows "\<exists>t u. mfree q s = Some (0, t) \<and> ok t \<and> mfree p (f t) = Some (0, u) \<and> live u = live s - {p, q} \<and> ok u"
proof -
  obtain t where t: "mfree q s = Some (0, t)" "live t = live s - {q}" "ok t" using release [OF assms(1,3)] by blast
  then obtain u where "mfree p (f t) = Some (0, u)" "live u = live (f t) - {p}" "ok u"
    using release [of "f t" p] assms(2,4) by (auto simp: own)
  with t show ?thesis by (auto simp: own)
qed

end

definition heap_lists :: "'a usr_scheme \<Rightarrow> bool" where
  "heap_lists s \<longleftrightarrow> free_function s = Free_Memory \<and> (\<exists>as fs. lists_ok s as fs)"

interpretation lists: releaser sys_free_mem heap_lists live_ptrs
proof
  fix s :: "'a usr_scheme" and p
  assume ok: "heap_lists s" and p: "p \<in> live_ptrs s"
  from ok obtain as fs where l: "lists_ok s as fs" and fn: "free_function s = Free_Memory" by (auto simp: heap_lists_def)
  then obtain b where b: "b \<in> set as" "p = b + SZ_MCB" using p live_ptrs_lists by blast
  then obtain A B where as: "as = A @ b # B" by (meson split_list)
  obtain t gs where t: "free_memory p s = Some (0, t)" "lists_ok t (A @ B) gs"
    using release_lists [OF l [unfolded as]] b(2) by blast
  have "distinct as" using l dll_distinct unfolding lists_ok_def by blast
  then have "live_ptrs t = live_ptrs s - {p}"
    unfolding live_ptrs_lists [OF t(2)] live_ptrs_lists [OF l] b(2) as by auto
  moreover have "heap_lists t" using t fns_touch [OF free_frame [OF t(1)]] fn by (auto simp: heap_lists_def)
  ultimately show "\<exists>t. sys_free_mem p s = Some (0, t) \<and> live_ptrs t = live_ptrs s - {p} \<and> heap_lists t"
    using t(1) fn by (auto simp: sys_free_mem_def)
qed

lemma heap_ok_lists: "heap_ok s \<Longrightarrow> heap_lists s"
proof -
  assume "heap_ok s"
  then obtain bs where bs: "heap_rel s bs" and fn: "free_function s = Free_Memory" by (auto simp: heap_ok_def)
  obtain lo hi where "tiles lo bs hi" using bs by (rule heap_rel_tiles)
  then have "set (allocs bs) \<inter> set (frees bs) = {}" using tiles_frees_not_allocs by blast
  moreover obtain l where "seg (mcbs s) NULL (free_head s) (frees bs) l NULL" using bs by (auto simp: heap_rel_def)
  ultimately have "lists_ok s (allocs bs) (frees bs)"
    using bs seg_chain unfolding lists_ok_def heap_rel_def by blast
  with fn show ?thesis by (auto simp: heap_lists_def)
qed

section \<open>What an unsafe release loses\<close>

lemma unsafe_blocks:
  assumes "tiles lo P e" and "\<not> ends_free P" and "(a, m, True) \<in> set P"
  shows "unat a + 12 + unat m < e"
proof -
  obtain P' c k where P: "P = P' @ [(c, k, False)]"
    using assms(2,3) by (cases P rule: rev_cases) (auto simp: ends_free_def)
  then have "tiles lo P' (unat c)" "unat c + 12 + unat k = e" "(a, m, True) \<in> set P'" using assms(1,3) by auto
  then show ?thesis using tiles_range [of lo P' "unat c" a m True] by simp
qed

lemma unsafe_release_lemma:
  assumes rel: "heap_rel s bs" and mem: "b \<in> set (allocs bs)" and unsafe: "\<not> free_safe b bs"
  shows "\<exists>t. free_memory (b + 12) s = Some (0, t) \<and> live_ptrs t = live_ptrs s - {b + 12} \<and>
    chain (mcbs t) (free_head t) (frees bs) NULL \<and> b \<notin> set (frees bs)"
proof -
  obtain P n Q where blk: "block_at b bs = Some (P, n, Q)"
    using mem block_at_None [of b bs] by (cases "block_at b bs") auto
  then have bs: "bs = P @ (b, n, False) # Q" by (rule block_at_Some)
  have uP: "frees P \<noteq> []" "\<not> ends_free P" using unsafe by (auto simp: free_safe_def blk)
  obtain lo hi where lh: "0 < lo" "hi < 2 ^ 32" and tl: "tiles lo bs hi" using rel by (rule heap_rel_tiles)
  obtain u sel nxt lf la where L: "seg (mcbs s) NULL (alloc_head s) (allocs P @ b # allocs Q) la NULL" and
    u: "unlink_alloc b s = Some u" "dll (mcbs u) (alloc_head u) (allocs P @ allocs Q)"
      "\<And>x. blk_size (mcbs u x) = blk_size (mcbs s x)"
      "free_head u = free_head s" "heap_isinit u = heap_isinit s" and
    FG: "seg (mcbs u) NULL (free_head u) (frees P) sel nxt" "seg (mcbs u) sel nxt (frees Q) lf NULL" and
    nb: "neighbours (mcbs u) b (free_head u) = Some (sel, nxt)"
    using release_start [OF rel blk] by blast
  have b0: "b \<noteq> NULL" using seg_nonNULL [OF L] by auto
  have sel: "sel = last (frees P)" using seg_last [OF FG(1)] uP(1) by simp
  then have F: "frees P = butlast (frees P) @ [sel]" using uP(1) by simp
  then obtain m where m: "(sel, m, True) \<in> set P" using uP(1) last_in_set by (fastforce simp: set_frees sel)
  have less: "unat sel + 12 + unat m < unat b" using tl unsafe_blocks [OF _ uP(2) m, of lo "unat b"] by (auto simp: bs)
  have "blk_size (mcbs u sel) = m" using heap_rel_size [OF rel, of sel m True] m u(3) by (simp add: bs)
  then have "unat (block_end sel u) = unat sel + 12 + unat m"
    using less u32_lt_4G [of b] by (simp add: block_end_def SZ_MCB_def unat_block_end)
  then have apart: "block_end sel u \<noteq> b" using less by auto
  have nxt: "nxt = (if frees Q = [] then NULL else hd (frees Q))" by (rule seg_first [OF FG(2)])
  have "chain (mcbs u) (free_head u) (frees P @ frees Q) NULL"
    using FG [THEN seg_chain] by auto
  then have c: "chain (mcbs u) (free_head u) (butlast (frees P) @ sel # frees Q) NULL"
    by (subst (asm) F) simp
  have al: "b \<in> set (allocs bs)" "set (allocs bs) \<inter> set (frees bs) = {}"
    using tiles_frees_not_allocs [OF tl] by (auto simp: bs)
  have fr: "butlast (frees P) @ sel # frees Q = frees bs" using F by (simp add: bs)
  from al have bn: "b \<notin> set (butlast (frees P) @ sel # frees Q)" unfolding fr by blast
  obtain t where t: "insert_free b sel nxt u = Some t" "chain (mcbs t) (free_head t) (frees bs) NULL"
    "writes_at (insert b (set (frees Q))) u t"
    using insert_free_apart [OF c bn b0 nxt apart] unfolding fr by blast
  obtain l where l: "seg (mcbs u) NULL (alloc_head u) (allocs P @ allocs Q) l NULL" using u(2) by blast
  have "x \<notin> insert b (set (frees Q))" if "x \<in> set (allocs P @ allocs Q)" for x
    using that al(2) tiles_distinct_allocs [OF tl] by (auto simp: bs)
  then have "seg (mcbs t) NULL (alloc_head t) (allocs P @ allocs Q) l NULL"
    using l t(3) by (subst seg_cong [of _ _ "mcbs u"]) (auto simp: writes_at_def)
  moreover have init: "heap_isinit s" using rel by (simp add: heap_rel_def)
  ultimately have "lists_ok t (allocs P @ allocs Q) (frees bs)"
    using t(2,3) u(5) al(2) by (auto simp: lists_ok_def writes_at_def bs)
  from live_ptrs_lists [OF this] have "live_ptrs t = live_ptrs s - {b + 12}"
    unfolding live_ptrs_rel [OF rel] using tiles_distinct_allocs [OF tl] by (auto simp: bs SZ_MCB_def)
  moreover have "free_memory (b + 12) s = Some (0, t)"
    using init find_block_seg [OF L, of b] b0 u(1) nb t(1) by (simp add: free_memory_def SZ_MCB_def)
  ultimately show ?thesis using t(2) bn fr by auto
qed

text \<open>
  C35: A release above a free block that it does not touch loses the block. For every well-formed
  heap and every live block that has a free block below it, but not directly below it:
  \<^verbatim>\<open>free_memory\<close> reports success and takes the block off the allocated list, and the free list,
  followed from its head, is the one from before. The block is in neither list, so that no later
  allocation or release can find it.
\<close>

theorem unsafe_release:
  assumes "heap_rel s bs" and "b \<in> set (allocs bs)" and "\<not> free_safe b bs"
  shows "\<exists>t. free_memory (b + 12) s = Some (0, t) \<and> live_ptrs t = live_ptrs s - {b + 12} \<and>
    path (\<lambda>a. m_next (mcbs t a)) (free_head t) (frees bs) NULL \<and> b \<notin> set (frees bs)"
  by (rule unsafe_release_lemma [OF assms])

theorem unsafe_release_witness:
  "\<exists>s t. map_option snd (heap_run [Alloc 16, Alloc 16, Alloc 16, Release 0xD00000C] heap50000) = Some s \<and>
     free_memory (0xD000038 + 12) s = Some (0, t) \<and>
     path (\<lambda>a. m_next (mcbs t a)) (free_head t) [0xD000000, 0xD000054] NULL \<and> live_ptrs t = {0xD000028}"
proof -
  let ?bs = "[(0xD000000, 16, True), (0xD00001C, 16, False), (0xD000038, 16, False), (0xD000054, 49904, True)]"
  obtain rs s where s: "heap_run [Alloc 16, Alloc 16, Alloc 16, Release 0xD00000C] heap50000 = Some (rs, s)" "heap_rel s ?bs"
    using heap_run_rel [OF heap_on_rel [of "()"], of "[Alloc 16, Alloc 16, Alloc 16, Release 0xD00000C]"]
    by (auto simp: a_alloc_def alloc_safe_def a_free_def free_safe_def ends_free_def)
  have "\<not> free_safe 0xD000038 ?bs" by (simp add: free_safe_def ends_free_def)
  from unsafe_release [OF s(2) _ this] obtain t where "free_memory (0xD000038 + 12) s = Some (0, t)"
    "live_ptrs t = live_ptrs s - {0xD000038 + 12}" "path (\<lambda>a. m_next (mcbs t a)) (free_head t) (frees ?bs) NULL"
    by auto
  moreover have "live_ptrs s - {0xD000038 + 12} = {0xD000028}" by (auto simp: live_ptrs_rel [OF s(2)])
  moreover have "frees ?bs = [0xD000000, 0xD000054]" by simp
  ultimately show ?thesis unfolding s(1) by (intro exI [of _ s] exI [of _ t]) simp
qed

end
