(* ===== verification/Shutdown.thy ===== *)
theory Shutdown
  imports Heap_Release Proc_Console
begin

text \<open>
  The end of the system: the command \<^verbatim>\<open>shutdownCommand\<close> of \<^verbatim>\<open>kernel/comhand.c\<close>
  releases every queued process in whatever order the queues have. Such an order is not one in which the
  heap keeps its invariant, so that the statement rests on \<^verbatim>\<open>Heap_Release\<close>.
\<close>

section \<open>Releasing a queued process\<close>

text \<open>What belongs to a list of processes: their control blocks and their stacks.\<close>

definition memory_of :: "(addr \<Rightarrow> pcb) \<Rightarrow> addr list \<Rightarrow> addr set" where
  "memory_of h ps = set ps \<union> (\<lambda>p. pstackseg (h p)) ` set ps"

lemma memory_of_cong:
  "(\<And>x. x \<in> set ps \<Longrightarrow> pstackseg (h x) = pstackseg (h' x)) \<Longrightarrow> memory_of h ps = memory_of h' ps"
  by (simp add: memory_of_def)

definition releasable :: "'a procs_scheme \<Rightarrow> (nat \<Rightarrow> addr list) \<Rightarrow> bool" where
  "releasable s Q \<longleftrightarrow> queues_rel s Q \<and> heap_lists s \<and> memory_of (pcbs s) (all_queued Q) \<subseteq> live_ptrs s \<and>
     (\<forall>p \<in> set (all_queued Q). pstackseg (pcbs s p) \<notin> set (all_queued Q)) \<and>
     inj_on (\<lambda>p. pstackseg (pcbs s p)) (set (all_queued Q))"

text \<open>What the releases change: the queues, the control blocks and the heap.\<close>

definition release_only :: "'a procs_scheme \<Rightarrow> 'a procs_scheme \<Rightarrow> bool" where
  "release_only s t \<longleftrightarrow> t = s\<lparr>pcbs := pcbs t, pcb_queues := pcb_queues t, free_head := free_head t,
     alloc_head := alloc_head t, mcbs := mcbs t\<rparr>"

lemma release_only_refl [simp]: "release_only s s"
  by (simp add: release_only_def)

lemma release_only_trans: "release_only s t \<Longrightarrow> release_only t u \<Longrightarrow> release_only s u"
  by (cases s; cases t; cases u) (simp add: release_only_def)

lemma release_only_steps:
  "links_only s t \<Longrightarrow> release_only s t" "heap_touch s t \<Longrightarrow> release_only s t" "release_only s (s\<lparr>pcbs := h\<rparr>)"
  by (cases s; cases t; simp add: links_only_def heap_touch_def release_only_def)+

lemma release_only_con:
  "release_only s t \<Longrightarrow> con_in t = con_in s \<and> con_out t = con_out s \<and> user_input t = user_input s"
  by (cases s; cases t) (simp add: release_only_def)

lemma sys_free_frame: "heap_lists s \<Longrightarrow> sys_free_mem p s = Some (r, t) \<Longrightarrow> heap_touch s t"
  by (auto simp: heap_lists_def sys_free_mem_def intro: free_frame)

lemma heap_lists_links: "links_only s t \<Longrightarrow> heap_lists t = heap_lists s"
  by (cases s; cases t) (simp add: links_only_def heap_lists_def lists_ok_def)

lemma heap_lists_pcbs [simp]: "heap_lists (s\<lparr>pcbs := h\<rparr>) = heap_lists s" "live_ptrs (s\<lparr>pcbs := h\<rparr>) = live_ptrs s"
  by (simp_all add: heap_lists_def lists_ok_def live_ptrs_def)

lemma one_less:
  assumes "p \<notin> S" and "set ps \<union> f ` set ps \<subseteq> L" and "\<forall>x \<in> set ps. f x \<notin> set ps" and "inj_on f (set ps)"
    and "set ps = insert p S" and "\<forall>x \<in> S. g x = f x"
  shows "S \<union> g ` S \<subseteq> L - {p, f p}" and "\<forall>x \<in> S. g x \<notin> S" and "inj_on g S"
proof -
  have im: "g ` S = f ` S" using assms(6) by (intro image_cong) auto
  have "f p \<notin> f ` S" using assms(1,4,5) by (simp add: inj_on_insert)
  moreover have "f p \<notin> insert p S" "p \<notin> f ` S" using assms(3,5) by auto
  ultimately show "S \<union> g ` S \<subseteq> L - {p, f p}" using assms(1,2,5) unfolding im by (auto, metis imageI)
  show "\<forall>x \<in> S. g x \<notin> S" using assms(3,5,6) by auto
  show "inj_on g S" using assms(4-6) inj_on_cong [of S g f] by (simp add: inj_on_insert)
qed

lemma release_head:
  assumes ok: "releasable s Q" and q: "i < 4" "Q i = p # ps"
  shows "\<exists>t u. pcb_remove p s = Some (0, t) \<and> pcb_free p t = Some (0, u) \<and> releasable u (Q(i := ps)) \<and>
    live_ptrs u = live_ptrs s - {p, pstackseg (pcbs s p)} \<and> release_only s u \<and>
    (\<forall>x. x \<noteq> p \<longrightarrow> pstackseg (pcbs u x) = pstackseg (pcbs s x))"
proof -
  let ?q = "pstackseg (pcbs s p)" and ?Q = "Q(i := ps)"
  have o: "queues_rel s Q" "heap_lists s" "memory_of (pcbs s) (all_queued Q) \<subseteq> live_ptrs s"
    "\<forall>p \<in> set (all_queued Q). pstackseg (pcbs s p) \<notin> set (all_queued Q)"
    "inj_on (\<lambda>p. pstackseg (pcbs s p)) (set (all_queued Q))"
    using ok by (simp_all add: releasable_def)
  have pQ: "p \<in> set (all_queued Q)" using q unfolding set_all_queued by (intro UN_I [of i]) auto
  have sel: "sel s p = i" using queues_relD(2) [OF o(1) q(1)] q(2) by auto
  have un: "unplaced s p Q = ?Q" by (simp add: unplaced_def sel q(2))
  obtain t where t: "pcb_remove p s = Some (0, t)" "queues_rel t ?Q" "loose t ?Q p" "links_only s t"
    using pcb_remove_rel [OF o(1), of p] sel q(2) by (auto simp: un)
  note fr = links_only_frame [OF t(4)]
  have nQ: "p \<notin> set (all_queued ?Q)" "p \<noteq> NULL" using t(3) by (auto simp: loose_def set_all_queued)
  have "i = 0 \<or> i = 1 \<or> i = 2 \<or> i = 3" using q(1) by auto
  then have Qs: "set (all_queued Q) = insert p (set (all_queued ?Q))"
    using q(2) by (elim disjE) (simp_all add: all_queued_def insert_commute)
  let ?f = "\<lambda>v. v\<lparr>pcbs := (pcbs v)(p := zero_pcb)\<rparr>"
  have "p \<in> live_ptrs t" "?q \<in> live_ptrs t" "p \<noteq> ?q" "heap_lists t"
    using o(2-4) pQ heap_lists_links [OF t(4)] by (auto simp: fr memory_of_def)
  then obtain v u where v: "sys_free_mem ?q t = Some (0, v)" "heap_lists v" "sys_free_mem p (?f v) = Some (0, u)"
    "live_ptrs u = live_ptrs t - {p, ?q}" "heap_lists u"
    using lists.release_pair [of t p ?q ?f] by auto
  have run: "pcb_free p t = Some (0, u)" using v(1,3) nQ(2) by (simp add: pcb_free_def fr)
  note tv = sys_free_frame [OF \<open>heap_lists t\<close> v(1)] and fu = sys_free_frame [OF _ v(3)]
  have fu: "heap_touch (?f v) u" using fu v(2) by simp
  have pc: "pcbs u = (pcbs t)(p := zero_pcb)" "pcb_queues u = pcb_queues t"
    using touch_procs [OF tv] touch_procs [OF fu] by simp_all
  have stack: "pstackseg (pcbs u x) = pstackseg (pcbs s x)" if "x \<noteq> p" for x using that by (simp add: pc fr)
  have live: "live_ptrs u = live_ptrs s - {p, ?q}" by (simp add: v(4) fr)
  have "queues_rel u ?Q" using t(2) nQ(1) by (subst queues_rel_cong [of _ t]) (auto simp: pc)
  moreover have "\<forall>x \<in> set (all_queued ?Q). pstackseg (pcbs u x) = pstackseg (pcbs s x)" using stack nQ(1) by metis
  note one = one_less [OF nQ(1) o(3) [unfolded memory_of_def] o(4,5) Qs this]
  ultimately have "releasable u ?Q" using v(5) one unfolding releasable_def live memory_of_def by blast
  moreover have "release_only s u"
    using release_only_steps release_only_trans tv fu t(4) by metis
  ultimately show ?thesis using t(1) run live stack by blast
qed

lemma kill_queue_ok:
  assumes "releasable s Q" and "i < 4"
  shows "\<exists>t. kill_queue i s = Some t \<and> releasable t (Q(i := [])) \<and> release_only s t \<and>
    live_ptrs t = live_ptrs s - memory_of (pcbs s) (Q i) \<and>
    (\<forall>x. x \<notin> set (Q i) \<longrightarrow> pstackseg (pcbs t x) = pstackseg (pcbs s x))"
  using assms
proof (induction "Q i" arbitrary: s Q)
  case Nil
  have rel: "queues_rel s Q" using Nil.prems by (simp add: releasable_def)
  have "pcb_head (pcb_queues s i) = NULL"
    using queue_rel_head [OF queues_relD(1) [OF rel Nil.prems(2)]] Nil.hyps [symmetric] by simp
  then have "kill_queue i s = Some s" by (simp add: kill_queue.simps)
  moreover have "Q(i := []) = Q" using Nil.hyps by auto
  ultimately show ?case using Nil.prems Nil.hyps [symmetric] by (simp add: memory_of_def)
next
  case (Cons p ps)
  have rel: "queues_rel s Q" using Cons.prems by (simp add: releasable_def)
  have head: "pcb_head (pcb_queues s i) = p" "p \<noteq> NULL"
    using queue_rel_head [OF queues_relD(1) [OF rel Cons.prems(2)]]
      queue_rel_distinct [OF queues_relD(1) [OF rel Cons.prems(2)]] Cons.hyps(2) [symmetric] by auto
  have nd: "p \<notin> set ps" using queue_rel_distinct [OF queues_relD(1) [OF rel Cons.prems(2)]] Cons.hyps(2) [symmetric] by auto
  obtain t u where u: "pcb_remove p s = Some (0, t)" "pcb_free p t = Some (0, u)" "releasable u (Q(i := ps))"
    "live_ptrs u = live_ptrs s - {p, pstackseg (pcbs s p)}" "release_only s u"
    "\<forall>x. x \<noteq> p \<longrightarrow> pstackseg (pcbs u x) = pstackseg (pcbs s x)"
    using release_head [OF Cons.prems Cons.hyps(2) [symmetric]] by blast
  obtain v where v: "kill_queue i u = Some v" "releasable v ((Q(i := ps))(i := []))" "release_only u v"
    "live_ptrs v = live_ptrs u - memory_of (pcbs u) ps"
    "\<forall>x. x \<notin> set ps \<longrightarrow> pstackseg (pcbs v x) = pstackseg (pcbs u x)"
    using Cons.hyps(1) [of "Q(i := ps)" u] u(3) Cons.prems(2) by auto
  have "kill_queue i s = Some v" using head u(1,2) v(1) by (subst kill_queue.simps) simp
  moreover have "memory_of (pcbs u) ps = memory_of (pcbs s) ps"
    using u(6) nd by (intro memory_of_cong) auto
  then have "live_ptrs v = live_ptrs s - memory_of (pcbs s) (Q i)"
    unfolding Cons.hyps(2) [symmetric] v(4) u(4) by (auto simp: memory_of_def)
  ultimately show ?case
    using v(2,5) u(6) release_only_trans [OF u(5) v(3)] Cons.hyps(2) [symmetric] by auto
qed

lemma kill_queues_ok:
  assumes "releasable s Q" and "distinct is" and "set is \<subseteq> {..<4}"
    and "\<forall>i \<in> set is. \<forall>j \<in> set is. i \<noteq> j \<longrightarrow> set (Q i) \<inter> set (Q j) = {}"
  shows "\<exists>t. kill_queues is s = Some t \<and> releasable t (\<lambda>i. if i \<in> set is then [] else Q i) \<and> release_only s t \<and>
    live_ptrs t = live_ptrs s - memory_of (pcbs s) (concat (map Q is))"
  using assms
proof (induction "is" arbitrary: s Q)
  case Nil
  then show ?case by (simp add: memory_of_def)
next
  case (Cons i "is")
  have i: "i < 4" using Cons.prems(3) by simp
  obtain t where t: "kill_queue i s = Some t" "releasable t (Q(i := []))" "release_only s t"
    "live_ptrs t = live_ptrs s - memory_of (pcbs s) (Q i)"
    "\<forall>x. x \<notin> set (Q i) \<longrightarrow> pstackseg (pcbs t x) = pstackseg (pcbs s x)"
    using kill_queue_ok [OF Cons.prems(1) i] by blast
  have ni: "i \<notin> set is" using Cons.prems(2) by simp
  have dj: "\<forall>k \<in> set is. \<forall>j \<in> set is. k \<noteq> j \<longrightarrow> set ((Q(i := [])) k) \<inter> set ((Q(i := [])) j) = {}"
    using Cons.prems(4) ni by simp
  have d: "distinct is" "set is \<subseteq> {..<4}" using Cons.prems(2,3) by simp_all
  obtain u where u: "kill_queues is t = Some u" "releasable u (\<lambda>j. if j \<in> set is then [] else (Q(i := [])) j)"
    "release_only t u" "live_ptrs u = live_ptrs t - memory_of (pcbs t) (concat (map (Q(i := [])) is))"
    using Cons.IH [OF t(2) d dj] by blast
  have c: "concat (map (Q(i := [])) is) = concat (map Q is)" using ni by (intro arg_cong [of _ _ concat] map_cong) auto
  have "x \<notin> set (Q i)" if "x \<in> set (concat (map Q is))" for x
    using that Cons.prems(4) ni by fastforce
  then have "memory_of (pcbs t) (concat (map Q is)) = memory_of (pcbs s) (concat (map Q is))"
    using t(5) by (intro memory_of_cong) blast
  then have "live_ptrs u = live_ptrs s - memory_of (pcbs s) (concat (map Q (i # is)))"
    unfolding u(4) c t(4) by (auto simp: memory_of_def)
  moreover have "(\<lambda>j. if j \<in> set is then [] else (Q(i := [])) j) = (\<lambda>j. if j \<in> set (i # is) then [] else Q j)" by auto
  ultimately show ?case using t(1) u(1,2) release_only_trans [OF t(3) u(3)] by auto
qed

section \<open>The command\<close>

definition own_stacks :: "'a procs_scheme \<Rightarrow> (nat \<Rightarrow> addr list) \<Rightarrow> bool" where
  "own_stacks s Q \<longleftrightarrow> (\<forall>p \<in> set (all_queued Q). pstackseg (pcbs s p) \<in> live_ptrs s - set (all_queued Q)) \<and>
     inj_on (\<lambda>p. pstackseg (pcbs s p)) (set (all_queued Q))"

lemma procs_releasable:
  assumes "procs_ok s Q" and "own_stacks s Q"
  shows "releasable s Q"
  using assms heap_ok_lists [of s] by (auto simp: procs_ok_def own_stacks_def releasable_def memory_of_def)

lemma kill_all:
  assumes ok: "procs_ok s Q" and own: "own_stacks s Q"
  shows "\<exists>t. kill_queues [0, 1, 2, 3] s = Some t \<and> release_only s t \<and> heap_lists t \<and>
    (\<forall>i < 4. pcb_head (pcb_queues t i) = NULL \<and> pcb_tail (pcb_queues t i) = NULL) \<and>
    live_ptrs t = live_ptrs s - memory_of (pcbs s) (all_queued Q)"
proof -
  have rel: "queues_rel s Q" using ok by (simp add: procs_ok_def)
  have four: "set [0, 1, 2, 3] = {..<4 :: nat}" by (auto simp: lessThan_nat_numeral lessThan_Suc)
  have "set (Q i) \<inter> set (Q j) = {}" if "i < 4" "j < 4" "i \<noteq> j" for i j
    using queues_relD(2) [OF rel that(1)] queues_relD(2) [OF rel that(2)] that(3) by auto
  then have dj: "\<forall>i \<in> set [0, 1, 2, 3]. \<forall>j \<in> set [0, 1, 2, 3]. i \<noteq> j \<longrightarrow> set (Q i) \<inter> set (Q j) = {}"
    unfolding four by blast
  obtain t where t: "kill_queues [0, 1, 2, 3] s = Some t" "release_only s t"
    "releasable t (\<lambda>i. if i \<in> set [0, 1, 2, 3] then [] else Q i)"
    "live_ptrs t = live_ptrs s - memory_of (pcbs s) (concat (map Q [0, 1, 2, 3]))"
    using kill_queues_ok [OF procs_releasable [OF ok own] _ _ dj] unfolding four by (auto simp del: kill_queues.simps)
  have rt: "queues_rel t (\<lambda>i. if i < 4 then [] else Q i)" and hl: "heap_lists t"
    using t(3) unfolding four releasable_def lessThan_iff by blast+
  have "pcb_head (pcb_queues t i) = NULL \<and> pcb_tail (pcb_queues t i) = NULL" if "i < 4" for i
    using queues_relD(1) [OF rt that] that by (simp add: queue_rel_def)
  moreover have "concat (map Q [0, 1, 2, 3]) = all_queued Q" by (simp add: all_queued_def)
  ultimately show ?thesis using t(1,2,4) hl by auto
qed

definition shutdown_text :: "u8 list" where
  "shutdown_text = bytes ''Are you sure you would like to shut down?'' @ crlf @
     bytes ''Enter 1 to confirm, enter another key to go back to menu:'' @ crlf"

lemma shutdown_msg_eq: "shutdown_msg = shutdown_text @ [0]"
  by (simp add: shutdown_msg_def shutdown_text_def line_def)

text \<open>The dialog: the state in which the command goes on after the answer, with its last message written.\<close>

definition after_answer :: "'a con_scheme \<Rightarrow> (int \<times> u8 list) list \<Rightarrow> string \<Rightarrow> 'a con_scheme \<Rightarrow> bool" where
  "after_answer s rest m t \<longleftrightarrow> kernel_same s t \<and> at_prompt t \<and> con_in t = rest \<and>
     con_out t = con_out s @ color_bytes Red @ shutdown_text @ crlf @ color_bytes White @ bytes m @ crlf"

lemma shutdown_dialog:
  assumes "quiescent env" and "at_prompt s" and "con_in s = answered l # rest" and "typed l"
  shows "\<exists>v w. after_answer s rest ''Shutting down now.'' v \<and> after_answer s rest ''Shut down cancelled.'' w \<and>
    shutdownCommand env s = (if l = bytes ''1'' then Option.bind (kill_queues [0, 1, 2, 3] v) (\<lambda>s. Some (exitret s))
      else Some (Returned 1, w))"
proof -
  have env: "bystanders env" using assms(1) by simp
  let ?s = "env (emit shutdown_text (env (emit (color_bytes Red) s)))"
  have p: "at_prompt ?s" "con_in ?s = answered l # rest" using env assms(2,3) by (simp_all add: at_prompt_def)
  obtain u where u: "user_input_promptread env ?s = Some u" "con_in u = rest" "con_out u = con_out ?s @ crlf"
    "user_input_len u = int (length l)" "user_input u = l @ 0 # replicate (USER_INPUT_SZ - 1 - length l) 0"
    "kernel_same ?s u"
    using typed_buffer [OF p(1) assms(4) p(2) env] assms(1) by blast
  have len: "length l < USER_INPUT_SZ" "0 \<notin> set l" using assms(4) by (simp_all add: typed_def)
  have su: "kernel_same s u" using kernel_same_trans [OF _ u(6)] assms(1) by simp
  let ?v = "\<lambda>m. env (emit (bytes m @ crlf) (env (emit (color_bytes White) u)))"
  have v: "kernel_same s (?v m)" "con_in (?v m) = rest" "user_input (?v m) = user_input u"
    "user_input_len (?v m) = user_input_len u"
    "con_out (?v m) = con_out s @ color_bytes Red @ shutdown_text @ crlf @ color_bytes White @ bytes m @ crlf" for m
    using assms(1) env su u(2,3) kernel_same_trans by simp_all
  have clear: "\<exists>w. user_input_clear (?v m) = Some w \<and> at_prompt w \<and> con_in w = rest \<and>
      con_out w = con_out (?v m) \<and> kernel_same s w" for m
    using clear_typed [of "?v m" l] len(1) u(4,5) v(1-4) [of m] kernel_same_trans [OF v(1)] by metis
  then have clear: "\<exists>w. user_input_clear (?v m) = Some w \<and> after_answer s rest m w" for m
    using v(5) unfolding after_answer_def by metis
  have cmp: "map_option (\<lambda>c. c = 0) (strcmp (user_input u) (cstr ''1'')) = Some (l = bytes ''1'')"
    unfolding u(5) cstr_def by (rule strcmp_line [OF len(2)]) (simp add: bytes_def)
  have run: "shutdownCommand env s = (if l = bytes ''1'' then
      Option.bind (user_input_clear (?v ''Shutting down now.'')) (\<lambda>s. Option.bind (kill_queues [0, 1, 2, 3] s) (\<lambda>s. Some (exitret s)))
      else Option.bind (user_input_clear (?v ''Shut down cancelled.'')) (\<lambda>s. Some (Returned 1, s)))"
    using cmp env unfolding shutdownCommand_def setTerminalColor_eq shutdown_msg_eq put_eq put_line bind.bind_lunit u(1)
    by (auto simp del: kill_queues.simps simp: put_line)
  show ?thesis using clear [of "''Shutting down now.''"] clear [of "''Shut down cancelled.''"] by (auto simp: run simp del: kill_queues.simps)
qed

text \<open>
  C24: Shutting down. The command asks for a confirmation. On any line but 1 it returns and has changed
  nothing. On the line 1 it takes every process out of its queue and releases its control block and
  its stack, and then exits: it always ends, all queues are empty, and exactly the memory of the
  queued processes is gone from the live blocks. This holds for every heap and every order of the queues, also
  where the releases destroy the order of the free blocks, because the list of allocated blocks survives.
\<close>

theorem shutdown_command:
  assumes "quiescent env" and "at_prompt s" and "con_in s = answered l # rest" and "typed l"
    and "procs_ok s Q" and "own_stacks s Q"
  shows "(l = bytes ''1'' \<longrightarrow> (\<exists>t. shutdownCommand env s = Some (Exited, t) \<and>
      (\<forall>i < 4. pcb_head (pcb_queues t i) = NULL \<and> pcb_tail (pcb_queues t i) = NULL) \<and>
      live_ptrs t = live_ptrs s - memory_of (pcbs s) (all_queued Q) \<and> con_in t = rest \<and>
      con_out t = con_out s @ color_bytes Red @ shutdown_text @ crlf @ color_bytes White @
        bytes ''Shutting down now.'' @ crlf)) \<and>
    (l \<noteq> bytes ''1'' \<longrightarrow> (\<exists>t. shutdownCommand env s = Some (Returned 1, t) \<and>
      kernel_same s t \<and> at_prompt t \<and> con_in t = rest \<and>
      con_out t = con_out s @ color_bytes Red @ shutdown_text @ crlf @ color_bytes White @
        bytes ''Shut down cancelled.'' @ crlf))"
proof (cases "l = bytes ''1''")
  case True
  obtain v where v: "after_answer s rest ''Shutting down now.'' v"
    "shutdownCommand env s = Option.bind (kill_queues [0, 1, 2, 3] v) (\<lambda>s. Some (exitret s))"
    using shutdown_dialog [OF assms(1-4)] True by auto
  then have same: "kernel_same s v" by (simp add: after_answer_def)
  then have e: "pcbs v = pcbs s" "live_ptrs v = live_ptrs s"
    using kernel_same_heap(3) [OF same] by (simp_all add: kernel_same_def)
  then have "procs_ok v Q" "own_stacks v Q"
    using assms(5,6) kernel_same_procs(3) [OF same] by (simp_all add: own_stacks_def)
  then obtain t where "kill_queues [0, 1, 2, 3] v = Some t" "release_only v t"
    "\<forall>i < 4. pcb_head (pcb_queues t i) = NULL \<and> pcb_tail (pcb_queues t i) = NULL"
    "live_ptrs t = live_ptrs v - memory_of (pcbs v) (all_queued Q)"
    using kill_all by blast
  then show ?thesis
    using release_only_con [of v t] v e True by (simp add: after_answer_def exitret_def del: kill_queues.simps)
next
  case False
  then show ?thesis using shutdown_dialog [OF assms(1-4)] by (auto simp: after_answer_def)
qed

theorem shutdown_command_witness:
  "\<exists>(s :: con) t. procs_ok s demo_Q \<and> shutdownCommand id s = Some (Exited, t) \<and>
    pcb_head (pcb_queues t 0) = NULL \<and> live_ptrs t = {}"
proof -
  obtain s :: con where s: "procs_ok s demo_Q" "at_prompt s" "con_in s = [answered (bytes ''1'')]"
    "pstackseg (pcbs s 0xD00000C) = 0xD000068" "heap_rel s demo_blocks"
    using demo_console by blast
  have q: "set (all_queued demo_Q) = {0xD00000C}" by (simp add: all_queued_def demo_Q_def)
  have live: "live_ptrs s = {0xD00000C, 0xD000068}"
    by (auto simp: live_ptrs_rel [OF s(5)])
  have "own_stacks s demo_Q" by (simp add: own_stacks_def q s(4) live)
  moreover have "typed (bytes ''1'')" by (simp add: typed_def bytes_def USER_INPUT_SZ_def)
  ultimately show ?thesis
    using shutdown_command [OF quiescent_id(1) s(2,3) _ s(1)] s(1,4) live q by (fastforce simp: memory_of_def)
qed

end
