(* ===== verification/Spec2Isabelle.thy ===== *)
theory Spec2Isabelle
  imports Libc_Claims Boot_Claims Alarm_Claims Sys_Req Pcb_Types Shutdown
begin

text \<open>
  A verification development of MPX, a small operating system for the i386: one serial console, up to
  four serial devices, cooperative processes, and a command handler as its shell. All of the C code
  under \<^verbatim>\<open>kernel/\<close>, \<^verbatim>\<open>lib/\<close> and \<^verbatim>\<open>user/\<close> is translated.

  \<^bold>\<open>How the program is put together.\<close> \<^verbatim>\<open>kmain\<close> initialises the hardware, turns paging on,
  installs the heap, creates the command handler and the idle process and leaves by the interrupt 0x60.
  From then on the kernel runs in two ways: the system call handler, which completes finished requests,
  blocks, yields or ends the caller and picks the next ready process; and the serial interrupt, which
  moves bytes between a device and the buffer of its current request and marks the request as finished.
  Processes ask for READ, WRITE, IDLE and EXIT. The command handler is such a process; its commands call
  the kernel's functions for processes and memory directly. Everything allocates through the heap
  manager.

  \<^bold>\<open>The model.\<close> A C function is a function from a state to \<open>option\<close>: \<open>Some\<close> of its result and the new
  state, or \<open>None\<close> when it does not come back with a defined result (a NULL dereference, an access
  outside an object, a panic, an endless loop). Error codes are ordinary results. The state is a record
  that grows by extension in the order in which the parts of the kernel rest on each other: the ports
  (\<^verbatim>\<open>machine\<close>), paging (\<^verbatim>\<open>vm\<close>), the heap (\<^verbatim>\<open>heap\<close>), the allocation interface (\<^verbatim>\<open>usr\<close>), processes (\<^verbatim>\<open>procs\<close>),
  descriptor tables (\<^verbatim>\<open>kern\<close>), serial devices (\<^verbatim>\<open>serial\<close>), system calls (\<^verbatim>\<open>os\<close>). Each function is polymorphic in
  what is added later, so that it applies unchanged in the full state. Structures in memory are typed
  heaps, functions from addresses to records (\<open>mcbs\<close>, \<open>pcbs\<close>, \<open>iocbs\<close>, \<open>ctxts\<close>, \<open>ptabs\<close>); buffers, stacks and
  messages are bytes of \<open>ram\<close>, local arrays byte lists. Integers have their width. Loops over
  pointers are \<open>partial_function (option)\<close>, so that termination is part of each statement that gives
  a result.

  \<^bold>\<open>The environment.\<close> The answers of the hardware are a function of the number of the input
  instruction and the port (\<open>m_env\<close>); no statement assumes more of it than it says. Interrupts arrive
  in the running system as steps, and in the waiting loop of a blocking call as a list \<open>ks\<close>, one number
  of interrupts per turn of the loop; the list has to be long enough for the request to complete, and
  the statement on blocking reads says which are. A process sees its requests from its own side
  (\<^verbatim>\<open>Console.thy\<close>): \<open>con_in\<close> lists what its future READs deliver, \<open>con_out\<close> what it has written, and the
  parameter \<open>env\<close>, of type \<open>'a others\<close>, is what everything else does to the state during a request.
  \<open>bystanders\<close> keep away from the console; a \<open>quiescent\<close> environment also leaves processes and heap alone.
  The addresses at which the linker puts functions are parameters (\<open>isr_addr\<close>, \<open>image\<close>).

  \<^bold>\<open>The theories.\<close>
  \<^item> \<^verbatim>\<open>Prelude\<close>: the option monad, bytes and strings, ports and their trace, paths of pointers, and the
    locale \<open>codec\<close> of an encoder with its decoder.
  \<^item> \<^verbatim>\<open>Libc\<close>, \<^verbatim>\<open>Libc_Claims\<close>: \<^verbatim>\<open>lib/string.c\<close>, \<^verbatim>\<open>lib/stdlib.c\<close>, \<^verbatim>\<open>lib/ctype.c\<close>; decimal numbers are a codec.
  \<^item> \<^verbatim>\<open>Vm\<close>, \<^verbatim>\<open>Vm_Props\<close>: paging in \<^verbatim>\<open>kernel/core.c\<close>; the search for a free frame against a linear
    search, and the address space that \<^verbatim>\<open>vm_init\<close> builds, as a processor walks it.
  \<^item> \<^verbatim>\<open>Heap\<close>, \<^verbatim>\<open>Heap_Lists\<close>, \<^verbatim>\<open>Heap_Alloc\<close>, \<^verbatim>\<open>Heap_Free\<close>, \<^verbatim>\<open>Heap_Seq\<close>, \<^verbatim>\<open>Heap_Props\<close>: \<^verbatim>\<open>kernel/memory.c\<close>; the two lists
    of control blocks against a list of blocks that tile the heap; first fit, coalescing, sequences of
    operations, and the sequences on which the code loses or doubles a block. The statements about
    \<^verbatim>\<open>free_memory\<close> have the premise \<open>free_safe\<close> that excludes them; a heap whose only free block is
    the last one (\<open>stack_like\<close>) always satisfies it.
  \<^item> \<^verbatim>\<open>Sysmem\<close>: \<^verbatim>\<open>sys_alloc_mem\<close> and \<^verbatim>\<open>sys_free_mem\<close> of \<^verbatim>\<open>user/system.c\<close>; the locale \<open>allocator\<close>, the contract that all
    clients of the heap use, interpreted on these functions.
  \<^item> \<^verbatim>\<open>Pcb\<close>, \<^verbatim>\<open>Pcb_Queues\<close>, \<^verbatim>\<open>Pcb_Props\<close>, \<^verbatim>\<open>Pcb_Claims\<close>, \<^verbatim>\<open>Proc_Start\<close>: \<^verbatim>\<open>kernel/pcb.c\<close>; the four queues as lists, the
    locale \<open>proc_queues\<close>, creation and deletion on the heap, the invariant \<open>procs_ok\<close>, the first context.
  \<^item> \<^verbatim>\<open>Idt\<close>: descriptor tables, vectors and interrupt controllers of \<^verbatim>\<open>kernel/core.c\<close>.
  \<^item> \<^verbatim>\<open>Serial_Poll\<close>, \<^verbatim>\<open>Serial_Edit\<close>: polled input and output of \<^verbatim>\<open>kernel/serial.c\<close>; the line editor against
    a text with a cursor.
  \<^item> \<^verbatim>\<open>Serial\<close>, \<^verbatim>\<open>Serial_Irq\<close>, \<^verbatim>\<open>Serial_Claims\<close>, \<^verbatim>\<open>Serial_Queue\<close>, \<^verbatim>\<open>Serial_Complete\<close>: interrupt-driven input and output;
    requests from their start to their completion, and the queue of a device.
  \<^item> \<^verbatim>\<open>Syscall\<close>, \<^verbatim>\<open>Syscall_Inv\<close>, \<^verbatim>\<open>Syscall_Run\<close>, \<^verbatim>\<open>Syscall_Read\<close>, \<^verbatim>\<open>Syscall_Exit\<close>, \<^verbatim>\<open>Syscall_Claims\<close>, \<^verbatim>\<open>Sched_Claims\<close>:
    \<^verbatim>\<open>kernel/sys_call.c\<close>; the invariant \<open>os_ok\<close> of the running system, its step relation \<open>os_step\<close>, every operation on
    every branch, blocking reads from call to return, and two ways to lose input or control.
  \<^item> \<^verbatim>\<open>Sys_Req\<close>: \<^verbatim>\<open>sys_req\<close> of \<^verbatim>\<open>user/system.c\<close> with its fallback to polled I/O, which serves the requests made before
    the first process runs.
  \<^item> \<^verbatim>\<open>Console\<close>: \<^verbatim>\<open>kernel/syscalls.c\<close>, \<^verbatim>\<open>kernel/term_util.c\<close>, \<^verbatim>\<open>bufhelpers.h\<close> and the input line of the handler.
  \<^item> \<^verbatim>\<open>Rtc\<close>, \<^verbatim>\<open>Rtc_Claims\<close>: \<^verbatim>\<open>kernel/time.c\<close>; the clock and the alarm process.
  \<^item> \<^verbatim>\<open>Hex_Text\<close>, \<^verbatim>\<open>Comhand_Ask\<close>, \<^verbatim>\<open>Comhand_Mem\<close>, \<^verbatim>\<open>Comhand_Table\<close>, \<^verbatim>\<open>Comhand_Pcb\<close>, \<^verbatim>\<open>Comhand\<close>: \<^verbatim>\<open>kernel/comhand.c\<close>, with every
    message and help text; the dialogs, the commands, the table, the loop.
  \<^item> \<^verbatim>\<open>Comhand_Claims\<close>, \<^verbatim>\<open>Proc_Claims\<close>, \<^verbatim>\<open>Proc_Console\<close>, \<^verbatim>\<open>Alarm_Claims\<close>: sessions at the console, from the typed lines to
    the change of the kernel's state.
  \<^item> \<^verbatim>\<open>Pcb_Types\<close>: the ranges of the fields of a control block, which every part of the kernel and the
    whole command handler keep; a calculus of rules (\<open>kept\<close>) that follows the structure of a function.
  \<^item> \<^verbatim>\<open>Heap_Release\<close>, \<^verbatim>\<open>Shutdown\<close>: what every release keeps, also an unsafe one (the locale \<open>releaser\<close>), and
    the shutdown, which rests on it.
  \<^item> \<^verbatim>\<open>Load_R3\<close>, \<^verbatim>\<open>User_Procs\<close>: \<^verbatim>\<open>kernel/loadR3.c\<close> and the processes of \<^verbatim>\<open>user/system.c\<close>.
  \<^item> \<^verbatim>\<open>Boot\<close>, \<^verbatim>\<open>Boot_Claims\<close>: \<^verbatim>\<open>kernel/kmain.c\<close> and \<^verbatim>\<open>kpanic\<close>; from power-on to the first process.

  \<^bold>\<open>What the statements show.\<close> The heap refines first fit with coalescing wherever it is used safely.
  The queues are stable priority queues, or first-in-first-out, and no process is ever lost or
  in two places, from power-on through every interleaving of steps (the statement below). A read returns when
  its line has arrived, a write sends exactly its bytes. Each command of the handler about processes
  and memory does what it was asked to, repeats its question until the answer is usable, and refuses the rest
  without a change. The fields of control blocks stay in their ranges whatever is typed, and a
  confirmed shutdown releases every queued process. What the code does wrong is shown as well: an operation on which it fails is
  either excluded by a premise that names the condition, or the failure is a theorem of its own.

  \<^bold>\<open>Bounds.\<close> The image has less than 1000 pages (\<open>powered_on\<close>), so that image and tables lie below
  the 4 MiB of the first page table. Lines have at most 127 characters, the size of the
  handler's buffer. Listings of the heap need blocks below \<open>10 ^ 9\<close> bytes, because the code's array for
  a size holds nine digits. The console statements about processes assume a quiescent environment: the
  handler keeps pointers to control blocks across its requests.

  \<^bold>\<open>Not modelled.\<close> The assembly of \<^verbatim>\<open>kernel/boot.s\<close> and \<^verbatim>\<open>kernel/irq.s\<close> (the entry point, the register frames around
  the handlers, the switch of stacks) and the inline interrupt of \<^verbatim>\<open>sys_req\<close>: the handler is modelled with the saved
  context as an argument and the context to continue as its result, and \<^verbatim>\<open>sys_req\<close> with the interrupt as a parameter. In \<^verbatim>\<open>user/system.c\<close>, the
  code behind EXIT, which runs only if the kernel dispatches a process that has ended. The
  timing of the hardware, caches and the translation of addresses by a running processor, apart from
  what \<^verbatim>\<open>vm_init\<close> sets up.
\<close>

section \<open>The whole system\<close>

text \<open>
  Every process of \<open>P\<close> runs and is in no queue, or does not run and is in exactly one; every
  blocked process has exactly one outstanding request; the ready queues are ordered by priority.
\<close>

definition in_one_place :: "'a os_scheme \<Rightarrow> addr set \<Rightarrow> (nat \<Rightarrow> addr list) \<Rightarrow> (nat \<Rightarrow> addr list) \<Rightarrow> bool" where
  "in_one_place s P Q R \<longleftrightarrow>
     (\<forall>p \<in> P. p = pcb_running s \<and> p \<notin> set (all_queued Q) \<or> p \<noteq> pcb_running s \<and> (\<exists>!j. j < 4 \<and> p \<in> set (Q j))) \<and>
     (\<forall>p \<in> set (Q 1) \<union> set (Q 3). \<exists>!x. x \<in> set (all_queued R) \<and> pcb_rq (iocbs s x) = p) \<and>
     sorted (map (prio (pcbs s)) (Q 0)) \<and> sorted (map (prio (pcbs s)) (Q 2))"



end
